(* ===== verification/Prelude.thy ===== *)
theory Prelude
  imports Main "HOL-Library.Word" "HOL-Library.Monad_Syntax" "HOL-Library.Multiset"
begin

text \<open>
  The types, rewrite collections and list, option and word lemmas that the components share.

  Machine integers are words of their width. An access to an array, a vector or a buffer that
  the C++ code makes without a check is modelled in the type \<open>'a checked\<close>: \<^const>\<open>None\<close>
  stands for an access outside of the object (undefined behaviour), so that the absence of such
  accesses is a theorem and not an assumption of the model.
\<close>

unbundle bit_operations_syntax

type_synonym u8 = "8 word"
type_synonym u16 = "16 word"
type_synonym u32 = "32 word"
type_synonym u64 = "64 word"
type_synonym 'a checked = "'a option"

named_theorems bytes_simps \<open>evaluation of reads and writes on byte sequences\<close>
named_theorems mask_simps \<open>numeral masks as \<open>mask\<close>, for bitwise proofs\<close>

section \<open>Checked access\<close>

definition rd :: "'a list \<Rightarrow> nat \<Rightarrow> 'a checked" where
  "rd xs i = (if i < length xs then Some (xs ! i) else None)"

definition rd_range :: "'a list \<Rightarrow> nat \<Rightarrow> nat \<Rightarrow> 'a list checked" where
  "rd_range xs i n = (if i + n \<le> length xs then Some (take n (drop i xs)) else None)"

lemma rd_Some_iff: "rd xs i = Some v \<longleftrightarrow> i < length xs \<and> xs ! i = v"
  by (auto simp: rd_def)

lemma rd_eq_None [simp]: "rd xs i = None \<longleftrightarrow> length xs \<le> i"
  by (auto simp: rd_def)

lemma rd_inside [simp]: "i < length xs \<Longrightarrow> rd xs i = Some (xs ! i)"
  by (simp add: rd_def)

lemma rd_append_right [bytes_simps]: "rd (xs @ ys) (length xs + i) = rd ys i"
  by (auto simp: rd_def)

lemma rd_append_left: "i < length xs \<Longrightarrow> rd (xs @ ys) i = rd xs i"
  by (auto simp: rd_def nth_append)

lemma rd_Cons_0 [simp]: "rd (x # xs) 0 = Some x"
  by (simp add: rd_def)

lemma rd_Cons_Suc [simp]: "rd (x # xs) (Suc i) = rd xs i"
  by (simp add: rd_def)

lemma rd_range_Some_iff:
  "rd_range xs i n = Some ys \<longleftrightarrow> i + n \<le> length xs \<and> ys = take n (drop i xs)"
  by (auto simp: rd_range_def)

lemma rd_range_eq_None [simp]: "rd_range xs i n = None \<longleftrightarrow> length xs < i + n"
  by (auto simp: rd_range_def)

lemma rd_range_length: "rd_range xs i n = Some ys \<Longrightarrow> length ys = n"
  by (auto simp: rd_range_Some_iff)

text \<open>A loop of checked reads is \<^const>\<open>those\<close> of the list of reads.\<close>

lemma those_map_Some: "(\<And>x. x \<in> set xs \<Longrightarrow> f x = Some (g x)) \<Longrightarrow> those (map f xs) = Some (map g xs)"
  by (induction xs) auto

lemma those_eq_Some_length: "those xs = Some ys \<Longrightarrow> length ys = length xs"
  by (induction xs arbitrary: ys) (auto split: option.splits)

lemma those_eq_Some_iff: "those xs = Some ys \<longleftrightarrow> xs = map Some ys"
  by (induction xs arbitrary: ys) (auto split: option.splits simp: Cons_eq_map_conv)

lemma those_eq_None_iff: "those xs = None \<longleftrightarrow> None \<in> set xs"
  by (induction xs) (auto split: option.splits)

lemma those_map_rd_upt: "n \<le> length xs \<Longrightarrow> those (map (rd xs) [0..<n]) = Some (take n xs)"
proof -
  assume n: "n \<le> length xs"
  then have "those (map (rd xs) [0..<n]) = Some (map ((!) xs) [0..<n])"
    by (intro those_map_Some) auto
  also have "map ((!) xs) [0..<n] = take n xs"
    using n by (intro nth_equalityI) auto
  finally show ?thesis .
qed

section \<open>Lists\<close>

lemma take_drop_nth_Cons: "i < length xs \<Longrightarrow> drop i xs = xs ! i # drop (Suc i) xs"
  by (rule Cons_nth_drop_Suc [symmetric])

lemma list_update_take_drop:
  "i < length xs \<Longrightarrow> xs[i := v] = take i xs @ v # drop (Suc i) xs"
  by (rule upd_conv_take_nth_drop)

lemma length_concat_chunks:
  "(\<And>j. length (f j) = w) \<Longrightarrow> length (concat (map f js)) = length js * w"
  by (induction js) simp_all

lemma nth_concat_chunks:
  assumes "\<And>j. length (f j) = w" "i < length js" "k < w"
  shows "concat (map f js) ! (i * w + k) = f (js ! i) ! k"
  using assms(2)
proof (induction js arbitrary: i)
  case (Cons j js)
  show ?case
  proof (cases i)
    case (Suc i')
    then have "concat (map f js) ! (i' * w + k) = f (js ! i') ! k" using Cons by simp
    moreover have "concat (map f (j # js)) ! (i * w + k) = concat (map f js) ! (i' * w + k)"
      using assms(1) nth_append_length_plus [of "f j" "concat (map f js)" "i' * w + k"] Suc
      by (simp add: add.assoc)
    ultimately show ?thesis using Suc by simp
  qed (use assms in \<open>simp add: nth_append\<close>)
qed simp

lemma length_4_conv: "length xs = 4 \<longleftrightarrow> (\<exists>a b c d. xs = [a, b, c, d])"
  by (auto simp: numeral_eq_Suc length_Suc_conv)

lemma funpow_8: "(f ^^ 8) x = f (f (f (f (f (f (f (f x)))))))"
  by (simp add: numeral_eq_Suc)

section \<open>Words\<close>

lemma unat_of_nat_lt: "n < 2 ^ LENGTH('a) \<Longrightarrow> unat (of_nat n :: 'a::len word) = n"
  by (simp add: unat_of_nat take_bit_nat_eq_self)

lemma unat_u16_lt: "unat (w :: u16) < 65536"
  using unsigned_less [of w] by simp

lemma unat_u32_lt: "unat (w :: u32) < 4294967296"
  using unsigned_less [of w] by simp

lemma mask8_u16 [mask_simps]: "(0xFF :: u16) = mask 8"
  by (simp add: mask_eq_exp_minus_1)

lemma mask8_u32 [mask_simps]: "(0xFF :: u32) = mask 8"
  by (simp add: mask_eq_exp_minus_1)

lemma mask8_u64 [mask_simps]: "(0xFF :: u64) = mask 8"
  by (simp add: mask_eq_exp_minus_1)

lemma mask32_u64 [mask_simps]: "(0xFFFFFFFF :: u64) = mask 32"
  by (simp add: mask_eq_exp_minus_1)

lemma bit_ucast_u8 [simp]: "bit (ucast (b :: u8) :: 'a::len word) n \<longleftrightarrow> n < LENGTH('a) \<and> n < 8 \<and> bit b n"
  by (auto simp: bit_simps dest: bit_imp_le_length)

lemma ucast_u8_u16_inject [simp]: "(ucast (a :: u8) :: u16) = ucast b \<longleftrightarrow> a = b"
proof
  assume eq: "(ucast a :: u16) = ucast b"
  have "bit a n = bit b n" if "n < 8" for n
    using arg_cong [OF eq, of "\<lambda>w. bit w n"] that by simp
  then show "a = b" by (intro bit_word_eqI) simp
qed simp

end
