(* ===== verification/FDManager.thy ===== *)
theory FDManager
  imports Prelude
begin

text \<open>
  File descriptors of the sockets (FlightOps/src/GRAMS\_TOF\_FDManager.cpp and .h, GRAMS\_TOF\_Client.cpp):
  the descriptors the process has open, the one descriptor kept for each kind of service, the
  descriptors of connections, and what is sent to and received from them.

  A new socket gets the lowest descriptor that is free, as POSIX prescribes; closing one that is not
  open has no effect. What the calls of the operating system return is an argument. The lock of the
  manager makes each operation a step.
\<close>

section \<open>Descriptors of the process\<close>

type_synonym fd = int

datatype ServerKind = COMMAND | EVENT | DAQ

record fd_state =
  openFDs :: "fd list"
  serverFDs :: "ServerKind \<Rightarrow> fd"
  clientFDs :: "fd list"

definition lowest_free :: "fd list \<Rightarrow> fd" where
  "lowest_free fds = (case find (\<lambda>n. int n \<notin> set fds) [0..<length fds] of
     Some n \<Rightarrow> int n
   | None \<Rightarrow> int (length fds))"

definition os_socket :: "fd_state \<Rightarrow> fd \<times> fd_state" where
  "os_socket s = (let fd = lowest_free (openFDs s) in (fd, s\<lparr>openFDs := fd # openFDs s\<rparr>))"

definition os_close :: "fd \<Rightarrow> fd_state \<Rightarrow> fd_state" where
  "os_close fd s = s\<lparr>openFDs := filter (\<lambda>x. x \<noteq> fd) (openFDs s)\<rparr>"

section \<open>SafeFD\<close>

text \<open>The descriptor that was held before is closed, unless it is one of the standard ones.\<close>

definition close_old :: "fd \<Rightarrow> fd_state \<Rightarrow> fd_state" where
  "close_old old_fd s = (if old_fd > 2 then os_close old_fd s else s)"

datatype send_outcome = Sent nat | SendInterrupted | SendError

text \<open>The loop around \<open>send\<close>: the result and the bytes that left. A call takes at most the bytes it is
  given. Without a further outcome the loop has not ended.\<close>

fun send_loop_fd :: "nat \<Rightarrow> send_outcome list \<Rightarrow> u8 list \<Rightarrow> (int \<times> u8 list) option" where
  "send_loop_fd sent [] bytes = (if bytes = [] then Some (int sent, []) else None)"
| "send_loop_fd sent (outcome # rest) bytes =
     (if bytes = [] then Some (int sent, [])
      else case outcome of
        SendInterrupted \<Rightarrow> send_loop_fd sent rest bytes
      | SendError \<Rightarrow> Some (-1, [])
      | Sent n \<Rightarrow> (let k = min n (length bytes) in
          map_option (\<lambda>(r, wire). (r, take k bytes @ wire)) (send_loop_fd (sent + k) rest (drop k bytes))))"

definition SafeFD_sendData :: "fd \<Rightarrow> send_outcome list \<Rightarrow> u8 list \<Rightarrow> (int \<times> u8 list) option" where
  "SafeFD_sendData fd outcomes bytes = (if fd \<le> 2 then Some (-1, []) else send_loop_fd 0 outcomes bytes)"

section \<open>The manager\<close>

definition FDManager_init :: "fd list \<Rightarrow> fd_state" where
  "FDManager_init fds = \<lparr>openFDs = fds, serverFDs = (\<lambda>_. -1), clientFDs = []\<rparr>"

definition setServerFD :: "ServerKind \<Rightarrow> fd \<Rightarrow> fd_state \<Rightarrow> fd_state" where
  "setServerFD kind fd s = close_old (serverFDs s kind) (s\<lparr>serverFDs := (serverFDs s)(kind := fd)\<rparr>)"

definition getServerFD :: "ServerKind \<Rightarrow> fd_state \<Rightarrow> fd" where
  "getServerFD kind s = serverFDs s kind"

definition removeServerFD :: "ServerKind \<Rightarrow> fd_state \<Rightarrow> fd_state" where
  "removeServerFD kind s = close_old (serverFDs s kind) (s\<lparr>serverFDs := (serverFDs s)(kind := -1)\<rparr>)"

definition addClientFD :: "fd \<Rightarrow> fd_state \<Rightarrow> fd_state" where
  "addClientFD fd s = (if fd \<in> set (clientFDs s) then s else s\<lparr>clientFDs := insort fd (clientFDs s)\<rparr>)"

text \<open>Erasing an entry destroys its \<open>SafeFD\<close>, which closes the descriptor.\<close>

definition removeClientFD :: "fd \<Rightarrow> fd_state \<Rightarrow> fd_state" where
  "removeClientFD fd s =
     (if fd \<in> set (clientFDs s) then close_old fd (s\<lparr>clientFDs := remove1 fd (clientFDs s)\<rparr>) else s)"

definition getAllClientFDs :: "fd_state \<Rightarrow> fd list" where
  "getAllClientFDs s = clientFDs s"

definition sendToServer :: "ServerKind \<Rightarrow> send_outcome list \<Rightarrow> u8 list \<Rightarrow> fd_state \<Rightarrow> (int \<times> u8 list) option" where
  "sendToServer kind outcomes bytes s = SafeFD_sendData (serverFDs s kind) outcomes bytes"

definition sendToClient :: "fd \<Rightarrow> send_outcome list \<Rightarrow> u8 list \<Rightarrow> fd_state \<Rightarrow> (int \<times> u8 list) option" where
  "sendToClient fd outcomes bytes s =
     (if fd \<notin> set (clientFDs s) then Some (-1, []) else SafeFD_sendData fd outcomes bytes)"

text \<open>To all clients, given the outcomes for each: how many took the bytes.\<close>

definition sendToAllClients :: "(fd \<Rightarrow> send_outcome list) \<Rightarrow> u8 list \<Rightarrow> fd_state \<Rightarrow> int option" where
  "sendToAllClients outcomes bytes s =
     map_option (\<lambda>rs. int (length (filter (\<lambda>r. 0 < fst r) rs)))
       (those (map (\<lambda>fd. SafeFD_sendData fd (outcomes fd) bytes) (clientFDs s)))"

datatype recv_outcome = Received "u8 list" | WouldBlock | RecvInterrupted | RecvError

definition FDManager_recvData :: "fd \<Rightarrow> recv_outcome \<Rightarrow> fd_state \<Rightarrow> int \<times> u8 list" where
  "FDManager_recvData fd outcome s =
     (if fd \<notin> set (clientFDs s) \<or> fd \<le> 2 then (-1, [])
      else case outcome of
        Received bs \<Rightarrow> (int (length bs), bs)
      | WouldBlock \<Rightarrow> (0, [])
      | RecvInterrupted \<Rightarrow> (0, [])
      | RecvError \<Rightarrow> (-1, []))"

definition closeAll :: "fd_state \<Rightarrow> fd_state" where
  "closeAll s = (let s1 = fold removeServerFD [COMMAND, EVENT, DAQ] s
     in (fold close_old (clientFDs s1) s1)\<lparr>clientFDs := []\<rparr>)"

section \<open>Connections\<close>

record client =
  clientFD :: fd
  readBuffer :: "u8 list"

definition Client_new :: "fd \<Rightarrow> fd_state \<Rightarrow> client \<times> fd_state" where
  "Client_new fd s = (\<lparr>clientFD = fd, readBuffer = []\<rparr>, if fd \<ge> 0 then addClientFD fd s else s)"

definition Client_sendData :: "client \<Rightarrow> send_outcome list \<Rightarrow> u8 list \<Rightarrow> fd_state \<Rightarrow> (int \<times> u8 list) option" where
  "Client_sendData c outcomes bytes s = (if clientFD c < 0 then Some (-1, []) else sendToClient (clientFD c) outcomes bytes s)"

text \<open>\<open>again\<close> says what \<open>errno\<close> holds after a failure.\<close>

definition Client_recvData :: "client \<Rightarrow> nat \<Rightarrow> recv_outcome \<Rightarrow> bool \<Rightarrow> fd_state \<Rightarrow> int \<times> u8 list \<times> client" where
  "Client_recvData c limit outcome again s =
     (if clientFD c < 0 then (-1, [], c)
      else let (n, temp) = FDManager_recvData (clientFD c) outcome s in
        if n < 0 \<and> \<not> again then (-1, [], c)
        else let buf = readBuffer c @ (if n > 0 then temp else []); toCopy = min limit (length buf)
          in (int toCopy, take toCopy buf, c\<lparr>readBuffer := drop toCopy buf\<rparr>))"

definition Client_closeFD :: "client \<Rightarrow> fd_state \<Rightarrow> client \<times> fd_state" where
  "Client_closeFD c s =
     (if clientFD c \<ge> 0 then (c\<lparr>clientFD := -1, readBuffer := []\<rparr>, removeClientFD (clientFD c) s) else (c, s))"

section \<open>Sending\<close>

text \<open>A send that returns reports either all bytes, and all of them left in order, or an error, and a
  proper prefix of them left.\<close>

lemma send_loop_fd_result:
  assumes "send_loop_fd sent outcomes bytes = Some (r, wire)"
  shows "(r = int (sent + length bytes) \<and> wire = bytes) \<or> (r = -1 \<and> (\<exists>rest. rest \<noteq> [] \<and> bytes = wire @ rest))"
  using assms
proof (induction outcomes arbitrary: sent bytes wire)
  case (Cons a outcomes)
  show ?case
  proof (cases "bytes = [] \<or> (\<forall>n. a \<noteq> Sent n)")
    case True
    then show ?thesis
      using Cons by (cases a) (auto split: if_splits)
  next
    case False
    then obtain n where n: "a = Sent n" "bytes \<noteq> []"
      by auto
    let ?k = "min n (length bytes)"
    obtain w where w: "send_loop_fd (sent + ?k) outcomes (drop ?k bytes) = Some (r, w)" "wire = take ?k bytes @ w"
      using Cons.prems n by (auto simp: Let_def)
    from Cons.IH [OF w(1)] show ?thesis
    proof (elim disjE conjE exE)
      assume r: "r = int (sent + ?k + length (drop ?k bytes))" and "w = drop ?k bytes"
      then have "wire = bytes"
        using w(2) by (simp only: append_take_drop_id)
      then show ?thesis
        using r by simp
    next
      fix rest assume "r = -1" "rest \<noteq> []" "drop ?k bytes = w @ rest"
      then have "bytes = wire @ rest"
        using w(2) by (metis append.assoc append_take_drop_id)
      then show ?thesis
        using \<open>r = -1\<close> \<open>rest \<noteq> []\<close> by blast
    qed
  qed
qed (auto split: if_splits)

lemma SafeFD_sendData_result:
  assumes "SafeFD_sendData fd outcomes bytes = Some (r, wire)"
  shows "(r = int (length bytes) \<and> wire = bytes) \<or> (r = -1 \<and> (bytes = [] \<or> (\<exists>rest. rest \<noteq> [] \<and> bytes = wire @ rest)))"
  using assms send_loop_fd_result [of 0 outcomes bytes r wire]
  by (cases "bytes = []") (auto simp: SafeFD_sendData_def split: if_splits)

text \<open>The number of the result is the only sign of a failure; both non-zero values are true as a truth value.\<close>

lemma sendToClient_closed:
  "fd \<notin> set (clientFDs s) \<Longrightarrow> sendToClient fd outcomes bytes s = Some (-1, [])"
  by (simp add: sendToClient_def)

section \<open>Invariant\<close>

text \<open>The registered connections are sorted and distinct, and so are the open descriptors.\<close>

definition fd_inv :: "fd_state \<Rightarrow> bool" where
  "fd_inv s = (sorted (clientFDs s) \<and> distinct (clientFDs s) \<and> distinct (openFDs s))"

lemma os_close_fields [simp]:
  "serverFDs (os_close fd s) = serverFDs s" "clientFDs (os_close fd s) = clientFDs s"
  "openFDs (os_close fd s) = filter (\<lambda>x. x \<noteq> fd) (openFDs s)"
  by (simp_all add: os_close_def)

lemma close_old_fields [simp]:
  "serverFDs (close_old fd s) = serverFDs s" "clientFDs (close_old fd s) = clientFDs s"
  "openFDs (close_old fd s) = (if fd > 2 then filter (\<lambda>x. x \<noteq> fd) (openFDs s) else openFDs s)"
  by (simp_all add: close_old_def)

lemma lowest_free_result:
  "lowest_free fds \<notin> set fds \<and> 0 \<le> lowest_free fds \<and> (\<forall>n. 0 \<le> n \<and> n < lowest_free fds \<longrightarrow> n \<in> set fds)"
proof (cases "find (\<lambda>n. int n \<notin> set fds) [0..<length fds]")
  case None
  then have all: "\<forall>n < length fds. int n \<in> set fds"
    by (auto simp: find_None_iff)
  then have sub: "int ` {0..<length fds} \<subseteq> set fds"
    by auto
  have "int (length fds) \<notin> set fds"
  proof
    assume "int (length fds) \<in> set fds"
    then have "int ` {0..<Suc (length fds)} \<subseteq> set fds"
      using all by (auto simp: less_Suc_eq)
    then have "Suc (length fds) \<le> card (set fds)"
      using card_mono [of "set fds" "int ` {0..<Suc (length fds)}"] by (simp add: card_image)
    then show False
      using card_length [of fds] by linarith
  qed
  moreover have "\<forall>n. 0 \<le> n \<and> n < int (length fds) \<longrightarrow> n \<in> set fds"
    using all by (metis zero_le_imp_eq_int of_nat_less_iff)
  ultimately show ?thesis
    using None by (simp add: lowest_free_def)
next
  case (Some n)
  then have n: "n < length fds" "int n \<notin> set fds" "\<forall>m < n. int m \<in> set fds"
    by (auto simp: find_Some_iff)
  then have "\<forall>m. 0 \<le> m \<and> m < int n \<longrightarrow> m \<in> set fds"
    by (metis zero_le_imp_eq_int of_nat_less_iff)
  then show ?thesis
    using Some n by (simp add: lowest_free_def)
qed

lemma lowest_free_eq:
  assumes "fd \<notin> set fds" "0 \<le> fd" "\<forall>n. 0 \<le> n \<and> n < fd \<longrightarrow> n \<in> set fds"
  shows "lowest_free fds = fd"
  using lowest_free_result [of fds] assms by (metis linorder_neqE)

lemma fd_inv_keeps:
  assumes "fd_inv s"
  shows "fd_inv (snd (os_socket s))" "fd_inv (os_close fd s)" "fd_inv (setServerFD kind fd s)"
    "fd_inv (removeServerFD kind s)" "fd_inv (addClientFD fd s)" "fd_inv (removeClientFD fd s)"
  using assms lowest_free_result [of "openFDs s"]
  by (auto simp: fd_inv_def os_socket_def setServerFD_def removeServerFD_def addClientFD_def removeClientFD_def Let_def
      sorted_insort distinct_insort sorted_remove1)

end
