(* ===== verification/CommandCodec.thy ===== *)
theory CommandCodec
  imports Prelude
begin

text \<open>
  The wire codec of the command and event links, \<open>FlightOps/src/GRAMS_TOF_CommandCodec.cpp\<close>
  (big-endian build): the primitive reads and writes, both CRC-16 routines, \<open>parse\<close>,
  \<open>serialize\<close> and \<open>getPacketSize\<close>. The lemmas show that \<open>parse\<close> never
  reads outside of its buffer, that the two functions are inverse to each other, and what the
  checksum detects.
\<close>

section \<open>Model\<close>

record packet =
  code :: u16
  argc :: u16
  argv :: "u32 list"

datatype parse_error =
    PacketTooSmall nat
  | InvalidHeader u16 u16
  | InvalidArgc u16
  | ArgcOverflow
  | PayloadSizeOverflow
  | PacketTooShort u16
  | CrcMismatch u16 u16
  | InvalidFooter

definition read16 :: "u8 list \<Rightarrow> nat \<Rightarrow> u16 checked" where
  "read16 ptr i = do {
     b0 \<leftarrow> rd ptr i;
     b1 \<leftarrow> rd ptr (i + 1);
     Some (push_bit 8 (ucast b0) OR ucast b1)
   }"

definition read32 :: "u8 list \<Rightarrow> nat \<Rightarrow> u32 checked" where
  "read32 ptr i = do {
     b0 \<leftarrow> rd ptr i;
     b1 \<leftarrow> rd ptr (i + 1);
     b2 \<leftarrow> rd ptr (i + 2);
     b3 \<leftarrow> rd ptr (i + 3);
     Some (push_bit 24 (ucast b0) OR push_bit 16 (ucast b1) OR push_bit 8 (ucast b2) OR ucast b3)
   }"

definition write16 :: "u8 list \<Rightarrow> u16 \<Rightarrow> u8 list" where
  "write16 buf val = buf @ [ucast (drop_bit 8 val AND 0xFF), ucast (val AND 0xFF)]"

definition write32 :: "u8 list \<Rightarrow> u32 \<Rightarrow> u8 list" where
  "write32 buf val = buf @
     [ucast (drop_bit 24 val AND 0xFF), ucast (drop_bit 16 val AND 0xFF),
      ucast (drop_bit 8 val AND 0xFF), ucast (val AND 0xFF)]"

definition crc1021_shift :: "u16 \<Rightarrow> u16" where
  "crc1021_shift crc = (if crc AND 0x8000 \<noteq> 0 then push_bit 1 crc XOR 0x1021 else push_bit 1 crc)"

definition crc1021_byte :: "u16 \<Rightarrow> u8 \<Rightarrow> u16" where
  "crc1021_byte crc b = (crc1021_shift ^^ 8) (crc XOR push_bit 8 (ucast b))"

definition computeCRC16_CCITT_1021 :: "u8 list \<Rightarrow> nat \<Rightarrow> u16 checked" where
  "computeCRC16_CCITT_1021 data len = do {
     bs \<leftarrow> rd_range data 0 len;
     Some (foldl crc1021_byte 0xFFFF bs)
   }"

definition crc8408_shift :: "u16 \<Rightarrow> u16" where
  "crc8408_shift crc = (if crc AND 1 \<noteq> 0 then drop_bit 1 crc XOR 0x8408 else drop_bit 1 crc)"

definition crc8408_byte :: "u16 \<Rightarrow> u8 \<Rightarrow> u16" where
  "crc8408_byte crc b = (crc8408_shift ^^ 8) (crc XOR ucast b)"

definition computeCRC16_CCITT_8408 :: "u8 list \<Rightarrow> nat \<Rightarrow> u16 checked" where
  "computeCRC16_CCITT_8408 data len = do {
     bs \<leftarrow> rd_range data 0 len;
     Some (foldl crc8408_byte 0x0000 bs)
   }"

definition MAX_ARGC :: u16 where
  "MAX_ARGC = 0xFFFF"

definition SIZE_MAX :: nat where
  "SIZE_MAX = 2 ^ 64 - 1"

definition parse :: "u8 list \<Rightarrow> (parse_error + packet) checked" where
  "parse data =
     (if length data < 12 then Some (Inl (PacketTooSmall (length data)))
      else do {
        header1 \<leftarrow> read16 data 0;
        header2 \<leftarrow> read16 data 2;
        if header1 \<noteq> 0xEB90 \<or> header2 \<noteq> 0x5B6A then Some (Inl (InvalidHeader header1 header2))
        else do {
          code \<leftarrow> read16 data 4;
          argc \<leftarrow> read16 data 6;
          if MAX_ARGC < argc then Some (Inl (InvalidArgc argc))
          else if unat argc > (SIZE_MAX - 8) div 4 then Some (Inl ArgcOverflow)
          else let payloadSize = 8 + unat argc * 4 in
          if payloadSize > SIZE_MAX - 6 then Some (Inl PayloadSizeOverflow)
          else let expectedSize = payloadSize + 2 + 2 + 2 in
          if length data < expectedSize then Some (Inl (PacketTooShort argc))
          else do {
            receivedCRC \<leftarrow> read16 data payloadSize;
            computedCRC \<leftarrow> computeCRC16_CCITT_8408 data payloadSize;
            if receivedCRC \<noteq> computedCRC then Some (Inl (CrcMismatch receivedCRC computedCRC))
            else do {
              footer1 \<leftarrow> read16 data (payloadSize + 2);
              footer2 \<leftarrow> read16 data (payloadSize + 4);
              if footer1 \<noteq> 0xC5A4 \<or> footer2 \<noteq> 0xD279 then Some (Inl InvalidFooter)
              else do {
                args \<leftarrow> those (map (\<lambda>i. read32 data (8 + i * 4)) [0..<unat argc]);
                Some (Inr \<lparr>code = code, argc = argc, argv = args\<rparr>)
              }
            }
          }
        }
      })"

definition serialize :: "packet \<Rightarrow> u16 option \<Rightarrow> u8 list checked" where
  "serialize pkt fixedCrc = do {
     let buf = write16 (write16 (write16 (write16 [] 0xEB90) 0x5B6A) (code pkt)) (argc pkt);
     args \<leftarrow> those (map (rd (argv pkt)) [0..<unat (argc pkt)]);
     let buf = foldl write32 buf args;
     crc \<leftarrow> (case fixedCrc of
               Some c \<Rightarrow> Some c
             | None \<Rightarrow> computeCRC16_CCITT_8408 buf (length buf));
     Some (write16 (write16 (write16 buf crc) 0xC5A4) 0xD279)
   }"

definition getPacketSize :: "packet \<Rightarrow> nat" where
  "getPacketSize packet = 14 + unat (argc packet) * 4"

text \<open>
  A packet whose argument count is the length of its argument vector: what every producer in
  the program builds before it serializes.
\<close>

definition wf_packet :: "packet \<Rightarrow> bool" where
  "wf_packet p \<longleftrightarrow> unat (argc p) = length (argv p)"

text \<open>The layout of a frame, as the receiver reads it.\<close>

definition frame :: "packet \<Rightarrow> u16 \<Rightarrow> u8 list" where
  "frame p crc = write16 [] 0xEB90 @ write16 [] 0x5B6A @ write16 [] (code p) @ write16 [] (argc p) @
     concat (map (write32 []) (argv p)) @ write16 [] crc @ write16 [] 0xC5A4 @ write16 [] 0xD279"

definition payload :: "packet \<Rightarrow> u8 list" where
  "payload p = write16 [] 0xEB90 @ write16 [] 0x5B6A @ write16 [] (code p) @ write16 [] (argc p) @
     concat (map (write32 []) (argv p))"

section \<open>Reads and writes\<close>

lemma read16_eq_None [simp]: "read16 d i = None \<longleftrightarrow> length d \<le> i + 1"
  by (auto simp: read16_def rd_def)

lemma read32_eq_None [simp]: "read32 d i = None \<longleftrightarrow> length d \<le> i + 3"
  by (auto simp: read32_def rd_def)

lemma length_write16 [simp]: "length (write16 buf v) = length buf + 2"
  by (simp add: write16_def)

lemma length_write32 [simp]: "length (write32 buf v) = length buf + 4"
  by (simp add: write32_def)

lemma write16_append: "write16 buf v = buf @ write16 [] v"
  by (simp add: write16_def)

lemma write32_append: "write32 buf v = buf @ write32 [] v"
  by (simp add: write32_def)

lemma foldl_write32: "foldl write32 buf vs = buf @ concat (map (write32 []) vs)"
  by (induction vs arbitrary: buf) (simp_all add: write32_def)

lemma join16_split:
  "push_bit 8 (ucast (ucast (drop_bit 8 v AND 0xFF) :: u8) :: u16) OR ucast (ucast (v AND 0xFF) :: u8) = v"
  by (rule bit_word_eqI) (auto simp: bit_simps mask_simps)

lemma join32_split:
  "push_bit 24 (ucast (ucast (drop_bit 24 v AND 0xFF) :: u8) :: u32) OR
   push_bit 16 (ucast (ucast (drop_bit 16 v AND 0xFF) :: u8)) OR
   push_bit 8 (ucast (ucast (drop_bit 8 v AND 0xFF) :: u8)) OR ucast (ucast (v AND 0xFF) :: u8) = v"
  (is "?l = v")
proof (rule bit_word_eqI)
  fix n assume "n < LENGTH(32)"
  then consider "n < 8" | "8 \<le> n" "n < 16" | "16 \<le> n" "n < 24" | "24 \<le> n" "n < 32" by force
  then show "bit ?l n = bit v n"
    by cases (auto simp: bit_simps mask_simps)
qed

lemma split16_join:
  "ucast (drop_bit 8 (push_bit 8 (ucast a) OR ucast b :: u16) AND 0xFF) = (a :: u8)"
  "ucast ((push_bit 8 (ucast a) OR ucast b :: u16) AND 0xFF) = (b :: u8)"
  by (rule bit_word_eqI; simp add: bit_simps mask_simps)+

lemma split32_join:
  "ucast (drop_bit 24 (push_bit 24 (ucast a) OR push_bit 16 (ucast b) OR push_bit 8 (ucast c) OR ucast d :: u32) AND 0xFF) = (a :: u8)"
  "ucast (drop_bit 16 (push_bit 24 (ucast a) OR push_bit 16 (ucast b) OR push_bit 8 (ucast c) OR ucast d :: u32) AND 0xFF) = (b :: u8)"
  "ucast (drop_bit 8 (push_bit 24 (ucast a) OR push_bit 16 (ucast b) OR push_bit 8 (ucast c) OR ucast d :: u32) AND 0xFF) = (c :: u8)"
  "ucast ((push_bit 24 (ucast a) OR push_bit 16 (ucast b) OR push_bit 8 (ucast c) OR ucast d :: u32) AND 0xFF) = (d :: u8)"
  by (rule bit_word_eqI; simp add: bit_simps mask_simps)+

lemma read16_append [bytes_simps]: "read16 (xs @ ys) (length xs + i) = read16 ys i"
  by (simp only: read16_def rd_append_right add.assoc)

lemma read32_append [bytes_simps]: "read32 (xs @ ys) (length xs + i) = read32 ys i"
  by (simp only: read32_def rd_append_right add.assoc)

lemma read16_write16: "i = length xs \<Longrightarrow> read16 (xs @ write16 [] v @ ys) i = Some v"
  using read16_append [of xs "write16 [] v @ ys" 0]
  by (simp add: read16_def write16_def join16_split)

lemma read32_write32: "i = length xs \<Longrightarrow> read32 (xs @ write32 [] v @ ys) i = Some v"
  using read32_append [of xs "write32 [] v @ ys" 0]
  by (simp add: read32_def write32_def join32_split numeral_2_eq_2 numeral_3_eq_3)

lemma take_drop_2: "Suc i < length d \<Longrightarrow> take 2 (drop i d) = [d ! i, d ! Suc i]"
  by (simp add: take_drop_nth_Cons numeral_2_eq_2)

lemma take_drop_4:
  "i + 3 < length d \<Longrightarrow> take 4 (drop i d) = [d ! i, d ! (i + 1), d ! (i + 2), d ! (i + 3)]"
  by (simp add: take_drop_nth_Cons take_Cons' numeral_eq_Suc)

lemma read16_nth:
  "read16 d i = Some v \<Longrightarrow> Suc i < length d \<and> v = push_bit 8 (ucast (d ! i)) OR ucast (d ! Suc i)"
  by (auto simp: read16_def rd_Some_iff bind_eq_Some_conv)

lemma read32_nth:
  "read32 d i = Some v \<Longrightarrow> i + 3 < length d \<and>
     v = push_bit 24 (ucast (d ! i)) OR push_bit 16 (ucast (d ! (i + 1))) OR
         push_bit 8 (ucast (d ! (i + 2))) OR ucast (d ! (i + 3))"
  by (auto simp: read32_def rd_Some_iff bind_eq_Some_conv)

lemma write16_read16: "read16 d i = Some v \<Longrightarrow> write16 [] v = take 2 (drop i d)"
  by (drule read16_nth) (clarsimp simp only: write16_def split16_join take_drop_2 append_Nil)

lemma write32_read32: "read32 d i = Some v \<Longrightarrow> write32 [] v = take 4 (drop i d)"
  by (drule read32_nth) (clarsimp simp only: write32_def split32_join take_drop_4 append_Nil)

lemma length_concat_write32 [simp]: "length (concat (map (write32 []) vs)) = length vs * 4"
  by (induction vs) simp_all


section \<open>Memory safety\<close>

lemma computeCRC16_CCITT_8408_eq_None [simp]:
  "computeCRC16_CCITT_8408 d n = None \<longleftrightarrow> length d < n"
  by (auto simp: computeCRC16_CCITT_8408_def rd_range_def)

lemma those_read32_inside:
  assumes "8 + n * 4 \<le> length d"
  shows "those (map (\<lambda>i. read32 d (8 + i * 4)) [0..<n]) \<noteq> None"
proof -
  have "\<exists>v. read32 d (8 + i * 4) = Some v" if "i < n" for i
  proof -
    have "8 + i * 4 + 3 < length d" using that assms by linarith
    then show ?thesis by (metis not_None_eq read32_eq_None not_le)
  qed
  then obtain f where "\<And>i. i < n \<Longrightarrow> read32 d (8 + i * 4) = Some (f i)" by metis
  then have "those (map (\<lambda>i. read32 d (8 + i * 4)) [0..<n]) = Some (map f [0..<n])"
    by (intro those_map_Some) simp
  then show ?thesis by simp
qed

lemma parse_in_bounds: "parse data \<noteq> None"
proof
  assume "parse data = None"
  then show False
    by (auto simp: parse_def Let_def Option.bind_eq_None_conv those_read32_inside simp del: not_None_eq split: if_splits)
qed

section \<open>Round trip\<close>

lemma frame_payload: "frame p crc = payload p @ write16 [] crc @ write16 [] 0xC5A4 @ write16 [] 0xD279"
  by (simp add: frame_def payload_def)

lemma length_payload: "length (payload p) = 8 + length (argv p) * 4"
  by (simp add: payload_def)

lemma length_frame: "length (frame p c) = 14 + length (argv p) * 4"
  by (simp add: frame_def)

lemma serialize_eq:
  assumes "wf_packet p"
  shows "serialize p fixedCrc =
    Some (frame p (case fixedCrc of Some c \<Rightarrow> c | None \<Rightarrow> foldl crc8408_byte 0 (payload p)))"
proof -
  have "those (map (rd (argv p)) [0..<unat (argc p)]) = Some (argv p)"
    using assms by (simp add: wf_packet_def those_map_rd_upt)
  moreover have "foldl write32 (write16 (write16 (write16 (write16 [] 0xEB90) 0x5B6A) (code p)) (argc p)) (argv p) = payload p"
    by (simp add: payload_def foldl_write32 write16_def)
  ultimately show ?thesis
    by (auto simp: serialize_def Let_def computeCRC16_CCITT_8408_def rd_range_def frame_payload
        write16_append [of "_ @ _"] write16_append [of "payload p"] split: option.splits)
qed

lemma argc_limits:
  "\<not> MAX_ARGC < (n :: u16)" "\<not> (SIZE_MAX - 8) div 4 < unat n" "\<not> SIZE_MAX - 6 < 8 + unat n * 4"
proof -
  have n: "unat n < 65536" using unsigned_less [of n] by simp
  then show "\<not> (SIZE_MAX - 8) div 4 < unat n" "\<not> SIZE_MAX - 6 < 8 + unat n * 4"
    by (simp_all add: SIZE_MAX_def)
  show "\<not> MAX_ARGC < n" using n by (simp add: MAX_ARGC_def word_less_nat_alt)
qed

lemma read32_concat:
  assumes "i < length vs"
  shows "read32 (xs @ concat (map (write32 []) vs) @ ys) (length xs + i * 4) = Some (vs ! i)"
proof -
  have "concat (map (write32 []) vs) =
      concat (map (write32 []) (take i vs)) @ write32 [] (vs ! i) @ concat (map (write32 []) (drop (Suc i) vs))"
    by (subst id_take_nth_drop [OF assms]) simp
  then show ?thesis
    using assms read32_write32 [of "length xs + i * 4" "xs @ concat (map (write32 []) (take i vs))" "vs ! i"]
    by simp
qed

lemma those_read32_concat:
  assumes "k = length xs"
  shows "those (map (\<lambda>i. read32 (xs @ concat (map (write32 []) vs) @ ys) (k + i * 4)) [0..<length vs]) = Some vs"
proof -
  have "those (map (\<lambda>i. read32 (xs @ concat (map (write32 []) vs) @ ys) (k + i * 4)) [0..<length vs])
      = Some (map ((!) vs) [0..<length vs])"
    unfolding assms by (intro those_map_Some) (simp add: read32_concat)
  then show ?thesis by (simp add: map_nth)
qed

lemma parse_frame:
  assumes "wf_packet p"
  shows "parse (frame p crc @ junk) =
    Some (if crc = foldl crc8408_byte 0 (payload p) then Inr p
          else Inl (CrcMismatch crc (foldl crc8408_byte 0 (payload p))))"
proof -
  let ?d = "frame p crc @ junk"
  let ?n = "8 + unat (argc p) * 4"
  let ?hdr = "write16 [] 0xEB90 @ write16 [] 0x5B6A @ write16 [] (code p) @ write16 [] (argc p)"
  let ?tail = "write16 [] 0xC5A4 @ write16 [] 0xD279 @ junk"
  have n: "?n = length (payload p)" using assms by (simp add: length_payload wf_packet_def)
  have len: "length ?d = ?n + 6 + length junk"
    using assms by (simp add: frame_payload length_payload wf_packet_def)
  have hdr: "read16 ?d 0 = Some 0xEB90" "read16 ?d 2 = Some 0x5B6A"
    "read16 ?d 4 = Some (code p)" "read16 ?d 6 = Some (argc p)"
    using read16_write16 [of 0 "[]" "0xEB90" "drop 2 ?d"]
      read16_write16 [of 2 "take 2 ?d" "0x5B6A" "drop 4 ?d"]
      read16_write16 [of 4 "take 4 ?d" "code p" "drop 6 ?d"]
      read16_write16 [of 6 "take 6 ?d" "argc p" "drop 8 ?d"]
    by (simp_all add: frame_def write16_def)
  have crc: "read16 ?d ?n = Some crc"
    using read16_write16 [of ?n "payload p" crc ?tail] n by (simp add: frame_payload)
  have ftr: "read16 ?d (?n + 2) = Some 0xC5A4" "read16 ?d (?n + 4) = Some 0xD279"
    using read16_write16 [of "?n + 2" "payload p @ write16 [] crc" "0xC5A4" "write16 [] 0xD279 @ junk"]
      read16_write16 [of "?n + 4" "payload p @ write16 [] crc @ write16 [] 0xC5A4" "0xD279" junk] n
    by (simp_all add: frame_payload)
  have cmp: "computeCRC16_CCITT_8408 ?d ?n = Some (foldl crc8408_byte 0 (payload p))"
    using n by (simp add: computeCRC16_CCITT_8408_def rd_range_def frame_payload)
  have args: "those (map (\<lambda>i. read32 ?d (8 + i * 4)) [0..<unat (argc p)]) = Some (argv p)"
    using assms those_read32_concat [of 8 ?hdr "argv p" "write16 [] crc @ ?tail"]
    by (simp add: frame_def wf_packet_def)
  show ?thesis
  proof (cases "foldl crc8408_byte 0 (payload p) = crc")
    case True
    then show ?thesis
      using len by (simp add: parse_def Let_def hdr crc ftr [simplified] cmp args argc_limits)
  next
    case False
    then show ?thesis
      using len by (auto simp: parse_def Let_def hdr crc cmp argc_limits)
  qed
qed

text \<open>A buffer that is accepted starts with the serialization of the packet it is parsed to.\<close>

lemma drop_split: "i + n \<le> length xs \<Longrightarrow> drop i xs = take n (drop i xs) @ drop (i + n) xs"
  by (metis add.commute append_take_drop_id drop_drop)

lemma concat_read32:
  assumes "those (map (\<lambda>i. read32 d (k + i * 4)) [0..<n]) = Some vs"
  shows "concat (map (write32 []) vs) = take (n * 4) (drop k d)"
  using assms
proof (induction n arbitrary: vs)
  case (Suc n)
  then obtain us u where u: "those (map (\<lambda>i. read32 d (k + i * 4)) [0..<n]) = Some us"
      "read32 d (k + n * 4) = Some u" "vs = us @ [u]"
    by (auto simp: those_eq_Some_iff map_eq_append_conv append_eq_map_conv)
  have "concat (map (write32 []) vs) = take (n * 4) (drop k d) @ take 4 (drop (k + n * 4) d)"
    using Suc.IH [OF u(1)] write32_read32 [OF u(2)] u(3) by simp
  then show ?case using take_add [of "n * 4" 4 "drop k d"] by (simp add: ac_simps)
qed simp

lemma parse_Inr_facts:
  assumes "parse data = Some (Inr p)"
  shows "\<exists>crc. read16 data 0 = Some 0xEB90 \<and> read16 data 2 = Some 0x5B6A \<and> read16 data 4 = Some (code p) \<and>
    read16 data 6 = Some (argc p) \<and> 14 + unat (argc p) * 4 \<le> length data \<and>
    read16 data (8 + unat (argc p) * 4) = Some crc \<and>
    computeCRC16_CCITT_8408 data (8 + unat (argc p) * 4) = Some crc \<and>
    read16 data (10 + unat (argc p) * 4) = Some 0xC5A4 \<and>
    read16 data (12 + unat (argc p) * 4) = Some 0xD279 \<and>
    those (map (\<lambda>i. read32 data (8 + i * 4)) [0..<unat (argc p)]) = Some (argv p)"
  using assms by (auto simp: parse_def Let_def bind_eq_Some_conv add.commute split: if_splits)

lemma parse_prefix:
  assumes "parse data = Some (Inr p)"
  shows "wf_packet p \<and> getPacketSize p \<le> length data \<and>
    serialize p None = Some (take (getPacketSize p) data)"
proof -
  let ?n = "8 + unat (argc p) * 4"
  obtain crc where r: "read16 data 0 = Some 0xEB90" "read16 data 2 = Some 0x5B6A"
      "read16 data 4 = Some (code p)" "read16 data 6 = Some (argc p)"
      "read16 data ?n = Some crc" "read16 data (10 + unat (argc p) * 4) = Some 0xC5A4"
      "read16 data (12 + unat (argc p) * 4) = Some 0xD279"
    and len: "14 + unat (argc p) * 4 \<le> length data"
    and crc: "computeCRC16_CCITT_8408 data ?n = Some crc"
    and args: "those (map (\<lambda>i. read32 data (8 + i * 4)) [0..<unat (argc p)]) = Some (argv p)"
    using parse_Inr_facts [OF assms] by auto
  have wf: "wf_packet p" using those_eq_Some_length [OF args] by (simp add: wf_packet_def)
  note w = r [THEN write16_read16]
  have "take 8 data = take 2 data @ take 2 (drop 2 data) @ take 2 (drop 4 data) @ take 2 (drop 6 data)"
    using take_add [of 2 6 data] take_add [of 2 4 "drop 2 data"] take_add [of 2 2 "drop 4 data"] by simp
  then have pl: "payload p = take ?n data"
    by (simp add: payload_def w(1-4) concat_read32 [OF args] take_add)
  have "foldl crc8408_byte 0 (payload p) = crc"
    using crc len by (simp add: computeCRC16_CCITT_8408_def rd_range_def pl)
  moreover have "frame p crc = take (?n + 2 + 2 + 2) data"
    using len by (simp only: frame_payload pl w(5-7) take_add) (simp add: ac_simps)
  ultimately show ?thesis
    using wf len by (simp add: serialize_eq getPacketSize_def ac_simps)
qed

section \<open>What the checksum detects\<close>

lemma bit_crc8408_poly: "bit (0x8408 :: u16) 15"
  by simp

lemma crc8408_shift_alt:
  "crc8408_shift x = (if bit x 0 then drop_bit 1 x XOR 0x8408 else drop_bit 1 x)"
  by (simp add: crc8408_shift_def and_one_eq bit_0 mod2_eq_if)

lemma crc8408_shift_XOR: "crc8408_shift (x XOR y) = crc8408_shift x XOR crc8408_shift y"
  by (auto intro!: bit_word_eqI simp: crc8408_shift_alt bit_simps)

lemma crc8408_shift_0: "crc8408_shift 0 = 0"
  by (simp add: crc8408_shift_def)

lemma crc8408_shift_eq_0: "crc8408_shift x = 0 \<longleftrightarrow> x = 0"
proof
  assume z: "crc8408_shift x = 0"
  have b0: "\<not> bit x 0"
  proof
    assume "bit x 0"
    then have "bit (crc8408_shift x) 15"
      using bit_imp_le_length [of x 16] bit_crc8408_poly by (auto simp: crc8408_shift_alt bit_simps)
    with z show False by simp
  qed
  then have "drop_bit 1 x = 0" using z by (simp add: crc8408_shift_alt)
  then have "bit (drop_bit 1 x) n = False" for n by simp
  then have "\<not> bit x (Suc n)" for n by (simp add: bit_simps)
  with b0 show "x = 0" by (metis bit_0_eq bot_apply bot_bool_def bit_eqI not0_implies_Suc)
qed (simp add: crc8408_shift_0)

lemma crc8408_shifts_XOR:
  "(crc8408_shift ^^ n) (x XOR y) = (crc8408_shift ^^ n) x XOR (crc8408_shift ^^ n) y"
  by (induction n) (simp_all add: crc8408_shift_XOR)

lemma crc8408_shifts_eq_0: "(crc8408_shift ^^ n) x = 0 \<longleftrightarrow> x = 0"
  by (induction n) (simp_all add: crc8408_shift_eq_0)

lemma XOR_eq_0_word: "(x :: 'a::len word) XOR y = 0 \<longleftrightarrow> x = y"
  by (metis xor.assoc xor.left_neutral xor_self_eq xor.right_neutral)

lemma XOR_cancel_word [simp]:
  "(x :: 'a::len word) XOR z = y XOR z \<longleftrightarrow> x = y" "z XOR x = z XOR y \<longleftrightarrow> x = y"
  by (metis XOR_eq_0_word xor.assoc xor.commute xor.right_neutral)+

lemma XOR_swap_word:
  assumes "(x :: 'a::len word) XOR b = y XOR b'" shows "x XOR y = b XOR b'"
proof (rule bit_word_eqI)
  fix n
  have "bit (x XOR b) n = bit (y XOR b') n" by (simp add: assms)
  then show "bit (x XOR y) n = bit (b XOR b') n" by (auto simp: bit_xor_iff)
qed

lemma crc8408_shifts_inject: "(crc8408_shift ^^ n) x = (crc8408_shift ^^ n) y \<longleftrightarrow> x = y"
  by (metis XOR_eq_0_word crc8408_shifts_XOR crc8408_shifts_eq_0)

lemma crc8408_shifts_low:
  "(\<And>i. i < n \<Longrightarrow> \<not> bit x i) \<Longrightarrow> (crc8408_shift ^^ n) x = drop_bit n x"
proof (induction n)
  case (Suc n)
  then have "(crc8408_shift ^^ n) x = drop_bit n x" "\<not> bit x n" by simp_all
  then have "(crc8408_shift ^^ Suc n) x = crc8408_shift (drop_bit n x)" "\<not> bit (drop_bit n x) 0"
    by (simp_all add: bit_simps)
  then show ?case by (simp add: crc8408_shift_alt [of "drop_bit n x"])
qed simp

lemma crc8408_byte_inject_state: "crc8408_byte c b = crc8408_byte c' b \<longleftrightarrow> c = c'"
  by (simp add: crc8408_byte_def crc8408_shifts_inject)

lemma foldl_crc8408_inject: "foldl crc8408_byte c bs = foldl crc8408_byte c' bs \<longleftrightarrow> c = c'"
  by (induction bs arbitrary: c c') (simp_all add: crc8408_byte_inject_state)

lemma crc8408_shifts_high_byte: "(crc8408_shift ^^ 8) (push_bit 8 (ucast (b :: u8))) = ucast b"
proof -
  have "(crc8408_shift ^^ 8) (push_bit 8 (ucast b)) = drop_bit 8 (push_bit 8 (ucast b) :: u16)"
    by (rule crc8408_shifts_low) (simp add: bit_simps)
  also have "\<dots> = ucast b" by (rule bit_word_eqI) (auto simp: bit_simps)
  finally show ?thesis .
qed

lemma low_high_byte_disjoint:
  assumes "(ucast (a :: u8) :: u16) = push_bit 8 (ucast (b :: u8))"
  shows "a = 0" "b = 0"
proof -
  have e: "bit (ucast a :: u16) n = bit (push_bit 8 (ucast b) :: u16) n" for n
    using assms by simp
  show "a = 0" using e by (intro bit_word_eqI) (fastforce simp: bit_simps)
  show "b = 0"
  proof (rule bit_word_eqI)
    fix n assume "n < LENGTH(8)"
    then show "bit b n = bit 0 n" using e [of "n + 8"] by (simp add: bit_simps)
  qed
qed

lemma ucast_XOR_u8: "(ucast (a :: u8) :: u16) XOR ucast b = ucast (a XOR b)"
  by (rule bit_word_eqI) (auto simp: bit_simps)

lemma crc8408_two_bytes:
  "crc8408_byte (crc8408_byte c a) b = crc8408_byte (crc8408_byte c a') b' \<longleftrightarrow> a = a' \<and> b = b'"
proof
  assume "crc8408_byte (crc8408_byte c a) b = crc8408_byte (crc8408_byte c a') b'"
  then have "(crc8408_shift ^^ 8) (c XOR ucast a) XOR ucast b = (crc8408_shift ^^ 8) (c XOR ucast a') XOR ucast b'"
    by (simp add: crc8408_byte_def crc8408_shifts_inject)
  then have "(crc8408_shift ^^ 8) (ucast a) XOR ucast b = (crc8408_shift ^^ 8) (ucast a') XOR ucast b'"
    by (simp add: crc8408_shifts_XOR xor.assoc)
  then have "(crc8408_shift ^^ 8) (ucast a XOR ucast a') = ucast b XOR ucast b'"
    unfolding crc8408_shifts_XOR by (rule XOR_swap_word)
  then have "(crc8408_shift ^^ 8) (ucast (a XOR a')) = (crc8408_shift ^^ 8) (push_bit 8 (ucast (b XOR b')))"
    by (simp add: crc8408_shifts_high_byte ucast_XOR_u8)
  then have "a XOR a' = 0" "b XOR b' = 0"
    using low_high_byte_disjoint unfolding crc8408_shifts_inject by blast+
  then show "a = a' \<and> b = b'" by (simp add: XOR_eq_0_word)
qed simp

lemma crc8408_one_byte:
  "foldl crc8408_byte c (xs @ a # ys) = foldl crc8408_byte c (xs @ b # ys) \<longleftrightarrow> a = b"
  by (simp add: foldl_crc8408_inject) (simp add: crc8408_byte_def crc8408_shifts_inject)

lemma write16_inject [simp]: "write16 [] a = write16 [] b \<longleftrightarrow> a = b"
proof
  assume "write16 [] a = write16 [] b"
  then show "a = b" using read16_write16 [of 0 "[]" a "[]"] read16_write16 [of 0 "[]" b "[]"] by simp
qed simp

lemma serialize_frame:
  assumes "wf_packet p" "serialize p None = Some bs"
  shows "bs = payload p @ write16 [] (foldl crc8408_byte 0 (payload p)) @ write16 [] 0xC5A4 @ write16 [] 0xD279"
  using assms by (simp add: serialize_eq frame_payload)

lemma parse_update_argc:
  assumes "parse (bs[i := b]) = Some (Inr q)" "parse bs = Some (Inr p)" "i \<noteq> 6" "i \<noteq> 7"
  shows "argc q = argc p"
proof -
  have "read16 (bs[i := b]) 6 = read16 bs 6"
    using assms(3,4) by (simp add: read16_def rd_def)
  then show ?thesis using parse_Inr_facts [OF assms(1)] parse_Inr_facts [OF assms(2)] by auto
qed

lemma parse_detects_corruption:
  assumes wf: "wf_packet p" and ser: "serialize p None = Some bs"
    and i: "i < length bs" "i \<noteq> 6" "i \<noteq> 7" and b: "b \<noteq> bs ! i"
  shows "\<exists>e. parse (bs[i := b]) = Some (Inl e)"
proof (rule ccontr)
  let ?crc = "\<lambda>p. foldl crc8408_byte 0 (payload p)"
  assume "\<nexists>e. parse (bs[i := b]) = Some (Inl e)"
  then obtain q where q: "parse (bs[i := b]) = Some (Inr q)"
    using parse_in_bounds by (metis not_None_eq old.sum.exhaust)
  have bs: "bs = payload p @ write16 [] (?crc p) @ write16 [] 0xC5A4 @ write16 [] 0xD279"
    using wf ser by (rule serialize_frame)
  have "parse bs = Some (Inr p)" using parse_frame [OF wf, of "?crc p" "[]"] bs by (simp add: frame_payload)
  then have argc: "argc q = argc p" using parse_update_argc [OF q] i by blast
  have wfq: "wf_packet q" and "serialize q None = Some (take (getPacketSize q) (bs[i := b]))"
    using parse_prefix [OF q] by auto
  moreover have "getPacketSize q = length bs"
    using bs wf argc by (simp add: getPacketSize_def length_payload wf_packet_def)
  ultimately have bq: "bs[i := b] = payload q @ write16 [] (?crc q) @ write16 [] 0xC5A4 @ write16 [] 0xD279"
    using serialize_frame [OF wfq] by simp
  have len: "length (payload q) = length (payload p)"
    using wf wfq argc by (simp add: length_payload wf_packet_def)
  show False
  proof (cases "i < length (payload p)")
    case True
    then have "payload q = (payload p)[i := b]" "?crc q = ?crc p"
      using bq len unfolding bs by (simp_all add: list_update_append)
    then show False
      using True b crc8408_one_byte [of 0 "take i (payload p)" "payload p ! i" "drop (Suc i) (payload p)" b]
      by (simp add: upd_conv_take_nth_drop bs nth_append id_take_nth_drop [symmetric])
  next
    case False
    then have "payload q = payload p" using bq len unfolding bs by (simp add: list_update_append)
    then have "bs[i := b] = bs" using bq bs by simp
    then show False using i b by (metis nth_list_update_eq)
  qed
qed

section \<open>Properties\<close>

text \<open>
  whatever bytes arrive, \<open>parse\<close> returns a verdict (a packet or one of its error
  returns): every read it makes is inside of the buffer, although the first guard admits buffers
  of 12 bytes and the smallest frame has 14.
\<close>

theorem parse_total: "\<exists>verdict. parse data = Some verdict"
  using parse_in_bounds by auto

text \<open>
  C3: a well-formed packet is serialized to exactly \<open>getPacketSize\<close> bytes, and parsing
  these bytes, with anything behind them in the receive buffer, gives the packet back.
\<close>

theorem parse_serialize:
  assumes "wf_packet p"
  shows "\<exists>bs. serialize p None = Some bs \<and> length bs = getPacketSize p \<and>
    (\<forall>junk. parse (bs @ junk) = Some (Inr p))"
  using assms by (auto simp: serialize_eq parse_frame length_frame getPacketSize_def wf_packet_def)

theorem parse_serialize_witness:
  "wf_packet \<lparr>code = 0x5000, argc = 1, argv = [7]\<rparr> \<and>
   (\<exists>bs. serialize \<lparr>code = 0x5000, argc = 1, argv = [7]\<rparr> None = Some bs \<and> length bs = 18 \<and>
     (\<forall>junk. parse (bs @ junk) = Some (Inr \<lparr>code = 0x5000, argc = 1, argv = [7]\<rparr>)))"
  using parse_serialize [of "\<lparr>code = 0x5000, argc = 1, argv = [7]\<rparr>"]
  by (simp add: wf_packet_def getPacketSize_def)

text \<open>
  C31: conversely, whatever \<open>parse\<close> accepts starts with the serialization of the packet it
  returns, and that packet is well formed: no two frames of the accepted language denote the same
  packet, and none is accepted with a wrong header, argument count, checksum or footer.
\<close>

theorem parse_accepts_only_serializations:
  assumes "parse data = Some (Inr p)"
  shows "wf_packet p \<and> getPacketSize p \<le> length data \<and>
    serialize p None = Some (take (getPacketSize p) data)"
  using assms by (rule parse_prefix)

definition start_frame :: "u8 list" where
  "start_frame = [0xEB, 0x90, 0x5B, 0x6A, 0x50, 0x00, 0x00, 0x00, 0xD9, 0x12, 0xC5, 0xA4, 0xD2, 0x79]"

theorem parse_accepts_only_serializations_witness:
  "parse start_frame = Some (Inr \<lparr>code = 0x5000, argc = 0, argv = []\<rparr>) \<and>
   serialize \<lparr>code = 0x5000, argc = 0, argv = []\<rparr> None = Some start_frame"
proof -
  have h: "parse start_frame = Some (Inr \<lparr>code = 0x5000, argc = 0, argv = []\<rparr>)"
    by (simp add: start_frame_def parse_def read16_def read32_def rd_def rd_range_def argc_limits
        computeCRC16_CCITT_8408_def crc8408_byte_def crc8408_shift_def funpow_8 Let_def)
  show ?thesis using h parse_accepts_only_serializations [OF h]
    by (simp add: getPacketSize_def start_frame_def)
qed

text \<open>
  with a checksum imposed by the caller, the frame is accepted exactly when that checksum is
  the one of the contents; otherwise the receiver reports the mismatch with both values.
\<close>

theorem parse_serialize_fixed_crc:
  assumes "wf_packet p"
  shows "\<exists>bs crc. serialize p (Some c) = Some bs \<and>
    computeCRC16_CCITT_8408 bs (8 + unat (argc p) * 4) = Some crc \<and>
    parse bs = Some (if c = crc then Inr p else Inl (CrcMismatch c crc))"
proof -
  have "computeCRC16_CCITT_8408 (frame p c) (8 + unat (argc p) * 4) = Some (foldl crc8408_byte 0 (payload p))"
    using assms by (simp add: computeCRC16_CCITT_8408_def rd_range_def frame_payload length_payload wf_packet_def)
  then show ?thesis
    using parse_frame [OF assms, of c "[]"] by (simp add: serialize_eq [OF assms])
qed

theorem parse_serialize_fixed_crc_witness:
  "wf_packet \<lparr>code = 0x5000, argc = 0, argv = []\<rparr> \<and>
   (\<exists>bs crc. serialize \<lparr>code = 0x5000, argc = 0, argv = []\<rparr> (Some 0x1234) = Some bs \<and>
      computeCRC16_CCITT_8408 bs 8 = Some crc \<and>
      parse bs = Some (if 0x1234 = crc then Inr \<lparr>code = 0x5000, argc = 0, argv = []\<rparr>
                       else Inl (CrcMismatch 0x1234 crc)))"
  using parse_serialize_fixed_crc [of "\<lparr>code = 0x5000, argc = 0, argv = []\<rparr>" "0x1234"]
  by (simp add: wf_packet_def)

text \<open>
  C4: a frame in which any one byte has been changed, other than the two bytes of the argument
  count, is rejected.
\<close>

theorem parse_rejects_corrupted_byte:
  assumes "wf_packet p" "serialize p None = Some bs"
    and "i < length bs" "i \<noteq> 6" "i \<noteq> 7" "b \<noteq> bs ! i"
  shows "\<exists>e. parse (bs[i := b]) = Some (Inl e)"
  using assms by (rule parse_detects_corruption)

theorem parse_rejects_corrupted_byte_witness:
  "serialize \<lparr>code = 0x5000, argc = 0, argv = []\<rparr> None = Some start_frame \<and>
   (\<exists>e. parse (start_frame[5 := 0x01]) = Some (Inl e))"
proof -
  have wf: "wf_packet \<lparr>code = 0x5000, argc = 0, argv = []\<rparr>" by (simp add: wf_packet_def)
  have ser: "serialize \<lparr>code = 0x5000, argc = 0, argv = []\<rparr> None = Some start_frame"
    by (simp add: start_frame_def serialize_def write16_def rd_range_def
        computeCRC16_CCITT_8408_def crc8408_byte_def crc8408_shift_def funpow_8 Let_def)
  have "\<exists>e. parse (start_frame[5 := 0x01]) = Some (Inl e)"
    by (rule parse_rejects_corrupted_byte [OF wf ser]) (simp_all add: start_frame_def)
  with ser show ?thesis by blast
qed

text \<open>
  the checksum of a buffer changes whenever one or two neighbouring bytes of it change
  (any error burst of up to nine bits, and every longer one inside of two bytes).
\<close>

theorem crc8408_detects_adjacent_bytes:
  "computeCRC16_CCITT_8408 (xs @ a # b # ys) (length (xs @ a # b # ys)) =
   computeCRC16_CCITT_8408 (xs @ a' # b' # ys) (length (xs @ a' # b' # ys)) \<longleftrightarrow> a = a' \<and> b = b'"
  by (simp add: computeCRC16_CCITT_8408_def rd_range_def foldl_crc8408_inject crc8408_two_bytes)


end
