(* ===== verification/PayloadCodec.thy ===== *)
theory PayloadCodec
  imports CommandCodec
begin

text \<open>
  What the payload codecs (log records, histograms, graphs, parameters) promise to their
  clients, as a locale: the packet they build is well formed, and decoding it gives the value
  back. The client lemma is the delivery of a value over the link: it is encoded, serialized,
  received with other bytes behind it, parsed and decoded. The theory also holds the host's byte
  order, which \<open>memcpy\<close> between bytes and words exposes (little-endian).
\<close>

section \<open>The host's byte order\<close>

definition host_word :: "u8 list \<Rightarrow> u32" where
  "host_word bs = foldr (\<lambda>b w. ucast b OR push_bit 8 w) bs 0"

definition host_bytes :: "u32 \<Rightarrow> u8 list" where
  "host_bytes w = [ucast w, ucast (drop_bit 8 w), ucast (drop_bit 16 w), ucast (drop_bit 24 w)]"

text \<open>\<open>memcpy\<close> of a byte range into words that were zero before, and back.\<close>

definition words_of_bytes :: "u8 list \<Rightarrow> u32 list" where
  "words_of_bytes bs = map (\<lambda>i. host_word (take 4 (drop (i * 4) bs))) [0..<(length bs + 3) div 4]"

definition bytes_of_words :: "u32 list \<Rightarrow> u8 list" where
  "bytes_of_words ws = concat (map host_bytes ws)"

definition hi_word :: "u64 \<Rightarrow> u32" where
  "hi_word x = ucast (drop_bit 32 x)"

definition lo_word :: "u64 \<Rightarrow> u32" where
  "lo_word x = ucast (x AND 0xFFFFFFFF)"

definition join_words :: "u32 \<Rightarrow> u32 \<Rightarrow> u64" where
  "join_words hi lo = push_bit 32 (ucast hi) OR ucast lo"

lemma join_hi_lo [simp]: "join_words (hi_word x) (lo_word x) = x"
  by (rule bit_word_eqI) (auto simp: join_words_def hi_word_def lo_word_def bit_simps mask_simps)

lemma length_host_bytes [simp]: "length (host_bytes w) = 4"
  by (simp add: host_bytes_def)

lemma length_bytes_of_words [simp]: "length (bytes_of_words ws) = 4 * length ws"
  by (induction ws) (simp_all add: bytes_of_words_def)

lemma length_words_of_bytes [simp]: "length (words_of_bytes bs) = (length bs + 3) div 4"
  by (simp add: words_of_bytes_def)

lemma bytes_of_words_simps [simp]:
  "bytes_of_words [] = []" "bytes_of_words (w # ws) = host_bytes w @ bytes_of_words ws"
  by (simp_all add: bytes_of_words_def)

lemma host_bytes_word_4: "host_bytes (host_word [a, b, c, d]) = [a, b, c, d]"
  unfolding host_bytes_def host_word_def
  by (simp, intro conjI; rule bit_word_eqI; simp add: bit_simps)

lemma host_word_zeros: "host_word (bs @ replicate n 0) = host_word bs"
proof -
  have "foldr (\<lambda>b w. ucast b OR push_bit 8 w) (replicate n (0 :: u8)) 0 = (0 :: u32)"
    by (induction n) simp_all
  then show ?thesis by (simp add: host_word_def)
qed

lemma host_bytes_word:
  assumes "length bs \<le> 4"
  shows "host_bytes (host_word bs) = bs @ replicate (4 - length bs) 0"
proof -
  have "length (bs @ replicate (4 - length bs) 0) = 4" using assms by simp
  then obtain a b c d where l: "bs @ replicate (4 - length bs) 0 = [a, b, c, d]"
    unfolding length_4_conv by blast
  then show ?thesis using host_bytes_word_4 [of a b c d] host_word_zeros [of bs] by metis
qed

lemma words_of_bytes_step:
  "bs \<noteq> [] \<Longrightarrow> words_of_bytes bs = host_word (take 4 bs) # words_of_bytes (drop 4 bs)"
proof -
  assume "bs \<noteq> []"
  then have "0 < length bs" by simp
  then have n: "(length bs + 3) div 4 = Suc ((length (drop 4 bs) + 3) div 4)"
    unfolding length_drop by presburger
  show ?thesis
    unfolding words_of_bytes_def n map_upt_Suc by (simp add: add.commute)
qed

lemma bytes_words_bytes: "take (length bs) (bytes_of_words (words_of_bytes bs)) = bs"
proof (induction "length bs" arbitrary: bs rule: less_induct)
  case less
  show ?case
  proof (cases "bs = []")
    case False
    have b: "bytes_of_words (words_of_bytes bs) =
        take 4 bs @ replicate (4 - length (take 4 bs)) 0 @ bytes_of_words (words_of_bytes (drop 4 bs))"
      using False by (simp add: words_of_bytes_step host_bytes_word)
    show ?thesis
    proof (cases "length bs \<le> 4")
      case True
      then show ?thesis by (simp add: b)
    next
      case longer: False
      then have "take (length (drop 4 bs)) (bytes_of_words (words_of_bytes (drop 4 bs))) = drop 4 bs"
        using False by (intro less) auto
      then show ?thesis using longer by (simp add: b min_def)
    qed
  qed simp
qed

section \<open>The contract of a payload codec\<close>

locale payload_codec =
  fixes encode :: "'d \<Rightarrow> packet checked"
    and decode :: "packet \<Rightarrow> 'd option checked"
    and wf :: "'d \<Rightarrow> bool"
  assumes encode_wf: "wf d \<Longrightarrow> \<exists>p. encode d = Some p \<and> wf_packet p"
    and decode_encode: "wf d \<Longrightarrow> encode d = Some p \<Longrightarrow> decode p = Some (Some d)"
begin

lemma delivery:
  assumes "wf d"
  shows "\<exists>p bs. encode d = Some p \<and> serialize p None = Some bs \<and>
    (\<forall>junk. \<exists>q. parse (bs @ junk) = Some (Inr q) \<and> decode q = Some (Some d))"
proof -
  obtain p where p: "encode d = Some p" "wf_packet p" using encode_wf [OF assms] by blast
  then show ?thesis using decode_encode [OF assms p(1)] by (auto simp: serialize_eq parse_frame)
qed

lemma encode_inject: "wf d \<Longrightarrow> wf e \<Longrightarrow> encode d = encode e \<Longrightarrow> d = e"
  using decode_encode encode_wf by (metis option.inject)

end

end
