(* ===== verification/CommandDefs.thy ===== *)
theory CommandDefs
  imports Prelude
begin

text \<open>
  The command codes of the TOF system and their bridge to the codes of the payload hub:
  \<open>FlightOps/include/GRAMS_TOF_CommandDefs.h\<close> and
  \<open>FlightOps/external/shota/CommunicationCodes.hh\<close>.

  A scoped enumeration of C++ can hold every value of its underlying type, so
  \<open>TOFCommandCode\<close> has a constructor for each enumerator and \<open>Unnamed\<close> for a value
  without a name; \<open>of_u16\<close> is the \<open>static_cast\<close> from the wire value. Of the codes of
  the hub, the ones of the TOF subsystem, the heart beat and the four bounds of
  \<open>is_pdu_enable_commands\<close> are modelled (the program uses no other); they are compared
  through their values, as the bridge casts telemetry codes into the same type.
\<close>

section \<open>Codes of the TOF system\<close>

datatype (plugins only: code size) TOFCommandCode =
    START_DAQ
  | STOP_DAQ
  | RESET_DAQ
  | RECONNECT_NETWORK
  | INIT_SYSTEM
  | MAKE_BIAS_CALIB_TABLE
  | MAKE_SIMPLE_BIAS_SET_TABLE
  | MAKE_SIMPLE_CHANNEL_MAP
  | MAKE_SIMPLE_DISC_SET_TABLE
  | READ_TEMPERATURE_SENSORS
  | ACQUIRE_THRESHOLD_CALIBRATION
  | ACQUIRE_TDC_CALIBRATION
  | ACQUIRE_QDC_CALIBRATION
  | ACQUIRE_SIPM_DATA
  | ACQUIRE_THRESHOLD_CALIBRATION_BN
  | ACQUIRE_THRESHOLD_CALIBRATION_D
  | SET_FEM_POWER_OFF
  | SET_FEM_POWER_ON
  | START_ASIC_TEMP_RECORD
  | STOP_ASIC_TEMP_RECORD
  | READ_TEMPERATURE_SENSORS_SINGLE
  | SEND_PULSE_TRAIN
  | PROCESS_THRESHOLD_CALIBRATION
  | PROCESS_TDC_CALIBRATION
  | PROCESS_QDC_CALIBRATION
  | CONVERT_RAW_TO_RAW
  | CONVERT_RAW_TO_SINGLES
  | CONVERT_STG1_TO_STG2
  | PROCESS_QA_COIN
  | PROCESS_QA_IRIDIUM
  | MONITOR_DATA_STREAM
  | LOGGER_DATA_STREAM
  | MACRO_THERMAL_CALIB
  | MACRO_AUTO_RUN_SEQUENCE
  | MACRO_STAGE0_PREBREAKDOWN_BN
  | MACRO_STAGE1_UNBIASED_TDC
  | MACRO_STAGE2_PREBREAKDOWN_QDC
  | MACRO_STAGE3_OPERATIONAL_D
  | MACRO_AUTO_RUN_CYCLE
  | ACK
  | CALLBACK
  | STATUS
  | DUMMY_TEST
  | HEART_BEAT
  | UNKNOWN
  | Unnamed u16

primrec to_u16 :: "TOFCommandCode \<Rightarrow> u16" where
    "to_u16 START_DAQ = 0x5000"
  | "to_u16 STOP_DAQ = 0x5001"
  | "to_u16 RESET_DAQ = 0x5002"
  | "to_u16 RECONNECT_NETWORK = 0x5003"
  | "to_u16 INIT_SYSTEM = 0x5100"
  | "to_u16 MAKE_BIAS_CALIB_TABLE = 0x5101"
  | "to_u16 MAKE_SIMPLE_BIAS_SET_TABLE = 0x5102"
  | "to_u16 MAKE_SIMPLE_CHANNEL_MAP = 0x5103"
  | "to_u16 MAKE_SIMPLE_DISC_SET_TABLE = 0x5104"
  | "to_u16 READ_TEMPERATURE_SENSORS = 0x5105"
  | "to_u16 ACQUIRE_THRESHOLD_CALIBRATION = 0x5106"
  | "to_u16 ACQUIRE_TDC_CALIBRATION = 0x5107"
  | "to_u16 ACQUIRE_QDC_CALIBRATION = 0x5108"
  | "to_u16 ACQUIRE_SIPM_DATA = 0x5109"
  | "to_u16 ACQUIRE_THRESHOLD_CALIBRATION_BN = 0x510A"
  | "to_u16 ACQUIRE_THRESHOLD_CALIBRATION_D = 0x510B"
  | "to_u16 SET_FEM_POWER_OFF = 0x510C"
  | "to_u16 SET_FEM_POWER_ON = 0x510D"
  | "to_u16 START_ASIC_TEMP_RECORD = 0x510E"
  | "to_u16 STOP_ASIC_TEMP_RECORD = 0x510F"
  | "to_u16 READ_TEMPERATURE_SENSORS_SINGLE = 0x5110"
  | "to_u16 SEND_PULSE_TRAIN = 0x5111"
  | "to_u16 PROCESS_THRESHOLD_CALIBRATION = 0x5200"
  | "to_u16 PROCESS_TDC_CALIBRATION = 0x5201"
  | "to_u16 PROCESS_QDC_CALIBRATION = 0x5202"
  | "to_u16 CONVERT_RAW_TO_RAW = 0x5203"
  | "to_u16 CONVERT_RAW_TO_SINGLES = 0x5204"
  | "to_u16 CONVERT_STG1_TO_STG2 = 0x5300"
  | "to_u16 PROCESS_QA_COIN = 0x5301"
  | "to_u16 PROCESS_QA_IRIDIUM = 0x5302"
  | "to_u16 MONITOR_DATA_STREAM = 0x5400"
  | "to_u16 LOGGER_DATA_STREAM = 0x5401"
  | "to_u16 MACRO_THERMAL_CALIB = 0x5500"
  | "to_u16 MACRO_AUTO_RUN_SEQUENCE = 0x5501"
  | "to_u16 MACRO_STAGE0_PREBREAKDOWN_BN = 0x5600"
  | "to_u16 MACRO_STAGE1_UNBIASED_TDC = 0x5601"
  | "to_u16 MACRO_STAGE2_PREBREAKDOWN_QDC = 0x5602"
  | "to_u16 MACRO_STAGE3_OPERATIONAL_D = 0x5603"
  | "to_u16 MACRO_AUTO_RUN_CYCLE = 0x5700"
  | "to_u16 ACK = 0x5FFF"
  | "to_u16 CALLBACK = 0x5FFE"
  | "to_u16 STATUS = 0x5FFD"
  | "to_u16 DUMMY_TEST = 0x5FFC"
  | "to_u16 HEART_BEAT = 0xFFFF"
  | "to_u16 UNKNOWN = 0x0000"
  | "to_u16 (Unnamed w) = w"

definition named_codes :: "TOFCommandCode list" where
  "named_codes = [START_DAQ,
     STOP_DAQ,
     RESET_DAQ,
     RECONNECT_NETWORK,
     INIT_SYSTEM,
     MAKE_BIAS_CALIB_TABLE,
     MAKE_SIMPLE_BIAS_SET_TABLE,
     MAKE_SIMPLE_CHANNEL_MAP,
     MAKE_SIMPLE_DISC_SET_TABLE,
     READ_TEMPERATURE_SENSORS,
     ACQUIRE_THRESHOLD_CALIBRATION,
     ACQUIRE_TDC_CALIBRATION,
     ACQUIRE_QDC_CALIBRATION,
     ACQUIRE_SIPM_DATA,
     ACQUIRE_THRESHOLD_CALIBRATION_BN,
     ACQUIRE_THRESHOLD_CALIBRATION_D,
     SET_FEM_POWER_OFF,
     SET_FEM_POWER_ON,
     START_ASIC_TEMP_RECORD,
     STOP_ASIC_TEMP_RECORD,
     READ_TEMPERATURE_SENSORS_SINGLE,
     SEND_PULSE_TRAIN,
     PROCESS_THRESHOLD_CALIBRATION,
     PROCESS_TDC_CALIBRATION,
     PROCESS_QDC_CALIBRATION,
     CONVERT_RAW_TO_RAW,
     CONVERT_RAW_TO_SINGLES,
     CONVERT_STG1_TO_STG2,
     PROCESS_QA_COIN,
     PROCESS_QA_IRIDIUM,
     MONITOR_DATA_STREAM,
     LOGGER_DATA_STREAM,
     MACRO_THERMAL_CALIB,
     MACRO_AUTO_RUN_SEQUENCE,
     MACRO_STAGE0_PREBREAKDOWN_BN,
     MACRO_STAGE1_UNBIASED_TDC,
     MACRO_STAGE2_PREBREAKDOWN_QDC,
     MACRO_STAGE3_OPERATIONAL_D,
     MACRO_AUTO_RUN_CYCLE,
     ACK,
     CALLBACK,
     STATUS,
     DUMMY_TEST,
     HEART_BEAT,
     UNKNOWN]"

definition of_u16 :: "u16 \<Rightarrow> TOFCommandCode" where
  "of_u16 w = (case find (\<lambda>c. to_u16 c = w) named_codes of Some c \<Rightarrow> c | None \<Rightarrow> Unnamed w)"

datatype AckStatus = FAILURE | SUCCESS

primrec ack_u8 :: "AckStatus \<Rightarrow> u8" where
    "ack_u8 FAILURE = 0"
  | "ack_u8 SUCCESS = 1"

text \<open>The stream operator: the name that the log shows.\<close>

fun code_name :: "TOFCommandCode \<Rightarrow> string" where
    "code_name START_DAQ = ''START_DAQ''"
  | "code_name STOP_DAQ = ''STOP_DAQ''"
  | "code_name RESET_DAQ = ''RESET_DAQ''"
  | "code_name RECONNECT_NETWORK = ''RECONNECT_NETWORK''"
  | "code_name INIT_SYSTEM = ''INIT_SYSTEM''"
  | "code_name MAKE_BIAS_CALIB_TABLE = ''MAKE_BIAS_CALIB_TABLE''"
  | "code_name MAKE_SIMPLE_BIAS_SET_TABLE = ''MAKE_SIMPLE_BIAS_SET_TABLE''"
  | "code_name MAKE_SIMPLE_CHANNEL_MAP = ''MAKE_SIMPLE_CHANNEL_MAP''"
  | "code_name MAKE_SIMPLE_DISC_SET_TABLE = ''MAKE_SIMPLE_DISC_SET_TABLE''"
  | "code_name READ_TEMPERATURE_SENSORS = ''READ_TEMPERATURE_SENSORS''"
  | "code_name ACQUIRE_THRESHOLD_CALIBRATION = ''ACQUIRE_THRESHOLD_CALIBRATION''"
  | "code_name ACQUIRE_TDC_CALIBRATION = ''ACQUIRE_TDC_CALIBRATION''"
  | "code_name ACQUIRE_QDC_CALIBRATION = ''ACQUIRE_QDC_CALIBRATION''"
  | "code_name ACQUIRE_SIPM_DATA = ''ACQUIRE_SIPM_DATA''"
  | "code_name ACQUIRE_THRESHOLD_CALIBRATION_BN = ''ACQUIRE_THRESHOLD_CALIBRATION_BN''"
  | "code_name ACQUIRE_THRESHOLD_CALIBRATION_D = ''ACQUIRE_THRESHOLD_CALIBRATION_D''"
  | "code_name SET_FEM_POWER_OFF = ''SET_FEM_POWER_OFF''"
  | "code_name SET_FEM_POWER_ON = ''SET_FEM_POWER_ON''"
  | "code_name START_ASIC_TEMP_RECORD = ''START_ASIC_TEMP_RECORD''"
  | "code_name STOP_ASIC_TEMP_RECORD = ''STOP_ASIC_TEMP_RECORD''"
  | "code_name READ_TEMPERATURE_SENSORS_SINGLE = ''READ_TEMPERATURE_SENSORS_SINGLE''"
  | "code_name SEND_PULSE_TRAIN = ''SEND_PULSE_TRAIN''"
  | "code_name PROCESS_THRESHOLD_CALIBRATION = ''PROCESS_THRESHOLD_CALIBRATION''"
  | "code_name PROCESS_TDC_CALIBRATION = ''PROCESS_TDC_CALIBRATION''"
  | "code_name PROCESS_QDC_CALIBRATION = ''PROCESS_QDC_CALIBRATION''"
  | "code_name CONVERT_RAW_TO_RAW = ''CONVERT_RAW_TO_RAW''"
  | "code_name CONVERT_RAW_TO_SINGLES = ''CONVERT_RAW_TO_SINGLES''"
  | "code_name CONVERT_STG1_TO_STG2 = ''CONVERT_STG1_TO_STG2''"
  | "code_name PROCESS_QA_COIN = ''PROCESS_QA_COIN''"
  | "code_name PROCESS_QA_IRIDIUM = ''PROCESS_QA_IRIDIUM''"
  | "code_name MONITOR_DATA_STREAM = ''MONITOR_DATA_STREAM''"
  | "code_name LOGGER_DATA_STREAM = ''LOGGER_DATA_STREAM''"
  | "code_name MACRO_THERMAL_CALIB = ''MACRO_THERMAL_CALIB''"
  | "code_name MACRO_AUTO_RUN_SEQUENCE = ''MACRO_AUTO_RUN_SEQUENCE''"
  | "code_name MACRO_STAGE0_PREBREAKDOWN_BN = ''MACRO_STAGE0_PREBREAKDOWN_BN''"
  | "code_name MACRO_STAGE1_UNBIASED_TDC = ''MACRO_STAGE1_UNBIASED_TDC''"
  | "code_name MACRO_STAGE2_PREBREAKDOWN_QDC = ''MACRO_STAGE2_PREBREAKDOWN_QDC''"
  | "code_name MACRO_STAGE3_OPERATIONAL_D = ''MACRO_STAGE3_OPERATIONAL_D''"
  | "code_name MACRO_AUTO_RUN_CYCLE = ''MACRO_AUTO_RUN_CYCLE''"
  | "code_name ACK = ''ACK''"
  | "code_name CALLBACK = ''CALLBACK''"
  | "code_name STATUS = ''STATUS''"
  | "code_name DUMMY_TEST = ''DUMMY_TEST''"
  | "code_name HEART_BEAT = ''HEART_BEAT''"
  | "code_name _ = ''UNKNOWN''"

section \<open>Codes of the hub\<close>

definition construct_code :: "u16 \<Rightarrow> u16 \<Rightarrow> u16" where
  "construct_code c subsystem_mask = c + subsystem_mask"

definition COM_SUBSYSTEM_HUB_MSK :: u16 where
  "COM_SUBSYSTEM_HUB_MSK = 0x1000"

definition COM_SUBSYSTEM_PDU_MSK :: u16 where
  "COM_SUBSYSTEM_PDU_MSK = 0x2000"

definition COM_SUBSYSTEM_ORC_MSK :: u16 where
  "COM_SUBSYSTEM_ORC_MSK = 0x3000"

definition COM_SUBSYSTEM_TPC_MSK :: u16 where
  "COM_SUBSYSTEM_TPC_MSK = 0x4000"

definition COM_SUBSYSTEM_TOF_MSK :: u16 where
  "COM_SUBSYSTEM_TOF_MSK = 0x5000"

definition COM_SUBSYSTEM_TOF_BIAS_MSK :: u16 where
  "COM_SUBSYSTEM_TOF_BIAS_MSK = 0x6000"

definition COM_SUBSYSTEM_CMN_MSK :: u16 where
  "COM_SUBSYSTEM_CMN_MSK = 0x7000"

definition COM_SUBSYSTEM_TPCMonitor_MSK :: u16 where
  "COM_SUBSYSTEM_TPCMonitor_MSK = 0x8000"

definition COM_SUBSYSTEM_MSK :: u16 where
  "COM_SUBSYSTEM_MSK = 0xF000"

datatype (plugins only: code size) CommunicationCodes =
    COM_HeartBeat
  | PDU_Cold_TPC_HV_ON
  | PDU_DAQ_CPU_OFF
  | PDU_SiPM_0_ON
  | PDU_Tof_OFF
  | TOF_Start_DAQ
  | TOF_Stop_DAQ
  | TOF_Reset_DAQ
  | TOF_Reconnect_Network
  | TOF_Init_System
  | TOF_Make_Bias_Calib_Table
  | TOF_Make_Simple_Bias_Set_Table
  | TOF_Make_Simple_Channel_Map
  | TOF_Make_Simple_Disc_Set_Table
  | TOF_Read_Temperature_Sensors
  | TOF_Acquire_Threshold_Calibration
  | TOF_Acquire_TDC_Calibration
  | TOF_Acquire_QDC_Calibration
  | TOF_Acquire_SiPM_Data
  | TOF_Acquire_Threshold_Calibration_BN
  | TOF_Acquire_Threshold_Calibration_D
  | TOF_Set_FEM_Power_Off
  | TOF_Set_FEM_Power_On
  | TOF_Start_Asic_Temp_Record
  | TOF_Stop_Asic_Temp_Record
  | TOF_Read_Temperature_Sensors_Single
  | TOF_Send_Pulse_Train
  | TOF_Process_Threshold_Calibration
  | TOF_Process_TDC_Calibration
  | TOF_Process_QDC_Calibration
  | TOF_Convert_Raw_To_Raw
  | TOF_Convert_Raw_To_Singles
  | TOF_Convert_Stg1_To_Stg2
  | TOF_Process_QA_Coin
  | TOF_Process_QA_Iridium
  | TOF_Macro_Thermal_Calib
  | TOF_Macro_Auto_Run_Sequence
  | TOF_Macro_Stage0_Prebreakdown_BN
  | TOF_Macro_Stage1_Unbiased_TDC
  | TOF_Macro_Stage2_Prebreakdown_QDC
  | TOF_Macro_Stage3_Operational_D
  | TOF_Macro_Auto_Run_Cycle
  | TOF_ACK
  | TOF_Callback
  | TOF_Status
  | TOF_DummyTest

primrec comm_u16 :: "CommunicationCodes \<Rightarrow> u16" where
    "comm_u16 COM_HeartBeat = 0xFFFF"
  | "comm_u16 PDU_Cold_TPC_HV_ON = construct_code 0x0 COM_SUBSYSTEM_PDU_MSK"
  | "comm_u16 PDU_DAQ_CPU_OFF = construct_code (0x10 + 0x1) COM_SUBSYSTEM_PDU_MSK"
  | "comm_u16 PDU_SiPM_0_ON = construct_code 0x19 COM_SUBSYSTEM_PDU_MSK"
  | "comm_u16 PDU_Tof_OFF = construct_code (0x25 + 0x1) COM_SUBSYSTEM_PDU_MSK"
  | "comm_u16 TOF_Start_DAQ = construct_code 0x0 COM_SUBSYSTEM_TOF_MSK"
  | "comm_u16 TOF_Stop_DAQ = construct_code 0x1 COM_SUBSYSTEM_TOF_MSK"
  | "comm_u16 TOF_Reset_DAQ = construct_code 0x2 COM_SUBSYSTEM_TOF_MSK"
  | "comm_u16 TOF_Reconnect_Network = construct_code 0x3 COM_SUBSYSTEM_TOF_MSK"
  | "comm_u16 TOF_Init_System = construct_code 0x100 COM_SUBSYSTEM_TOF_MSK"
  | "comm_u16 TOF_Make_Bias_Calib_Table = construct_code 0x101 COM_SUBSYSTEM_TOF_MSK"
  | "comm_u16 TOF_Make_Simple_Bias_Set_Table = construct_code 0x102 COM_SUBSYSTEM_TOF_MSK"
  | "comm_u16 TOF_Make_Simple_Channel_Map = construct_code 0x103 COM_SUBSYSTEM_TOF_MSK"
  | "comm_u16 TOF_Make_Simple_Disc_Set_Table = construct_code 0x104 COM_SUBSYSTEM_TOF_MSK"
  | "comm_u16 TOF_Read_Temperature_Sensors = construct_code 0x105 COM_SUBSYSTEM_TOF_MSK"
  | "comm_u16 TOF_Acquire_Threshold_Calibration = construct_code 0x106 COM_SUBSYSTEM_TOF_MSK"
  | "comm_u16 TOF_Acquire_TDC_Calibration = construct_code 0x107 COM_SUBSYSTEM_TOF_MSK"
  | "comm_u16 TOF_Acquire_QDC_Calibration = construct_code 0x108 COM_SUBSYSTEM_TOF_MSK"
  | "comm_u16 TOF_Acquire_SiPM_Data = construct_code 0x109 COM_SUBSYSTEM_TOF_MSK"
  | "comm_u16 TOF_Acquire_Threshold_Calibration_BN = construct_code 0x10A COM_SUBSYSTEM_TOF_MSK"
  | "comm_u16 TOF_Acquire_Threshold_Calibration_D = construct_code 0x10B COM_SUBSYSTEM_TOF_MSK"
  | "comm_u16 TOF_Set_FEM_Power_Off = construct_code 0x10C COM_SUBSYSTEM_TOF_MSK"
  | "comm_u16 TOF_Set_FEM_Power_On = construct_code 0x10D COM_SUBSYSTEM_TOF_MSK"
  | "comm_u16 TOF_Start_Asic_Temp_Record = construct_code 0x10E COM_SUBSYSTEM_TOF_MSK"
  | "comm_u16 TOF_Stop_Asic_Temp_Record = construct_code 0x10F COM_SUBSYSTEM_TOF_MSK"
  | "comm_u16 TOF_Read_Temperature_Sensors_Single = construct_code 0x110 COM_SUBSYSTEM_TOF_MSK"
  | "comm_u16 TOF_Send_Pulse_Train = construct_code 0x111 COM_SUBSYSTEM_TOF_MSK"
  | "comm_u16 TOF_Process_Threshold_Calibration = construct_code 0x200 COM_SUBSYSTEM_TOF_MSK"
  | "comm_u16 TOF_Process_TDC_Calibration = construct_code 0x201 COM_SUBSYSTEM_TOF_MSK"
  | "comm_u16 TOF_Process_QDC_Calibration = construct_code 0x202 COM_SUBSYSTEM_TOF_MSK"
  | "comm_u16 TOF_Convert_Raw_To_Raw = construct_code 0x203 COM_SUBSYSTEM_TOF_MSK"
  | "comm_u16 TOF_Convert_Raw_To_Singles = construct_code 0x204 COM_SUBSYSTEM_TOF_MSK"
  | "comm_u16 TOF_Convert_Stg1_To_Stg2 = construct_code 0x300 COM_SUBSYSTEM_TOF_MSK"
  | "comm_u16 TOF_Process_QA_Coin = construct_code 0x301 COM_SUBSYSTEM_TOF_MSK"
  | "comm_u16 TOF_Process_QA_Iridium = construct_code 0x302 COM_SUBSYSTEM_TOF_MSK"
  | "comm_u16 TOF_Macro_Thermal_Calib = construct_code 0x500 COM_SUBSYSTEM_TOF_MSK"
  | "comm_u16 TOF_Macro_Auto_Run_Sequence = construct_code 0x501 COM_SUBSYSTEM_TOF_MSK"
  | "comm_u16 TOF_Macro_Stage0_Prebreakdown_BN = construct_code 0x600 COM_SUBSYSTEM_TOF_MSK"
  | "comm_u16 TOF_Macro_Stage1_Unbiased_TDC = construct_code 0x601 COM_SUBSYSTEM_TOF_MSK"
  | "comm_u16 TOF_Macro_Stage2_Prebreakdown_QDC = construct_code 0x602 COM_SUBSYSTEM_TOF_MSK"
  | "comm_u16 TOF_Macro_Stage3_Operational_D = construct_code 0x603 COM_SUBSYSTEM_TOF_MSK"
  | "comm_u16 TOF_Macro_Auto_Run_Cycle = construct_code 0x700 COM_SUBSYSTEM_TOF_MSK"
  | "comm_u16 TOF_ACK = construct_code 0xFFF COM_SUBSYSTEM_TOF_MSK"
  | "comm_u16 TOF_Callback = construct_code 0xFFE COM_SUBSYSTEM_TOF_MSK"
  | "comm_u16 TOF_Status = construct_code 0xFFD COM_SUBSYSTEM_TOF_MSK"
  | "comm_u16 TOF_DummyTest = construct_code 0xFFC COM_SUBSYSTEM_TOF_MSK"

datatype TelemetryCodes =
    HUB_Telemetry_Normal
  | ORC_Hardware_Status
  | TPC_Hardware_Status
  | TPC_Query_Hardware_Status
  | TOF_Monitor_Data_Stream
  | TOF_Logger_Data_Stream

primrec to_telem_u16 :: "TelemetryCodes \<Rightarrow> u16" where
    "to_telem_u16 HUB_Telemetry_Normal = construct_code 0x0 COM_SUBSYSTEM_HUB_MSK"
  | "to_telem_u16 ORC_Hardware_Status = construct_code 0x20 COM_SUBSYSTEM_ORC_MSK"
  | "to_telem_u16 TPC_Hardware_Status = construct_code 0x20 COM_SUBSYSTEM_TPC_MSK"
  | "to_telem_u16 TPC_Query_Hardware_Status = construct_code 0x22 COM_SUBSYSTEM_TPC_MSK"
  | "to_telem_u16 TOF_Monitor_Data_Stream = construct_code 0x400 COM_SUBSYSTEM_TOF_MSK"
  | "to_telem_u16 TOF_Logger_Data_Stream = construct_code 0x401 COM_SUBSYSTEM_TOF_MSK"

definition isSubsystem :: "u16 \<Rightarrow> u16 \<Rightarrow> bool" where
  "isSubsystem c subsystem_mask \<longleftrightarrow> c AND COM_SUBSYSTEM_MSK = subsystem_mask"

definition is_pdu_enable_commands :: "u16 \<Rightarrow> bool" where
  "is_pdu_enable_commands c =
     (if \<not> isSubsystem c COM_SUBSYSTEM_PDU_MSK then False
      else if comm_u16 PDU_Cold_TPC_HV_ON \<le> c \<and> c \<le> comm_u16 PDU_DAQ_CPU_OFF then True
      else if comm_u16 PDU_SiPM_0_ON \<le> c \<and> c \<le> comm_u16 PDU_Tof_OFF then True
      else False)"

section \<open>The bridge\<close>

fun toCommCode :: "TOFCommandCode \<Rightarrow> u16" where
    "toCommCode START_DAQ = comm_u16 TOF_Start_DAQ"
  | "toCommCode STOP_DAQ = comm_u16 TOF_Stop_DAQ"
  | "toCommCode RESET_DAQ = comm_u16 TOF_Reset_DAQ"
  | "toCommCode RECONNECT_NETWORK = comm_u16 TOF_Reconnect_Network"
  | "toCommCode INIT_SYSTEM = comm_u16 TOF_Init_System"
  | "toCommCode MAKE_BIAS_CALIB_TABLE = comm_u16 TOF_Make_Bias_Calib_Table"
  | "toCommCode MAKE_SIMPLE_BIAS_SET_TABLE = comm_u16 TOF_Make_Simple_Bias_Set_Table"
  | "toCommCode MAKE_SIMPLE_CHANNEL_MAP = comm_u16 TOF_Make_Simple_Channel_Map"
  | "toCommCode MAKE_SIMPLE_DISC_SET_TABLE = comm_u16 TOF_Make_Simple_Disc_Set_Table"
  | "toCommCode READ_TEMPERATURE_SENSORS = comm_u16 TOF_Read_Temperature_Sensors"
  | "toCommCode ACQUIRE_THRESHOLD_CALIBRATION = comm_u16 TOF_Acquire_Threshold_Calibration"
  | "toCommCode ACQUIRE_TDC_CALIBRATION = comm_u16 TOF_Acquire_TDC_Calibration"
  | "toCommCode ACQUIRE_QDC_CALIBRATION = comm_u16 TOF_Acquire_QDC_Calibration"
  | "toCommCode ACQUIRE_SIPM_DATA = comm_u16 TOF_Acquire_SiPM_Data"
  | "toCommCode ACQUIRE_THRESHOLD_CALIBRATION_BN = comm_u16 TOF_Acquire_Threshold_Calibration_BN"
  | "toCommCode ACQUIRE_THRESHOLD_CALIBRATION_D = comm_u16 TOF_Acquire_Threshold_Calibration_D"
  | "toCommCode SET_FEM_POWER_OFF = comm_u16 TOF_Set_FEM_Power_Off"
  | "toCommCode SET_FEM_POWER_ON = comm_u16 TOF_Set_FEM_Power_On"
  | "toCommCode START_ASIC_TEMP_RECORD = comm_u16 TOF_Start_Asic_Temp_Record"
  | "toCommCode STOP_ASIC_TEMP_RECORD = comm_u16 TOF_Stop_Asic_Temp_Record"
  | "toCommCode READ_TEMPERATURE_SENSORS_SINGLE = comm_u16 TOF_Read_Temperature_Sensors_Single"
  | "toCommCode SEND_PULSE_TRAIN = comm_u16 TOF_Send_Pulse_Train"
  | "toCommCode PROCESS_THRESHOLD_CALIBRATION = comm_u16 TOF_Process_Threshold_Calibration"
  | "toCommCode PROCESS_TDC_CALIBRATION = comm_u16 TOF_Process_TDC_Calibration"
  | "toCommCode PROCESS_QDC_CALIBRATION = comm_u16 TOF_Process_QDC_Calibration"
  | "toCommCode CONVERT_RAW_TO_RAW = comm_u16 TOF_Convert_Raw_To_Raw"
  | "toCommCode CONVERT_RAW_TO_SINGLES = comm_u16 TOF_Convert_Raw_To_Singles"
  | "toCommCode CONVERT_STG1_TO_STG2 = comm_u16 TOF_Convert_Stg1_To_Stg2"
  | "toCommCode PROCESS_QA_COIN = comm_u16 TOF_Process_QA_Coin"
  | "toCommCode PROCESS_QA_IRIDIUM = comm_u16 TOF_Process_QA_Iridium"
  | "toCommCode MONITOR_DATA_STREAM = to_telem_u16 TOF_Monitor_Data_Stream"
  | "toCommCode LOGGER_DATA_STREAM = to_telem_u16 TOF_Logger_Data_Stream"
  | "toCommCode MACRO_THERMAL_CALIB = comm_u16 TOF_Macro_Thermal_Calib"
  | "toCommCode MACRO_AUTO_RUN_SEQUENCE = comm_u16 TOF_Macro_Auto_Run_Sequence"
  | "toCommCode MACRO_STAGE0_PREBREAKDOWN_BN = comm_u16 TOF_Macro_Stage0_Prebreakdown_BN"
  | "toCommCode MACRO_STAGE1_UNBIASED_TDC = comm_u16 TOF_Macro_Stage1_Unbiased_TDC"
  | "toCommCode MACRO_STAGE2_PREBREAKDOWN_QDC = comm_u16 TOF_Macro_Stage2_Prebreakdown_QDC"
  | "toCommCode MACRO_STAGE3_OPERATIONAL_D = comm_u16 TOF_Macro_Stage3_Operational_D"
  | "toCommCode MACRO_AUTO_RUN_CYCLE = comm_u16 TOF_Macro_Auto_Run_Cycle"
  | "toCommCode ACK = comm_u16 TOF_ACK"
  | "toCommCode CALLBACK = comm_u16 TOF_Callback"
  | "toCommCode DUMMY_TEST = comm_u16 TOF_DummyTest"
  | "toCommCode HEART_BEAT = comm_u16 COM_HeartBeat"
  | "toCommCode _ = comm_u16 TOF_Status"

definition bridge_cases :: "(u16 \<times> TOFCommandCode) list" where
  "bridge_cases = [
     (comm_u16 TOF_Start_DAQ, START_DAQ),
     (comm_u16 TOF_Stop_DAQ, STOP_DAQ),
     (comm_u16 TOF_Reset_DAQ, RESET_DAQ),
     (comm_u16 TOF_Reconnect_Network, RECONNECT_NETWORK),
     (comm_u16 TOF_Init_System, INIT_SYSTEM),
     (comm_u16 TOF_Make_Bias_Calib_Table, MAKE_BIAS_CALIB_TABLE),
     (comm_u16 TOF_Make_Simple_Bias_Set_Table, MAKE_SIMPLE_BIAS_SET_TABLE),
     (comm_u16 TOF_Make_Simple_Channel_Map, MAKE_SIMPLE_CHANNEL_MAP),
     (comm_u16 TOF_Make_Simple_Disc_Set_Table, MAKE_SIMPLE_DISC_SET_TABLE),
     (comm_u16 TOF_Read_Temperature_Sensors, READ_TEMPERATURE_SENSORS),
     (comm_u16 TOF_Acquire_Threshold_Calibration, ACQUIRE_THRESHOLD_CALIBRATION),
     (comm_u16 TOF_Acquire_TDC_Calibration, ACQUIRE_TDC_CALIBRATION),
     (comm_u16 TOF_Acquire_QDC_Calibration, ACQUIRE_QDC_CALIBRATION),
     (comm_u16 TOF_Acquire_SiPM_Data, ACQUIRE_SIPM_DATA),
     (comm_u16 TOF_Acquire_Threshold_Calibration_BN, ACQUIRE_THRESHOLD_CALIBRATION_BN),
     (comm_u16 TOF_Acquire_Threshold_Calibration_D, ACQUIRE_THRESHOLD_CALIBRATION_D),
     (comm_u16 TOF_Set_FEM_Power_Off, SET_FEM_POWER_OFF),
     (comm_u16 TOF_Set_FEM_Power_On, SET_FEM_POWER_ON),
     (comm_u16 TOF_Start_Asic_Temp_Record, START_ASIC_TEMP_RECORD),
     (comm_u16 TOF_Stop_Asic_Temp_Record, STOP_ASIC_TEMP_RECORD),
     (comm_u16 TOF_Read_Temperature_Sensors_Single, READ_TEMPERATURE_SENSORS_SINGLE),
     (comm_u16 TOF_Send_Pulse_Train, SEND_PULSE_TRAIN),
     (comm_u16 TOF_Process_Threshold_Calibration, PROCESS_THRESHOLD_CALIBRATION),
     (comm_u16 TOF_Process_TDC_Calibration, PROCESS_TDC_CALIBRATION),
     (comm_u16 TOF_Process_QDC_Calibration, PROCESS_QDC_CALIBRATION),
     (comm_u16 TOF_Convert_Raw_To_Raw, CONVERT_RAW_TO_RAW),
     (comm_u16 TOF_Convert_Raw_To_Singles, CONVERT_RAW_TO_SINGLES),
     (comm_u16 TOF_Convert_Stg1_To_Stg2, CONVERT_STG1_TO_STG2),
     (comm_u16 TOF_Process_QA_Coin, PROCESS_QA_COIN),
     (comm_u16 TOF_Process_QA_Iridium, PROCESS_QA_IRIDIUM),
     (to_telem_u16 TOF_Monitor_Data_Stream, MONITOR_DATA_STREAM),
     (to_telem_u16 TOF_Logger_Data_Stream, LOGGER_DATA_STREAM),
     (comm_u16 TOF_Macro_Thermal_Calib, MACRO_THERMAL_CALIB),
     (comm_u16 TOF_Macro_Auto_Run_Sequence, MACRO_AUTO_RUN_SEQUENCE),
     (comm_u16 TOF_Macro_Stage0_Prebreakdown_BN, MACRO_STAGE0_PREBREAKDOWN_BN),
     (comm_u16 TOF_Macro_Stage1_Unbiased_TDC, MACRO_STAGE1_UNBIASED_TDC),
     (comm_u16 TOF_Macro_Stage2_Prebreakdown_QDC, MACRO_STAGE2_PREBREAKDOWN_QDC),
     (comm_u16 TOF_Macro_Stage3_Operational_D, MACRO_STAGE3_OPERATIONAL_D),
     (comm_u16 TOF_Macro_Auto_Run_Cycle, MACRO_AUTO_RUN_CYCLE),
     (comm_u16 TOF_ACK, ACK),
     (comm_u16 TOF_Callback, CALLBACK),
     (comm_u16 TOF_DummyTest, DUMMY_TEST),
     (comm_u16 COM_HeartBeat, HEART_BEAT)]"

text \<open>The cases of the switch are distinct values, so its first match is its only one.\<close>

definition toTOFCommand :: "u16 \<Rightarrow> TOFCommandCode" where
  "toTOFCommand w = (case map_of bridge_cases w of Some c \<Rightarrow> c | None \<Rightarrow> UNKNOWN)"

text \<open>The codes that the bridge carries in both directions.\<close>

definition bridged :: "TOFCommandCode \<Rightarrow> bool" where
  "bridged c \<longleftrightarrow> c \<in> set named_codes \<and> c \<noteq> STATUS \<and> c \<noteq> UNKNOWN"

section \<open>Lemmas\<close>

lemmas comm_code_defs = construct_code_def COM_SUBSYSTEM_HUB_MSK_def COM_SUBSYSTEM_PDU_MSK_def
  COM_SUBSYSTEM_ORC_MSK_def COM_SUBSYSTEM_TPC_MSK_def COM_SUBSYSTEM_TOF_MSK_def
  COM_SUBSYSTEM_TOF_BIAS_MSK_def COM_SUBSYSTEM_CMN_MSK_def COM_SUBSYSTEM_TPCMonitor_MSK_def
  COM_SUBSYSTEM_MSK_def

lemma distinct_codes: "distinct (map to_u16 named_codes)"
  by (simp add: named_codes_def)

lemma inj_on_to_u16: "inj_on to_u16 (set named_codes)"
  using distinct_codes by (simp add: distinct_map)

lemma to_u16_of_u16: "to_u16 (of_u16 w) = w"
  by (auto simp: of_u16_def find_Some_iff split: option.splits)

lemma of_u16_to_u16:
  assumes "c \<in> set named_codes"
  shows "of_u16 (to_u16 c) = c"
proof -
  obtain d where d: "find (\<lambda>d. to_u16 d = to_u16 c) named_codes = Some d"
    using assms find_None_iff [of "\<lambda>d. to_u16 d = to_u16 c" named_codes] by fastforce
  then have "d \<in> set named_codes" "to_u16 d = to_u16 c" by (auto simp: find_Some_iff)
  then have "d = c" using assms inj_onD [OF inj_on_to_u16] by blast
  with d show ?thesis by (simp add: of_u16_def)
qed

lemma named_or_Unnamed: "c \<in> set named_codes \<or> (\<exists>w. c = Unnamed w)"
  by (cases c) (simp_all add: named_codes_def)

lemma bridge_cases_eq: "bridge_cases = map (\<lambda>c. (to_u16 c, c)) (map snd bridge_cases)"
  by (simp add: bridge_cases_def comm_code_defs)

lemma bridged_set: "set (map snd bridge_cases) = {c. bridged c}"
  by (auto simp: bridge_cases_def bridged_def named_codes_def)

lemma map_of_keyed:
  "map_of (map (\<lambda>c. (f c, c)) cs) w = Some c \<Longrightarrow> c \<in> set cs \<and> f c = w"
  by (induction cs) (auto split: if_splits)

lemma map_of_keyed_None: "map_of (map (\<lambda>c. (f c, c)) cs) w = None \<longleftrightarrow> w \<notin> f ` set cs"
  by (induction cs) (auto split: if_splits)

lemma toTOFCommand_eq:
  "toTOFCommand w = (if bridged (of_u16 w) then of_u16 w else UNKNOWN)"
proof -
  obtain cs where cs: "bridge_cases = map (\<lambda>c. (to_u16 c, c)) cs" "set cs = {c. bridged c}"
    using bridge_cases_eq bridged_set by blast
  show ?thesis
  proof (cases "map_of bridge_cases w")
    case None
    then have "w \<notin> to_u16 ` {c. bridged c}" by (simp add: cs map_of_keyed_None del: map_of_eq_None_iff)
    then have "\<not> bridged (of_u16 w)" using to_u16_of_u16 [of w] by force
    with None show ?thesis by (simp add: toTOFCommand_def)
  next
    case (Some c)
    then have c: "bridged c" "to_u16 c = w" using map_of_keyed [of to_u16 cs w c] cs by auto
    then have "of_u16 w = c" using of_u16_to_u16 by (auto simp: bridged_def)
    with Some c show ?thesis by (simp add: toTOFCommand_def)
  qed
qed

lemma toCommCode_to_u16: "bridged c \<Longrightarrow> toCommCode c = to_u16 c"
  by (cases c) (simp_all add: bridged_def named_codes_def comm_code_defs)

lemma tof_subsystem: "bridged c \<Longrightarrow> c \<noteq> HEART_BEAT \<Longrightarrow> isSubsystem (to_u16 c) COM_SUBSYSTEM_TOF_MSK"
  by (cases c) (simp_all add: bridged_def named_codes_def comm_code_defs isSubsystem_def)

lemma distinct_code_names: "distinct (map code_name named_codes)"
  by (simp add: named_codes_def)

section \<open>Properties\<close>

text \<open>
  the enumerators have different values, and casting a wire value into the enumeration and
  back never changes it.
\<close>

theorem wire_code_roundtrip:
  "distinct (map to_u16 named_codes) \<and> to_u16 (of_u16 w) = w"
  using distinct_codes to_u16_of_u16 by blast

text \<open>
  the bridge to the hub codes is the identity on the wire, and the way back returns the
  command, for every command of the enumeration other than \<open>STATUS\<close> and \<open>UNKNOWN\<close>.
\<close>

theorem bridge_roundtrip:
  assumes "bridged c"
  shows "toCommCode c = to_u16 c \<and> toTOFCommand (toCommCode c) = c"
proof -
  have "of_u16 (to_u16 c) = c" using assms of_u16_to_u16 by (simp add: bridged_def)
  then show ?thesis using assms by (simp add: toCommCode_to_u16 toTOFCommand_eq)
qed

theorem bridge_roundtrip_witness:
  "bridged STOP_DAQ \<and> toCommCode STOP_DAQ = 0x5001 \<and> toTOFCommand 0x5001 = STOP_DAQ"
proof -
  have h: "bridged STOP_DAQ" by (simp add: bridged_def named_codes_def)
  show ?thesis using h bridge_roundtrip [OF h] by (simp add: comm_code_defs)
qed

text \<open>
  \<open>STATUS\<close> and \<open>UNKNOWN\<close> both leave as \<open>TOF_Status\<close>, and every value that is
  not a bridged code, \<open>TOF_Status\<close> among them, comes back as \<open>UNKNOWN\<close>: a status
  message does not survive the bridge.
\<close>

theorem bridge_loses_status:
  "toCommCode STATUS = comm_u16 TOF_Status \<and> toCommCode UNKNOWN = comm_u16 TOF_Status \<and>
   toTOFCommand (comm_u16 TOF_Status) = UNKNOWN"
  by (simp add: toTOFCommand_def bridge_cases_def comm_code_defs)

end
