(* ===== verification/LogCodec.thy ===== *)
theory LogCodec
  imports PayloadCodec CommandDefs
begin

text \<open>
  The codec of log records, \<open>FlightOps/src/GRAMS_TOF_LogCodec.cpp\<close>. Characters are bytes;
  \<open>component\<close> is the array of 16 characters. A read behind the end of the argument vector is
  the outcome \<^const>\<open>None\<close>, and the boolean result of \<open>decode\<close> with its output record is
  an option. Arithmetic on \<open>msg_len\<close> is the 32-bit arithmetic of the source.
\<close>

section \<open>Model\<close>

record LogData =
  run_number :: u32
  timestamp_ms :: u64
  level :: u8
  component :: "u8 list"
  message :: "u8 list"

definition MAX_LOG_LENGTH :: nat where
  "MAX_LOG_LENGTH = 10000"

definition truncation_mark :: "u8 list" where
  "truncation_mark = map of_char ''... [TRUNCATED]''"

definition safe_msg :: "u8 list \<Rightarrow> u8 list" where
  "safe_msg msg =
     (if MAX_LOG_LENGTH < length msg then take MAX_LOG_LENGTH msg @ truncation_mark else msg)"

definition log_encode :: "LogData \<Rightarrow> packet" where
  "log_encode d =
     (let msg = safe_msg (message d);
          msg_len = of_nat (length msg) :: u32;
          comp_buf = words_of_bytes (take 16 (component d));
          num_words = unat ((msg_len + 3) div 4);
          args = [run_number d, hi_word (timestamp_ms d), lo_word (timestamp_ms d),
                  ucast (level d), msg_len] @ comp_buf @
                 map (\<lambda>i. host_word (take (min 4 (unat msg_len - i * 4)) (drop (i * 4) msg))) [0..<num_words]
      in \<lparr>code = to_u16 LOGGER_DATA_STREAM, argc = of_nat (length args), argv = args\<rparr>)"

definition log_decode :: "packet \<Rightarrow> LogData option checked" where
  "log_decode p =
     (if length (argv p) < 9 then Some None
      else do {
        run \<leftarrow> rd (argv p) 0;
        ts_hi \<leftarrow> rd (argv p) 1;
        ts_lo \<leftarrow> rd (argv p) 2;
        lvl \<leftarrow> rd (argv p) 3;
        msg_len \<leftarrow> rd (argv p) 4;
        let required_words = unat (9 + (msg_len + 3) div 4);
        if length (argv p) < required_words then Some None
        else do {
          comp \<leftarrow> rd_range (bytes_of_words (drop 5 (argv p))) 0 16;
          msg \<leftarrow> (if 0 < msg_len then rd_range (bytes_of_words (drop 9 (argv p))) 0 (unat msg_len)
                 else Some []);
          Some (Some \<lparr>run_number = run, timestamp_ms = join_words ts_hi ts_lo,
                      level = ucast (lvl AND 0xFF), component = comp[15 := 0], message = msg\<rparr>)
        }
      })"

text \<open>Records that the encoder keeps as they are: a terminated tag, a message within the limit.\<close>

definition wf_log :: "LogData \<Rightarrow> bool" where
  "wf_log d \<longleftrightarrow> length (component d) = 16 \<and> component d ! 15 = 0 \<and>
     length (message d) \<le> MAX_LOG_LENGTH"

text \<open>The record that arrives for a record that was sent.\<close>

definition log_received :: "LogData \<Rightarrow> LogData" where
  "log_received d = d\<lparr>component := (component d)[15 := 0], message := safe_msg (message d)\<rparr>"

section \<open>Lemmas\<close>

lemma length_truncation_mark: "length truncation_mark = 15"
  by (simp add: truncation_mark_def)

lemma length_safe_msg: "length (safe_msg m) \<le> 10015"
  by (simp add: safe_msg_def MAX_LOG_LENGTH_def length_truncation_mark)

lemma unat_of_nat_u32: "n < 2 ^ 32 \<Longrightarrow> unat (of_nat n :: u32) = n"
  by (rule unat_of_nat_lt) simp

lemma message_words:
  assumes "length msg \<le> 10015"
  shows "unat ((of_nat (length msg) + 3 :: u32) div 4) = (length msg + 3) div 4"
    and "map (\<lambda>i. host_word (take (min 4 (unat (of_nat (length msg) :: u32) - i * 4)) (drop (i * 4) msg)))
           [0..<(length msg + 3) div 4] = words_of_bytes msg"
proof -
  have "of_nat (length msg) + 3 = (of_nat (length msg + 3) :: u32)" by simp
  then have "unat (of_nat (length msg) + 3 :: u32) = length msg + 3"
    using assms unat_of_nat_u32 [of "length msg + 3"] by simp
  then show "unat ((of_nat (length msg) + 3 :: u32) div 4) = (length msg + 3) div 4"
    by (simp add: unat_div)
  have "take (min 4 (length msg - k)) (drop k msg) = take 4 (drop k msg)" for k
    by (simp add: min_def)
  then show "map (\<lambda>i. host_word (take (min 4 (unat (of_nat (length msg) :: u32) - i * 4)) (drop (i * 4) msg)))
           [0..<(length msg + 3) div 4] = words_of_bytes msg"
    using assms by (simp add: words_of_bytes_def unat_of_nat_u32)
qed

lemma log_encode_eq:
  "log_encode d =
     (let msg = safe_msg (message d);
          args = [run_number d, hi_word (timestamp_ms d), lo_word (timestamp_ms d), ucast (level d),
                  of_nat (length msg)] @ words_of_bytes (take 16 (component d)) @ words_of_bytes msg
      in \<lparr>code = 0x5401, argc = of_nat (length args), argv = args\<rparr>)"
  unfolding log_encode_def Let_def message_words [OF length_safe_msg] by simp

lemma bytes_of_words_append [simp]: "bytes_of_words (xs @ ys) = bytes_of_words xs @ bytes_of_words ys"
  by (simp add: bytes_of_words_def)

lemma rd_range_prefix: "n = length xs \<Longrightarrow> rd_range (xs @ ys) 0 n = Some xs"
  by (simp add: rd_range_def)

lemma log_encode_wf: "length (component d) = 16 \<Longrightarrow> wf_packet (log_encode d)"
proof -
  assume c: "length (component d) = 16"
  let ?n = "9 + (length (safe_msg (message d)) + 3) div 4"
  have "?n < 65536" using length_safe_msg [of "message d"] by linarith
  then have "unat (of_nat ?n :: u16) = ?n" by (intro unat_of_nat_lt) simp
  then show ?thesis using c by (simp add: log_encode_eq wf_packet_def Let_def)
qed

lemma log_decode_encode:
  assumes "length (component d) = 16"
  shows "log_decode (log_encode d) = Some (Some (log_received d))"
proof -
  let ?msg = "safe_msg (message d)"
  let ?p = "log_encode d"
  have len: "length ?msg \<le> 10015" by (rule length_safe_msg)
  then have n: "unat (of_nat (length ?msg) :: u32) = length ?msg" by (intro unat_of_nat_u32) simp
  have cw: "length (words_of_bytes (component d)) = 4" using assms by simp
  have argv: "argv ?p = [run_number d, hi_word (timestamp_ms d), lo_word (timestamp_ms d), ucast (level d),
      of_nat (length ?msg)] @ words_of_bytes (component d) @ words_of_bytes ?msg"
    using assms by (simp add: log_encode_eq Let_def)
  have "unat (9 + (of_nat (length ?msg) + 3 :: u32) div 4) = 9 + (length ?msg + 3) div 4"
  proof -
    have "(of_nat (length ?msg) + 3 :: u32) div 4 = of_nat ((length ?msg + 3) div 4)"
      using message_words(1) [OF len] len unat_of_nat_u32 [of "(length ?msg + 3) div 4"]
      by (simp add: word_unat_eq_iff)
    then have "9 + (of_nat (length ?msg) + 3 :: u32) div 4 = of_nat (9 + (length ?msg + 3) div 4)" by simp
    then show ?thesis using len unat_of_nat_u32 [of "9 + (length ?msg + 3) div 4"] by simp
  qed
  then have req: "\<not> length (argv ?p) < unat (9 + (of_nat (length ?msg) + 3 :: u32) div 4)"
    using cw by (simp add: argv)
  have comp: "rd_range (bytes_of_words (drop 5 (argv ?p))) 0 16 = Some (component d)"
    using assms bytes_words_bytes [of "component d"] by (simp add: argv rd_range_def)
  have msg: "rd_range (bytes_of_words (drop 9 (argv ?p))) 0 (length ?msg) = Some ?msg"
    using cw bytes_words_bytes [of ?msg] by (simp add: argv rd_range_def)
  have lvl: "ucast (ucast (level d) AND 0xFF :: u32) = level d"
    by (rule bit_word_eqI) (simp add: bit_simps mask_simps)
  have pos: "0 < (of_nat (length ?msg) :: u32) \<longleftrightarrow> ?msg \<noteq> []"
    using n by (simp add: word_less_nat_alt)
  have r: "rd (argv ?p) 0 = Some (run_number d)" "rd (argv ?p) 1 = Some (hi_word (timestamp_ms d))"
    "rd (argv ?p) 2 = Some (lo_word (timestamp_ms d))" "rd (argv ?p) 3 = Some (ucast (level d))"
    "rd (argv ?p) 4 = Some (of_nat (length ?msg))" "\<not> length (argv ?p) < 9"
    using cw by (simp_all add: argv rd_def)
  show ?thesis
    unfolding log_decode_def log_received_def Let_def
    using req msg by (cases "?msg = []") (simp_all only: r comp lvl n pos bind.bind_lunit if_True if_False if_not_P join_hi_lo, simp_all)
qed

lemma required_words_no_wrap:
  assumes "m \<le> (0xFFFFFFFC :: u32)"
  shows "unat (9 + (m + 3) div 4) = 9 + (unat m + 3) div 4"
proof -
  have m: "unat m \<le> 4294967292" using assms by (simp add: word_le_nat_alt)
  then have "unat (m + 3) = unat m + 3" by (simp add: unat_word_ariths)
  then have "unat ((m + 3) div 4) = (unat m + 3) div 4" by (simp add: unat_div)
  then show ?thesis using m by (simp add: unat_word_ariths)
qed

lemma required_words_wrap:
  assumes "(0xFFFFFFFC :: u32) < m"
  shows "unat (9 + (m + 3) div 4) = 9"
proof -
  have m: "4294967292 < unat m" "unat m < 4294967296"
    using assms unat_u32_lt [of m] by (simp_all add: word_less_nat_alt)
  then have "(unat m + 3) mod 4294967296 = unat m + 3 - 4294967296" by (simp add: mod_if)
  then have "unat (m + 3) = unat m + 3 - 4294967296" by (simp add: unat_word_ariths)
  then have "unat ((m + 3) div 4) = 0" using m by (simp add: unat_div)
  then have "(m + 3) div 4 = 0" by (simp add: unat_eq_0)
  then show ?thesis by simp
qed

lemma log_decode_None_iff:
  "log_decode p = None \<longleftrightarrow> 9 \<le> length (argv p) \<and>
     unat (9 + (argv p ! 4 + 3) div 4) \<le> length (argv p) \<and> 4 * (length (argv p) - 9) < unat (argv p ! 4)"
  by (auto simp: log_decode_def Let_def Option.bind_eq_None_conv word_greater_zero_iff simp del: not_None_eq)

lemma log_decode_out_of_bounds:
  assumes "wf_packet p"
  shows "log_decode p = None \<longleftrightarrow> 9 \<le> length (argv p) \<and> 0xFFFFFFFC < argv p ! 4"
proof (cases "argv p ! 4 \<le> 0xFFFFFFFC")
  case True
  then show ?thesis by (auto simp: log_decode_None_iff required_words_no_wrap)
next
  case False
  then have m: "0xFFFFFFFC < argv p ! 4" by simp
  have "length (argv p) < 65536"
    using assms unat_u16_lt [of "argc p"] by (simp add: wf_packet_def)
  moreover have "4294967292 < unat (argv p ! 4)" using m by (simp add: word_less_nat_alt)
  ultimately show ?thesis using m by (auto simp: log_decode_None_iff required_words_wrap)
qed

interpretation logs: payload_codec "\<lambda>d. Some (log_encode d)" log_decode wf_log
proof unfold_locales
  fix d assume "wf_log d"
  then show "\<exists>p. Some (log_encode d) = Some p \<and> wf_packet p" by (simp add: wf_log_def log_encode_wf)
next
  fix d p assume w: "wf_log d" and p: "Some (log_encode d) = Some p"
  from w have "(component d)[15 := 0] = component d" by (metis list_update_id wf_log_def)
  then have "log_received d = d" using w by (simp add: log_received_def wf_log_def safe_msg_def)
  then show "log_decode p = Some (Some d)"
    using w p log_decode_encode [of d] by (simp add: wf_log_def)
qed

section \<open>Properties\<close>

text \<open>
  a log record with a terminated tag and a message within the limit is delivered over the
  link unchanged: encoded, serialized, received with other bytes behind it, parsed and decoded.
\<close>

theorem log_delivery:
  assumes "wf_log d"
  shows "\<exists>bs. serialize (log_encode d) None = Some bs \<and>
    (\<forall>junk. \<exists>p. parse (bs @ junk) = Some (Inr p) \<and> log_decode p = Some (Some d))"
  using logs.delivery [OF assms] by simp

definition sample_log :: LogData where
  "sample_log = \<lparr>run_number = 7, timestamp_ms = 0x123456789A, level = 2,
     component = 68 # 65 # 81 # replicate 13 0, message = [72, 105, 33]\<rparr>"

theorem log_delivery_witness:
  "wf_log sample_log \<and> (\<exists>bs. serialize (log_encode sample_log) None = Some bs \<and>
    (\<forall>junk. \<exists>p. parse (bs @ junk) = Some (Inr p) \<and> log_decode p = Some (Some sample_log)))"
proof -
  have h: "wf_log sample_log" by (simp add: wf_log_def sample_log_def MAX_LOG_LENGTH_def)
  show ?thesis using h log_delivery [OF h] by blast
qed

text \<open>
  of a record of any length the receiver gets the same fields, the tag with its last
  character replaced by the terminator, and the message cut to the limit with the truncation mark
  behind it; the packet never has more arguments than its 16-bit count can say.
\<close>

theorem log_truncation:
  assumes "length (component d) = 16"
  shows "wf_packet (log_encode d) \<and> log_decode (log_encode d) = Some (Some (log_received d)) \<and>
    length (message (log_received d)) \<le> MAX_LOG_LENGTH + length truncation_mark"
  using assms log_encode_wf [OF assms] log_decode_encode [OF assms] length_safe_msg [of "message d"]
  by (simp add: log_received_def MAX_LOG_LENGTH_def length_truncation_mark)

theorem log_truncation_witness:
  "wf_packet (log_encode sample_log) \<and> log_decode (log_encode sample_log) = Some (Some (log_received sample_log))"
proof -
  have h: "length (component sample_log) = 16" by (simp add: sample_log_def)
  show ?thesis using log_truncation [OF h] by blast
qed

text \<open>
  a received packet makes \<open>decode\<close> read behind its argument vector exactly when the
  length field is one of the three largest 32-bit values: there the rounding to words wraps to
  zero and the length check passes. With every other length the decoder stays in bounds.
\<close>

theorem log_decode_overrun_iff:
  assumes "wf_packet p"
  shows "log_decode p = None \<longleftrightarrow> 9 \<le> length (argv p) \<and> 0xFFFFFFFC < argv p ! 4"
  using assms by (rule log_decode_out_of_bounds)

theorem log_decode_overrun_iff_witness:
  "log_decode \<lparr>code = 0x5401, argc = 9, argv = [0, 0, 0, 0, 0xFFFFFFFD, 0, 0, 0, 0]\<rparr> = None"
proof -
  have h: "wf_packet \<lparr>code = 0x5401, argc = 9, argv = [0, 0, 0, 0, 0xFFFFFFFD, 0, 0, 0, 0]\<rparr>"
    by (simp add: wf_packet_def)
  show ?thesis using log_decode_overrun_iff [OF h] by (simp add: word_less_nat_alt)
qed

end
