(* ===== verification/MonitorCodec.thy ===== *)
theory MonitorCodec
  imports PayloadCodec CommandDefs
begin

text \<open>
  The codecs of the monitoring stream, \<open>FlightOps/src/GRAMS_TOF_MonitorCodec.cpp\<close>:
  histograms, graphs and parameters. Floating-point values cross the link as their bit patterns
  (\<open>memcpy\<close> in both directions), so \<open>float\<close> is a 32-bit and \<open>double\<close> a 64-bit word here;
  a name is the array of 16 characters.
\<close>

section \<open>Model\<close>

datatype DataType = TH1F | TH2F | TProfile | TGraph | TParameter

primrec data_type_u32 :: "DataType \<Rightarrow> u32" where
    "data_type_u32 TH1F = 1"
  | "data_type_u32 TH2F = 2"
  | "data_type_u32 TProfile = 3"
  | "data_type_u32 TGraph = 4"
  | "data_type_u32 TParameter = 5"

record MonitorData =
  m_run_number :: u32
  hname :: "u8 list"
  hist_type :: u32
  n_bins_x :: u32
  x_min :: u32
  x_max :: u32
  n_bins_y :: u32
  y_min :: u32
  y_max :: u32
  bins :: "u32 list"

record GraphData =
  g_run_number :: u32
  gname :: "u8 list"
  n_points :: u32
  gx :: "u64 list"
  gy :: "u64 list"

record ParameterData =
  p_run_number :: u32
  pname :: "u8 list"
  pvalue :: u64

definition pushName :: "u32 list \<Rightarrow> u8 list \<Rightarrow> u32 list" where
  "pushName args name = args @ words_of_bytes (take 16 name)"

definition copyName :: "u32 list \<Rightarrow> nat \<Rightarrow> u8 list checked" where
  "copyName args startIdx = rd_range (bytes_of_words args) (4 * startIdx) 16"

definition stream_packet :: "u32 list \<Rightarrow> packet" where
  "stream_packet args =
     \<lparr>code = to_u16 MONITOR_DATA_STREAM, argc = of_nat (length args), argv = args\<rparr>"

definition hist_encode :: "MonitorData \<Rightarrow> packet" where
  "hist_encode d = stream_packet
     (pushName [m_run_number d] (hname d) @
      [hist_type d, n_bins_x d, x_min d, x_max d, n_bins_y d, y_min d, y_max d] @ bins d)"

definition hist_decode :: "packet \<Rightarrow> MonitorData option checked" where
  "hist_decode p =
     (if length (argv p) < 12 then Some None
      else do {
        run \<leftarrow> rd (argv p) 0;
        name \<leftarrow> copyName (argv p) 1;
        ty \<leftarrow> rd (argv p) 5;
        nx \<leftarrow> rd (argv p) 6;
        xlo \<leftarrow> rd (argv p) 7;
        xhi \<leftarrow> rd (argv p) 8;
        ny \<leftarrow> rd (argv p) 9;
        ylo \<leftarrow> rd (argv p) 10;
        yhi \<leftarrow> rd (argv p) 11;
        Some (Some \<lparr>m_run_number = run, hname = name, hist_type = ty, n_bins_x = nx, x_min = xlo,
                    x_max = xhi, n_bins_y = ny, y_min = ylo, y_max = yhi, bins = drop 12 (argv p)\<rparr>)
      })"

definition graph_encode :: "GraphData \<Rightarrow> packet checked" where
  "graph_encode d = do {
     points \<leftarrow> those (map (\<lambda>i. do {
                 bx \<leftarrow> rd (gx d) i;
                 by' \<leftarrow> rd (gy d) i;
                 Some [hi_word bx, lo_word bx, hi_word by', lo_word by']
               }) [0..<unat (n_points d)]);
     Some (stream_packet
       (pushName [g_run_number d] (gname d) @ [data_type_u32 TGraph, n_points d] @ concat points))
   }"

definition read_point :: "u32 list \<Rightarrow> nat \<Rightarrow> (u64 \<times> u64) checked" where
  "read_point args i = do {
     let base = (7 + of_nat i * 4 :: u32);
     x_hi \<leftarrow> rd args (unat base);
     x_lo \<leftarrow> rd args (unat (base + 1));
     y_hi \<leftarrow> rd args (unat (base + 2));
     y_lo \<leftarrow> rd args (unat (base + 3));
     Some (join_words x_hi x_lo, join_words y_hi y_lo)
   }"

definition graph_decode :: "packet \<Rightarrow> GraphData option checked" where
  "graph_decode p =
     (if length (argv p) < 7 then Some None
      else do {
        ty \<leftarrow> rd (argv p) 5;
        if ty \<noteq> data_type_u32 TGraph then Some None
        else do {
          run \<leftarrow> rd (argv p) 0;
          name \<leftarrow> copyName (argv p) 1;
          n \<leftarrow> rd (argv p) 6;
          points \<leftarrow> those (map (read_point (argv p)) [0..<unat n]);
          Some (Some \<lparr>g_run_number = run, gname = name, n_points = n,
                      gx = map fst points, gy = map snd points\<rparr>)
        }
      })"

definition param_encode :: "ParameterData \<Rightarrow> packet" where
  "param_encode d = stream_packet
     (pushName [p_run_number d] (pname d) @
      [data_type_u32 TParameter, hi_word (pvalue d), lo_word (pvalue d)])"

definition param_decode :: "packet \<Rightarrow> ParameterData option checked" where
  "param_decode p =
     (if length (argv p) < 8 then Some None
      else do {
        ty \<leftarrow> rd (argv p) 5;
        if ty \<noteq> data_type_u32 TParameter then Some None
        else do {
          run \<leftarrow> rd (argv p) 0;
          name \<leftarrow> copyName (argv p) 1;
          hi \<leftarrow> rd (argv p) 6;
          lo \<leftarrow> rd (argv p) 7;
          Some (Some \<lparr>p_run_number = run, pname = name, pvalue = join_words hi lo\<rparr>)
        }
      })"

text \<open>Values whose packet has no more arguments than the 16-bit count can say.\<close>

definition wf_hist :: "MonitorData \<Rightarrow> bool" where
  "wf_hist d \<longleftrightarrow> length (hname d) = 16 \<and> length (bins d) \<le> 65523"

definition wf_graph :: "GraphData \<Rightarrow> bool" where
  "wf_graph d \<longleftrightarrow> length (gname d) = 16 \<and> length (gx d) = unat (n_points d) \<and>
     length (gy d) = unat (n_points d) \<and> unat (n_points d) \<le> 16382"

definition wf_param :: "ParameterData \<Rightarrow> bool" where
  "wf_param d \<longleftrightarrow> length (pname d) = 16"

section \<open>Lemmas\<close>

lemma name_words:
  assumes "length n = 16"
  obtains a b c e where "pushName [r] n = [r, a, b, c, e]"
    "host_bytes a @ host_bytes b @ host_bytes c @ host_bytes e = n"
proof -
  have "length (words_of_bytes n) = 4" using assms by simp
  then obtain a b c e where w: "words_of_bytes n = [a, b, c, e]" unfolding length_4_conv by blast
  have "take 16 (bytes_of_words [a, b, c, e]) = n" using assms bytes_words_bytes [of n] w by simp
  with w that show thesis using assms by (simp add: pushName_def)
qed

lemma copyName_1:
  assumes "host_bytes a @ host_bytes b @ host_bytes c @ host_bytes e = n"
  shows "copyName (r # a # b # c # e # rest) (Suc 0) = Some n"
proof -
  have "length n = 16" using assms [symmetric] by simp
  moreover have "bytes_of_words (r # a # b # c # e # rest) = host_bytes r @ n @ bytes_of_words rest"
    using assms by auto
  ultimately show ?thesis by (simp add: copyName_def rd_range_def del: bytes_of_words_simps)
qed

lemma wf_stream_packet: "length args < 65536 \<Longrightarrow> wf_packet (stream_packet args)"
  using unat_of_nat_lt [of "length args", where 'a = 16] by (simp add: stream_packet_def wf_packet_def)

lemma hist_decode_encode: "length (hname d) = 16 \<Longrightarrow> hist_decode (hist_encode d) = Some (Some d)"
  by (rule name_words [of "hname d" "m_run_number d"])
    (simp_all add: hist_encode_def hist_decode_def stream_packet_def copyName_1 rd_def)

lemma param_decode_encode: "length (pname d) = 16 \<Longrightarrow> param_decode (param_encode d) = Some (Some d)"
  by (rule name_words [of "pname d" "p_run_number d"])
    (simp_all add: param_encode_def param_decode_def stream_packet_def copyName_1 rd_def)

lemma point_words_read:
  assumes "argv p = pre @ concat (map f [0..<n])" "length pre = 7" "\<And>j. length (f j) = 4"
    and "i < n" "k < 4" "n \<le> 16382"
  shows "rd (argv p) (unat (7 + of_nat i * 4 + of_nat k :: u32)) = Some (f i ! k)"
proof -
  have "7 + of_nat i * 4 + of_nat k = (of_nat (7 + (i * 4 + k)) :: u32)" by simp
  then have ix: "unat (7 + of_nat i * 4 + of_nat k :: u32) = length pre + (i * 4 + k)"
    using assms unat_of_nat_lt [of "7 + (i * 4 + k)", where 'a = 32]
    by (simp add: add.assoc)
  have "i * 4 + k < n * 4" using assms by linarith
  then have "i * 4 + k < length (concat (map f [0..<n]))"
    using length_concat_chunks [of f 4 "[0..<n]"] assms(3) by simp
  moreover have "concat (map f [0..<n]) ! (i * 4 + k) = f i ! k"
    using nth_concat_chunks [of f 4 i "[0..<n]" k] assms by simp
  ultimately show ?thesis unfolding ix assms(1) rd_append_right by simp
qed

lemma graph_encode_eq:
  assumes "length (gx d) = unat (n_points d)" "length (gy d) = unat (n_points d)"
  shows "graph_encode d = Some (stream_packet
     (pushName [g_run_number d] (gname d) @ [4, n_points d] @
      concat (map (\<lambda>i. [hi_word (gx d ! i), lo_word (gx d ! i), hi_word (gy d ! i), lo_word (gy d ! i)])
        [0..<unat (n_points d)])))"
proof -
  have "those (map (\<lambda>i. do {bx \<leftarrow> rd (gx d) i; by' \<leftarrow> rd (gy d) i;
          Some [hi_word bx, lo_word bx, hi_word by', lo_word by']}) [0..<unat (n_points d)]) =
      Some (map (\<lambda>i. [hi_word (gx d ! i), lo_word (gx d ! i), hi_word (gy d ! i), lo_word (gy d ! i)])
        [0..<unat (n_points d)])"
    using assms by (intro those_map_Some) simp
  then show ?thesis by (simp add: graph_encode_def)
qed

lemma graph_decode_encode:
  assumes w: "wf_graph d" and p: "graph_encode d = Some p"
  shows "wf_packet p" "graph_decode p = Some (Some d)"
proof -
  let ?f = "\<lambda>i. [hi_word (gx d ! i), lo_word (gx d ! i), hi_word (gy d ! i), lo_word (gy d ! i)]"
  let ?n = "unat (n_points d)"
  have n: "length (gx d) = ?n" "length (gy d) = ?n" "?n \<le> 16382" "length (gname d) = 16"
    using w by (auto simp: wf_graph_def)
  have lc: "length (concat (map ?f [0..<?n])) = ?n * 4"
    using length_concat_chunks [of ?f 4 "[0..<?n]"] by simp
  obtain a b c e where nm: "pushName [g_run_number d] (gname d) = [g_run_number d, a, b, c, e]"
      "host_bytes a @ host_bytes b @ host_bytes c @ host_bytes e = gname d"
    using name_words [OF n(4)] by metis
  let ?pre = "[g_run_number d, a, b, c, e, 4, n_points d]"
  have ps: "p = stream_packet (?pre @ concat (map ?f [0..<?n]))"
    using p graph_encode_eq [OF n(1,2)] nm(1) by simp
  then have argv: "argv p = ?pre @ concat (map ?f [0..<?n])" by (simp add: stream_packet_def)
  show "wf_packet p" unfolding ps using n lc by (intro wf_stream_packet) simp
  have rdp: "rd (argv p) (unat (7 + of_nat i * 4 + of_nat k :: u32)) = Some (?f i ! k)" if "i < ?n" "k < 4" for i k
    using point_words_read [OF argv _ _ that n(3)] by simp
  have pts: "those (map (read_point (argv p)) [0..<?n]) = Some (map (\<lambda>i. (gx d ! i, gy d ! i)) [0..<?n])"
    using rdp [of _ 0] rdp [of _ 1] rdp [of _ 2] rdp [of _ 3]
    by (intro those_map_Some) (simp add: Let_def read_point_def)
  have "\<not> length (argv p) < 7" "rd (argv p) 0 = Some (g_run_number d)" "rd (argv p) 5 = Some 4"
    "rd (argv p) 6 = Some (n_points d)" "copyName (argv p) 1 = Some (gname d)"
    by (simp_all add: argv rd_def copyName_1 nm(2))
  moreover have "map (\<lambda>i. gx d ! i) [0..<?n] = gx d" "map (\<lambda>i. gy d ! i) [0..<?n] = gy d"
    using n by (metis map_nth)+
  ultimately show "graph_decode p = Some (Some d)"
    by (simp add: graph_decode_def pts comp_def)
qed

interpretation hists: payload_codec "\<lambda>d. Some (hist_encode d)" hist_decode wf_hist
proof unfold_locales
  fix d assume w: "wf_hist d"
  then have "wf_packet (hist_encode d)"
    unfolding hist_encode_def by (intro wf_stream_packet) (simp add: pushName_def wf_hist_def)
  then show "\<exists>p. Some (hist_encode d) = Some p \<and> wf_packet p" by simp
next
  fix d p assume "wf_hist d" "Some (hist_encode d) = Some p"
  then show "hist_decode p = Some (Some d)" using hist_decode_encode [of d] by (simp add: wf_hist_def)
qed

interpretation params: payload_codec "\<lambda>d. Some (param_encode d)" param_decode wf_param
proof unfold_locales
  fix d assume w: "wf_param d"
  then have "wf_packet (param_encode d)"
    unfolding param_encode_def by (intro wf_stream_packet) (simp add: pushName_def wf_param_def)
  then show "\<exists>p. Some (param_encode d) = Some p \<and> wf_packet p" by simp
next
  fix d p assume "wf_param d" "Some (param_encode d) = Some p"
  then show "param_decode p = Some (Some d)" using param_decode_encode [of d] by (simp add: wf_param_def)
qed

interpretation graphs: payload_codec graph_encode graph_decode wf_graph
proof unfold_locales
  fix d assume w: "wf_graph d"
  then obtain p where "graph_encode d = Some p" using graph_encode_eq by (auto simp: wf_graph_def)
  then show "\<exists>p. graph_encode d = Some p \<and> wf_packet p" using graph_decode_encode [OF w] by blast
next
  fix d p assume "wf_graph d" "graph_encode d = Some p"
  then show "graph_decode p = Some (Some d)" by (rule graph_decode_encode)
qed

lemma point_index:
  assumes "i \<le> 16384" "k < 4"
  shows "unat (7 + of_nat i * 4 + of_nat k :: u32) = 7 + i * 4 + k"
proof -
  have "7 + of_nat i * 4 + of_nat k = (of_nat (7 + i * 4 + k) :: u32)" by simp
  then show ?thesis using assms unat_of_nat_lt [of "7 + i * 4 + k", where 'a = 32] by simp
qed

lemma read_point_None:
  assumes "i \<le> 16384"
  shows "read_point args i = None \<longleftrightarrow> length args < 11 + i * 4"
  using point_index [OF assms, of 0] point_index [OF assms, of 1] point_index [OF assms, of 2]
    point_index [OF assms, of 3]
  by (auto simp: read_point_def Let_def Option.bind_eq_None_conv simp del: not_None_eq)

lemma points_None:
  assumes "length args < 65536" "7 \<le> length args"
  shows "those (map (read_point args) [0..<n]) = None \<longleftrightarrow> length args < 7 + 4 * n"
proof
  assume short: "length args < 7 + 4 * n"
  let ?i = "(length args - 7) div 4"
  have "?i < n" "?i \<le> 16384" "length args < 11 + ?i * 4" using assms short by linarith+
  then have "read_point args ?i = None" by (simp add: read_point_None)
  then show "those (map (read_point args) [0..<n]) = None"
    using \<open>?i < n\<close> unfolding those_eq_None_iff by force
next
  assume none: "those (map (read_point args) [0..<n]) = None"
  show "length args < 7 + 4 * n"
  proof (rule ccontr)
    assume long: "\<not> length args < 7 + 4 * n"
    obtain i where i: "i < n" "read_point args i = None" using none unfolding those_eq_None_iff by auto
    then have "i \<le> 16384" "\<not> length args < 11 + i * 4" using long assms by linarith+
    then show False using i(2) read_point_None by blast
  qed
qed

lemma graph_decode_out_of_bounds:
  assumes "wf_packet p"
  shows "graph_decode p = None \<longleftrightarrow> 7 \<le> length (argv p) \<and> argv p ! 5 = data_type_u32 TGraph \<and>
    length (argv p) < 7 + 4 * unat (argv p ! 6)"
proof -
  have "length (argv p) < 65536" using assms unat_u16_lt [of "argc p"] by (simp add: wf_packet_def)
  then show ?thesis
    by (auto simp: graph_decode_def copyName_def Option.bind_eq_None_conv points_None simp del: not_None_eq
        split: if_splits)
qed

lemma serialize_take:
  assumes "unat (argc p) \<le> length (argv p)"
  shows "serialize p c = serialize (p\<lparr>argv := take (unat (argc p)) (argv p)\<rparr>) c"
  using assms by (simp add: serialize_def those_map_rd_upt)

lemma hist_encode_fields:
  "length (hname d) = 16 \<Longrightarrow> length (argv (hist_encode d)) = 12 + length (bins d)"
  "length (hname d) = 16 \<Longrightarrow> argc (hist_encode d) = of_nat (12 + length (bins d))"
  by (simp_all add: hist_encode_def stream_packet_def pushName_def)

lemma hist_oversize:
  assumes n: "length (hname d) = 16"
  shows "\<exists>bs q. serialize (hist_encode d) None = Some bs \<and> parse bs = Some (Inr q) \<and>
    argv q = take ((12 + length (bins d)) mod 65536) (argv (hist_encode d))"
proof -
  let ?p = "hist_encode d"
  let ?q = "?p\<lparr>argv := take (unat (argc ?p)) (argv ?p)\<rparr>"
  have c: "unat (argc ?p) = (12 + length (bins d)) mod 65536"
    unfolding hist_encode_fields(2) [OF n] unat_of_nat by (simp add: take_bit_eq_mod)
  then have le: "unat (argc ?p) \<le> length (argv ?p)" by (simp add: hist_encode_fields n)
  then have w: "wf_packet ?q" by (simp add: wf_packet_def)
  show ?thesis
    using parse_frame [OF w, of _ "[]"] serialize_eq [OF w] serialize_take [OF le] c by simp
qed

section \<open>Properties\<close>

text \<open>
  a histogram, with its axes as bit patterns and up to 65523 bins, is delivered over the link
  unchanged.
\<close>

theorem hist_delivery:
  assumes "wf_hist d"
  shows "\<exists>bs. serialize (hist_encode d) None = Some bs \<and>
    (\<forall>junk. \<exists>p. parse (bs @ junk) = Some (Inr p) \<and> hist_decode p = Some (Some d))"
  using hists.delivery [OF assms] by simp

definition sample_hist :: MonitorData where
  "sample_hist = \<lparr>m_run_number = 3, hname = 104 # 49 # replicate 14 0, hist_type = 1, n_bins_x = 2,
     x_min = 0, x_max = 0x3F800000, n_bins_y = 0, y_min = 0, y_max = 0, bins = [5, 6]\<rparr>"

theorem hist_delivery_witness:
  "wf_hist sample_hist \<and> (\<exists>bs. serialize (hist_encode sample_hist) None = Some bs \<and>
    (\<forall>junk. \<exists>p. parse (bs @ junk) = Some (Inr p) \<and> hist_decode p = Some (Some sample_hist)))"
proof -
  have h: "wf_hist sample_hist" by (simp add: wf_hist_def sample_hist_def)
  show ?thesis using h hist_delivery [OF h] by blast
qed

text \<open>
  a histogram of any size produces an acceptable frame, but the frame carries only the
  argument count modulo \<open>2\<^sup>1\<^sup>6\<close>: beyond 65523 bins the receiver silently gets a prefix of the
  arguments.
\<close>

theorem hist_oversize_truncated:
  assumes "length (hname d) = 16"
  shows "\<exists>bs q. serialize (hist_encode d) None = Some bs \<and> parse bs = Some (Inr q) \<and>
    argv q = take ((12 + length (bins d)) mod 65536) (argv (hist_encode d))"
  using assms by (rule hist_oversize)

theorem hist_oversize_truncated_witness:
  "\<exists>bs q. serialize (hist_encode (sample_hist\<lparr>bins := replicate 65524 1\<rparr>)) None = Some bs \<and>
     parse bs = Some (Inr q) \<and> argv q = []"
proof -
  let ?d = "sample_hist\<lparr>bins := replicate 65524 1\<rparr>"
  have h: "length (hname ?d) = 16" by (simp add: sample_hist_def)
  show ?thesis using hist_oversize_truncated [OF h] by simp
qed

text \<open>a graph of up to 16382 points, its coordinates as bit patterns, is delivered unchanged.\<close>

theorem graph_delivery:
  assumes "wf_graph d"
  shows "\<exists>p bs. graph_encode d = Some p \<and> serialize p None = Some bs \<and>
    (\<forall>junk. \<exists>q. parse (bs @ junk) = Some (Inr q) \<and> graph_decode q = Some (Some d))"
  using assms by (rule graphs.delivery)

definition sample_graph :: GraphData where
  "sample_graph = \<lparr>g_run_number = 3, gname = 103 # replicate 15 0, n_points = 1,
     gx = [0x3FF0000000000000], gy = [0x4000000000000000]\<rparr>"

theorem graph_delivery_witness:
  "wf_graph sample_graph \<and> (\<exists>p bs. graph_encode sample_graph = Some p \<and> serialize p None = Some bs \<and>
    (\<forall>junk. \<exists>q. parse (bs @ junk) = Some (Inr q) \<and> graph_decode q = Some (Some sample_graph)))"
proof -
  have h: "wf_graph sample_graph" by (simp add: wf_graph_def sample_graph_def)
  show ?thesis using h graph_delivery [OF h] by blast
qed

text \<open>
  a received graph packet makes the decoder read behind its argument vector exactly when the
  point count it announces needs more arguments than it has: the count is used unchecked.
\<close>

theorem graph_decode_overrun_iff:
  assumes "wf_packet p"
  shows "graph_decode p = None \<longleftrightarrow> 7 \<le> length (argv p) \<and> argv p ! 5 = data_type_u32 TGraph \<and>
    length (argv p) < 7 + 4 * unat (argv p ! 6)"
  using assms by (rule graph_decode_out_of_bounds)

theorem graph_decode_overrun_iff_witness:
  "graph_decode \<lparr>code = 0x5400, argc = 7, argv = [0, 0, 0, 0, 0, 4, 1]\<rparr> = None"
proof -
  have h: "wf_packet \<lparr>code = 0x5400, argc = 7, argv = [0, 0, 0, 0, 0, 4, 1]\<rparr>"
    by (simp add: wf_packet_def)
  show ?thesis using graph_decode_overrun_iff [OF h] by simp
qed

text \<open>a parameter, its value as a bit pattern, is delivered unchanged.\<close>

theorem param_delivery:
  assumes "wf_param d"
  shows "\<exists>bs. serialize (param_encode d) None = Some bs \<and>
    (\<forall>junk. \<exists>p. parse (bs @ junk) = Some (Inr p) \<and> param_decode p = Some (Some d))"
  using params.delivery [OF assms] by simp

theorem param_delivery_witness:
  "wf_param \<lparr>p_run_number = 1, pname = replicate 16 0, pvalue = 0x3FF0000000000000\<rparr> \<and>
   (\<exists>bs. serialize (param_encode \<lparr>p_run_number = 1, pname = replicate 16 0, pvalue = 0x3FF0000000000000\<rparr>) None = Some bs \<and>
     (\<forall>junk. \<exists>p. parse (bs @ junk) = Some (Inr p) \<and>
       param_decode p = Some (Some \<lparr>p_run_number = 1, pname = replicate 16 0, pvalue = 0x3FF0000000000000\<rparr>)))"
proof -
  have h: "wf_param \<lparr>p_run_number = 1, pname = replicate 16 0, pvalue = 0x3FF0000000000000\<rparr>"
    by (simp add: wf_param_def)
  show ?thesis using h param_delivery [OF h] by blast
qed

end
