(* ===== verification/HubLink.thy ===== *)
theory HubLink
  imports FDManager LogCodec MonitorCodec
begin

text \<open>
  The two connections to the hub (FlightOps/src/GRAMS\_TOF\_EventClient.cpp and
  GRAMS\_TOF\_CommandClient.cpp): the loop of each client thread that connects, watches the connection and
  connects again, starting and stopping, and sending packets over the event link. What the command
  link does with the bytes it receives is the subject of the theory \<open>CommandClient\<close>.

  A step of a thread ends after each call that changes the descriptors of the process, so that the
  threads of both clients can be interleaved. The argument of a step is the answer of the operating
  system: whether the socket was made, the hub reached, the event queue made, the descriptor watched,
  the connection still alive. Connecting and watching fail for a descriptor that is not open, and
  there are no events for one; a number that another thread closed and opened again may have events
  here, which the operating system would not report. Waiting times are left out.
\<close>

section \<open>Model\<close>

datatype link_pc =
    LTop
  | LSocket
  | LSet fd
  | LConnect fd
  | LClose fd
  | LRemove
  | LMake fd
  | LEpoll fd
  | LWatch fd fd
  | LDrop
  | LRead fd fd
  | LCloseEpoll fd
  | LEnd

record link =
  hubConnection :: "client option"
  linkRunning :: bool
  lpc :: link_pc

definition link_init :: link where
  "link_init = \<lparr>hubConnection = None, linkRunning = False, lpc = LEnd\<rparr>"

text \<open>Destroying a connection closes its descriptor.\<close>

definition reset_hub :: "fd_state \<times> link \<Rightarrow> fd_state \<times> link" where
  "reset_hub sl = (case sl of (s, l) \<Rightarrow> (case hubConnection l of
     None \<Rightarrow> (s, l)
   | Some c \<Rightarrow> (snd (Client_closeFD c s), l\<lparr>hubConnection := None\<rparr>)))"

text \<open>On the event link the connection object is made first, then the event queue; on the command link the
  event queue is made first, and the object only when the descriptor is watched. Like a socket, an event queue gets the
  lowest free descriptor.\<close>

definition make_hub :: "ServerKind \<Rightarrow> bool \<Rightarrow> fd \<Rightarrow> fd_state \<times> link \<Rightarrow> fd_state \<times> link" where
  "make_hub kind ok fd sl = (case sl of (s, l) \<Rightarrow>
     if kind = EVENT then (let (c, s') = Client_new fd s in (s', l\<lparr>hubConnection := Some c, lpc := LEpoll fd\<rparr>))
     else if ok then (let (epoll_fd, s') = os_socket s in (s', l\<lparr>lpc := LWatch fd epoll_fd\<rparr>))
     else (s, l\<lparr>lpc := LWatch fd (-1)\<rparr>))"

definition epoll_hub :: "bool \<Rightarrow> fd \<Rightarrow> fd_state \<times> link \<Rightarrow> fd_state \<times> link" where
  "epoll_hub ok fd sl = (case sl of (s, l) \<Rightarrow>
     if ok then (let (epoll_fd, s') = os_socket s in (s', l\<lparr>lpc := LWatch fd epoll_fd\<rparr>))
     else (let (s', l') = reset_hub (s, l) in (s', l'\<lparr>lpc := LTop\<rparr>)))"

definition watch_hub :: "ServerKind \<Rightarrow> bool \<Rightarrow> fd \<Rightarrow> fd \<Rightarrow> fd_state \<times> link \<Rightarrow> fd_state \<times> link" where
  "watch_hub kind watched fd epoll_fd sl = (case sl of (s, l) \<Rightarrow>
     if kind = EVENT then
       (if watched then (s, l\<lparr>lpc := LRead fd epoll_fd\<rparr>) else (os_close epoll_fd s, l\<lparr>lpc := LDrop\<rparr>))
     else if watched then
       (let (c, s') = Client_new fd s in (s', l\<lparr>hubConnection := Some c, lpc := LRead fd epoll_fd\<rparr>))
     else (os_close fd s, l\<lparr>lpc := LCloseEpoll epoll_fd\<rparr>))"

definition link_step :: "ServerKind \<Rightarrow> bool \<Rightarrow> fd_state \<times> link \<Rightarrow> fd_state \<times> link" where
  "link_step kind ok sl = (case sl of (s, l) \<Rightarrow> (case lpc l of
     LTop \<Rightarrow> (if linkRunning l then (let (s', l') = reset_hub (s, l) in (s', l'\<lparr>lpc := LSocket\<rparr>))
             else (removeServerFD kind s, l\<lparr>lpc := LEnd\<rparr>))
   | LSocket \<Rightarrow> (if ok then (let (fd, s') = os_socket s in (s', l\<lparr>lpc := LSet fd\<rparr>)) else (s, l\<lparr>lpc := LTop\<rparr>))
   | LSet fd \<Rightarrow> (setServerFD kind fd s, l\<lparr>lpc := LConnect fd\<rparr>)
   | LConnect fd \<Rightarrow> (s, l\<lparr>lpc := (if ok \<and> fd \<in> set (openFDs s) then LMake fd else LClose fd)\<rparr>)
   | LClose fd \<Rightarrow> (os_close fd s, l\<lparr>lpc := LRemove\<rparr>)
   | LRemove \<Rightarrow> (removeServerFD kind s, l\<lparr>lpc := LTop\<rparr>)
   | LMake fd \<Rightarrow> make_hub kind ok fd (s, l)
   | LEpoll fd \<Rightarrow> epoll_hub ok fd (s, l)
   | LWatch fd epoll_fd \<Rightarrow> watch_hub kind (ok \<and> fd \<in> set (openFDs s) \<and> epoll_fd \<in> set (openFDs s)) fd epoll_fd (s, l)
   | LDrop \<Rightarrow> (let (s', l') = reset_hub (s, l) in (s', l'\<lparr>lpc := LTop\<rparr>))
   | LRead fd epoll_fd \<Rightarrow>
       (if \<not> linkRunning l then (s, l\<lparr>lpc := LCloseEpoll epoll_fd\<rparr>)
        else if fd \<notin> set (openFDs s) \<or> epoll_fd \<notin> set (openFDs s) then (s, l)
        else if hubConnection l = None then (s, l\<lparr>lpc := LCloseEpoll epoll_fd\<rparr>)
        else if ok then (s, l)
        else (let (s', l') = reset_hub (s, l) in (s', l'\<lparr>lpc := LCloseEpoll epoll_fd\<rparr>)))
   | LCloseEpoll epoll_fd \<Rightarrow> (os_close epoll_fd s, l\<lparr>lpc := LTop\<rparr>)
   | LEnd \<Rightarrow> (s, l)))"

text \<open>Starting, and the parts of stopping: the flag, closing the connection, and what comes after the
  thread is joined. The event client leaves its closed connection object in place, the command client
  takes it away.\<close>

definition link_start :: "link \<Rightarrow> link" where
  "link_start l = (if linkRunning l then l else l\<lparr>linkRunning := True, lpc := LTop\<rparr>)"

definition link_stop_flag :: "link \<Rightarrow> link" where
  "link_stop_flag l = l\<lparr>linkRunning := False\<rparr>"

definition link_stop_close :: "ServerKind \<Rightarrow> fd_state \<times> link \<Rightarrow> fd_state \<times> link" where
  "link_stop_close kind sl = (case sl of (s, l) \<Rightarrow> (case hubConnection l of
     None \<Rightarrow> (s, l)
   | Some c \<Rightarrow> (let (c', s') = Client_closeFD c s in
       (s', l\<lparr>hubConnection := (if kind = EVENT then Some c' else None)\<rparr>))))"

definition link_stop_end :: "ServerKind \<Rightarrow> fd_state \<times> link \<Rightarrow> (fd_state \<times> link) option" where
  "link_stop_end kind sl = (case sl of (s, l) \<Rightarrow> if lpc l = LEnd then Some (removeServerFD kind s, l) else None)"

definition link_isConnected :: "link \<Rightarrow> bool" where
  "link_isConnected l = (hubConnection l \<noteq> None)"

definition EventClient_isHealthy :: "link \<Rightarrow> bool" where
  "EventClient_isHealthy l =
     (if linkRunning l \<and> hubConnection l = None then True else linkRunning l \<and> hubConnection l \<noteq> None)"

text \<open>The times are in seconds.\<close>

definition heartbeat_timeout :: nat where
  "heartbeat_timeout = 3600 * 24"

definition CommandClient_isHealthy :: "nat \<Rightarrow> nat \<Rightarrow> link \<Rightarrow> bool" where
  "CommandClient_isHealthy now last_activity_time l =
     (if linkRunning l \<and> hubConnection l = None then True
      else if hubConnection l = None then False
      else now - last_activity_time < heartbeat_timeout)"

text \<open>Sending: the number of bytes sent, or -1, is taken as a truth value. The result also gives the bytes
  that left. \<^const>\<open>None\<close> stands for a read behind the arguments and for a send that does not return.\<close>

definition sendPacket :: "packet \<Rightarrow> send_outcome list \<Rightarrow> fd_state \<times> link \<Rightarrow> (bool \<times> u8 list) checked" where
  "sendPacket p outcomes sl = (case sl of (s, l) \<Rightarrow> do {
     serialized_data \<leftarrow> serialize p None;
     if serialized_data = [] then Some (False, [])
     else case hubConnection l of
       None \<Rightarrow> Some (False, [])
     | Some c \<Rightarrow> do {
         (r, wire) \<leftarrow> Client_sendData c outcomes serialized_data s;
         Some (r \<noteq> 0, wire) } })"

definition sendMonitorData_hist :: "u16 \<Rightarrow> MonitorData \<Rightarrow> send_outcome list \<Rightarrow> fd_state \<times> link \<Rightarrow> (bool \<times> u8 list) checked" where
  "sendMonitorData_hist ty d outcomes sl = sendPacket ((hist_encode d)\<lparr>code := ty\<rparr>) outcomes sl"

definition sendMonitorData_graph :: "u16 \<Rightarrow> GraphData \<Rightarrow> send_outcome list \<Rightarrow> fd_state \<times> link \<Rightarrow> (bool \<times> u8 list) checked" where
  "sendMonitorData_graph ty d outcomes sl = do { p \<leftarrow> graph_encode d; sendPacket (p\<lparr>code := ty\<rparr>) outcomes sl }"

definition sendMonitorData_param :: "u16 \<Rightarrow> ParameterData \<Rightarrow> send_outcome list \<Rightarrow> fd_state \<times> link \<Rightarrow> (bool \<times> u8 list) checked" where
  "sendMonitorData_param ty d outcomes sl = sendPacket ((param_encode d)\<lparr>code := ty\<rparr>) outcomes sl"

definition sendLogData :: "u16 \<Rightarrow> LogData \<Rightarrow> send_outcome list \<Rightarrow> fd_state \<times> link \<Rightarrow> (bool \<times> u8 list) checked" where
  "sendLogData ty d outcomes sl = sendPacket ((log_encode d)\<lparr>code := ty\<rparr>) outcomes sl"

text \<open>Bytes that arrive on the event link: the packet given to the handler, if they are one.\<close>

definition event_received :: "u8 list \<Rightarrow> packet option checked" where
  "event_received bytes = map_option (case_sum (\<lambda>_. None) Some) (parse bytes)"

section \<open>Sending\<close>

text \<open>Over a connection that exists, sending a packet is always reported as a success: also when the
  operating system refused it and only a part of its bytes, or none, left. (The error is the value -1,
  which is true.)\<close>

theorem send_failure_unnoticed:
  assumes "wf_packet p" "hubConnection l = Some c" "sendPacket p outcomes (s, l) = Some (b, wire)"
    and "serialize p None = Some bytes"
  shows "b \<and> (wire = bytes \<or> (\<exists>rest. rest \<noteq> [] \<and> bytes = wire @ rest))"
proof -
  have "bytes \<noteq> []"
    using assms(1,4) by (auto simp: serialize_eq frame_def write16_def)
  then obtain r where r: "Client_sendData c outcomes bytes s = Some (r, wire)" "b = (r \<noteq> 0)"
    using assms(2-4) by (auto simp: sendPacket_def split: Option.bind_splits)
  then have "r = -1 \<and> wire = [] \<or> SafeFD_sendData (clientFD c) outcomes bytes = Some (r, wire)"
    by (auto simp: Client_sendData_def sendToClient_def split: if_splits)
  then show ?thesis
    using SafeFD_sendData_result [of "clientFD c" outcomes bytes r wire] \<open>bytes \<noteq> []\<close> r(2) by auto
qed

theorem send_failure_unnoticed_witness:
  "sendPacket \<lparr>code = 0x5000, argc = 0, argv = []\<rparr> [Sent 3, SendError]
     (addClientFD 5 (FDManager_init [5]), link_init\<lparr>hubConnection := Some \<lparr>clientFD = 5, readBuffer = []\<rparr>\<rparr>) =
   Some (True, [0xEB, 0x90, 0x5B])"
proof -
  let ?p = "\<lparr>code = 0x5000, argc = 0, argv = []\<rparr> :: packet"
  let ?s = "addClientFD 5 (FDManager_init [5])"
  let ?l = "link_init\<lparr>hubConnection := Some \<lparr>clientFD = 5, readBuffer = []\<rparr>\<rparr>"
  obtain bytes where bytes: "serialize ?p None = Some bytes" "\<exists>t. bytes = 0xEB # 0x90 # 0x5B # t \<and> t \<noteq> []"
    by (simp add: serialize_eq wf_packet_def frame_def write16_def)
  obtain b wire where send: "sendPacket ?p [Sent 3, SendError] (?s, ?l) = Some (b, wire)" "wire = [0xEB, 0x90, 0x5B]"
    using bytes by (auto simp: sendPacket_def Client_sendData_def sendToClient_def SafeFD_sendData_def addClientFD_def
        FDManager_init_def Let_def)
  have "b \<and> (wire = bytes \<or> (\<exists>rest. rest \<noteq> [] \<and> bytes = wire @ rest))"
    by (rule send_failure_unnoticed [OF _ _ send(1) bytes(1)]) (simp_all add: wf_packet_def)
  then show ?thesis
    using send by simp
qed

section \<open>A lone link\<close>

text \<open>
  The states of a link that runs alone while the descriptors \<open>base\<close> belong to others: at most two
  more descriptors are open, the one of the connection and the one of the event queue.
\<close>

definition lone_inv :: "ServerKind \<Rightarrow> fd set \<Rightarrow> fd_state \<times> link \<Rightarrow> bool" where
  "lone_inv kind base sl = (case sl of (s, l) \<Rightarrow>
     let connected = (\<lambda>fd. clientFDs s = [fd] \<and> (\<exists>buf. hubConnection l = Some \<lparr>clientFD = fd, readBuffer = buf\<rparr>));
         alone = (hubConnection l = None \<and> clientFDs s = []);
         ours = (\<lambda>fd. fd \<notin> base \<and> 2 < fd) in
     linkRunning l \<and> {0, 1, 2} \<subseteq> base \<and> -1 \<notin> base \<and> serverFDs s kind \<notin> base \<and>
     (case lpc l of
        LSet fd \<Rightarrow> ours fd \<and> set (openFDs s) = insert fd base \<and> alone
      | LConnect fd \<Rightarrow> ours fd \<and> serverFDs s kind = fd \<and> set (openFDs s) - {fd} = base \<and> alone
      | LClose fd \<Rightarrow> ours fd \<and> serverFDs s kind = fd \<and> set (openFDs s) - {fd} = base \<and> alone
      | LMake fd \<Rightarrow> ours fd \<and> serverFDs s kind = fd \<and> set (openFDs s) = insert fd base \<and> alone
      | LEpoll fd \<Rightarrow> kind = EVENT \<and> ours fd \<and> serverFDs s kind = fd \<and> set (openFDs s) = insert fd base \<and> connected fd
      | LWatch fd epoll_fd \<Rightarrow> ours fd \<and> serverFDs s kind = fd \<and> fd \<noteq> epoll_fd \<and>
          (if kind = EVENT then connected fd else alone) \<and>
          (ours epoll_fd \<and> set (openFDs s) = {epoll_fd, fd} \<union> base \<or>
           kind \<noteq> EVENT \<and> epoll_fd = -1 \<and> set (openFDs s) = insert fd base)
      | LDrop \<Rightarrow> (\<exists>fd. ours fd \<and> serverFDs s kind = fd \<and> set (openFDs s) = insert fd base \<and> connected fd)
      | LRead fd epoll_fd \<Rightarrow> ours fd \<and> ours epoll_fd \<and> fd \<noteq> epoll_fd \<and> serverFDs s kind = fd \<and>
          set (openFDs s) = {epoll_fd, fd} \<union> base \<and> connected fd
      | LCloseEpoll epoll_fd \<Rightarrow> alone \<and>
          (ours epoll_fd \<and> set (openFDs s) = insert epoll_fd base \<or> epoll_fd = -1 \<and> set (openFDs s) = base)
      | LEnd \<Rightarrow> False
      | _ \<Rightarrow> set (openFDs s) = base \<and> alone))"

lemma not_standard:
  assumes "{0, 1, 2} \<subseteq> base" "fd \<notin> base" "0 \<le> fd"
  shows "2 < (fd :: int)"
proof (rule ccontr)
  assume "\<not> 2 < fd"
  then have "fd = 0 \<or> fd = 1 \<or> fd = 2"
    using assms(3) by presburger
  then show False
    using assms(1,2) by auto
qed

text \<open>A new descriptor.\<close>

lemma new_descriptor:
  assumes "{0, 1, 2} \<subseteq> set (openFDs s)"
  obtains fd where "os_socket s = (fd, s\<lparr>openFDs := fd # openFDs s\<rparr>)" "fd \<notin> set (openFDs s)" "2 < fd"
proof -
  note free = lowest_free_result [of "openFDs s"]
  from not_standard [OF assms conjunct1 [OF free]] free have "2 < lowest_free (openFDs s)"
    by blast
  with free show thesis
    by (intro that [of "lowest_free (openFDs s)"]) (simp_all add: os_socket_def Let_def)
qed

lemmas lone_defs = lone_inv_def link_step_def Let_def

lemmas close_defs = reset_hub_def Client_closeFD_def removeClientFD_def Client_new_def addClientFD_def

lemma lone_step:
  assumes "lone_inv kind base (s, l)"
  shows "lone_inv kind base (link_step kind ok (s, l))"
proof (cases "lpc l")
  case LTop
  then show ?thesis
    using assms by (simp add: lone_defs reset_hub_def)
next
  case LSocket
  then have "{0, 1, 2} \<subseteq> set (openFDs s)"
    using assms by (simp add: lone_defs)
  then obtain fd where "os_socket s = (fd, s\<lparr>openFDs := fd # openFDs s\<rparr>)" "fd \<notin> set (openFDs s)" "2 < fd"
    by (rule new_descriptor)
  then show ?thesis
    using assms LSocket by (simp add: lone_defs)
next
  case (LSet fd)
  then show ?thesis
    using assms by (auto simp: lone_defs setServerFD_def)
next
  case (LConnect fd)
  then show ?thesis
    using assms by (auto simp: lone_defs)
next
  case (LClose fd)
  then show ?thesis
    using assms by (auto simp: lone_defs)
next
  case LRemove
  then show ?thesis
    using assms by (auto simp: lone_defs removeServerFD_def)
next
  case (LMake fd)
  then have "{0, 1, 2} \<subseteq> set (openFDs s)"
    using assms by (auto simp: lone_defs)
  then obtain epoll_fd where e: "os_socket s = (epoll_fd, s\<lparr>openFDs := epoll_fd # openFDs s\<rparr>)"
    "epoll_fd \<notin> set (openFDs s)" "2 < epoll_fd"
    by (rule new_descriptor)
  show ?thesis
  proof (cases "kind = EVENT")
    case True
    then show ?thesis
      using assms LMake by (simp add: lone_defs make_hub_def close_defs)
  next
    case False
    then show ?thesis
      using assms LMake e by (auto simp: lone_defs make_hub_def)
  qed
next
  case (LEpoll fd)
  then have "{0, 1, 2} \<subseteq> set (openFDs s)"
    using assms by (auto simp: lone_defs)
  then obtain epoll_fd where e: "os_socket s = (epoll_fd, s\<lparr>openFDs := epoll_fd # openFDs s\<rparr>)"
    "epoll_fd \<notin> set (openFDs s)" "2 < epoll_fd"
    by (rule new_descriptor)
  note inv = assms [unfolded lone_inv_def Let_def prod.case LEpoll link_pc.case]
  show ?thesis
  proof (cases ok)
    case True
    then show ?thesis
      using inv e LEpoll by (auto simp: lone_defs epoll_hub_def)
  next
    case False
    then show ?thesis
      using inv LEpoll by (auto simp: lone_defs epoll_hub_def close_defs)
  qed
next
  case (LWatch fd epoll_fd)
  then show ?thesis
    using assms by (auto simp: lone_defs watch_hub_def close_defs split: if_splits)
next
  case LDrop
  then show ?thesis
    using assms by (auto simp: lone_defs close_defs)
next
  case (LRead fd epoll_fd)
  then show ?thesis
    using assms by (auto simp: lone_defs close_defs)
next
  case (LCloseEpoll epoll_fd)
  then show ?thesis
    using assms by (auto simp: lone_defs)
next
  case LEnd
  then show ?thesis
    using assms by (simp add: lone_defs)
qed

lemma lone_run: "lone_inv kind base sl \<Longrightarrow> lone_inv kind base (fold (link_step kind) oks sl)"
proof (induction oks arbitrary: sl)
  case (Cons ok oks)
  then show ?case
    using lone_step [of kind base "fst sl" "snd sl" ok] by simp
qed simp

lemma lone_start:
  "{0, 1, 2} \<subseteq> set fds \<Longrightarrow> -1 \<notin> set fds \<Longrightarrow> lone_inv kind (set fds) (FDManager_init fds, link_start link_init)"
  by (simp add: lone_inv_def FDManager_init_def link_start_def link_init_def)

text \<open>C25: A link that runs alone leaks no descriptor and closes none of others, whatever the operating
  system answers and however often the connection is lost: besides the ones that were open before, at
  most the socket and the event queue are open; exactly the ones that were open before whenever it
  starts to connect; and while a connection is watched both are open, and the socket is registered and the one that packets
  are sent to. (Alone: no other thread opens or closes descriptors meanwhile.)\<close>

theorem lone_link_descriptors:
  assumes "{0, 1, 2} \<subseteq> set fds" "-1 \<notin> set fds"
    and "fold (link_step kind) oks (FDManager_init fds, link_start link_init) = (s, l)"
  shows "set fds \<subseteq> set (openFDs s) \<and> (\<exists>fd epoll_fd. set (openFDs s) \<subseteq> {fd, epoll_fd} \<union> set fds) \<and>
    (lpc l = LTop \<or> lpc l = LSocket \<longrightarrow> set (openFDs s) = set fds) \<and>
    (\<forall>fd epoll_fd. lpc l = LRead fd epoll_fd \<longrightarrow> set (openFDs s) = {epoll_fd, fd} \<union> set fds \<and>
       fd \<noteq> epoll_fd \<and> fd \<notin> set fds \<and> epoll_fd \<notin> set fds \<and> clientFDs s = [fd] \<and>
       (\<exists>buf. hubConnection l = Some \<lparr>clientFD = fd, readBuffer = buf\<rparr>))"
proof -
  have "lone_inv kind (set fds) (s, l)"
    using lone_run [OF lone_start [OF assms(1,2)], of kind oks] assms(3) by simp
  then show ?thesis
    by (cases "lpc l") (auto simp: lone_inv_def Let_def split: if_splits)
qed

lemma first_free:
  assumes "set fds = {0, 1, 2}"
  shows "lowest_free fds = 3" "lowest_free (3 # fds) = 4" "lowest_free (4 # fds) = 3" "lowest_free (3 # 4 # fds) = 5"
proof -
  have "\<forall>n :: int. 0 \<le> n \<and> n < 3 \<longrightarrow> n \<in> {0, 1, 2}" "\<forall>n :: int. 0 \<le> n \<and> n < 4 \<longrightarrow> n \<in> insert 3 {0, 1, 2}"
    "\<forall>n :: int. 0 \<le> n \<and> n < 5 \<longrightarrow> n \<in> insert 3 (insert 4 {0, 1, 2})"
    by auto
  then show "lowest_free fds = 3" "lowest_free (3 # fds) = 4" "lowest_free (4 # fds) = 3" "lowest_free (3 # 4 # fds) = 5"
    by (intro lowest_free_eq; simp add: assms)+
qed

theorem lone_link_descriptors_witness:
  "\<exists>s l. fold (link_step EVENT) (replicate 7 True) (FDManager_init [0, 1, 2], link_start link_init) = (s, l) \<and>
    lpc l = LRead 3 4 \<and> set (openFDs s) = {4, 3} \<union> {0, 1, 2} \<and> clientFDs s = [3]"
proof -
  obtain s l where sl: "fold (link_step EVENT) (replicate 7 True) (FDManager_init [0, 1, 2], link_start link_init) = (s, l)"
    by (meson surj_pair)
  have "lpc (snd (fold (link_step EVENT) (replicate 7 True) (FDManager_init [0, 1, 2], link_start link_init))) = LRead 3 4"
    by (simp add: numeral_eq_Suc link_step_def FDManager_init_def link_start_def link_init_def reset_hub_def os_socket_def
        first_free setServerFD_def close_old_def make_hub_def epoll_hub_def watch_hub_def Client_new_def addClientFD_def Let_def)
  then show ?thesis
    using lone_link_descriptors [OF _ _ sl] sl by auto
qed

section \<open>Connecting again\<close>

text \<open>An attempt to connect that gets the descriptor that is still noted for the service: noting it
  again closes it. An attempt with nothing noted.\<close>

definition idle_link :: "ServerKind \<Rightarrow> fd \<Rightarrow> fd_state \<times> link \<Rightarrow> bool" where
  "idle_link kind fd sl = (case sl of (s, l) \<Rightarrow>
     linkRunning l \<and> lpc l = LTop \<and> hubConnection l = None \<and> clientFDs s = [] \<and>
     fd \<notin> set (openFDs s) \<and> 2 < fd \<and> lowest_free (openFDs s) = fd)"

lemma attempt_noted:
  assumes "idle_link kind fd (s, l)" "serverFDs s kind = fd"
  shows "fold (link_step kind) (replicate 4 True) (s, l) = (s, l\<lparr>lpc := LClose fd\<rparr>)"
proof -
  have "filter (\<lambda>x. x \<noteq> fd) (openFDs s) = openFDs s" "(serverFDs s)(kind := fd) = serverFDs s"
    using assms by (auto simp: idle_link_def filter_id_conv)
  then show ?thesis
    using assms by (simp add: idle_link_def numeral_eq_Suc link_step_def reset_hub_def os_socket_def setServerFD_def
        close_old_def os_close_def Let_def)
qed

definition attempt_steps :: "ServerKind \<Rightarrow> nat" where
  "attempt_steps kind = (if kind = EVENT then 7 else 6)"

lemmas attempt_defs = link_step_def reset_hub_def os_socket_def setServerFD_def close_old_def make_hub_def epoll_hub_def
  watch_hub_def Client_new_def addClientFD_def

lemma attempt_fresh:
  assumes "idle_link kind fd (s, l)" "serverFDs s kind = -1"
  shows "fold (link_step kind) (replicate (attempt_steps kind) True) (s, l) =
    (s\<lparr>openFDs := lowest_free (fd # openFDs s) # fd # openFDs s, serverFDs := (serverFDs s)(kind := fd), clientFDs := [fd]\<rparr>,
     l\<lparr>hubConnection := Some \<lparr>clientFD = fd, readBuffer = []\<rparr>, lpc := LRead fd (lowest_free (fd # openFDs s))\<rparr>)"
proof (cases "kind = EVENT")
  case True
  then show ?thesis
    using assms by (simp add: attempt_steps_def idle_link_def numeral_eq_Suc attempt_defs Let_def)
next
  case False
  then show ?thesis
    using assms by (simp add: attempt_steps_def idle_link_def numeral_eq_Suc attempt_defs Let_def)
qed

text \<open>When a link that runs alone loses its connection, the first attempt to connect again fails, although
  the hub would accept it: the new socket gets the number of the lost one, which is still noted for the
  service, and noting it closes the old number, that is, the new socket. The second attempt
  succeeds.\<close>

theorem first_reconnect_fails:
  assumes "lone_inv kind base (s, l)" "lpc l = LRead fd epoll_fd" "\<forall>n. 0 \<le> n \<and> n < fd \<longrightarrow> n \<in> base"
  shows "lpc (snd (fold (link_step kind) (False # replicate 5 True) (s, l))) = LClose fd \<and>
    (\<exists>epoll_fd'. lpc (snd (fold (link_step kind) (False # replicate (7 + attempt_steps kind) True) (s, l))) = LRead fd epoll_fd')"
proof -
  let ?run = "\<lambda>oks. fold (link_step kind) oks"
  obtain s1 l1 where lost: "?run [False, True] (s, l) = (s1, l1)"
    by (meson surj_pair)
  have inv: "fd \<notin> base" "2 < fd" "fd \<noteq> epoll_fd" "epoll_fd \<notin> base" "linkRunning l" "serverFDs s kind = fd"
    "set (openFDs s) = {epoll_fd, fd} \<union> base" "clientFDs s = [fd]" "\<exists>buf. hubConnection l = Some \<lparr>clientFD = fd, readBuffer = buf\<rparr>"
    using assms(1,2) by (simp_all add: lone_inv_def Let_def)
  have s1: "idle_link kind fd (s1, l1)" "serverFDs s1 kind = fd"
  proof -
    let ?open = "filter (\<lambda>x. x \<noteq> epoll_fd) (filter (\<lambda>x. x \<noteq> fd) (openFDs s))"
    have "set ?open = base"
      using inv(1,4,7) by auto
    then have "lowest_free ?open = fd" "fd \<notin> set ?open"
      using inv(1,2) assms(3) by (auto intro!: lowest_free_eq)
    then show "idle_link kind fd (s1, l1)" "serverFDs s1 kind = fd"
      using lost inv assms(2)
      by (auto simp: link_step_def reset_hub_def Client_closeFD_def removeClientFD_def close_old_def os_close_def idle_link_def Let_def)
  qed
  have lists: "False # replicate 5 True = [False, True] @ replicate 4 True"
    "False # replicate (7 + attempt_steps kind) True = [False, True] @ replicate 4 True @ [True, True] @ replicate (attempt_steps kind) True"
    by (simp_all add: numeral_eq_Suc)
  have first: "?run (False # replicate 5 True) (s, l) = (s1, l1\<lparr>lpc := LClose fd\<rparr>)"
    unfolding lists fold_append comp_apply lost by (rule attempt_noted [OF s1])
  have closed: "?run [True, True] (s1, l1\<lparr>lpc := LClose fd\<rparr>) =
      (s1\<lparr>serverFDs := (serverFDs s1)(kind := -1)\<rparr>, l1)" (is "_ = (?s2, l1)")
  proof -
    have "filter (\<lambda>x. x \<noteq> fd) (openFDs s1) = openFDs s1"
      using s1(1) by (auto simp: idle_link_def filter_id_conv)
    then show ?thesis
      using s1 by (simp add: link_step_def removeServerFD_def close_old_def os_close_def idle_link_def)
  qed
  have idle: "idle_link kind fd (?s2, l1)" "serverFDs ?s2 kind = -1"
    using s1(1) by (simp_all add: idle_link_def)
  have "?run (False # replicate (7 + attempt_steps kind) True) (s, l) = ?run (replicate (attempt_steps kind) True) (?s2, l1)"
    unfolding lists fold_append comp_apply lost attempt_noted [OF s1] closed ..
  then show ?thesis
    using first attempt_fresh [OF idle] by simp
qed

lemma base_link:
  "lone_inv COMMAND {0, 1, 2} (\<lparr>openFDs = [4, 3, 0, 1, 2], serverFDs = (\<lambda>_. -1)(COMMAND := 3), clientFDs = [3]\<rparr>,
     \<lparr>hubConnection = Some \<lparr>clientFD = 3, readBuffer = []\<rparr>, linkRunning = True, lpc = LRead 3 4\<rparr>)"
  by (auto simp: lone_inv_def Let_def)

theorem first_reconnect_fails_witness:
  "\<exists>sl epoll_fd. lone_inv COMMAND {0, 1, 2} sl \<and> lpc (snd sl) = LRead 3 4 \<and>
    lpc (snd (fold (link_step COMMAND) (False # replicate 5 True) sl)) = LClose 3 \<and>
    lpc (snd (fold (link_step COMMAND) (False # replicate (7 + attempt_steps COMMAND) True) sl)) = LRead 3 epoll_fd"
proof -
  have low: "\<forall>n :: int. 0 \<le> n \<and> n < 3 \<longrightarrow> n \<in> {0, 1, 2}"
    by auto
  show ?thesis
    using base_link first_reconnect_fails [OF base_link _ low, of 4] by (metis link.select_convs(3) snd_conv)
qed

section \<open>Both links\<close>

text \<open>The threads of both clients, interleaved: a schedule names the thread of each step and the answer it
  gets.\<close>

record hub_links =
  fds :: fd_state
  commandLink :: link
  eventLink :: link

definition links_step :: "ServerKind \<times> bool \<Rightarrow> hub_links \<Rightarrow> hub_links" where
  "links_step a h = (case a of
     (COMMAND, ok) \<Rightarrow> (let (s, l) = link_step COMMAND ok (fds h, commandLink h) in h\<lparr>fds := s, commandLink := l\<rparr>)
   | (EVENT, ok) \<Rightarrow> (let (s, l) = link_step EVENT ok (fds h, eventLink h) in h\<lparr>fds := s, eventLink := l\<rparr>)
   | (DAQ, _) \<Rightarrow> h)"

definition links_start :: "fd list \<Rightarrow> hub_links" where
  "links_start open_fds = \<lparr>fds = FDManager_init open_fds, commandLink = link_start link_init, eventLink = link_start link_init\<rparr>"

text \<open>An attempt of the command link that fails, interrupted after it has closed its socket: the event link
  connects, with the same number, and the command link closes the number a second time.\<close>

definition double_close :: "(ServerKind \<times> bool) list" where
  "double_close = [(COMMAND, True), (COMMAND, True), (COMMAND, True), (COMMAND, False), (COMMAND, True)] @
     replicate 7 (EVENT, True) @ [(COMMAND, True)]"

lemma double_close_result:
  assumes "set base = {0, 1, 2}"
  shows "fold links_step double_close (links_start base) =
    \<lparr>fds = \<lparr>openFDs = 4 # base, serverFDs = (\<lambda>_. -1)(EVENT := 3), clientFDs = [3]\<rparr>,
     commandLink = \<lparr>hubConnection = None, linkRunning = True, lpc = LTop\<rparr>,
     eventLink = \<lparr>hubConnection = Some \<lparr>clientFD = 3, readBuffer = []\<rparr>, linkRunning = True, lpc = LRead 3 4\<rparr>\<rparr>"
proof -
  have "filter (\<lambda>x. x \<noteq> 3) base = base"
    by (simp add: filter_id_conv assms)
  then show ?thesis
    using assms by (simp add: double_close_def numeral_eq_Suc links_step_def links_start_def attempt_defs
        removeServerFD_def os_close_def first_free [OF assms] FDManager_init_def link_start_def link_init_def fun_eq_iff Let_def)
qed

lemma dead_event_step:
  "lpc l = LRead fd epoll_fd \<Longrightarrow> linkRunning l \<Longrightarrow> fd \<notin> set (openFDs s) \<Longrightarrow> link_step EVENT ok (s, l) = (s, l)"
  by (simp add: link_step_def)

text \<open>C23: There is an interleaving of the two links in which a failed attempt of the command link closes the
  connection of the event link: afterwards the event link is connected and healthy by its own account
  and stays like that, its thread never notices, and every packet sent over it is reported as sent
  although no byte leaves. When the command link then connects, both links have the same descriptor,
  and the packets of the event link go out over the command connection.\<close>

theorem failed_attempt_kills_event_link:
  assumes "set base = {0, 1, 2}" "wf_packet p" "serialize p None = Some bytes"
  shows "\<exists>schedule h. fold links_step schedule (links_start base) = h \<and> 3 \<notin> set (openFDs (fds h)) \<and>
    link_isConnected (eventLink h) \<and> EventClient_isHealthy (eventLink h) \<and>
    (\<forall>oks. fold links_step (map (Pair EVENT) oks) h = h) \<and>
    sendPacket p [SendError] (fds h, eventLink h) = Some (True, []) \<and>
    (\<exists>h'. fold links_step (replicate 6 (COMMAND, True)) h = h' \<and>
       hubConnection (commandLink h') = hubConnection (eventLink h') \<and>
       sendPacket p [Sent (length bytes)] (fds h', eventLink h') = Some (True, bytes))"
proof -
  define h where "h = fold links_step double_close (links_start base)"
  note h = h_def [unfolded double_close_result [OF assms(1)]]
  have free: "3 \<notin> set base"
    by (simp add: assms(1))
  have ne: "bytes \<noteq> []"
    using assms(2,3) by (auto simp: serialize_eq frame_def write16_def)
  have dead: "fold links_step (map (Pair EVENT) oks) h = h" for oks
    using free by (induction oks) (simp_all add: h links_step_def dead_event_step)
  have lost: "sendPacket p [SendError] (fds h, eventLink h) = Some (True, [])"
    using assms(3) ne by (simp add: h sendPacket_def Client_sendData_def sendToClient_def SafeFD_sendData_def)
  have shared: "fold links_step (replicate 6 (COMMAND, True)) h =
      h\<lparr>fds := (fds h)\<lparr>openFDs := 5 # 3 # 4 # base, serverFDs := (serverFDs (fds h))(COMMAND := 3)\<rparr>,
        commandLink := (commandLink h)\<lparr>hubConnection := Some \<lparr>clientFD = 3, readBuffer = []\<rparr>, lpc := LRead 3 5\<rparr>\<rparr>"
    using free by (simp add: h numeral_eq_Suc links_step_def attempt_defs first_free [OF assms(1)] Let_def)
  have "\<exists>h'. fold links_step (replicate 6 (COMMAND, True)) h = h' \<and>
       hubConnection (commandLink h') = hubConnection (eventLink h') \<and>
       sendPacket p [Sent (length bytes)] (fds h', eventLink h') = Some (True, bytes)"
    unfolding shared using assms(3) ne
    by (simp add: h sendPacket_def Client_sendData_def sendToClient_def SafeFD_sendData_def Let_def)
  moreover have "3 \<notin> set (openFDs (fds h))" "link_isConnected (eventLink h)" "EventClient_isHealthy (eventLink h)"
    using free by (simp_all add: h link_isConnected_def EventClient_isHealthy_def)
  ultimately show ?thesis
    using dead lost h_def by blast
qed

theorem failed_attempt_kills_event_link_witness:
  "\<exists>schedule h. fold links_step schedule (links_start [0, 1, 2]) = h \<and> 3 \<notin> set (openFDs (fds h)) \<and>
    EventClient_isHealthy (eventLink h) \<and>
    sendPacket \<lparr>code = 0x5000, argc = 0, argv = []\<rparr> [SendError] (fds h, eventLink h) = Some (True, [])"
proof -
  let ?p = "\<lparr>code = 0x5000, argc = 0, argv = []\<rparr> :: packet"
  have "wf_packet ?p"
    by (simp add: wf_packet_def)
  moreover obtain bytes where "serialize ?p None = Some bytes"
    by (simp add: serialize_eq wf_packet_def)
  ultimately show ?thesis
    using failed_attempt_kills_event_link [of "[0, 1, 2]" ?p bytes] by auto
qed

text \<open>The health check of the event link says no more than that the client was started.\<close>

lemma event_health_is_running: "EventClient_isHealthy l \<longleftrightarrow> linkRunning l"
  by (auto simp: EventClient_isHealthy_def)

end
