(* ===== verification/CommandClient.thy ===== *)
theory CommandClient
  imports HubLink "HOL-Library.Multiset"
begin

text \<open>
  How the command client (FlightOps/src/GRAMS\_TOF\_CommandClient.cpp) makes commands out of the bytes of the
  hub and executes them. The client thread collects the bytes it receives, cuts them into packets,
  acknowledges each, and puts it into a queue, urgent ones at the front; the worker thread executes
  the queue. The connection itself is the subject of the theory \<open>HubLink\<close>.

  The lemmas show that the commands of the hub arrive whatever the pieces are in which the network
  delivers their bytes, that each is executed once and the normal ones in their order, and that
  stopping the client can hang.
\<close>

section \<open>Receiving\<close>

definition CLIENT_MAX_ARGC :: u16 where
  "CLIENT_MAX_ARGC = 0xFFFF"

definition MIN_PACKET_SIZE :: nat where
  "MIN_PACKET_SIZE = 14"

definition ack_packet :: "packet \<Rightarrow> packet" where
  "ack_packet pkt = \<lparr>code = code pkt, argc = 1, argv = [of_nat (getPacketSize pkt)]\<rparr>"

definition urgent :: "packet \<Rightarrow> bool" where
  "urgent pkt = (code pkt = 0x5001 \<or> code pkt = 0x5002)"

definition enqueue :: "packet \<Rightarrow> packet list \<Rightarrow> packet list" where
  "enqueue pkt q = (if urgent pkt then pkt # q else q @ [pkt])"

text \<open>The loop over the packets in the buffer: whether the connection has to be closed, what is left in the
  buffer, the queue, and the acknowledgements sent. The first argument says which acknowledgements
  can be sent; after its end all can.\<close>

function process_packets :: "bool list \<Rightarrow> u8 list \<Rightarrow> packet list \<Rightarrow> u8 list list \<Rightarrow>
    (bool \<times> u8 list \<times> packet list \<times> u8 list list) checked" where
  "process_packets sends buf q acks =
     (if length buf < MIN_PACKET_SIZE then Some (False, buf, q, acks)
      else do {
        b6 \<leftarrow> rd buf 6;
        b7 \<leftarrow> rd buf 7;
        let argc = (push_bit 8 (ucast b6) OR ucast b7 :: u16);
        if CLIENT_MAX_ARGC < argc then Some (True, buf, q, acks)
        else let expectedSize = MIN_PACKET_SIZE + unat argc * 4 in
          if length buf < expectedSize then Some (False, buf, q, acks)
          else do {
            verdict \<leftarrow> parse (take expectedSize buf);
            (case verdict of
               Inl _ \<Rightarrow> Some (True, drop expectedSize buf, q, acks)
             | Inr pkt \<Rightarrow> do {
                 ack \<leftarrow> serialize (ack_packet pkt) None;
                 if sends \<noteq> [] \<and> \<not> hd sends then Some (True, drop expectedSize buf, q, acks)
                 else process_packets (tl sends) (drop expectedSize buf) (enqueue pkt q) (acks @ [ack]) }) } })"
  by pat_completeness auto
termination
  by (relation "measure (\<lambda>(sends, buf, q, acks). length buf)") (auto simp: MIN_PACKET_SIZE_def)

declare process_packets.simps [simp del]

text \<open>One round of this loop, up to the acknowledgement: nothing to do yet, a reason to close, or a packet with
  its acknowledgement and the rest of the buffer.\<close>

definition take_packet :: "u8 list \<Rightarrow> (bool + packet \<times> u8 list \<times> u8 list) checked" where
  "take_packet buf =
     (if length buf < MIN_PACKET_SIZE then Some (Inl False)
      else do {
        b6 \<leftarrow> rd buf 6;
        b7 \<leftarrow> rd buf 7;
        let argc = (push_bit 8 (ucast b6) OR ucast b7 :: u16);
        if CLIENT_MAX_ARGC < argc then Some (Inl True)
        else let expectedSize = MIN_PACKET_SIZE + unat argc * 4 in
          if length buf < expectedSize then Some (Inl False)
          else do {
            verdict \<leftarrow> parse (take expectedSize buf);
            (case verdict of
               Inl _ \<Rightarrow> Some (Inl True)
             | Inr pkt \<Rightarrow> do {
                 ack \<leftarrow> serialize (ack_packet pkt) None;
                 Some (Inr (pkt, ack, drop expectedSize buf)) }) } })"

text \<open>The loop is the repetition of such rounds.\<close>

lemma process_packets_round:
  "process_packets sends buf q acks = do {
     r \<leftarrow> take_packet buf;
     (case r of
        Inl shouldClose \<Rightarrow> map_option (\<lambda>(_, buf', _). (shouldClose, buf', q, acks)) (process_packets sends buf q acks)
      | Inr (pkt, ack, rest) \<Rightarrow>
          if sends \<noteq> [] \<and> \<not> hd sends then Some (True, rest, q, acks)
          else process_packets (tl sends) rest (enqueue pkt q) (acks @ [ack])) }"
proof (cases "length buf < MIN_PACKET_SIZE")
  case True
  then show ?thesis
    by (simp add: take_packet_def process_packets.simps [of sends buf q acks])
next
  case False
  then obtain b6 b7 where b: "rd buf 6 = Some b6" "rd buf 7 = Some b7"
    by (simp add: MIN_PACKET_SIZE_def rd_def)
  let ?argc = "push_bit 8 (ucast b6) OR ucast b7 :: u16"
  let ?size = "MIN_PACKET_SIZE + unat ?argc * 4"
  show ?thesis
  proof (cases "parse (take ?size buf)")
    case None
    then show ?thesis
      using False b by (simp add: take_packet_def process_packets.simps [of sends buf q acks] Let_def)
  next
    case (Some verdict)
    then show ?thesis
      using False b
      by (cases verdict; cases "serialize (ack_packet (projr verdict)) None")
        (simp_all add: take_packet_def process_packets.simps [of sends buf q acks] Let_def)
  qed
qed

record receiver =
  incoming_buffer :: "u8 list"
  commandQueue :: "packet list"
  acksSent :: "u8 list list"

text \<open>One read from the connection, and a number of them; closing clears the buffer.\<close>

definition client_read :: "bool list \<Rightarrow> u8 list \<Rightarrow> receiver \<Rightarrow> (bool \<times> receiver) checked" where
  "client_read sends bytes st = do {
     (shouldClose, buf, q, acks) \<leftarrow> process_packets sends (incoming_buffer st @ bytes) (commandQueue st) (acksSent st);
     Some (shouldClose, \<lparr>incoming_buffer = (if shouldClose then [] else buf), commandQueue = q, acksSent = acks\<rparr>) }"

fun client_reads :: "u8 list list \<Rightarrow> receiver \<Rightarrow> (bool \<times> receiver) checked" where
  "client_reads [] st = Some (False, st)"
| "client_reads (bytes # rest) st = do {
     (shouldClose, st) \<leftarrow> client_read [] bytes st;
     if shouldClose then Some (True, st) else client_reads rest st }"

section \<open>Every piece of the stream\<close>

definition frames_of :: "packet list \<Rightarrow> u8 list list \<Rightarrow> bool" where
  "frames_of ps frs = list_all2 (\<lambda>p f. wf_packet p \<and> serialize p None = Some f) ps frs"

definition next_part :: "u8 list \<Rightarrow> u8 list list \<Rightarrow> bool" where
  "next_part rest frs = (case frs of [] \<Rightarrow> rest = [] | f # _ \<Rightarrow> \<exists>more. more \<noteq> [] \<and> f = rest @ more)"

lemma stream_split:
  assumes "x @ y = concat frs" "[] \<notin> set frs"
  shows "\<exists>k rest. k \<le> length frs \<and> x = concat (take k frs) @ rest \<and> next_part rest (drop k frs) \<and>
    rest @ y = concat (drop k frs)"
  using assms
proof (induction frs arbitrary: x)
  case Nil
  then show ?case
    by (intro exI [of _ 0] exI [of _ "[]"]) (simp add: next_part_def)
next
  case (Cons f frs)
  show ?case
  proof (cases "length f \<le> length x")
    case True
    then obtain x' where x': "x = f @ x'" "x' @ y = concat frs"
      using Cons.prems(1) by (auto simp: append_eq_append_conv2)
    then obtain k rest where "k \<le> length frs" "x' = concat (take k frs) @ rest" "next_part rest (drop k frs)"
      "rest @ y = concat (drop k frs)"
      using Cons.IH [of x'] Cons.prems(2) by auto
    then show ?thesis
      using x'(1) by (intro exI [of _ "Suc k"] exI [of _ rest]) simp
  next
    case False
    then obtain more where "f = x @ more" "more \<noteq> []"
      using Cons.prems(1) by (auto simp: append_eq_append_conv2)
    then show ?thesis
      using Cons.prems(1) by (intro exI [of _ 0] exI [of _ x]) (auto simp: next_part_def)
  qed
qed

lemma frame_header:
  assumes "wf_packet p" "serialize p None = Some f"
  shows "length f = MIN_PACKET_SIZE + unat (argc p) * 4"
    "7 < length f" "push_bit 8 (ucast (f ! 6)) OR ucast (f ! 7) = argc p" "parse f = Some (Inr p)"
proof -
  have f: "f = frame p (foldl crc8408_byte 0 (payload p))"
    using assms by (simp add: serialize_eq)
  show len: "length f = MIN_PACKET_SIZE + unat (argc p) * 4"
    using assms(1) by (simp add: f length_frame MIN_PACKET_SIZE_def wf_packet_def)
  then show "7 < length f"
    by (simp add: MIN_PACKET_SIZE_def)
  show "push_bit 8 (ucast (f ! 6)) OR ucast (f ! 7) = argc p"
    using join16_split [of "argc p"] by (simp add: f frame_def write16_def)
  show "parse f = Some (Inr p)"
    using parse_frame [OF assms(1), of _ "[]"] by (simp add: f)
qed

lemma no_larger_argc: "\<not> CLIENT_MAX_ARGC < n"
  using unat_u16_lt [of n] by (simp add: CLIENT_MAX_ARGC_def word_less_nat_alt)

lemma process_incomplete:
  assumes "frames_of ps frs" "next_part rest frs"
  shows "process_packets sends rest q acks = Some (False, rest, q, acks)"
proof (cases "length rest < MIN_PACKET_SIZE")
  case True
  then show ?thesis
    by (subst process_packets.simps) simp
next
  case False
  then obtain p f more where f: "wf_packet p" "serialize p None = Some f" "f = rest @ more" "more \<noteq> []"
    using assms by (auto simp: frames_of_def next_part_def list_all2_Cons2 MIN_PACKET_SIZE_def split: list.splits)
  note header = frame_header [OF f(1,2)]
  have "rest ! 6 = f ! 6" "rest ! 7 = f ! 7" "length rest < length f"
    using False f(3,4) by (simp_all add: MIN_PACKET_SIZE_def nth_append)
  then show ?thesis
    using False header no_larger_argc
    by (subst process_packets.simps) (simp add: rd_def MIN_PACKET_SIZE_def Let_def)
qed

lemma process_frame:
  assumes "wf_packet p" "serialize p None = Some f" "serialize (ack_packet p) None = Some ack"
  shows "process_packets [] (f @ rest) q acks = process_packets [] rest (enqueue p q) (acks @ [ack])"
proof -
  note header = frame_header [OF assms(1,2)]
  have "(f @ rest) ! 6 = f ! 6" "(f @ rest) ! 7 = f ! 7"
    using header(2) by (simp_all add: nth_append)
  then show ?thesis
    using header assms(3) no_larger_argc
    by (subst process_packets.simps) (simp add: rd_def MIN_PACKET_SIZE_def Let_def)
qed

lemma ack_serializes: "\<exists>ack. serialize (ack_packet p) None = Some ack"
  by (simp add: ack_packet_def serialize_eq wf_packet_def)

definition acks_of :: "packet list \<Rightarrow> u8 list list" where
  "acks_of ps = map (\<lambda>p. the (serialize (ack_packet p) None)) ps"

lemma process_frames:
  assumes "frames_of ps frs" "frames_of ps' frs'" "next_part rest frs'"
  shows "process_packets [] (concat frs @ rest) q acks =
    Some (False, rest, foldl (\<lambda>q p. enqueue p q) q ps, acks @ acks_of ps)"
  using assms(1)
proof (induction ps arbitrary: frs q acks)
  case Nil
  then show ?case
    using process_incomplete [OF assms(2,3)] by (simp add: frames_of_def acks_of_def)
next
  case (Cons p ps)
  then obtain f fs where f: "frs = f # fs" "wf_packet p" "serialize p None = Some f" "frames_of ps fs"
    by (auto simp: frames_of_def list_all2_Cons1)
  obtain ack where ack: "serialize (ack_packet p) None = Some ack"
    using ack_serializes by blast
  then show ?case
    using Cons.IH [OF f(4)] process_frame [OF f(2,3) ack] f(1) by (simp add: acks_of_def)
qed

lemma reads_frames:
  assumes "frames_of ps frs" "next_part (incoming_buffer st) frs" "incoming_buffer st @ concat chunks = concat frs"
  shows "client_reads chunks st = Some (False, \<lparr>incoming_buffer = [],
    commandQueue = foldl (\<lambda>q p. enqueue p q) (commandQueue st) ps, acksSent = acksSent st @ acks_of ps\<rparr>)"
  using assms
proof (induction chunks arbitrary: ps frs st)
  case Nil
  then have "frs = []"
    by (auto simp: next_part_def split: list.splits)
  then show ?case
    using Nil by (auto simp: frames_of_def acks_of_def next_part_def)
next
  case (Cons c chunks)
  have "[] \<notin> set frs"
    using Cons.prems(1) frame_header(2) by (fastforce simp: frames_of_def list_all2_conv_all_nth in_set_conv_nth)
  then obtain k rest where k: "k \<le> length frs" "incoming_buffer st @ c = concat (take k frs) @ rest"
    "next_part rest (drop k frs)" "rest @ concat chunks = concat (drop k frs)"
    using stream_split [of "incoming_buffer st @ c" "concat chunks" frs] Cons.prems(3) by auto
  have parts: "frames_of (take k ps) (take k frs)" "frames_of (drop k ps) (drop k frs)"
    using Cons.prems(1) by (auto simp: frames_of_def list_all2_takeI list_all2_dropI)
  let ?st = "\<lparr>incoming_buffer = rest, commandQueue = foldl (\<lambda>q p. enqueue p q) (commandQueue st) (take k ps),
    acksSent = acksSent st @ acks_of (take k ps)\<rparr>"
  have "client_read [] c st = Some (False, ?st)"
    using process_frames [OF parts(1,2) k(3)] k(2) by (simp add: client_read_def)
  moreover have "client_reads chunks ?st = Some (False, \<lparr>incoming_buffer = [],
      commandQueue = foldl (\<lambda>q p. enqueue p q) (commandQueue ?st) (drop k ps), acksSent = acksSent ?st @ acks_of (drop k ps)\<rparr>)"
    using k(3,4) by (intro Cons.IH [OF parts(2)]) simp_all
  moreover have "foldl (\<lambda>q p. enqueue p q) (foldl (\<lambda>q p. enqueue p q) (commandQueue st) (take k ps)) (drop k ps) =
      foldl (\<lambda>q p. enqueue p q) (commandQueue st) ps" "acks_of (take k ps) @ acks_of (drop k ps) = acks_of ps"
    by (simp_all flip: foldl_append map_append add: acks_of_def)
  ultimately show ?case
    by simp
qed

lemma enqueue_all:
  "foldl (\<lambda>q p. enqueue p q) q ps = rev (filter urgent ps) @ q @ filter (\<lambda>p. \<not> urgent p) ps"
  by (induction ps arbitrary: q) (simp_all add: enqueue_def)

lemma reads_stream:
  assumes "frames_of ps frs" "concat chunks = concat frs"
  shows "client_reads chunks \<lparr>incoming_buffer = [], commandQueue = [], acksSent = []\<rparr> = Some (False, \<lparr>incoming_buffer = [],
    commandQueue = rev (filter urgent ps) @ filter (\<lambda>p. \<not> urgent p) ps, acksSent = acks_of ps\<rparr>)"
proof -
  have "next_part [] frs"
    using assms(1) frame_header(2) by (fastforce simp: next_part_def frames_of_def list_all2_Cons2 split: list.splits)
  then show ?thesis
    using reads_frames [OF assms(1), of "\<lparr>incoming_buffer = [], commandQueue = [], acksSent = []\<rparr>" chunks] assms(2)
    by (simp add: enqueue_all)
qed

text \<open>However the network cuts the stream of the hub, if it is the stream of a list of packets, the
  client queues exactly these packets, the urgent ones in front (in reverse order) and the others in
  their order, sends one acknowledgement for each in their order, and has nothing left in its
  buffer.\<close>

theorem commands_arrive:
  assumes "frames_of ps frs" "concat chunks = concat frs"
  shows "\<exists>st. client_reads chunks \<lparr>incoming_buffer = [], commandQueue = [], acksSent = []\<rparr> = Some (False, st) \<and>
    incoming_buffer st = [] \<and>
    commandQueue st = rev (filter urgent ps) @ filter (\<lambda>p. \<not> urgent p) ps \<and>
    map Some (acksSent st) = map (\<lambda>p. serialize (ack_packet p) None) ps"
proof -
  have "client_reads chunks \<lparr>incoming_buffer = [], commandQueue = [], acksSent = []\<rparr> =
      Some (False, \<lparr>incoming_buffer = [], commandQueue = rev (filter urgent ps) @ filter (\<lambda>p. \<not> urgent p) ps, acksSent = acks_of ps\<rparr>)"
    using reads_stream [OF assms] by simp
  moreover have "map Some (acks_of ps) = map (\<lambda>p. serialize (ack_packet p) None) ps"
    using ack_serializes by (simp add: acks_of_def)
  ultimately show ?thesis
    by simp
qed

lemma take_drop_append: "take n xs @ drop n xs @ ys = xs @ ys"
  by (metis append.assoc append_take_drop_id)

theorem commands_arrive_witness:
  "\<exists>f1 f2 st. serialize \<lparr>code = 0x5000, argc = 1, argv = [7]\<rparr> None = Some f1 \<and>
    serialize \<lparr>code = 0x5001, argc = 0, argv = []\<rparr> None = Some f2 \<and>
    client_reads [take 5 f1, drop 5 f1 @ take 3 f2, drop 3 f2] \<lparr>incoming_buffer = [], commandQueue = [], acksSent = []\<rparr> =
      Some (False, st) \<and>
    commandQueue st = [\<lparr>code = 0x5001, argc = 0, argv = []\<rparr>, \<lparr>code = 0x5000, argc = 1, argv = [7]\<rparr>]"
proof -
  let ?p1 = "\<lparr>code = 0x5000, argc = 1, argv = [7]\<rparr> :: packet" and ?p2 = "\<lparr>code = 0x5001, argc = 0, argv = []\<rparr> :: packet"
  have wf: "wf_packet ?p1" "wf_packet ?p2"
    by (simp_all add: wf_packet_def)
  obtain f1 f2 where f: "serialize ?p1 None = Some f1" "serialize ?p2 None = Some f2"
    using wf by (simp add: serialize_eq)
  have "frames_of [?p1, ?p2] [f1, f2]" "concat [take 5 f1, drop 5 f1 @ take 3 f2, drop 3 f2] = concat [f1, f2]"
    using wf f by (simp_all add: frames_of_def take_drop_append)
  from commands_arrive [OF this] show ?thesis
    using f by (auto simp: urgent_def)
qed

section \<open>Executing and stopping\<close>

text \<open>
  The worker thread, the client thread, and the thread that stops the client. The worker tests the
  flag, then the condition of its wait while it holds the lock of the queue; between this test and
  the moment the wait releases the lock nobody else can have the lock, but setting the flag and
  notifying do not need it. A step of the client thread puts a command into the queue; the
  notification is the next one. Wake-ups without a reason are steps of their own.
\<close>

datatype worker_state = WLoop | WTest | WHolding | WBlocked | WExec packet | WDone

datatype receiver_state = RLoop | RBusy | RNotify | REnd

datatype stop_state = SIdle | SNotify | SJoin | SDone

record command_threads =
  ctRunning :: bool
  ctQueue :: "packet list"
  ctWorker :: worker_state
  ctReceiver :: receiver_state
  ctStop :: stop_state
  ctReceived :: "packet list"
  ctExecuted :: "packet list"

definition threads_start :: "packet list \<Rightarrow> command_threads" where
  "threads_start q = \<lparr>ctRunning = True, ctQueue = q, ctWorker = WLoop, ctReceiver = RLoop, ctStop = SIdle,
     ctReceived = q, ctExecuted = []\<rparr>"

definition wake_worker :: "command_threads \<Rightarrow> command_threads" where
  "wake_worker s = (if ctWorker s = WBlocked then s\<lparr>ctWorker := WTest\<rparr> else s)"

definition worker_test :: "command_threads \<Rightarrow> command_threads" where
  "worker_test s = (case ctQueue s of
     p # q \<Rightarrow> s\<lparr>ctQueue := q, ctWorker := WExec p\<rparr>
   | [] \<Rightarrow> if ctRunning s then s\<lparr>ctWorker := WHolding\<rparr> else s\<lparr>ctWorker := WDone\<rparr>)"

inductive threads_step :: "command_threads \<Rightarrow> command_threads \<Rightarrow> bool" where
  worker_loop: "ctWorker s = WLoop \<Longrightarrow> threads_step s (s\<lparr>ctWorker := (if ctRunning s then WTest else WDone)\<rparr>)"
| worker_tests: "ctWorker s = WTest \<Longrightarrow> threads_step s (worker_test s)"
| worker_blocks: "ctWorker s = WHolding \<Longrightarrow> threads_step s (s\<lparr>ctWorker := WBlocked\<rparr>)"
| worker_executes: "ctWorker s = WExec p \<Longrightarrow> threads_step s (s\<lparr>ctExecuted := ctExecuted s @ [p], ctWorker := WLoop\<rparr>)"
| receiver_loop: "ctReceiver s = RLoop \<Longrightarrow> threads_step s (s\<lparr>ctReceiver := (if ctRunning s then RBusy else REnd)\<rparr>)"
| receiver_pushes: "ctReceiver s = RBusy \<Longrightarrow> ctWorker s \<noteq> WHolding \<Longrightarrow>
    threads_step s (s\<lparr>ctQueue := enqueue p (ctQueue s), ctReceived := ctReceived s @ [p], ctReceiver := RNotify\<rparr>)"
| receiver_notifies: "ctReceiver s = RNotify \<Longrightarrow> threads_step s ((wake_worker s)\<lparr>ctReceiver := RBusy\<rparr>)"
| receiver_idle: "ctReceiver s = RBusy \<Longrightarrow> threads_step s (s\<lparr>ctReceiver := RLoop\<rparr>)"
| stop_begins: "ctStop s = SIdle \<Longrightarrow> threads_step s (s\<lparr>ctRunning := False, ctStop := SNotify\<rparr>)"
| stop_notifies: "ctStop s = SNotify \<Longrightarrow> threads_step s ((wake_worker s)\<lparr>ctStop := SJoin\<rparr>)"
| stop_joins: "ctStop s = SJoin \<Longrightarrow> ctWorker s = WDone \<Longrightarrow> threads_step s (s\<lparr>ctStop := SDone\<rparr>)"

inductive threads_reach :: "packet list \<Rightarrow> command_threads \<Rightarrow> bool" for q where
  reach_start: "threads_reach q (threads_start q)"
| reach_step: "threads_reach q s \<Longrightarrow> threads_step s s' \<Longrightarrow> threads_reach q s'"
| reach_spurious: "threads_reach q s \<Longrightarrow> threads_reach q (wake_worker s)"

inductive_cases threads_stepE: "threads_step s s'"

definition in_hand :: "command_threads \<Rightarrow> packet list" where
  "in_hand s = (case ctWorker s of WExec p \<Rightarrow> [p] | _ \<Rightarrow> [])"

definition commands_inv :: "command_threads \<Rightarrow> bool" where
  "commands_inv s = (mset (ctExecuted s @ in_hand s @ ctQueue s) = mset (ctReceived s) \<and>
     filter (\<lambda>p. \<not> urgent p) (ctExecuted s @ in_hand s @ ctQueue s) = filter (\<lambda>p. \<not> urgent p) (ctReceived s))"

lemma in_hand_simps [simp]:
  "ctWorker s = WLoop \<Longrightarrow> in_hand s = []" "ctWorker s = WTest \<Longrightarrow> in_hand s = []" "ctWorker s = WHolding \<Longrightarrow> in_hand s = []"
  "ctWorker s = WBlocked \<Longrightarrow> in_hand s = []" "ctWorker s = WExec p \<Longrightarrow> in_hand s = [p]" "ctWorker s = WDone \<Longrightarrow> in_hand s = []"
  by (simp_all add: in_hand_def)

lemma in_hand_cong: "ctWorker s = ctWorker s' \<Longrightarrow> in_hand s = in_hand s'"
  by (simp add: in_hand_def)

lemma commands_inv_wake [simp]: "commands_inv (wake_worker s) = commands_inv s"
  by (simp add: commands_inv_def wake_worker_def)

lemma commands_inv_cong:
  "ctQueue s = ctQueue s' \<Longrightarrow> ctReceived s = ctReceived s' \<Longrightarrow> ctExecuted s = ctExecuted s' \<Longrightarrow> in_hand s = in_hand s' \<Longrightarrow>
   commands_inv s = commands_inv s'"
  by (simp add: commands_inv_def)

lemma commands_step:
  assumes "threads_step s s'" "commands_inv s"
  shows "commands_inv s'"
  using assms(1)
proof (cases rule: threads_step.cases)
  case worker_tests
  then show ?thesis
    using assms(2) by (auto simp: worker_test_def commands_inv_def split: list.splits)
next
  case (receiver_pushes p)
  then have "in_hand s' = in_hand s"
    by (intro in_hand_cong) simp
  then show ?thesis
    using assms(2) receiver_pushes by (auto simp: commands_inv_def enqueue_def)
next
  case receiver_notifies
  then have "commands_inv s' = commands_inv (wake_worker s)"
    by (intro commands_inv_cong in_hand_cong) simp_all
  then show ?thesis
    using assms(2) by simp
next
  case stop_notifies
  then have "commands_inv s' = commands_inv (wake_worker s)"
    by (intro commands_inv_cong in_hand_cong) simp_all
  then show ?thesis
    using assms(2) by simp
qed (use assms(2) in \<open>auto simp: commands_inv_def in_hand_def split: if_splits\<close>)

text \<open>C22: In every interleaving, each command received is executed, being executed, or in the queue, and no
  command twice; and the commands that are not urgent are executed in the order in which they were
  received.\<close>

theorem commands_run_once:
  assumes "threads_reach q s"
  shows "mset (ctExecuted s @ in_hand s @ ctQueue s) = mset (ctReceived s) \<and>
    filter (\<lambda>p. \<not> urgent p) (ctExecuted s @ in_hand s @ ctQueue s) = filter (\<lambda>p. \<not> urgent p) (ctReceived s)"
proof -
  have "commands_inv s"
    using assms
  proof induction
    case reach_start
    then show ?case
      by (simp add: commands_inv_def threads_start_def)
  qed (use commands_step in auto)
  then show ?thesis
    by (simp add: commands_inv_def)
qed

theorem commands_run_once_witness:
  "\<exists>s. threads_reach [] s \<and> ctReceived s = [\<lparr>code = 0x5001, argc = 0, argv = []\<rparr>] \<and>
    mset (ctExecuted s @ in_hand s @ ctQueue s) = {#\<lparr>code = 0x5001, argc = 0, argv = []\<rparr>#}"
proof -
  let ?p = "\<lparr>code = 0x5001, argc = 0, argv = []\<rparr> :: packet"
  let ?s = "\<lambda>q w r rcv. \<lparr>ctRunning = True, ctQueue = q, ctWorker = w, ctReceiver = r, ctStop = SIdle, ctReceived = rcv, ctExecuted = []\<rparr>"
  have "threads_reach [] (?s [] WLoop RLoop [])"
    using reach_start [of "[]"] by (simp add: threads_start_def)
  then have "threads_reach [] (?s [] WLoop RBusy [])"
    by (rule reach_step) (use receiver_loop [of "?s [] WLoop RLoop []"] in simp)
  then have "threads_reach [] (?s [?p] WLoop RNotify [?p])"
    by (rule reach_step) (use receiver_pushes [of "?s [] WLoop RBusy []" ?p] in \<open>simp add: enqueue_def urgent_def\<close>)
  from commands_run_once [OF this] this show ?thesis
    by (intro exI [of _ "?s [?p] WLoop RNotify [?p]"]) simp
qed

lemma stop_deadlock:
  "\<exists>s. threads_reach [] s \<and> ctStop s = SJoin \<and> ctWorker s = WBlocked \<and> \<not> (\<exists>s'. threads_step s s')"
proof -
  let ?s = "\<lambda>run w r st. \<lparr>ctRunning = run, ctQueue = [], ctWorker = w, ctReceiver = r, ctStop = st, ctReceived = [], ctExecuted = []\<rparr>"
  have "threads_reach [] (?s True WLoop RLoop SIdle)"
    using reach_start [of "[]"] by (simp add: threads_start_def)
  then have "threads_reach [] (?s True WTest RLoop SIdle)"
    by (rule reach_step) (use worker_loop [of "?s True WLoop RLoop SIdle"] in simp)
  then have "threads_reach [] (?s True WHolding RLoop SIdle)"
    by (rule reach_step) (use worker_tests [of "?s True WTest RLoop SIdle"] in \<open>simp add: worker_test_def\<close>)
  then have "threads_reach [] (?s False WHolding RLoop SNotify)"
    by (rule reach_step) (use stop_begins [of "?s True WHolding RLoop SIdle"] in simp)
  then have "threads_reach [] (?s False WHolding RLoop SJoin)"
    by (rule reach_step) (use stop_notifies [of "?s False WHolding RLoop SNotify"] in \<open>simp add: wake_worker_def\<close>)
  then have "threads_reach [] (?s False WBlocked RLoop SJoin)"
    by (rule reach_step) (use worker_blocks [of "?s False WHolding RLoop SJoin"] in simp)
  then have "threads_reach [] (?s False WBlocked REnd SJoin)"
    by (rule reach_step) (use receiver_loop [of "?s False WBlocked RLoop SJoin"] in simp)
  moreover have "\<not> threads_step (?s False WBlocked REnd SJoin) s'" for s'
    by (auto elim: threads_stepE)
  ultimately show ?thesis
    by (intro exI [of _ "?s False WBlocked REnd SJoin"]) simp
qed

text \<open>C27: Stopping the client can hang: the flag is set and the notification sent while the worker is between
  the test of its condition and its wait. Then the worker waits, the thread that stops the client waits
  for the worker, the client thread has left its loop, and no step is possible.\<close>

theorem stop_can_hang:
  "\<exists>s. threads_reach [] s \<and> ctStop s = SJoin \<and> ctWorker s = WBlocked \<and> \<not> (\<exists>s'. threads_step s s')"
  by (rule stop_deadlock)

end
