(* ===== verification/Config.thy ===== *)
theory Config
  imports Prelude "HOL-Library.Sublist"
begin

text \<open>
  The configuration singleton (\<open>Common/src/GRAMS_TOF_Config.cpp\<close>, \<open>Common/include/GRAMS_TOF_Config.h\<close>):
  the values of the ini file with their variables, the data directories with the vault that macros
  redirect them to, the names of files with time stamps, the search for the latest time stamp, and the
  linking of vault files on a model of the file system.

  The ini reader is a parameter: its result is the list of sections with their keys and raw values. The
  environment variables are a function. \<^const>\<open>Inl\<close> carries the message of the exception that is thrown.
\<close>

type_synonym exn = string

record config =
  data :: "string \<rightharpoonup> (string \<rightharpoonup> string)"
  configDir :: string
  configFilePath :: string
  tofdataDir :: string
  vaultPath :: string
  loaded :: bool

section \<open>Strings\<close>

text \<open>\<open>std::string::find\<close> and the replacement of the first occurrence.\<close>

fun find_sub :: "string \<Rightarrow> string \<Rightarrow> nat option" where
  "find_sub pat [] = (if pat = [] then Some 0 else None)"
| "find_sub pat (c # cs) = (if prefix pat (c # cs) then Some 0 else map_option Suc (find_sub pat cs))"

definition replace_at :: "string \<Rightarrow> nat \<Rightarrow> nat \<Rightarrow> string \<Rightarrow> string" where
  "replace_at s pos n r = take pos s @ r @ drop (pos + n) s"

definition substituteVariables :: "(string \<Rightarrow> string option) \<Rightarrow> string \<Rightarrow> string \<Rightarrow> exn + string" where
  "substituteVariables getenv cdir val =
     (let r0 = val;
          r1 = (case find_sub ''%CDIR%'' r0 of None \<Rightarrow> r0 | Some pos \<Rightarrow> replace_at r0 pos 6 cdir);
          r2 = (case find_sub ''%PWD%'' r1 of None \<Rightarrow> r1 | Some pos \<Rightarrow> replace_at r1 pos 5 ''.'');
          r3 = (case find_sub ''%HOME%'' r2 of None \<Rightarrow> r2
                | Some pos \<Rightarrow> (case getenv ''HOME'' of None \<Rightarrow> r2 | Some home \<Rightarrow> replace_at r2 pos 6 home))
      in case find_sub ''$TOFDATA'' r3 of
           None \<Rightarrow> Inr r3
         | Some pos \<Rightarrow> (case getenv ''TOFDATA'' of
               None \<Rightarrow> Inl ''[Config] TOFDATA environment variable not set.''
             | Some tofdata \<Rightarrow> Inr (replace_at r3 pos 8 tofdata)))"

section \<open>Loading\<close>

definition parent_path :: "string \<Rightarrow> string" where
  "parent_path p = (if CHR ''/'' \<in> set p
     then rev (tl (dropWhile (\<lambda>c. c \<noteq> CHR ''/'') (rev p))) else [])"

type_synonym ini = "(string \<times> (string \<times> string) list) list"

fun load_keys :: "(string \<Rightarrow> string option) \<Rightarrow> string \<Rightarrow> (string \<times> string) list \<Rightarrow> (string \<rightharpoonup> string) \<Rightarrow> exn + (string \<rightharpoonup> string)" where
  "load_keys getenv cdir [] m = Inr m"
| "load_keys getenv cdir ((k, raw) # ks) m =
     (case substituteVariables getenv cdir raw of
        Inl e \<Rightarrow> Inl e
      | Inr v \<Rightarrow> load_keys getenv cdir ks (m(k \<mapsto> v)))"

fun load_sections :: "(string \<Rightarrow> string option) \<Rightarrow> string \<Rightarrow> ini \<Rightarrow> (string \<rightharpoonup> (string \<rightharpoonup> string))
    \<Rightarrow> exn + (string \<rightharpoonup> (string \<rightharpoonup> string))" where
  "load_sections getenv cdir [] d = Inr d"
| "load_sections getenv cdir ((sec, ks) # ss) d =
     (if ks = [] then load_sections getenv cdir ss d
      else case load_keys getenv cdir ks (case d sec of None \<Rightarrow> Map.empty | Some m \<Rightarrow> m) of
        Inl e \<Rightarrow> Inl e
      | Inr m \<Rightarrow> load_sections getenv cdir ss (d(sec \<mapsto> m)))"

text \<open>\<open>load\<close>: the directory is set before the file is parsed; \<open>parsed\<close> is \<^const>\<open>None\<close> on a parse error.\<close>

definition load :: "(string \<Rightarrow> string option) \<Rightarrow> ini option \<Rightarrow> string \<Rightarrow> config \<Rightarrow> (exn + bool) \<times> config" where
  "load getenv parsed filename c =
     (let c1 = c\<lparr>configDir := parent_path filename\<rparr> in
      case parsed of
        None \<Rightarrow> (Inr False, c1)
      | Some secs \<Rightarrow>
          (case load_sections getenv (configDir c1) secs Map.empty of
             Inl e \<Rightarrow> (Inl e, c1\<lparr>data := Map.empty\<rparr>)
           | Inr d \<Rightarrow> (Inr True, c1\<lparr>data := d\<rparr>)))"

definition setConfigFile :: "(string \<Rightarrow> string option) \<Rightarrow> ini option \<Rightarrow> string \<Rightarrow> config \<Rightarrow> (exn + unit) \<times> config" where
  "setConfigFile getenv parsed filename c =
     (let c0 = (if loaded c then c\<lparr>data := Map.empty\<rparr> else c) in
      case load getenv parsed filename c0 of
        (Inl e, c1) \<Rightarrow> (Inl e, c1)
      | (Inr False, c1) \<Rightarrow> (Inl (''[Config] Failed to load config file: '' @ filename), c1)
      | (Inr True, c1) \<Rightarrow> (Inr (), c1\<lparr>configFilePath := filename, loaded := True\<rparr>))"

definition RELATIVE_CONFIG_PATH :: string where
  "RELATIVE_CONFIG_PATH = ''config/config.ini''"

definition loadDefaultConfig :: "(string \<Rightarrow> string option) \<Rightarrow> (string \<Rightarrow> ini option) \<Rightarrow> config \<Rightarrow> (exn + bool) \<times> config" where
  "loadDefaultConfig getenv parse c =
     (if loaded c then (Inr True, c)
      else case getenv ''GLIB'' of
        None \<Rightarrow> (Inr False, c)
      | Some glibPath \<Rightarrow> (case getenv ''TOFDATA'' of
          None \<Rightarrow> (Inr False, c)
        | Some tofdata \<Rightarrow>
            (let c1 = c\<lparr>tofdataDir := tofdata\<rparr>;
                 defaultPath = glibPath @ ''/'' @ RELATIVE_CONFIG_PATH
             in case load getenv (parse defaultPath) defaultPath c1 of
                  (Inl e, c2) \<Rightarrow> (Inl e, c2)
                | (Inr False, c2) \<Rightarrow> (Inr False, c2)
                | (Inr True, c2) \<Rightarrow> (Inr True, c2\<lparr>configFilePath := defaultPath, loaded := True\<rparr>))))"

definition getString :: "config \<Rightarrow> string \<Rightarrow> string \<Rightarrow> exn + string" where
  "getString c section key = (case data c section of
     None \<Rightarrow> Inl (''[Config] Missing section: '' @ section)
   | Some m \<Rightarrow> (case m key of None \<Rightarrow> Inl (''[Config] Missing key: '' @ key) | Some v \<Rightarrow> Inr v))"

section \<open>Directories\<close>

definition setVaultPath :: "string \<Rightarrow> config \<Rightarrow> config" where
  "setVaultPath path c = c\<lparr>vaultPath := path\<rparr>"

definition clearVaultPath :: "config \<Rightarrow> config" where
  "clearVaultPath c = c\<lparr>vaultPath := []\<rparr>"

definition getConfigDir :: "config \<Rightarrow> string" where "getConfigDir c = configDir c"
definition getTOFDataDir :: "config \<Rightarrow> string" where "getTOFDataDir c = tofdataDir c"
definition getConfigFilePath :: "config \<Rightarrow> string" where "getConfigFilePath c = configFilePath c"

definition vault_or :: "string \<Rightarrow> config \<Rightarrow> bool \<Rightarrow> string" where
  "vault_or sub c useVault = (if useVault \<and> vaultPath c \<noteq> [] then vaultPath c else tofdataDir c @ sub)"

definition getSTG0Dir :: "config \<Rightarrow> bool \<Rightarrow> string" where "getSTG0Dir = vault_or ''/stg0''"
definition getSTG1Dir :: "config \<Rightarrow> bool \<Rightarrow> string" where "getSTG1Dir = vault_or ''/stg1''"
definition getSTG2Dir :: "config \<Rightarrow> bool \<Rightarrow> string" where "getSTG2Dir = vault_or ''/stg2''"
definition getLogDir :: "config \<Rightarrow> bool \<Rightarrow> string" where "getLogDir = vault_or ''/log''"
definition getHistDir :: "config \<Rightarrow> bool \<Rightarrow> string" where "getHistDir = vault_or ''/hist''"
definition getDiscDir :: "config \<Rightarrow> bool \<Rightarrow> string" where "getDiscDir = vault_or ''/disc''"
definition getQDCDir :: "config \<Rightarrow> bool \<Rightarrow> string" where "getQDCDir = vault_or ''/qdc''"
definition getTDCDir :: "config \<Rightarrow> bool \<Rightarrow> string" where "getTDCDir = vault_or ''/tdc''"
definition getCalibrationDir :: "config \<Rightarrow> bool \<Rightarrow> string" where "getCalibrationDir = vault_or ''/calibration''"
definition getAsicTempDir :: "config \<Rightarrow> bool \<Rightarrow> string" where "getAsicTempDir = vault_or ''/asic_temp''"

section \<open>Time stamps and file names\<close>

text \<open>\<open>put_time\<close> pads to two digits (the year to four); the milliseconds are printed without padding.\<close>

fun digits :: "nat \<Rightarrow> nat \<Rightarrow> string" where
  "digits 0 n = []"
| "digits (Suc k) n = digits k (n div 10) @ [char_of (48 + n mod 10)]"

function show_nat :: "nat \<Rightarrow> string" where
  "show_nat n = (if n < 10 then [char_of (48 + n)] else show_nat (n div 10) @ [char_of (48 + n mod 10)])"
  by pat_completeness auto
termination by (relation "measure id") auto

record tm =
  year :: nat
  mon :: nat
  mday :: nat
  hour :: nat
  minute :: nat
  sec :: nat

definition put_time :: "tm \<Rightarrow> string" where
  "put_time t = digits 4 (year t) @ ''-'' @ digits 2 (mon t) @ ''-'' @ digits 2 (mday t) @ ''_''
     @ digits 2 (hour t) @ ''-'' @ digits 2 (minute t) @ ''-'' @ digits 2 (sec t)"

definition getCurrentTimestamp :: "tm \<Rightarrow> nat \<Rightarrow> string" where
  "getCurrentTimestamp t frac = put_time t @ ''.'' @ show_nat frac @ ''Z''"

definition path_join :: "string \<Rightarrow> string \<Rightarrow> string" where
  "path_join d f = (if d = [] \<or> last d = CHR ''/'' then d @ f else d @ ''/'' @ f)"

definition makeFilePathWithTimestamp :: "string \<Rightarrow> string \<Rightarrow> string \<Rightarrow> string \<Rightarrow> string" where
  "makeFilePathWithTimestamp absDir pre timestamp ext =
     (let dotExt = (if ext = [] then [] else if hd ext = CHR ''.'' then ext else CHR ''.'' # ext)
      in path_join absDir (pre @ ''_'' @ timestamp @ dotExt))"

text \<open>
  The regular expressions that the search uses: characters stand for themselves, except that \<open>.\<close> (in a
  suffix such as \<open>_noise.tsv\<close>) matches any character. \<open>scan_time\<close> reads a time stamp and returns it with
  the rest of the name; the rest has to match the suffix, and to be longer only if the search is not strict.
\<close>

definition is_digit :: "char \<Rightarrow> bool" where
  "is_digit c = (48 \<le> (of_char c :: nat) \<and> (of_char c :: nat) \<le> 57)"

fun scan_pat :: "string \<Rightarrow> string \<Rightarrow> (string \<times> string) option" where
  "scan_pat [] s = Some ([], s)"
| "scan_pat (p # ps) [] = None"
| "scan_pat (p # ps) (c # s) =
     (if (if p = CHR ''d'' then is_digit c else p = c)
      then map_option (\<lambda>(m, r). (c # m, r)) (scan_pat ps s) else None)"

definition scan_time :: "string \<Rightarrow> (string \<times> string) option" where
  "scan_time s = (case scan_pat ''dddd-dd-dd_dd-dd-dd.'' s of
     None \<Rightarrow> None
   | Some (t, r) \<Rightarrow>
       (let ds = takeWhile is_digit r; r' = dropWhile is_digit r in
        if ds = [] then None
        else case r' of [] \<Rightarrow> None | c # r'' \<Rightarrow> if c = CHR ''Z'' then Some (t @ ds @ ''Z'', r'') else None))"

fun match_dots :: "string \<Rightarrow> string \<Rightarrow> string option" where
  "match_dots [] s = Some s"
| "match_dots (p # ps) [] = None"
| "match_dots (p # ps) (c # s) = (if p = CHR ''.'' \<or> p = c then match_dots ps s else None)"

definition match_timestamp :: "string \<Rightarrow> string \<Rightarrow> bool \<Rightarrow> string \<Rightarrow> string option" where
  "match_timestamp pre suf strict filename =
     (if prefix (pre @ ''_'') filename then
        (case scan_time (drop (length pre + 1) filename) of
           None \<Rightarrow> None
         | Some (ts, r) \<Rightarrow> (case match_dots suf r of
             None \<Rightarrow> None
           | Some r' \<Rightarrow> if strict \<and> r' \<noteq> [] then None else Some ts))
      else None)"

text \<open>\<open>operator>\<close> of \<open>std::string\<close>.\<close>

fun str_less :: "string \<Rightarrow> string \<Rightarrow> bool" where
  "str_less [] [] = False"
| "str_less [] (d # ds) = True"
| "str_less (c # cs) [] = False"
| "str_less (c # cs) (d # ds) =
     ((of_char c :: nat) < of_char d \<or> (c = d \<and> str_less cs ds))"

text \<open>\<open>entries\<close>: the names in the directory and whether they are regular files, \<^const>\<open>None\<close> if there is no such directory.\<close>

fun latest_of :: "string \<Rightarrow> string list \<Rightarrow> string" where
  "latest_of latestTs [] = latestTs"
| "latest_of latestTs (ts # tss) =
     latest_of (if latestTs = [] \<or> str_less latestTs ts then ts else latestTs) tss"

definition getLatestTimestamp :: "(string \<times> bool) list option \<Rightarrow> string \<Rightarrow> string \<Rightarrow> bool \<Rightarrow> exn + string" where
  "getLatestTimestamp entries pre suf strict = (case entries of
     None \<Rightarrow> Inl ''[Config] Directory does not exist''
   | Some es \<Rightarrow>
       (let latestTs = latest_of [] (List.map_filter (match_timestamp pre suf strict) (map fst (filter snd es)))
        in if latestTs = [] then Inl ''[Config] No matching file found'' else Inr latestTs))"

text \<open>\<open>getFileByTimestamp\<close> without \<open>strict\<close>: the pattern is prefix, time stamp, anything, extension.\<close>

fun match_suffix :: "string \<Rightarrow> string \<Rightarrow> bool" where
  "match_suffix ext s = (match_dots ext s = Some [] \<or> (case s of [] \<Rightarrow> False | c # cs \<Rightarrow> match_suffix ext cs))"

declare match_suffix.simps [simp del]

definition match_file :: "string \<Rightarrow> string \<Rightarrow> string \<Rightarrow> string \<Rightarrow> bool" where
  "match_file pre timestamp ext filename =
     (case match_dots (pre @ ''_'' @ timestamp) filename of None \<Rightarrow> False | Some r \<Rightarrow> match_suffix ext r)"

definition getFileByTimestamp :: "(string \<times> bool) list option \<Rightarrow> string \<Rightarrow> string \<Rightarrow> string \<Rightarrow> string \<Rightarrow> exn + string" where
  "getFileByTimestamp entries absDir pre timestamp ext = (case entries of
     None \<Rightarrow> Inl ''[Config] Directory does not exist''
   | Some es \<Rightarrow> (case find (match_file pre timestamp ext) (map fst (filter snd es)) of
       None \<Rightarrow> Inl ''[Config] No file found for timestamp''
     | Some f \<Rightarrow> Inr (path_join absDir f)))"

section \<open>Search for the latest file\<close>

lemma str_less_irrefl [simp]: "\<not> str_less s s"
  by (induction s) auto

lemma str_less_trans: "str_less a b \<Longrightarrow> str_less b c \<Longrightarrow> str_less a c"
proof (induction a b arbitrary: c rule: str_less.induct)
  case (2 d ds)
  then show ?case by (cases c) auto
next
  case (4 x xs y ys)
  then show ?case by (cases c) auto
qed auto

lemma str_less_linear: "str_less a b \<or> a = b \<or> str_less b a"
  by (induction a b rule: str_less.induct) (auto dest: linorder_neqE_nat)

lemma str_less_append [simp]: "str_less (p @ a) (p @ b) = str_less a b"
  by (induction p) auto

lemma latest_of_max:
  assumes "[] \<notin> set tss" "latest_of l tss = m"
  shows "(m = l \<or> m \<in> set tss) \<and> \<not> str_less m l \<and> (\<forall>ts \<in> set tss. \<not> str_less m ts)"
  using assms
proof (induction tss arbitrary: l)
  case (Cons ts tss)
  let ?l = "if l = [] \<or> str_less l ts then ts else l"
  have ih: "(m = ?l \<or> m \<in> set tss) \<and> \<not> str_less m ?l \<and> (\<forall>ts \<in> set tss. \<not> str_less m ts)"
    using Cons by simp
  have "\<not> str_less ts []" by (cases ts) auto
  moreover have "\<not> str_less m ts \<and> \<not> str_less m l"
    using ih str_less_trans [of m l ts] str_less_trans [of m ts l] str_less_linear [of l ts] Cons.prems
    by (cases m; cases "l = []"; cases "str_less l ts") auto
  ultimately show ?case using ih by (auto split: if_splits)
qed auto

text \<open>Names that the program writes are recognised, with the time stamp that they were given.\<close>

lemma char_of_digit: "(of_char (char_of (48 + n mod 10) :: char) :: nat) = 48 + n mod 10"
  by (simp add: of_char_of take_bit_nat_eq_self)

lemma is_digit_char_of [simp]: "is_digit (char_of (48 + n mod 10 :: nat))"
  by (simp add: is_digit_def char_of_digit del: of_char_of)

lemma is_digit_char_of_less [simp]: "n < 10 \<Longrightarrow> is_digit (char_of (48 + n :: nat))"
  using is_digit_char_of [of n] by simp

lemma length_digits [simp]: "length (digits k n) = k"
  by (induction k arbitrary: n) auto

lemma digits_is_digit: "c \<in> set (digits k n) \<Longrightarrow> is_digit c"
  by (induction k arbitrary: n) auto

declare show_nat.simps [simp del]

lemma show_nat_is_digit: "c \<in> set (show_nat n) \<Longrightarrow> is_digit c"
proof (induction n rule: show_nat.induct)
  case (1 n)
  then show ?case by (auto simp: show_nat.simps [of n] split: if_splits)
qed

lemma show_nat_not_Nil: "show_nat n \<noteq> []"
  by (simp add: show_nat.simps [of n])

lemma scan_pat_replicate:
  "list_all is_digit ds \<Longrightarrow> scan_pat (replicate (length ds) CHR ''d'' @ q) (ds @ b)
     = map_option (\<lambda>(m, r). (ds @ m, r)) (scan_pat q b)"
  by (induction ds) (auto simp: option.map_comp comp_def split_def option.map_ident)

lemma scan_pat_digits:
  "scan_pat (replicate k CHR ''d'' @ q) (digits k n @ b) = map_option (\<lambda>(m, r). (digits k n @ m, r)) (scan_pat q b)"
  using scan_pat_replicate [of "digits k n" q b] digits_is_digit [of _ k n] by (simp add: list_all_iff)

lemma time_pattern:
  "''dddd-dd-dd_dd-dd-dd.'' = replicate 4 CHR ''d'' @ ''-'' @ replicate 2 CHR ''d'' @ ''-'' @ replicate 2 CHR ''d''
     @ ''_'' @ replicate 2 CHR ''d'' @ ''-'' @ replicate 2 CHR ''d'' @ ''-'' @ replicate 2 CHR ''d'' @ ''.''"
  by (simp add: numeral_eq_Suc)

lemma scan_pat_put_time: "scan_pat ''dddd-dd-dd_dd-dd-dd.'' (put_time t @ ''.'' @ r) = Some (put_time t @ ''.'', r)"
  unfolding time_pattern put_time_def append_assoc by (simp add: scan_pat_digits)

lemma takeWhile_digits: "list_all is_digit ds \<Longrightarrow> \<not> is_digit c \<Longrightarrow>
    takeWhile is_digit (ds @ c # r) = ds \<and> dropWhile is_digit (ds @ c # r) = c # r"
  by (induction ds) auto

lemma scan_time_current: "scan_time (getCurrentTimestamp t frac @ r) = Some (getCurrentTimestamp t frac, r)"
proof -
  have z: "\<not> is_digit CHR ''Z''" by (simp add: is_digit_def)
  have "list_all is_digit (show_nat frac)" using show_nat_is_digit by (simp add: list_all_iff)
  then show ?thesis
    using takeWhile_digits [OF _ z, of "show_nat frac" r] scan_pat_put_time [of t "show_nat frac @ ''Z'' @ r"]
      show_nat_not_Nil [of frac]
    by (simp add: scan_time_def getCurrentTimestamp_def Let_def)
qed

lemma match_dots_self: "match_dots suf (suf @ r) = Some r"
  by (induction suf) auto

lemma match_timestamp_written:
  "match_timestamp pre suf False (pre @ ''_'' @ getCurrentTimestamp t frac @ suf @ r) = Some (getCurrentTimestamp t frac)"
  by (simp add: match_timestamp_def scan_time_current match_dots_self)

text \<open>The order of the printed time stamps.\<close>

definition wf_tm :: "tm \<Rightarrow> bool" where
  "wf_tm t = (year t < 10000 \<and> mon t < 100 \<and> mday t < 100 \<and> hour t < 100 \<and> minute t < 100 \<and> sec t < 100)"

definition tm_less :: "tm \<Rightarrow> tm \<Rightarrow> bool" where
  "tm_less a b = (year a < year b \<or> year a = year b \<and>
     (mon a < mon b \<or> mon a = mon b \<and>
     (mday a < mday b \<or> mday a = mday b \<and>
     (hour a < hour b \<or> hour a = hour b \<and>
     (minute a < minute b \<or> minute a = minute b \<and> sec a < sec b)))))"

lemma str_less_digits: "m < n \<Longrightarrow> n < 10 ^ k \<Longrightarrow> str_less (digits k m @ x) (digits k n @ y)"
proof (induction k arbitrary: m n x y)
  case (Suc k)
  show ?case
  proof (cases "m div 10 = n div 10")
    case True
    have "m mod 10 < n mod 10"
      using True Suc.prems(1) by (metis div_mult_mod_eq nat_add_left_cancel_less)
    then show ?thesis using True by (simp add: char_of_digit del: of_char_of)
  next
    case False
    then have "m div 10 < n div 10" using Suc.prems(1) by (simp add: div_le_mono le_neq_implies_less)
    moreover have "n div 10 < 10 ^ k" using Suc.prems(2) by (simp add: less_mult_imp_div_less mult.commute)
    ultimately show ?thesis using Suc.IH by simp
  qed
qed simp

lemma str_less_put_time:
  assumes "wf_tm b" "tm_less a b"
  shows "str_less (put_time a @ x) (put_time b @ y)"
  using assms str_less_digits [of _ _ 4] str_less_digits [of _ _ 2]
  by (auto simp: wf_tm_def tm_less_def put_time_def)

text \<open>
  The search for the latest file: among the time stamps of the regular files in the directory that match
  prefix and suffix, \<open>getLatestTimestamp\<close> returns one that no other exceeds in the order of strings, and it
  throws exactly when the directory does not exist or no file matches. Every file name that the
  program builds from a prefix, the current time and a suffix matches with just that time stamp.
\<close>

theorem getLatestTimestamp_max:
  "(case getLatestTimestamp entries pre suf strict of
      Inl e \<Rightarrow> entries = None \<or> (\<forall>(f, regular) \<in> set (the entries). \<not> regular \<or> match_timestamp pre suf strict f = None)
    | Inr ts \<Rightarrow> (\<exists>f. (f, True) \<in> set (the entries) \<and> match_timestamp pre suf strict f = Some ts)
        \<and> (\<forall>(f, regular) \<in> set (the entries). regular \<longrightarrow>
             (\<forall>ts'. match_timestamp pre suf strict f = Some ts' \<longrightarrow> \<not> str_less ts ts')))
   \<and> match_timestamp pre suf False (pre @ ''_'' @ getCurrentTimestamp t frac @ suf @ r) = Some (getCurrentTimestamp t frac)"
proof (rule conjI, goal_cases)
  case 1
  show ?case
  proof (cases entries)
    case (Some es)
    let ?tss = "List.map_filter (match_timestamp pre suf strict) (map fst (filter snd es))"
    have tss: "ts \<in> set ?tss \<longleftrightarrow> (\<exists>f. (f, True) \<in> set es \<and> match_timestamp pre suf strict f = Some ts)" for ts
      by (auto simp: map_filter_def image_iff)
    have ne: "match_timestamp pre suf strict f \<noteq> Some []" for f
      by (auto simp: match_timestamp_def scan_time_def Let_def split: if_splits option.splits list.splits)
    then have nil: "[] \<notin> set ?tss" using tss by blast
    note max = latest_of_max [OF nil refl, of "[]"]
    show ?thesis
    proof (cases "latest_of [] ?tss = []")
      case True
      then have "?tss = []"
        using max nil by (cases ?tss) (auto, metis list.exhaust str_less.simps(2))
      then have "match_timestamp pre suf strict f = None" if "(f, True) \<in> set es" for f
        using tss that by (cases "match_timestamp pre suf strict f") auto
      then show ?thesis using True Some by (auto simp: getLatestTimestamp_def)
    next
      case False
      then show ?thesis using max Some tss by (auto simp: getLatestTimestamp_def Let_def)
    qed
  qed (simp add: getLatestTimestamp_def)
qed (rule match_timestamp_written)

theorem getLatestTimestamp_max_witness:
  "\<exists>ts. getLatestTimestamp (Some [(''run_2025-01-02_03-04-05.7Z.rawf'', True)]) ''run'' [] False = Inr ts
    \<and> ts = ''2025-01-02_03-04-05.7Z''"
  using getLatestTimestamp_max [of "Some [(''run_2025-01-02_03-04-05.7Z.rawf'', True)]" "''run''" "[]" False]
  by (simp add: getLatestTimestamp_def map_filter_def match_timestamp_def scan_time_def is_digit_def)

text \<open>
  Time stamps of different seconds are ordered as strings like the times they stand for, so the search finds
  the latest run. Within one second they are not: the milliseconds are not padded, and 10 ms sorts before 9 ms.
\<close>

theorem timestamp_order:
  assumes "wf_tm b" "tm_less a b"
  shows "str_less (getCurrentTimestamp a f) (getCurrentTimestamp b g)
    \<and> str_less (getCurrentTimestamp a 10) (getCurrentTimestamp a 9)"
  using str_less_put_time [OF assms]
  by (simp add: getCurrentTimestamp_def show_nat.simps)

theorem timestamp_order_witness:
  "str_less (getCurrentTimestamp \<lparr>year = 2025, mon = 1, mday = 2, hour = 3, minute = 4, sec = 5\<rparr> 999)
            (getCurrentTimestamp \<lparr>year = 2025, mon = 1, mday = 2, hour = 3, minute = 5, sec = 0\<rparr> 1)"
  by (rule timestamp_order [THEN conjunct1]) (simp_all add: wf_tm_def tm_less_def)

end
