(* ===== verification/DispatchState.thy ===== *)
theory DispatchState
  imports Config CommandDefs CommandCodec MonitorCodec
begin

text \<open>
  The state of the command dispatcher (\<open>FlightOps/include/GRAMS_TOF_CommandDispatch.h\<close>), the actions that its
  handlers are made of, and its helper operations: status callbacks, managed background processes and the
  wrapper of simple commands (\<open>FlightOps/src/GRAMS_TOF_CommandDispatch.cpp\<close>).

  Everything the dispatcher does outside of its own state is recorded in a trace of effects. What it gets
  back from there (the python scripts, the analyzer, the network client, the processes, the clock and
  the directories) is given by a \<open>world\<close>, a record of functions of the trace so far: every call may be answered
  differently, and a theorem about all worlds is one about all answers. An action returns
  a value or an exception together with the new state.
\<close>

section \<open>Effects, tasks and state\<close>

datatype arg = AStr string | AInt int | AUInt u32 | AFloat u32 | AFloatLit string | ABool bool

datatype monitor_object = MHist MonitorData | MGraph GraphData | MParam ParameterData

datatype (plugins only: code size) effect =
    SendPacket packet bool
  | PyCall string "arg list"
  | AnalyzerCall string "arg list"
  | ForkExec "string list" int
  | Kill int
  | DaqInitialize
  | DaqStop
  | DaqJoined
  | DaqSpawned
  | MacroJoined
  | MacroSpawned TOFCommandCode
  | TempJoined
  | TempSpawned u32
  | MonitorJoined
  | NetworkReset
  | CreateDirectories string
  | LinkVaultFile string string
  | CopyOrLink string string
  | SystemCall string
  | SendMonitorData monitor_object
  | Sleep nat

text \<open>What a finished process triggers: the callbacks are sequences of file operations, done on success.\<close>

datatype post = PLink string string | PCopy string string

record BackgroundTask =
  commandCode :: TOFCommandCode
  postCompletionCallback :: "post list option"
  sendCallback :: bool

record dispatcher =
  cfg :: config
  daqThread :: bool
  daqRunning :: bool
  activeBackgroundTasks :: "(int \<times> BackgroundTask) list"
  monitorRunning :: bool
  monitorThread :: bool
  macroLoopRunning :: bool
  macroLoopThread :: bool
  tempRecordThread :: bool
  tempRecordRunning :: bool
  sipmDataAcquisitionTime :: u32
  trace :: "effect list"

text \<open>The durations are whole seconds in every run: the default is 300 and commands set them from integers.\<close>

definition dispatcher_init :: "config \<Rightarrow> dispatcher" where
  "dispatcher_init c = \<lparr>cfg = c, daqThread = False, daqRunning = False, activeBackgroundTasks = [],
     monitorRunning = True, monitorThread = True, macroLoopRunning = False, macroLoopThread = False,
     tempRecordThread = False, tempRecordRunning = False, sipmDataAcquisitionTime = 300, trace = []\<rparr>"

record world =
  w_send :: "effect list \<Rightarrow> packet \<Rightarrow> bool"
  w_py :: "effect list \<Rightarrow> string \<Rightarrow> arg list \<Rightarrow> exn + bool"
  w_analyzer :: "effect list \<Rightarrow> string \<Rightarrow> arg list \<Rightarrow> exn + bool"
  w_fork :: "effect list \<Rightarrow> int"
  w_waitpid :: "effect list \<Rightarrow> int \<Rightarrow> int \<times> bool"
  w_daqInit :: "effect list \<Rightarrow> exn + bool"
  w_time :: "effect list \<Rightarrow> string"
  w_entries :: "effect list \<Rightarrow> string \<Rightarrow> (string \<times> bool) list option"
  w_exists :: "effect list \<Rightarrow> string \<Rightarrow> bool"
  w_mkdirs :: "effect list \<Rightarrow> string \<Rightarrow> exn + unit"
  w_link :: "effect list \<Rightarrow> string \<Rightarrow> string \<Rightarrow> exn + unit"
  w_copy :: "effect list \<Rightarrow> string \<Rightarrow> string \<Rightarrow> exn + unit"
  w_absolute :: "string \<Rightarrow> string"
  w_glib :: "string option"
  w_access :: "effect list \<Rightarrow> string \<Rightarrow> bool"
  w_system :: "effect list \<Rightarrow> string \<Rightarrow> bool"
  w_scan :: "effect list \<Rightarrow> string \<Rightarrow> MonitorData list \<times> GraphData list \<times> ParameterData list"
  w_others :: "effect list \<Rightarrow> dispatcher \<Rightarrow> dispatcher"

section \<open>Actions\<close>

type_synonym 'a act = "dispatcher \<Rightarrow> (exn + 'a) \<times> dispatcher"

definition ret :: "'a \<Rightarrow> 'a act" where
  "ret x s = (Inr x, s)"

definition throw :: "exn \<Rightarrow> 'a act" where
  "throw e s = (Inl e, s)"

definition bnd :: "'a act \<Rightarrow> ('a \<Rightarrow> 'b act) \<Rightarrow> 'b act" where
  "bnd m f s = (case m s of (Inl e, s') \<Rightarrow> (Inl e, s') | (Inr x, s') \<Rightarrow> f x s')"

definition seq :: "'a act \<Rightarrow> 'b act \<Rightarrow> 'b act" where
  "seq m k = bnd m (\<lambda>_. k)"

definition gets :: "(dispatcher \<Rightarrow> 'a) \<Rightarrow> 'a act" where
  "gets f s = (Inr (f s), s)"

definition modify :: "(dispatcher \<Rightarrow> dispatcher) \<Rightarrow> unit act" where
  "modify f s = (Inr (), f s)"

definition emit :: "effect \<Rightarrow> unit act" where
  "emit e s = (Inr (), s\<lparr>trace := trace s @ [e]\<rparr>)"

definition lift :: "exn + 'a \<Rightarrow> 'a act" where
  "lift r s = (r, s)"

definition cond :: "bool \<Rightarrow> unit act \<Rightarrow> unit act" where
  "cond b m = (if b then m else ret ())"

fun each :: "'a list \<Rightarrow> ('a \<Rightarrow> unit act) \<Rightarrow> unit act" where
  "each [] f = ret ()"
| "each (x # xs) f = seq (f x) (each xs f)"

text \<open>\<open>catch (...) { return false; }\<close>\<close>

definition try_false :: "bool act \<Rightarrow> bool act" where
  "try_false m s = (case m s of (Inl e, s') \<Rightarrow> (Inr False, s') | r \<Rightarrow> r)"

text \<open>Calls into the world.\<close>

definition ask :: "(effect list \<Rightarrow> exn + 'a) \<Rightarrow> effect \<Rightarrow> 'a act" where
  "ask answer e s = (answer (trace s), s\<lparr>trace := trace s @ [e]\<rparr>)"

definition py :: "world \<Rightarrow> string \<Rightarrow> arg list \<Rightarrow> bool act" where
  "py w f args = ask (\<lambda>tr. w_py w tr f args) (PyCall f args)"

definition analyzer :: "world \<Rightarrow> string \<Rightarrow> arg list \<Rightarrow> bool act" where
  "analyzer w f args = ask (\<lambda>tr. w_analyzer w tr f args) (AnalyzerCall f args)"

definition linkVault :: "world \<Rightarrow> string \<Rightarrow> string \<Rightarrow> unit act" where
  "linkVault w src dir = ask (\<lambda>tr. w_link w tr src dir) (LinkVaultFile src dir)"

definition copyLink :: "world \<Rightarrow> string \<Rightarrow> string \<Rightarrow> unit act" where
  "copyLink w src dst = ask (\<lambda>tr. w_copy w tr src dst) (CopyOrLink src dst)"

definition currentTimestamp :: "world \<Rightarrow> string act" where
  "currentTimestamp w = gets (\<lambda>s. w_time w (trace s))"

definition mkpath :: "world \<Rightarrow> (config \<Rightarrow> bool \<Rightarrow> string) \<Rightarrow> string \<Rightarrow> string \<Rightarrow> string \<Rightarrow> string act" where
  "mkpath w dir pre ts ext =
     bnd (gets (\<lambda>s. dir (cfg s) True)) (\<lambda>d.
     bnd (gets (\<lambda>s. w_exists w (trace s) d)) (\<lambda>there.
     seq (cond (\<not> there) (ask (\<lambda>tr. w_mkdirs w tr d) (CreateDirectories d)))
     (ret (makeFilePathWithTimestamp d pre ts ext))))"

definition latestTimestamp :: "world \<Rightarrow> (config \<Rightarrow> bool \<Rightarrow> string) \<Rightarrow> string \<Rightarrow> string \<Rightarrow> string act" where
  "latestTimestamp w dir pre suf =
     bnd (gets (\<lambda>s. getLatestTimestamp (w_entries w (trace s) (dir (cfg s) True)) pre suf False)) lift"

definition fileByTimestamp :: "world \<Rightarrow> (config \<Rightarrow> bool \<Rightarrow> string) \<Rightarrow> string \<Rightarrow> string \<Rightarrow> string \<Rightarrow> string act" where
  "fileByTimestamp w dir pre ts ext =
     bnd (gets (\<lambda>s. let d = dir (cfg s) True in getFileByTimestamp (w_entries w (trace s) d) d pre ts ext)) lift"

definition cfgString :: "string \<Rightarrow> string \<Rightarrow> string act" where
  "cfgString sect key = bnd (gets (\<lambda>s. getString (cfg s) sect key)) lift"

definition cfgAbsolute :: "world \<Rightarrow> string \<Rightarrow> string \<Rightarrow> string act" where
  "cfgAbsolute w sect key = bnd (cfgString sect key) (\<lambda>p. ret (w_absolute w p))"

text \<open>The path of a script (\<open>GRAMS_TOF_PythonIntegration::resolveScriptPath\<close>): its name as it is when \<open>GLIB\<close> is not set,
  otherwise a file below that directory, which has to exist.\<close>

definition resolveScriptPath :: "world \<Rightarrow> string \<Rightarrow> string act" where
  "resolveScriptPath w scriptName = (case w_glib w of
     None \<Rightarrow> ret scriptName
   | Some glib \<Rightarrow>
       if glib = [] then ret scriptName
       else let fullPath = path_join (path_join glib ''scripts'') scriptName in
         bnd (gets (\<lambda>s. w_exists w (trace s) fullPath)) (\<lambda>there.
         if there then ret fullPath else throw (''Script not found: '' @ fullPath)))"

text \<open>While a thread sleeps the others run. (The short pauses of \<open>sendStatusCallback\<close> are no such points.)\<close>

definition sleep :: "world \<Rightarrow> nat \<Rightarrow> unit act" where
  "sleep w ms = seq (emit (Sleep ms)) (modify (\<lambda>s. w_others w (trace s) s))"

section \<open>Helpers of the dispatcher\<close>

definition show_u32 :: "u32 \<Rightarrow> string" where
  "show_u32 n = show_nat (unat n)"

definition show_double :: "u32 \<Rightarrow> string" where
  "show_double n = show_nat (unat n) @ ''.000000''"

definition arg_or :: "u32 list \<Rightarrow> nat \<Rightarrow> u32 \<Rightarrow> u32" where
  "arg_or av i d = (if length av > i then av ! i else d)"

definition flag_arg :: "u32 list \<Rightarrow> nat \<Rightarrow> bool \<Rightarrow> bool" where
  "flag_arg av i d = (if length av > i then av ! i \<noteq> 0 else d)"

definition callback_packet :: "TOFCommandCode \<Rightarrow> u32 \<Rightarrow> packet" where
  "callback_packet c status =
     (let av = [ucast (to_u16 c), status] in \<lparr>code = comm_u16 TOF_Callback, argc = of_nat (length av), argv = av\<rparr>)"

definition max_retries :: nat where "max_retries = 10"
definition retry_delay_ms :: nat where "retry_delay_ms = 100"

fun send_loop :: "world \<Rightarrow> nat \<Rightarrow> packet \<Rightarrow> dispatcher \<Rightarrow> dispatcher" where
  "send_loop w 0 cb s = s"
| "send_loop w (Suc n) cb s =
     (let ok = w_send w (trace s) cb; s1 = s\<lparr>trace := trace s @ [SendPacket cb ok]\<rparr> in
      if ok then s1 else send_loop w n cb (s1\<lparr>trace := trace s1 @ [Sleep retry_delay_ms]\<rparr>))"

definition sendStatusCallback :: "world \<Rightarrow> TOFCommandCode \<Rightarrow> u32 \<Rightarrow> dispatcher \<Rightarrow> dispatcher" where
  "sendStatusCallback w c status = send_loop w max_retries (callback_packet c status)"

definition executeSimpleCommand :: "world \<Rightarrow> TOFCommandCode \<Rightarrow> bool act \<Rightarrow> bool act" where
  "executeSimpleCommand w c func s =
     (let (success, s1) = (case func s of (Inl e, s') \<Rightarrow> (False, s') | (Inr b, s') \<Rightarrow> (b, s'))
      in (Inr success, sendStatusCallback w c (if success then 0 else 1) s1))"

text \<open>\<open>activeBackgroundTasks_[pid] = task\<close> and \<open>erase\<close>.\<close>

definition put_task :: "int \<Rightarrow> BackgroundTask \<Rightarrow> (int \<times> BackgroundTask) list \<Rightarrow> (int \<times> BackgroundTask) list" where
  "put_task pid t ts = (pid, t) # filter (\<lambda>(p, _). p \<noteq> pid) ts"

definition del_task :: "int \<Rightarrow> (int \<times> BackgroundTask) list \<Rightarrow> (int \<times> BackgroundTask) list" where
  "del_task pid ts = filter (\<lambda>(p, _). p \<noteq> pid) ts"

definition executeManagedBackground ::
  "world \<Rightarrow> TOFCommandCode \<Rightarrow> string \<Rightarrow> string list \<Rightarrow> post list option \<Rightarrow> bool \<Rightarrow> bool act" where
  "executeManagedBackground w c scriptName args callback send =
     bnd (resolveScriptPath w scriptName) (\<lambda>scriptPath s.
     (let pid = w_fork w (trace s);
          s1 = s\<lparr>trace := trace s @ [ForkExec (''python3'' # scriptPath # args) pid]\<rparr>
      in if pid > 0 then
           (Inr True, s1\<lparr>activeBackgroundTasks := put_task pid
              \<lparr>commandCode = c, postCompletionCallback = callback, sendCallback = send\<rparr> (activeBackgroundTasks s1)\<rparr>)
         else (Inr False, s1)))"

definition startTempRecord :: "u32 \<Rightarrow> unit act" where
  "startTempRecord intervalSec =
     bnd (gets tempRecordRunning) (\<lambda>running.
     if running then ret ()
     else seq (modify (\<lambda>s. s\<lparr>tempRecordRunning := True, tempRecordThread := True\<rparr>)) (emit (TempSpawned intervalSec)))"

text \<open>One round of the recording thread: it starts the script without a status callback.\<close>

definition temp_record_round :: "world \<Rightarrow> string \<Rightarrow> bool act" where
  "temp_record_round w logPath =
     executeManagedBackground w READ_TEMPERATURE_SENSORS ''read_temperature_sensors.py''
       [''--time'', ''0.0'', ''-o'', logPath, ''--quiet''] None False"

definition stopTempRecord :: "unit act" where
  "stopTempRecord =
     bnd (gets tempRecordRunning) (\<lambda>running.
     if \<not> running then ret ()
     else
       bnd (gets tempRecordThread) (\<lambda>joinable.
       seq (cond joinable (emit TempJoined))
       (modify (\<lambda>s. s\<lparr>tempRecordRunning := False, tempRecordThread := False\<rparr>))))"

text \<open>
  Joining the DAQ or the macro thread: the thread has come to its end then, and both threads clear their flag
  at the end.
\<close>

definition joinDAQ :: "unit act" where
  "joinDAQ =
     bnd (gets daqThread) (\<lambda>joinable.
     cond joinable (seq (emit DaqJoined) (modify (\<lambda>s. s\<lparr>daqThread := False, daqRunning := False\<rparr>))))"

definition joinMacro :: "unit act" where
  "joinMacro =
     bnd (gets macroLoopThread) (\<lambda>joinable.
     cond joinable (seq (emit MacroJoined) (modify (\<lambda>s. s\<lparr>macroLoopThread := False, macroLoopRunning := False\<rparr>))))"

end
