(* ===== verification/Dispatch.thy ===== *)
theory Dispatch
  imports DispatchState
begin

text \<open>
  The handlers of the command dispatcher, in the order of the table that the constructor of
  \<open>GRAMS_TOF_CommandDispatch\<close> fills (\<open>FlightOps/src/GRAMS_TOF_CommandDispatch.cpp\<close>), \<open>dispatch\<close> itself, the macro
  sequences and loops, the monitor of background processes and the destructor. Logging is left out.
  A handler runs to its end before another one starts; other threads act while a
  handler sleeps, as the world says.
\<close>

section \<open>DAQ control\<close>

definition START_DAQ_body :: "world \<Rightarrow> bool act" where
  "START_DAQ_body w =
     bnd (gets daqRunning) (\<lambda>running.
     if running then ret False
     else
       seq joinDAQ
       (bnd (ask (w_daqInit w) DaqInitialize) (\<lambda>ok.
        if \<not> ok then ret False
        else seq (emit DaqSpawned)
             (seq (modify (\<lambda>s. s\<lparr>daqRunning := True, daqThread := True\<rparr>)) (ret True)))))"

definition START_DAQ_handler :: "world \<Rightarrow> u32 list \<Rightarrow> bool act" where
  "START_DAQ_handler w av = executeSimpleCommand w START_DAQ (START_DAQ_body w)"

definition stop_task :: BackgroundTask where
  "stop_task = \<lparr>commandCode = STOP_DAQ, postCompletionCallback = None, sendCallback = True\<rparr>"

text \<open>Step 2 of the stop: every task but the stop script is killed and reported as interrupted.\<close>

definition interrupt_task :: "world \<Rightarrow> int \<Rightarrow> int \<times> BackgroundTask \<Rightarrow> unit act" where
  "interrupt_task w stop_pid = (\<lambda>(b_pid, task).
     cond (b_pid \<noteq> stop_pid)
       (seq (emit (Kill b_pid)) (modify (sendStatusCallback w (commandCode task) 2))))"

definition interrupt_tasks :: "world \<Rightarrow> int \<Rightarrow> unit act" where
  "interrupt_tasks w stop_pid =
     bnd (gets activeBackgroundTasks) (\<lambda>ts.
     seq (each ts (interrupt_task w stop_pid))
     (modify (\<lambda>s. s\<lparr>activeBackgroundTasks := (if stop_pid > 0 then [(stop_pid, stop_task)] else [])\<rparr>)))"

definition STOP_DAQ_body :: "world \<Rightarrow> bool act" where
  "STOP_DAQ_body w =
     seq (modify (\<lambda>s. s\<lparr>macroLoopRunning := False\<rparr>))
     (bnd (resolveScriptPath w ''stop_daq.py'') (\<lambda>stopScriptPath.
      bnd (gets (\<lambda>s. w_fork w (trace s))) (\<lambda>stop_pid.
      seq (emit (ForkExec [''python3'', stopScriptPath] stop_pid))
      (seq (cond (stop_pid > 0)
              (modify (\<lambda>s. s\<lparr>activeBackgroundTasks := put_task stop_pid stop_task (activeBackgroundTasks s)\<rparr>)))
      (seq (interrupt_tasks w stop_pid)
      (seq (emit DaqStop)
      (seq joinDAQ
      (seq (modify (\<lambda>s. s\<lparr>daqRunning := False\<rparr>)) (ret True)))))))))"

definition STOP_DAQ_handler :: "world \<Rightarrow> u32 list \<Rightarrow> bool act" where
  "STOP_DAQ_handler w av = executeSimpleCommand w STOP_DAQ (STOP_DAQ_body w)"

definition RESET_DAQ_body :: "world \<Rightarrow> u32 list \<Rightarrow> bool act" where
  "RESET_DAQ_body w av =
     bnd (gets macroLoopThread) (\<lambda>wasMacroRunning.
     seq (STOP_DAQ_handler w av)
     (seq (sleep w 500)
     (bnd (START_DAQ_handler w av) (\<lambda>start_success.
      if \<not> start_success then ret False
      else seq (cond wasMacroRunning (modify (\<lambda>s. s\<lparr>macroLoopRunning := True\<rparr>))) (ret True)))))"

definition RESET_DAQ_handler :: "world \<Rightarrow> u32 list \<Rightarrow> bool act" where
  "RESET_DAQ_handler w av = executeSimpleCommand w RESET_DAQ (RESET_DAQ_body w av)"

definition RECONNECT_NETWORK_handler :: "world \<Rightarrow> u32 list \<Rightarrow> bool act" where
  "RECONNECT_NETWORK_handler w av =
     executeSimpleCommand w RECONNECT_NETWORK (seq (emit NetworkReset) (ret True))"

section \<open>Scripts run in the embedded interpreter\<close>

definition INIT_SYSTEM_handler :: "world \<Rightarrow> u32 list \<Rightarrow> bool act" where
  "INIT_SYSTEM_handler w av =
     executeSimpleCommand w INIT_SYSTEM (py w ''runPetsysInitSystem'' [AStr ''scripts.init_system''])"

definition MAKE_BIAS_CALIB_TABLE_handler :: "world \<Rightarrow> u32 list \<Rightarrow> bool act" where
  "MAKE_BIAS_CALIB_TABLE_handler w av =
     executeSimpleCommand w MAKE_BIAS_CALIB_TABLE
       (bnd (cfgString ''main'' ''bias_calibration_table'') (\<lambda>table.
        py w ''runPetsysMakeBiasCalibrationTable''
          [AStr ''scripts.make_bias_calibration_table'', AStr table, AInt (sint (arg_or av 0 0)),
           AInt (sint (arg_or av 1 0)), AInt (sint (arg_or av 2 0))]))"

definition float_arg :: "u32 list \<Rightarrow> nat \<Rightarrow> string \<Rightarrow> arg" where
  "float_arg av i d = (if length av > i then AFloat (av ! i) else AFloatLit d)"

definition MAKE_SIMPLE_BIAS_SET_TABLE_handler :: "world \<Rightarrow> u32 list \<Rightarrow> bool act" where
  "MAKE_SIMPLE_BIAS_SET_TABLE_handler w av =
     executeSimpleCommand w MAKE_SIMPLE_BIAS_SET_TABLE
       (bnd (gets (getConfigFilePath \<circ> cfg)) (\<lambda>conf.
        bnd (cfgString ''main'' ''bias_settings_table'') (\<lambda>table.
        py w ''runPetsysMakeSimpleBiasSettingsTable''
          [AStr ''scripts.make_simple_bias_settings_table'', AStr conf, float_arg av 0 ''0.75'',
           float_arg av 1 ''20.0'', float_arg av 2 ''24.9'', float_arg av 3 ''5.0'', AStr table])))"

definition MAKE_SIMPLE_CHANNEL_MAP_handler :: "world \<Rightarrow> u32 list \<Rightarrow> bool act" where
  "MAKE_SIMPLE_CHANNEL_MAP_handler w av =
     executeSimpleCommand w MAKE_SIMPLE_CHANNEL_MAP
       (bnd (gets (getConfigDir \<circ> cfg)) (\<lambda>dir.
        py w ''runPetsysMakeSimpleChannelMap'' [AStr ''scripts.make_simple_channel_map'', AStr (dir @ ''/map'')]))"

definition MAKE_SIMPLE_DISC_SET_TABLE_handler :: "world \<Rightarrow> u32 list \<Rightarrow> bool act" where
  "MAKE_SIMPLE_DISC_SET_TABLE_handler w av =
     executeSimpleCommand w MAKE_SIMPLE_DISC_SET_TABLE
       (bnd (gets (getConfigFilePath \<circ> cfg)) (\<lambda>conf.
        bnd (cfgString ''main'' ''disc_settings_table'') (\<lambda>table.
        py w ''runPetsysMakeSimpleDiscSettingsTable''
          [AStr ''scripts.make_simple_disc_settings_table'', AStr conf, AUInt (arg_or av 0 20),
           AUInt (arg_or av 1 20), AUInt (arg_or av 2 15), AStr table])))"

section \<open>Background acquisitions\<close>

definition opt_flag :: "bool \<Rightarrow> string \<Rightarrow> string list" where
  "opt_flag b f = (if b then [f] else [])"

definition READ_TEMPERATURE_SENSORS_handler :: "world \<Rightarrow> u32 list \<Rightarrow> bool act" where
  "READ_TEMPERATURE_SENSORS_handler w av = try_false
     (bnd (currentTimestamp w) (\<lambda>ts.
      bnd (mkpath w getLogDir ''read_temperature_sensors'' ts ''log'') (\<lambda>outputFile.
      bnd (gets (\<lambda>s. getLogDir (cfg s) False)) (\<lambda>originalLogDir.
      executeManagedBackground w READ_TEMPERATURE_SENSORS ''read_temperature_sensors.py''
        ([''--time'', show_double (arg_or av 0 600), ''--interval'', show_double (arg_or av 1 60), ''-o'', outputFile]
         @ opt_flag (flag_arg av 2 False) ''--startup'' @ opt_flag (flag_arg av 3 False) ''--debug'')
        (Some [PLink outputFile originalLogDir]) True))))"

definition READ_TEMPERATURE_SENSORS_SINGLE_handler :: "world \<Rightarrow> u32 list \<Rightarrow> bool act" where
  "READ_TEMPERATURE_SENSORS_SINGLE_handler w av = try_false
     (bnd (currentTimestamp w) (\<lambda>ts.
      bnd (mkpath w getLogDir ''read_temperature_sensors_single'' ts ''log'') (\<lambda>outputFile.
      bnd (gets (\<lambda>s. getLogDir (cfg s) False)) (\<lambda>originalLogDir.
      executeManagedBackground w READ_TEMPERATURE_SENSORS_SINGLE ''read_temperature_sensors.py''
        ([''--record'', ''-o'', outputFile]
         @ opt_flag (flag_arg av 2 False) ''--startup'' @ opt_flag (flag_arg av 3 False) ''--debug'')
        (Some [PLink outputFile originalLogDir]) True))))"

definition ad3Path :: string where
  "ad3Path = ''/usr/local/bin/ad3_ctrl''"

definition SEND_PULSE_TRAIN_handler :: "world \<Rightarrow> u32 list \<Rightarrow> bool act" where
  "SEND_PULSE_TRAIN_handler w av = try_false
     (bnd (gets (\<lambda>s. w_access w (trace s) ad3Path)) (\<lambda>executable.
      if \<not> executable then
        seq (modify (sendStatusCallback w SEND_PULSE_TRAIN 1)) (ret True)
      else
        bnd (ask (\<lambda>tr. Inr (w_system w tr (ad3Path @ '' 3''))) (SystemCall (ad3Path @ '' 3''))) (\<lambda>success.
        seq (modify (sendStatusCallback w SEND_PULSE_TRAIN (if success then 0 else 1))) (ret success))))"

definition ACQUIRE_THRESHOLD_CALIBRATION_handler :: "world \<Rightarrow> u32 list \<Rightarrow> bool act" where
  "ACQUIRE_THRESHOLD_CALIBRATION_handler w av = try_false
     (bnd (currentTimestamp w) (\<lambda>ts.
      bnd (mkpath w getCalibrationDir ''disc_calibration'' ts []) (\<lambda>outPathPrefix.
      bnd (gets (getConfigFilePath \<circ> cfg)) (\<lambda>conf.
      bnd (gets (\<lambda>s. getCalibrationDir (cfg s) False)) (\<lambda>originalCalibDir.
      executeManagedBackground w ACQUIRE_THRESHOLD_CALIBRATION ''acquire_threshold_calibration.py''
        ([''--config'', conf, ''-o'', outPathPrefix, ''--mode'', ''all'',
          ''--nreads-noise'', show_u32 (arg_or av 0 4), ''--nreads-dark'', show_u32 (arg_or av 1 4)]
         @ opt_flag (flag_arg av 2 False) ''--ext-bias'')
        (Some [PLink (outPathPrefix @ ''_baseline.tsv'') originalCalibDir,
               PLink (outPathPrefix @ ''_noise.tsv'') originalCalibDir,
               PLink (outPathPrefix @ ''_dark.tsv'') originalCalibDir]) True)))))"

definition ACQUIRE_THRESHOLD_CALIBRATION_BN_handler :: "world \<Rightarrow> u32 list \<Rightarrow> bool act" where
  "ACQUIRE_THRESHOLD_CALIBRATION_BN_handler w av = try_false
     (bnd (currentTimestamp w) (\<lambda>ts.
      bnd (mkpath w getCalibrationDir ''disc_calibration'' ts []) (\<lambda>outPathPrefix.
      bnd (gets (getConfigFilePath \<circ> cfg)) (\<lambda>conf.
      bnd (gets (\<lambda>s. getCalibrationDir (cfg s) False)) (\<lambda>originalCalibDir.
      bnd (gets (\<lambda>s. getConfigDir (cfg s) @ ''/disc_calibration_baseline.tsv'')) (\<lambda>stableConfigTarget.
      executeManagedBackground w ACQUIRE_THRESHOLD_CALIBRATION_BN ''acquire_threshold_calibration.py''
        ([''--config'', conf, ''-o'', outPathPrefix, ''--mode'', ''baseline_noise'',
          ''--nreads-noise'', show_u32 (arg_or av 0 4)]
         @ opt_flag (flag_arg av 1 False) ''--ext-bias'')
        (Some [PLink (outPathPrefix @ ''_baseline.tsv'') originalCalibDir,
               PLink (outPathPrefix @ ''_noise.tsv'') originalCalibDir,
               PCopy (outPathPrefix @ ''_baseline.tsv'') stableConfigTarget]) True))))))"

definition ACQUIRE_THRESHOLD_CALIBRATION_D_handler :: "world \<Rightarrow> u32 list \<Rightarrow> bool act" where
  "ACQUIRE_THRESHOLD_CALIBRATION_D_handler w av = try_false
     (bnd (currentTimestamp w) (\<lambda>ts.
      bnd (mkpath w getCalibrationDir ''disc_calibration'' ts []) (\<lambda>outPathPrefix.
      bnd (gets (getConfigFilePath \<circ> cfg)) (\<lambda>conf.
      bnd (gets (\<lambda>s. getCalibrationDir (cfg s) False)) (\<lambda>originalCalibDir.
      executeManagedBackground w ACQUIRE_THRESHOLD_CALIBRATION_D ''acquire_threshold_calibration.py''
        ([''--config'', conf, ''-o'', outPathPrefix, ''--mode'', ''dark'',
          ''--nreads-dark'', show_u32 (arg_or av 0 4)]
         @ opt_flag (flag_arg av 1 False) ''--ext-bias'')
        (Some [PLink (outPathPrefix @ ''_dark.tsv'') originalCalibDir]) True)))))"

definition ACQUIRE_QDC_CALIBRATION_handler :: "world \<Rightarrow> u32 list \<Rightarrow> bool act" where
  "ACQUIRE_QDC_CALIBRATION_handler w av = try_false
     (bnd (currentTimestamp w) (\<lambda>ts.
      bnd (mkpath w getCalibrationDir ''qdc_calibration'' ts []) (\<lambda>outPathPrefix.
      bnd (gets (getConfigFilePath \<circ> cfg)) (\<lambda>conf.
      bnd (gets (\<lambda>s. getCalibrationDir (cfg s) False)) (\<lambda>originalCalibDir.
      executeManagedBackground w ACQUIRE_QDC_CALIBRATION ''acquire_qdc_calibration.py''
        [''--config'', conf, ''-o'', outPathPrefix]
        (Some (map (\<lambda>ext. PLink (outPathPrefix @ ext) originalCalibDir) [''.bins'', ''.idxf'', ''.modf'', ''.rawf'']))
        True)))))"

definition ACQUIRE_TDC_CALIBRATION_handler :: "world \<Rightarrow> u32 list \<Rightarrow> bool act" where
  "ACQUIRE_TDC_CALIBRATION_handler w av = try_false
     (bnd (currentTimestamp w) (\<lambda>ts.
      bnd (mkpath w getCalibrationDir ''tdc_calibration'' ts []) (\<lambda>outPathPrefix.
      bnd (gets (getConfigFilePath \<circ> cfg)) (\<lambda>conf.
      bnd (gets (\<lambda>s. getCalibrationDir (cfg s) False)) (\<lambda>originalCalibDir.
      executeManagedBackground w ACQUIRE_TDC_CALIBRATION ''acquire_tdc_calibration.py''
        [''--config'', conf, ''-o'', outPathPrefix]
        (Some (map (\<lambda>ext. PLink (outPathPrefix @ ext) originalCalibDir)
                 [''.bins'', ''.idxf'', ''_list.tmp'', ''.modf'', ''.rawf'']))
        True)))))"

definition ACQUIRE_SIPM_DATA_handler :: "world \<Rightarrow> u32 list \<Rightarrow> bool act" where
  "ACQUIRE_SIPM_DATA_handler w av = try_false
     (bnd (currentTimestamp w) (\<lambda>ts.
      bnd (mkpath w getSTG0Dir ''run'' ts []) (\<lambda>outPathPrefix.
      bnd (gets (getConfigFilePath \<circ> cfg)) (\<lambda>conf.
      bnd (gets sipmDataAcquisitionTime) (\<lambda>duration.
      bnd (gets (\<lambda>s. getSTG0Dir (cfg s) False)) (\<lambda>originalDataDir.
      executeManagedBackground w ACQUIRE_SIPM_DATA ''acquire_sipm_data.py''
        ([''--config'', conf, ''-o'', outPathPrefix, ''--time'', show_double (arg_or av 0 duration),
          ''--mode'', ''qdc''] @ opt_flag (flag_arg av 1 False) ''--enable-hw-trigger'')
        (Some (map (\<lambda>ext. PLink (outPathPrefix @ ext) originalDataDir) [''.idxf'', ''.modf'', ''.rawf'']))
        True))))))"

definition SET_FEM_POWER_OFF_handler :: "world \<Rightarrow> u32 list \<Rightarrow> bool act" where
  "SET_FEM_POWER_OFF_handler w av =
     executeSimpleCommand w SET_FEM_POWER_OFF
       (py w ''runPetsysToggleSystemPower'' [AStr ''scripts.toggle_system_power'', AStr ''off''])"

definition SET_FEM_POWER_ON_handler :: "world \<Rightarrow> u32 list \<Rightarrow> bool act" where
  "SET_FEM_POWER_ON_handler w av =
     executeSimpleCommand w SET_FEM_POWER_ON
       (py w ''runPetsysToggleSystemPower'' [AStr ''scripts.toggle_system_power'', AStr ''on''])"

definition START_ASIC_TEMP_RECORD_handler :: "world \<Rightarrow> u32 list \<Rightarrow> bool act" where
  "START_ASIC_TEMP_RECORD_handler w av = try_false (seq (startTempRecord (arg_or av 0 10)) (ret True))"

definition STOP_ASIC_TEMP_RECORD_handler :: "world \<Rightarrow> u32 list \<Rightarrow> bool act" where
  "STOP_ASIC_TEMP_RECORD_handler w av = try_false (seq stopTempRecord (ret True))"

section \<open>Processing in the analyzer\<close>

definition path_filename :: "string \<Rightarrow> string" where
  "path_filename p = rev (takeWhile (\<lambda>c. c \<noteq> CHR ''/'') (rev p))"

definition path_extension :: "string \<Rightarrow> string" where
  "path_extension f =
     (if f = ''.'' \<or> f = ''..'' \<or> CHR ''.'' \<notin> set (tl f) then []
      else CHR ''.'' # rev (takeWhile (\<lambda>c. c \<noteq> CHR ''.'') (rev f)))"

definition findFiles :: "(string \<times> bool) list option \<Rightarrow> string \<Rightarrow> string \<Rightarrow> string \<Rightarrow> string list" where
  "findFiles entries directory pre ext = (case entries of
     None \<Rightarrow> []
   | Some es \<Rightarrow> map (path_join directory \<circ> fst)
       (filter (\<lambda>(f, regular). regular \<and> prefix pre f \<and> path_extension f = ext) es))"

text \<open>The loops that link every file which starts with the name of a path and has the extension.\<close>

definition linkFound :: "world \<Rightarrow> string \<Rightarrow> string \<Rightarrow> string \<Rightarrow> unit act" where
  "linkFound w pathPrefix ext dir =
     bnd (gets (\<lambda>s. findFiles (w_entries w (trace s) (parent_path pathPrefix)) (parent_path pathPrefix)
                      (path_filename pathPrefix @ ''_'') ext)) (\<lambda>files.
     each files (\<lambda>f. linkVault w f dir))"

definition PROCESS_THRESHOLD_CALIBRATION_body :: "world \<Rightarrow> bool act" where
  "PROCESS_THRESHOLD_CALIBRATION_body w =
     bnd (latestTimestamp w getCalibrationDir ''disc_calibration'' ''_noise.tsv'') (\<lambda>ts.
     bnd (mkpath w getCalibrationDir ''disc_calibration'' ts []) (\<lambda>inputPrefix.
     bnd (mkpath w getDiscDir ''disc_calibration'' ts ''tsv'') (\<lambda>outputTsv.
     bnd (mkpath w getCalibrationDir ''disc_calibration'' ts ''root'') (\<lambda>outputRoot.
     bnd (gets (getConfigFilePath \<circ> cfg)) (\<lambda>conf.
     bnd (analyzer w ''runPetsysProcessThresholdCalibration''
            [AStr conf, AStr inputPrefix, AStr outputTsv, AStr outputRoot]) (\<lambda>out.
     seq (cond out
            (bnd (gets (\<lambda>s. getDiscDir (cfg s) False)) (\<lambda>originalDiscDir.
             bnd (gets (\<lambda>s. getCalibrationDir (cfg s) False)) (\<lambda>originalCalibDir.
             seq (linkVault w outputTsv originalDiscDir)
             (seq (linkVault w outputRoot originalCalibDir)
             (seq (linkFound w inputPrefix ''.svg'' originalCalibDir)
             (bnd (cfgAbsolute w ''main'' ''disc_calibration_table'') (\<lambda>table.
              copyLink w outputTsv table))))))))
     (ret out)))))))"

definition PROCESS_THRESHOLD_CALIBRATION_handler :: "world \<Rightarrow> u32 list \<Rightarrow> bool act" where
  "PROCESS_THRESHOLD_CALIBRATION_handler w av =
     executeSimpleCommand w PROCESS_THRESHOLD_CALIBRATION (PROCESS_THRESHOLD_CALIBRATION_body w)"

definition PROCESS_TDC_CALIBRATION_body :: "world \<Rightarrow> u32 list \<Rightarrow> bool act" where
  "PROCESS_TDC_CALIBRATION_body w av =
     bnd (latestTimestamp w getCalibrationDir ''tdc_calibration'' []) (\<lambda>ts.
     bnd (mkpath w getCalibrationDir ''tdc_calibration'' ts []) (\<lambda>inputPrefix.
     bnd (mkpath w getTDCDir ''tdc_calibration'' ts []) (\<lambda>outputPrefix.
     bnd (mkpath w getCalibrationDir ''tdc_calibration'' ts []) (\<lambda>tmpPrefix.
     bnd (gets (getConfigFilePath \<circ> cfg)) (\<lambda>conf.
     bnd (analyzer w ''runPetsysProcessTdcCalibration''
            [AStr conf, AStr inputPrefix, AStr outputPrefix, AStr tmpPrefix, ABool (flag_arg av 0 True),
             ABool (flag_arg av 1 False), float_arg av 2 ''200.0'']) (\<lambda>out.
     seq (cond out
            (bnd (gets (\<lambda>s. getTDCDir (cfg s) False)) (\<lambda>originalTdcDir.
             bnd (gets (\<lambda>s. getCalibrationDir (cfg s) False)) (\<lambda>originalCalibDir.
             seq (linkVault w (outputPrefix @ ''.tsv'') originalTdcDir)
             (seq (linkFound w tmpPrefix ''.root'' originalCalibDir)
             (seq (linkFound w tmpPrefix ''.svg'' originalCalibDir)
             (bnd (fileByTimestamp w getTDCDir ''tdc_calibration'' ts ''tsv'') (\<lambda>tsv.
              bnd (cfgAbsolute w ''main'' ''tdc_calibration_table'') (\<lambda>table.
              copyLink w tsv table)))))))))
     (ret out)))))))"

definition PROCESS_TDC_CALIBRATION_handler :: "world \<Rightarrow> u32 list \<Rightarrow> bool act" where
  "PROCESS_TDC_CALIBRATION_handler w av =
     executeSimpleCommand w PROCESS_TDC_CALIBRATION (PROCESS_TDC_CALIBRATION_body w av)"

definition PROCESS_QDC_CALIBRATION_body :: "world \<Rightarrow> u32 list \<Rightarrow> bool act" where
  "PROCESS_QDC_CALIBRATION_body w av =
     bnd (latestTimestamp w getCalibrationDir ''qdc_calibration'' []) (\<lambda>ts.
     bnd (mkpath w getCalibrationDir ''qdc_calibration'' ts []) (\<lambda>inputPrefix.
     bnd (mkpath w getQDCDir ''qdc_calibration'' ts []) (\<lambda>outputPrefix.
     bnd (mkpath w getCalibrationDir ''qdc_calibration'' ts []) (\<lambda>tmpPrefix.
     bnd (gets (getConfigFilePath \<circ> cfg)) (\<lambda>conf.
     bnd (analyzer w ''runPetsysProcessQdcCalibration''
            [AStr conf, AStr inputPrefix, AStr outputPrefix, AStr tmpPrefix, ABool (flag_arg av 0 True),
             ABool (flag_arg av 1 False), float_arg av 2 ''200.0'']) (\<lambda>out.
     seq (cond out
            (bnd (gets (\<lambda>s. getQDCDir (cfg s) False)) (\<lambda>originalQdcDir.
             bnd (gets (\<lambda>s. getCalibrationDir (cfg s) False)) (\<lambda>originalCalibDir.
             seq (linkVault w (outputPrefix @ ''.tsv'') originalQdcDir)
             (seq (linkFound w tmpPrefix ''.root'' originalCalibDir)
             (seq (linkFound w tmpPrefix ''.svg'' originalCalibDir)
             (bnd (fileByTimestamp w getQDCDir ''qdc_calibration'' ts ''tsv'') (\<lambda>tsv.
              bnd (cfgAbsolute w ''main'' ''qdc_calibration_table'') (\<lambda>table.
              copyLink w tsv table)))))))))
     (ret out)))))))"

definition PROCESS_QDC_CALIBRATION_handler :: "world \<Rightarrow> u32 list \<Rightarrow> bool act" where
  "PROCESS_QDC_CALIBRATION_handler w av =
     executeSimpleCommand w PROCESS_QDC_CALIBRATION (PROCESS_QDC_CALIBRATION_body w av)"

definition CONVERT_RAW_TO_RAW_body :: "world \<Rightarrow> u32 list \<Rightarrow> bool act" where
  "CONVERT_RAW_TO_RAW_body w av =
     bnd (latestTimestamp w getSTG0Dir ''run'' []) (\<lambda>ts.
     bnd (mkpath w getSTG0Dir ''run'' ts []) (\<lambda>inputPrefix.
     bnd (mkpath w getSTG1Dir ''run'' ts ''stg1.root'') (\<lambda>outputFile.
     bnd (gets (getConfigFilePath \<circ> cfg)) (\<lambda>conf.
     bnd (analyzer w ''runPetsysConvertRawToRaw''
            [AStr conf, AStr inputPrefix, AStr outputFile, AUInt (arg_or av 0 1024)]) (\<lambda>out.
     seq (cond out (bnd (gets (\<lambda>s. getSTG1Dir (cfg s) False)) (\<lambda>d. linkVault w outputFile d)))
     (ret out))))))"

definition CONVERT_RAW_TO_RAW_handler :: "world \<Rightarrow> u32 list \<Rightarrow> bool act" where
  "CONVERT_RAW_TO_RAW_handler w av = executeSimpleCommand w CONVERT_RAW_TO_RAW (CONVERT_RAW_TO_RAW_body w av)"

text \<open>The file type is the number of the enumerator; \<open>FILE_ROOT\<close> is the default.\<close>

definition CONVERT_RAW_TO_SINGLES_body :: "world \<Rightarrow> u32 list \<Rightarrow> bool act" where
  "CONVERT_RAW_TO_SINGLES_body w av =
     bnd (latestTimestamp w getSTG0Dir ''run'' []) (\<lambda>ts.
     bnd (mkpath w getSTG0Dir ''run'' ts []) (\<lambda>inputPrefix.
     bnd (mkpath w getSTG1Dir ''run'' ts ''stg1_singles.root'') (\<lambda>outputFile.
     bnd (gets (getConfigFilePath \<circ> cfg)) (\<lambda>conf.
     bnd (analyzer w ''runPetsysConvertRawToSingles''
            [AStr conf, AStr inputPrefix, AStr outputFile,
             (if length av > 0 then AUInt (av ! 0) else AStr ''FILE_ROOT''),
             AUInt (arg_or av 1 1024), float_arg av 2 ''0.0'']) (\<lambda>out.
     seq (cond out (bnd (gets (\<lambda>s. getSTG1Dir (cfg s) False)) (\<lambda>d. linkVault w outputFile d)))
     (ret out))))))"

definition CONVERT_RAW_TO_SINGLES_handler :: "world \<Rightarrow> u32 list \<Rightarrow> bool act" where
  "CONVERT_RAW_TO_SINGLES_handler w av =
     executeSimpleCommand w CONVERT_RAW_TO_SINGLES (CONVERT_RAW_TO_SINGLES_body w av)"

definition CONVERT_STG1_TO_STG2_body :: "world \<Rightarrow> bool act" where
  "CONVERT_STG1_TO_STG2_body w =
     bnd (latestTimestamp w getSTG1Dir ''run'' []) (\<lambda>ts.
     bnd (fileByTimestamp w getSTG1Dir ''run'' ts ''stg1.root'') (\<lambda>inputFile.
     bnd (mkpath w getSTG2Dir ''run'' ts ''stg2.root'') (\<lambda>outputFile.
     bnd (gets (\<lambda>s. getSTG2Dir (cfg s) True)) (\<lambda>stg2.
     bnd (analyzer w ''runPetsysConvertStg1ToStg2'' [AStr inputFile, AStr stg2]) (\<lambda>out.
     seq (cond out (bnd (gets (\<lambda>s. getSTG2Dir (cfg s) False)) (\<lambda>d. linkVault w outputFile d)))
     (ret out))))))"

definition CONVERT_STG1_TO_STG2_handler :: "world \<Rightarrow> u32 list \<Rightarrow> bool act" where
  "CONVERT_STG1_TO_STG2_handler w av = executeSimpleCommand w CONVERT_STG1_TO_STG2 (CONVERT_STG1_TO_STG2_body w)"

definition PROCESS_QA_COIN_body :: "world \<Rightarrow> u32 list \<Rightarrow> bool act" where
  "PROCESS_QA_COIN_body w av =
     bnd (latestTimestamp w getSTG2Dir ''run'' []) (\<lambda>ts.
     bnd (fileByTimestamp w getSTG2Dir ''run'' ts ''stg2.root'') (\<lambda>inputFile.
     bnd (mkpath w getSTG2Dir ''run'' ts ''stg2.coin.root'') (\<lambda>rootFile.
     bnd (mkpath w getSTG2Dir ''run'' ts ''stg2.coin.pdf'') (\<lambda>pdfFile.
     bnd (gets (\<lambda>s. getSTG2Dir (cfg s) True)) (\<lambda>stg2.
     bnd (cfgString ''main'' ''tdc_calibration_table'') (\<lambda>tdc.
     bnd (cfgString ''main'' ''qdc_calibration_table'') (\<lambda>qdcTable.
     bnd (analyzer w ''runPetsysProcessTofCoinEvtQA''
            [AStr inputFile, AStr stg2, AStr tdc, AStr qdcTable,
             AInt (if length av > 0 then sint (av ! 0) else -1)]) (\<lambda>out.
     seq (cond out
            (bnd (gets (\<lambda>s. getSTG2Dir (cfg s) False)) (\<lambda>d.
             seq (linkVault w rootFile d) (linkVault w pdfFile d))))
     (ret out)))))))))"

definition PROCESS_QA_COIN_handler :: "world \<Rightarrow> u32 list \<Rightarrow> bool act" where
  "PROCESS_QA_COIN_handler w av = executeSimpleCommand w PROCESS_QA_COIN (PROCESS_QA_COIN_body w av)"

definition send_scan :: "MonitorData list \<times> GraphData list \<times> ParameterData list \<Rightarrow> unit act" where
  "send_scan = (\<lambda>(hists, graphs, params).
     each (map MHist hists @ map MGraph graphs @ map MParam params) (\<lambda>m. emit (SendMonitorData m)))"

definition PROCESS_QA_IRIDIUM_body :: "world \<Rightarrow> bool act" where
  "PROCESS_QA_IRIDIUM_body w =
     bnd (latestTimestamp w getSTG2Dir ''run'' []) (\<lambda>ts.
     bnd (fileByTimestamp w getSTG2Dir ''run'' ts ''stg2.root'') (\<lambda>inputFile.
     bnd (mkpath w getHistDir ''run'' ts ''stg2.iridiumQA.root'') (\<lambda>rootFile.
     bnd (mkpath w getHistDir ''run'' ts ''stg2.iridiumQA.pdf'') (\<lambda>pdfFile.
     bnd (gets (\<lambda>s. getHistDir (cfg s) True)) (\<lambda>hist.
     bnd (analyzer w ''runPetsysProcessTofQAIridium'' [AStr inputFile, AStr hist]) (\<lambda>out.
     if \<not> out then ret False
     else
       bnd (gets (\<lambda>s. getHistDir (cfg s) False)) (\<lambda>originalHistDir.
       seq (linkVault w rootFile originalHistDir)
       (seq (linkVault w pdfFile originalHistDir)
       (bnd (fileByTimestamp w getHistDir ''run'' ts ''iridiumQA.root'') (\<lambda>path.
        bnd (gets (\<lambda>s. w_scan w (trace s) path)) (\<lambda>scan.
        if fst scan = [] \<and> fst (snd scan) = [] \<and> snd (snd scan) = [] then ret False
        else seq (send_scan scan) (ret True)))))))))))) "

definition PROCESS_QA_IRIDIUM_handler :: "world \<Rightarrow> u32 list \<Rightarrow> bool act" where
  "PROCESS_QA_IRIDIUM_handler w av = executeSimpleCommand w PROCESS_QA_IRIDIUM (PROCESS_QA_IRIDIUM_body w)"

section \<open>Macros\<close>

text \<open>
  The part that all macro handlers share: refuse while a macro runs, join the thread of the
  last one, start the new thread. \<open>prepare\<close> is what a handler does between the check and the join, and
  \<open>announce\<close> says whether it sets the running flag before it starts the thread.
\<close>

definition start_macro :: "world \<Rightarrow> TOFCommandCode \<Rightarrow> unit act \<Rightarrow> bool \<Rightarrow> bool act" where
  "start_macro w c prepare announce =
     bnd (gets macroLoopRunning) (\<lambda>running.
     if running then seq (modify (sendStatusCallback w c 1)) (ret False)
     else
       seq prepare
       (seq joinMacro
       (seq (cond announce (modify (\<lambda>s. s\<lparr>macroLoopRunning := True\<rparr>)))
       (seq (emit (MacroSpawned c))
       (seq (modify (\<lambda>s. s\<lparr>macroLoopThread := True\<rparr>)) (ret True))))))"

definition MACRO_THERMAL_CALIB_handler :: "world \<Rightarrow> u32 list \<Rightarrow> bool act" where
  "MACRO_THERMAL_CALIB_handler w av = start_macro w MACRO_THERMAL_CALIB (ret ()) True"

definition MACRO_THERMAL_CALIB_sequence :: "TOFCommandCode list" where
  "MACRO_THERMAL_CALIB_sequence = [READ_TEMPERATURE_SENSORS, ACQUIRE_THRESHOLD_CALIBRATION_BN,
     ACQUIRE_THRESHOLD_CALIBRATION_D, PROCESS_THRESHOLD_CALIBRATION, MAKE_SIMPLE_DISC_SET_TABLE,
     ACQUIRE_TDC_CALIBRATION, ACQUIRE_QDC_CALIBRATION, PROCESS_TDC_CALIBRATION, PROCESS_QDC_CALIBRATION]"

definition MACRO_AUTO_RUN_SEQUENCE_handler :: "world \<Rightarrow> u32 list \<Rightarrow> bool act" where
  "MACRO_AUTO_RUN_SEQUENCE_handler w av = start_macro w MACRO_AUTO_RUN_SEQUENCE (ret ()) True"

definition MACRO_AUTO_RUN_SEQUENCE_sequence :: "TOFCommandCode list" where
  "MACRO_AUTO_RUN_SEQUENCE_sequence = [RESET_DAQ, READ_TEMPERATURE_SENSORS, ACQUIRE_THRESHOLD_CALIBRATION_BN,
     PROCESS_THRESHOLD_CALIBRATION, MAKE_SIMPLE_DISC_SET_TABLE, ACQUIRE_SIPM_DATA, CONVERT_RAW_TO_RAW,
     CONVERT_STG1_TO_STG2, PROCESS_QA_COIN, PROCESS_QA_IRIDIUM]"

definition MACRO_STAGE0_PREBREAKDOWN_BN_handler :: "world \<Rightarrow> u32 list \<Rightarrow> bool act" where
  "MACRO_STAGE0_PREBREAKDOWN_BN_handler w av = start_macro w MACRO_STAGE0_PREBREAKDOWN_BN (ret ()) True"

definition MACRO_STAGE0_PREBREAKDOWN_BN_sequence :: "TOFCommandCode list" where
  "MACRO_STAGE0_PREBREAKDOWN_BN_sequence = [RESET_DAQ, READ_TEMPERATURE_SENSORS, ACQUIRE_THRESHOLD_CALIBRATION_BN,
     PROCESS_THRESHOLD_CALIBRATION, MAKE_SIMPLE_DISC_SET_TABLE, READ_TEMPERATURE_SENSORS_SINGLE]"

definition MACRO_STAGE1_UNBIASED_TDC_handler :: "world \<Rightarrow> u32 list \<Rightarrow> bool act" where
  "MACRO_STAGE1_UNBIASED_TDC_handler w av = start_macro w MACRO_STAGE1_UNBIASED_TDC (ret ()) True"

definition MACRO_STAGE1_UNBIASED_TDC_sequence :: "TOFCommandCode list" where
  "MACRO_STAGE1_UNBIASED_TDC_sequence = [RESET_DAQ, READ_TEMPERATURE_SENSORS_SINGLE, ACQUIRE_TDC_CALIBRATION,
     PROCESS_TDC_CALIBRATION, READ_TEMPERATURE_SENSORS_SINGLE]"

definition MACRO_STAGE2_PREBREAKDOWN_QDC_handler :: "world \<Rightarrow> u32 list \<Rightarrow> bool act" where
  "MACRO_STAGE2_PREBREAKDOWN_QDC_handler w av = start_macro w MACRO_STAGE2_PREBREAKDOWN_QDC (ret ()) True"

definition MACRO_STAGE2_PREBREAKDOWN_QDC_sequence :: "TOFCommandCode list" where
  "MACRO_STAGE2_PREBREAKDOWN_QDC_sequence = [RESET_DAQ, READ_TEMPERATURE_SENSORS_SINGLE, ACQUIRE_QDC_CALIBRATION,
     PROCESS_QDC_CALIBRATION, READ_TEMPERATURE_SENSORS_SINGLE]"

definition set_duration :: "u32 list \<Rightarrow> nat \<Rightarrow> unit act" where
  "set_duration av i = cond (length av > i) (modify (\<lambda>s. s\<lparr>sipmDataAcquisitionTime := av ! i\<rparr>))"

definition MACRO_STAGE3_OPERATIONAL_D_handler :: "world \<Rightarrow> u32 list \<Rightarrow> bool act" where
  "MACRO_STAGE3_OPERATIONAL_D_handler w av = start_macro w MACRO_STAGE3_OPERATIONAL_D (set_duration av 0) True"

definition MACRO_STAGE3_OPERATIONAL_D_sequence :: "TOFCommandCode list" where
  "MACRO_STAGE3_OPERATIONAL_D_sequence = [RESET_DAQ, READ_TEMPERATURE_SENSORS_SINGLE, ACQUIRE_THRESHOLD_CALIBRATION_D,
     START_ASIC_TEMP_RECORD, ACQUIRE_SIPM_DATA, SEND_PULSE_TRAIN, STOP_ASIC_TEMP_RECORD, CONVERT_RAW_TO_RAW,
     CONVERT_STG1_TO_STG2, PROCESS_QA_IRIDIUM, READ_TEMPERATURE_SENSORS_SINGLE]"

definition MACRO_AUTO_RUN_CYCLE_handler :: "world \<Rightarrow> u32 list \<Rightarrow> bool act" where
  "MACRO_AUTO_RUN_CYCLE_handler w av = start_macro w MACRO_AUTO_RUN_CYCLE (set_duration av 1) False"

definition MACRO_AUTO_RUN_CYCLE_sequence :: "TOFCommandCode list" where
  "MACRO_AUTO_RUN_CYCLE_sequence = [RESET_DAQ, READ_TEMPERATURE_SENSORS, ACQUIRE_THRESHOLD_CALIBRATION_D,
     ACQUIRE_SIPM_DATA, CONVERT_RAW_TO_RAW, CONVERT_STG1_TO_STG2, PROCESS_QA_COIN, PROCESS_QA_IRIDIUM]"

section \<open>The dispatcher\<close>

definition HEART_BEAT_handler :: "world \<Rightarrow> u32 list \<Rightarrow> bool act" where
  "HEART_BEAT_handler w av = try_false (seq (sleep w 100) (ret True))"

definition DUMMY_TEST_handler :: "world \<Rightarrow> u32 list \<Rightarrow> bool act" where
  "DUMMY_TEST_handler w av = executeSimpleCommand w DUMMY_TEST (seq (sleep w 100) (ret True))"

fun table :: "world \<Rightarrow> TOFCommandCode \<Rightarrow> (u32 list \<Rightarrow> bool act) option" where
  "table w START_DAQ = Some (START_DAQ_handler w)"
| "table w STOP_DAQ = Some (STOP_DAQ_handler w)"
| "table w RESET_DAQ = Some (RESET_DAQ_handler w)"
| "table w RECONNECT_NETWORK = Some (RECONNECT_NETWORK_handler w)"
| "table w INIT_SYSTEM = Some (INIT_SYSTEM_handler w)"
| "table w MAKE_BIAS_CALIB_TABLE = Some (MAKE_BIAS_CALIB_TABLE_handler w)"
| "table w MAKE_SIMPLE_BIAS_SET_TABLE = Some (MAKE_SIMPLE_BIAS_SET_TABLE_handler w)"
| "table w MAKE_SIMPLE_CHANNEL_MAP = Some (MAKE_SIMPLE_CHANNEL_MAP_handler w)"
| "table w MAKE_SIMPLE_DISC_SET_TABLE = Some (MAKE_SIMPLE_DISC_SET_TABLE_handler w)"
| "table w READ_TEMPERATURE_SENSORS = Some (READ_TEMPERATURE_SENSORS_handler w)"
| "table w READ_TEMPERATURE_SENSORS_SINGLE = Some (READ_TEMPERATURE_SENSORS_SINGLE_handler w)"
| "table w SEND_PULSE_TRAIN = Some (SEND_PULSE_TRAIN_handler w)"
| "table w ACQUIRE_THRESHOLD_CALIBRATION = Some (ACQUIRE_THRESHOLD_CALIBRATION_handler w)"
| "table w ACQUIRE_THRESHOLD_CALIBRATION_BN = Some (ACQUIRE_THRESHOLD_CALIBRATION_BN_handler w)"
| "table w ACQUIRE_THRESHOLD_CALIBRATION_D = Some (ACQUIRE_THRESHOLD_CALIBRATION_D_handler w)"
| "table w ACQUIRE_QDC_CALIBRATION = Some (ACQUIRE_QDC_CALIBRATION_handler w)"
| "table w ACQUIRE_TDC_CALIBRATION = Some (ACQUIRE_TDC_CALIBRATION_handler w)"
| "table w ACQUIRE_SIPM_DATA = Some (ACQUIRE_SIPM_DATA_handler w)"
| "table w SET_FEM_POWER_OFF = Some (SET_FEM_POWER_OFF_handler w)"
| "table w SET_FEM_POWER_ON = Some (SET_FEM_POWER_ON_handler w)"
| "table w START_ASIC_TEMP_RECORD = Some (START_ASIC_TEMP_RECORD_handler w)"
| "table w STOP_ASIC_TEMP_RECORD = Some (STOP_ASIC_TEMP_RECORD_handler w)"
| "table w PROCESS_THRESHOLD_CALIBRATION = Some (PROCESS_THRESHOLD_CALIBRATION_handler w)"
| "table w PROCESS_TDC_CALIBRATION = Some (PROCESS_TDC_CALIBRATION_handler w)"
| "table w PROCESS_QDC_CALIBRATION = Some (PROCESS_QDC_CALIBRATION_handler w)"
| "table w CONVERT_RAW_TO_RAW = Some (CONVERT_RAW_TO_RAW_handler w)"
| "table w CONVERT_RAW_TO_SINGLES = Some (CONVERT_RAW_TO_SINGLES_handler w)"
| "table w CONVERT_STG1_TO_STG2 = Some (CONVERT_STG1_TO_STG2_handler w)"
| "table w PROCESS_QA_COIN = Some (PROCESS_QA_COIN_handler w)"
| "table w PROCESS_QA_IRIDIUM = Some (PROCESS_QA_IRIDIUM_handler w)"
| "table w MACRO_THERMAL_CALIB = Some (MACRO_THERMAL_CALIB_handler w)"
| "table w MACRO_AUTO_RUN_SEQUENCE = Some (MACRO_AUTO_RUN_SEQUENCE_handler w)"
| "table w MACRO_STAGE0_PREBREAKDOWN_BN = Some (MACRO_STAGE0_PREBREAKDOWN_BN_handler w)"
| "table w MACRO_STAGE1_UNBIASED_TDC = Some (MACRO_STAGE1_UNBIASED_TDC_handler w)"
| "table w MACRO_STAGE2_PREBREAKDOWN_QDC = Some (MACRO_STAGE2_PREBREAKDOWN_QDC_handler w)"
| "table w MACRO_STAGE3_OPERATIONAL_D = Some (MACRO_STAGE3_OPERATIONAL_D_handler w)"
| "table w MACRO_AUTO_RUN_CYCLE = Some (MACRO_AUTO_RUN_CYCLE_handler w)"
| "table w HEART_BEAT = Some (HEART_BEAT_handler w)"
| "table w DUMMY_TEST = Some (DUMMY_TEST_handler w)"
| "table w _ = None"

definition dispatch :: "world \<Rightarrow> TOFCommandCode \<Rightarrow> u32 list \<Rightarrow> dispatcher \<Rightarrow> bool \<times> dispatcher" where
  "dispatch w c av s = (case table w c of
     None \<Rightarrow> (False, s)
   | Some h \<Rightarrow> (case h av s of (Inl e, s') \<Rightarrow> (False, s') | (Inr b, s') \<Rightarrow> (b, s')))"

section \<open>The threads\<close>

text \<open>
  The macro thread waits for the background process of a step by polling every two seconds. \<open>polls\<close>
  bounds the number of polls of one step and \<open>cycles\<close> the number of cycles of a loop; \<^const>\<open>None\<close>
  says that the thread is still waiting after as many.
\<close>

fun wait_background :: "world \<Rightarrow> nat \<Rightarrow> TOFCommandCode \<Rightarrow> dispatcher \<Rightarrow> dispatcher option" where
  "wait_background w 0 cmd s = (if macroLoopRunning s then None else Some s)"
| "wait_background w (Suc n) cmd s =
     (if \<not> macroLoopRunning s then Some s
      else let s1 = snd (sleep w 2000 s) in
        if list_ex (\<lambda>(pid, task). commandCode task = cmd) (activeBackgroundTasks s1)
        then wait_background w n cmd s1 else Some s1)"

definition leave_vault :: "string \<Rightarrow> dispatcher \<Rightarrow> dispatcher" where
  "leave_vault vaultSubDir s = (if vaultSubDir \<noteq> [] then s\<lparr>cfg := clearVaultPath (cfg s)\<rparr> else s)"

text \<open>The step behind a command: a pulse train that follows the acquisition is sent while it runs.\<close>

definition after_step :: "world \<Rightarrow> TOFCommandCode \<Rightarrow> TOFCommandCode list \<Rightarrow> dispatcher \<Rightarrow> TOFCommandCode list \<times> dispatcher" where
  "after_step w cmd rest s =
     (if cmd = ACQUIRE_SIPM_DATA \<and> rest \<noteq> [] \<and> hd rest = SEND_PULSE_TRAIN then
        (tl rest, let s1 = snd (sleep w 4000 s) in
                  if macroLoopRunning s1 then snd (dispatch w SEND_PULSE_TRAIN [] s1) else s1)
      else (rest, s))"

function run_sequence ::
  "world \<Rightarrow> nat \<Rightarrow> string \<Rightarrow> TOFCommandCode list \<Rightarrow> dispatcher \<Rightarrow> (bool \<times> dispatcher) option" where
  "run_sequence w polls vaultSubDir [] s = Some (True, leave_vault vaultSubDir s)"
| "run_sequence w polls vaultSubDir (cmd # rest) s =
     (if \<not> macroLoopRunning s then Some (False, leave_vault vaultSubDir s)
      else
        let (ok, s1) = dispatch w cmd [] s in
        if \<not> ok then Some (False, (leave_vault vaultSubDir s1)\<lparr>macroLoopRunning := False\<rparr>)
        else
          let s2 = (if cmd = RESET_DAQ then s1\<lparr>macroLoopRunning := True\<rparr> else s1) in
          case wait_background w polls cmd (snd (after_step w cmd rest s2)) of
            None \<Rightarrow> None
          | Some s4 \<Rightarrow> run_sequence w polls vaultSubDir (fst (after_step w cmd rest s2)) s4)"
  by pat_completeness auto
termination
  by (relation "measure (\<lambda>(w, polls, v, sequence, s). length sequence)") (auto simp: after_step_def)

definition vault_dir :: "world \<Rightarrow> string \<Rightarrow> dispatcher \<Rightarrow> string" where
  "vault_dir w vaultSubDir s =
     getTOFDataDir (cfg s) @ ''/vault/'' @ vaultSubDir @ ''/run_'' @ w_time w (trace s)"

definition enter_vault :: "world \<Rightarrow> string \<Rightarrow> dispatcher \<Rightarrow> bool \<times> dispatcher" where
  "enter_vault w vaultDir s =
     (let s1 = s\<lparr>trace := trace s @ [CreateDirectories vaultDir]\<rparr> in
      case w_mkdirs w (trace s) vaultDir of
        Inl e \<Rightarrow> (False, s1)
      | Inr _ \<Rightarrow> (True, s1\<lparr>cfg := setVaultPath vaultDir (cfg s1)\<rparr>))"

definition executeMacroSequence ::
  "world \<Rightarrow> nat \<Rightarrow> string \<Rightarrow> TOFCommandCode list \<Rightarrow> dispatcher \<Rightarrow> (bool \<times> dispatcher) option" where
  "executeMacroSequence w polls vaultSubDir sequence s =
     (let s1 = s\<lparr>macroLoopRunning := True\<rparr> in
      if vaultSubDir = [] then run_sequence w polls vaultSubDir sequence s1
      else let (ok, s2) = enter_vault w (vault_dir w vaultSubDir s1) s1 in
        if \<not> ok then Some (False, s2\<lparr>macroLoopRunning := False\<rparr>)
        else run_sequence w polls vaultSubDir sequence s2)"

fun macro_loop ::
  "world \<Rightarrow> nat \<Rightarrow> nat \<Rightarrow> string \<Rightarrow> TOFCommandCode list \<Rightarrow> u32 \<Rightarrow> u32 \<Rightarrow> dispatcher \<Rightarrow> dispatcher option" where
  "macro_loop w 0 polls vaultSubDir sequence numCycles currentCycle s =
     (if macroLoopRunning s then None else Some s)"
| "macro_loop w (Suc n) polls vaultSubDir sequence numCycles currentCycle s =
     (if \<not> macroLoopRunning s then Some s
      else
        let cycle = currentCycle + 1;
            cycleVaultPath = (if vaultSubDir = [] then [] else vaultSubDir @ ''/cycle_'' @ show_u32 cycle)
        in case executeMacroSequence w polls cycleVaultPath sequence s of
             None \<Rightarrow> None
           | Some (False, s1) \<Rightarrow> Some (s1\<lparr>macroLoopRunning := False\<rparr>)
           | Some (True, s1) \<Rightarrow>
               if numCycles > 0 \<and> cycle \<ge> numCycles then Some (s1\<lparr>macroLoopRunning := False\<rparr>)
               else macro_loop w n polls vaultSubDir sequence numCycles cycle
                      (if macroLoopRunning s1 then snd (sleep w 1000 s1) else s1))"

definition executeMacroLoop ::
  "world \<Rightarrow> nat \<Rightarrow> nat \<Rightarrow> string \<Rightarrow> TOFCommandCode list \<Rightarrow> u32 \<Rightarrow> dispatcher \<Rightarrow> (bool \<times> dispatcher) option" where
  "executeMacroLoop w cycles polls vaultSubDir sequence numCycles s =
     map_option (Pair True)
       (macro_loop w cycles polls vaultSubDir sequence numCycles 0 (s\<lparr>macroLoopRunning := True\<rparr>))"

text \<open>The body of a macro thread: run, clear the flag, report.\<close>

definition macro_thread :: "world \<Rightarrow> TOFCommandCode \<Rightarrow> (dispatcher \<Rightarrow> (bool \<times> dispatcher) option) \<Rightarrow> dispatcher \<Rightarrow> dispatcher option" where
  "macro_thread w c run s = (case run s of
     None \<Rightarrow> None
   | Some (success, s1) \<Rightarrow>
       Some (sendStatusCallback w c (if success then 0 else 1) (s1\<lparr>macroLoopRunning := False\<rparr>)))"

definition macro_run :: "world \<Rightarrow> nat \<Rightarrow> nat \<Rightarrow> TOFCommandCode \<Rightarrow> u32 \<Rightarrow> (dispatcher \<Rightarrow> (bool \<times> dispatcher) option) option" where
  "macro_run w cycles polls c numCycles =
     (if c = MACRO_THERMAL_CALIB then Some (executeMacroSequence w polls ''thermal_calib'' MACRO_THERMAL_CALIB_sequence)
      else if c = MACRO_AUTO_RUN_SEQUENCE then Some (executeMacroSequence w polls ''auto_run'' MACRO_AUTO_RUN_SEQUENCE_sequence)
      else if c = MACRO_STAGE0_PREBREAKDOWN_BN then
        Some (executeMacroSequence w polls ''stage0_prebreakdown_bn'' MACRO_STAGE0_PREBREAKDOWN_BN_sequence)
      else if c = MACRO_STAGE1_UNBIASED_TDC then
        Some (executeMacroSequence w polls ''stage1_unbiased_tdc'' MACRO_STAGE1_UNBIASED_TDC_sequence)
      else if c = MACRO_STAGE2_PREBREAKDOWN_QDC then
        Some (executeMacroSequence w polls ''stage2_prebreakdown_qdc'' MACRO_STAGE2_PREBREAKDOWN_QDC_sequence)
      else if c = MACRO_STAGE3_OPERATIONAL_D then
        Some (executeMacroSequence w polls ''stage3_operational_d'' MACRO_STAGE3_OPERATIONAL_D_sequence)
      else if c = MACRO_AUTO_RUN_CYCLE then
        Some (executeMacroLoop w cycles polls ''auto_run_cycle'' MACRO_AUTO_RUN_CYCLE_sequence numCycles)
      else None)"

text \<open>The DAQ thread clears the flag when the acquisition returns or throws.\<close>

definition runDAQThread_end :: "dispatcher \<Rightarrow> dispatcher" where
  "runDAQThread_end s = s\<lparr>daqRunning := False\<rparr>"

text \<open>One pass of the monitor thread. An exception of a completion callback is not caught: it ends the program.\<close>

definition run_post :: "world \<Rightarrow> post \<Rightarrow> unit act" where
  "run_post w p = (case p of PLink src dir \<Rightarrow> linkVault w src dir | PCopy src dst \<Rightarrow> copyLink w src dst)"

definition run_callback :: "world \<Rightarrow> BackgroundTask \<Rightarrow> bool \<Rightarrow> unit act" where
  "run_callback w task success = (case postCompletionCallback task of
     None \<Rightarrow> ret ()
   | Some ps \<Rightarrow> cond success (each ps (run_post w)))"

fun monitor_scan :: "world \<Rightarrow> (int \<times> BackgroundTask) list \<Rightarrow> dispatcher \<Rightarrow> exn + dispatcher" where
  "monitor_scan w [] s = Inr s"
| "monitor_scan w ((pid, task) # ts) s =
     (let (result, success) = w_waitpid w (trace s) pid in
      if result > 0 then
        (case run_callback w task success s of
           (Inl e, s1) \<Rightarrow> Inl e
         | (Inr _, s1) \<Rightarrow>
             let s2 = (if sendCallback task
                       then sendStatusCallback w (commandCode task) (if success then 0 else 1) s1 else s1)
             in monitor_scan w ts (s2\<lparr>activeBackgroundTasks := del_task pid (activeBackgroundTasks s2)\<rparr>))
      else if result = -1 then
        monitor_scan w ts (s\<lparr>activeBackgroundTasks := del_task pid (activeBackgroundTasks s)\<rparr>)
      else monitor_scan w ts s)"

definition monitor_pass :: "world \<Rightarrow> dispatcher \<Rightarrow> exn + dispatcher" where
  "monitor_pass w s = monitor_scan w (activeBackgroundTasks s) s"

definition dispatcher_destroy :: "dispatcher \<Rightarrow> dispatcher" where
  "dispatcher_destroy s0 = snd (
     (seq (modify (\<lambda>s. s\<lparr>macroLoopRunning := False\<rparr>))
     (seq joinMacro
     (seq (modify (\<lambda>s. s\<lparr>monitorRunning := False\<rparr>))
     (seq (cond (monitorThread s0) (seq (emit MonitorJoined) (modify (\<lambda>s. s\<lparr>monitorThread := False\<rparr>))))
     (seq (modify (\<lambda>s. s\<lparr>daqRunning := False\<rparr>))
     (seq joinDAQ
     stopTempRecord)))))) s0)"

end
