(* ===== verification/FileLinks.thy ===== *)
theory FileLinks
  imports Config
begin

text \<open>
  \<open>GRAMS_TOF_Config::copyOrLink\<close> and \<open>linkVaultFileToOriginalDir\<close> on a model of the file system.

  A path is the list of its components; a file system maps paths to regular files with their contents,
  directories and symbolic links with their target. The program links and copies files by absolute paths
  whose directories are not links, so only the last component of a path is resolved, through at most
  forty links as in Linux; a longer chain does not exist for \<open>fs::exists\<close>. Operations of the library that
  would fail (\<open>create_directories\<close> through a file) throw and leave the file system as it is.
\<close>

type_synonym path = "string list"

datatype node = File string | Dir | Link path

type_synonym fs = "path \<rightharpoonup> node"

fun resolve :: "nat \<Rightarrow> fs \<Rightarrow> path \<Rightarrow> path option" where
  "resolve 0 fs p = None"
| "resolve (Suc n) fs p = (case fs p of
     None \<Rightarrow> None
   | Some (Link q) \<Rightarrow> resolve n fs q
   | Some _ \<Rightarrow> Some p)"

definition fs_target :: "fs \<Rightarrow> path \<Rightarrow> path option" where
  "fs_target fs p = resolve 41 fs p"

definition fs_exists :: "fs \<Rightarrow> path \<Rightarrow> bool" where
  "fs_exists fs p = (fs_target fs p \<noteq> None)"

definition fs_is_symlink :: "fs \<Rightarrow> path \<Rightarrow> bool" where
  "fs_is_symlink fs p = (case fs p of Some (Link _) \<Rightarrow> True | _ \<Rightarrow> False)"

definition fs_is_directory :: "fs \<Rightarrow> path \<Rightarrow> bool" where
  "fs_is_directory fs p = (case fs_target fs p of None \<Rightarrow> False | Some q \<Rightarrow> fs q = Some Dir)"

definition fs_equivalent :: "fs \<Rightarrow> path \<Rightarrow> path \<Rightarrow> bool" where
  "fs_equivalent fs p q = (fs_target fs p \<noteq> None \<and> fs_target fs p = fs_target fs q)"

text \<open>\<open>fs::path::has_extension\<close> of the last component.\<close>

definition has_extension :: "path \<Rightarrow> bool" where
  "has_extension p = (p \<noteq> [] \<and> last p \<noteq> ''.'' \<and> last p \<noteq> ''..'' \<and> CHR ''.'' \<in> set (tl (last p)))"

text \<open>\<open>create_directories\<close>: every missing directory on the way; it throws when a file is in the way.\<close>

fun create_from :: "path \<Rightarrow> string list \<Rightarrow> fs \<Rightarrow> fs option" where
  "create_from done [] fs = Some fs"
| "create_from done (c # cs) fs =
     (let p = done @ [c] in
      if fs_is_directory fs p then create_from p cs fs
      else if fs p \<noteq> None then None
      else create_from p cs (fs(p \<mapsto> Dir)))"

definition create_directories :: "path \<Rightarrow> fs \<Rightarrow> fs option" where
  "create_directories p fs = create_from [] p fs"

text \<open>\<open>fs::remove\<close> removes files and links; a directory in the place of the file is taken to have entries.\<close>

definition fs_remove :: "path \<Rightarrow> fs \<Rightarrow> fs option" where
  "fs_remove p fs = (if fs p = Some Dir then None else Some (fs(p := None)))"

definition create_symlink :: "path \<Rightarrow> path \<Rightarrow> fs \<Rightarrow> fs option" where
  "create_symlink target link fs = (if fs link = None then Some (fs(link \<mapsto> Link target)) else None)"

definition copy_file :: "path \<Rightarrow> path \<Rightarrow> fs \<Rightarrow> fs option" where
  "copy_file src dst fs = (case fs_target fs src of
     None \<Rightarrow> None
   | Some p \<Rightarrow> (case fs p of Some (File c) \<Rightarrow> Some (fs(dst \<mapsto> File c)) | _ \<Rightarrow> None))"

definition place :: "bool \<Rightarrow> path \<Rightarrow> path \<Rightarrow> fs \<Rightarrow> fs option" where
  "place symlink src target fs =
     (case (if fs_exists fs target \<or> fs_is_symlink fs target then fs_remove target fs else Some fs) of
        None \<Rightarrow> None
      | Some fs1 \<Rightarrow> if symlink then create_symlink src target fs1 else copy_file src target fs1)"

text \<open>The file branch: the target is the destination itself if it has an extension, else a file in it.\<close>

definition copyOrLink_file :: "bool \<Rightarrow> path \<Rightarrow> path \<Rightarrow> fs \<Rightarrow> fs option" where
  "copyOrLink_file symlink src dst fs =
     (if has_extension dst \<and> fs_exists fs (butlast dst) \<and> \<not> fs_is_directory fs (butlast dst) then Some fs
      else if \<not> has_extension dst \<and> fs_exists fs dst \<and> \<not> fs_is_directory fs dst then Some fs
      else
        let target = (if has_extension dst then dst else dst @ [last src]) in
        case (if fs_exists fs (butlast target) then Some fs else create_directories (butlast target) fs) of
          None \<Rightarrow> None
        | Some fs1 \<Rightarrow>
            if fs_exists fs1 target \<and> fs_equivalent fs1 src target then Some fs1
            else place symlink src target fs1)"

text \<open>The directory branch: every entry that is not a directory, in the order of the iterator.\<close>

fun copyOrLink_entries :: "bool \<Rightarrow> path \<Rightarrow> path list \<Rightarrow> fs \<Rightarrow> fs option" where
  "copyOrLink_entries symlink targetDir [] fs = Some fs"
| "copyOrLink_entries symlink targetDir (e # es) fs =
     (if fs_is_directory fs e then copyOrLink_entries symlink targetDir es fs
      else let fileDst = targetDir @ [last e] in
        if fs_exists fs fileDst \<and> fs_equivalent fs e fileDst
        then copyOrLink_entries symlink targetDir es fs
        else (case place symlink e fileDst fs of
                None \<Rightarrow> None
              | Some fs1 \<Rightarrow> copyOrLink_entries symlink targetDir es fs1))"

definition copyOrLink :: "(path \<Rightarrow> path list) \<Rightarrow> path \<Rightarrow> path \<Rightarrow> bool \<Rightarrow> fs \<Rightarrow> fs option" where
  "copyOrLink entries src dst symlink fs =
     (if \<not> fs_exists fs src \<and> \<not> fs_is_symlink fs src then Some fs
      else if fs_exists fs dst \<and> fs_equivalent fs src dst then Some fs
      else if \<not> fs_is_directory fs src then copyOrLink_file symlink src dst fs
      else if fs_exists fs dst \<and> \<not> fs_is_directory fs dst then Some fs
      else (case (if fs_exists fs dst then Some fs else create_directories dst fs) of
              None \<Rightarrow> None
            | Some fs1 \<Rightarrow> copyOrLink_entries symlink dst (entries src) fs1))"

definition linkVaultFileToOriginalDir :: "(path \<Rightarrow> path list) \<Rightarrow> path \<Rightarrow> path \<Rightarrow> fs \<Rightarrow> fs option" where
  "linkVaultFileToOriginalDir entries src targetDir fs =
     (if \<not> fs_exists fs src then Some fs
      else case (if fs_exists fs targetDir then Some fs else create_directories targetDir fs) of
        None \<Rightarrow> None
      | Some fs1 \<Rightarrow> copyOrLink entries src (targetDir @ [last src]) True fs1)"

section \<open>Links lead to the file in the vault\<close>

lemma resolve_Some_node: "resolve n fs p = Some q \<Longrightarrow> fs q = Some Dir \<or> (\<exists>c. fs q = Some (File c))"
  by (induction n fs p rule: resolve.induct) (auto split: option.splits node.splits)

lemma resolve_numeral:
  "resolve (numeral k) fs p = (case fs p of
     None \<Rightarrow> None | Some (Link q) \<Rightarrow> resolve (pred_numeral k) fs q | Some _ \<Rightarrow> Some p)"
  by (simp add: numeral_eq_Suc)

lemma resolve_Suc: "resolve n fs p = Some q \<Longrightarrow> resolve (Suc n) fs p = Some q"
  by (induction n fs p rule: resolve.induct) (auto split: option.splits node.splits)

lemma resolve_mono: "resolve n fs p = Some q \<Longrightarrow> n \<le> m \<Longrightarrow> resolve m fs p = Some q"
  by (induction m) (auto simp: le_Suc_eq resolve_Suc simp del: resolve.simps)

lemma resolve_avoid:
  "resolve n fs p = Some q \<Longrightarrow> (\<And>m. m \<le> n \<Longrightarrow> resolve m fs l \<noteq> Some q) \<Longrightarrow> resolve n (fs(l := x)) p = Some q"
proof (induction n fs p rule: resolve.induct)
  case (2 n fs p)
  have p: "p \<noteq> l" using 2(2) 2(3) [of "Suc n"] by auto
  show ?case
  proof (cases "fs p")
    case (Some v)
    then show ?thesis
    proof (cases v)
      case (Link r)
      have "resolve m fs l \<noteq> Some q" if "m \<le> n" for m using 2(3) [of m] that by simp
      then show ?thesis using 2 Some Link p by simp
    qed (use 2 Some p in auto)
  qed (use 2 in auto)
qed simp

lemma place_link:
  assumes "\<not> (fs_exists fs l \<and> fs_equivalent fs src l)" "fs l \<noteq> Some Dir" "resolve 40 fs src = Some f"
  shows "place True src l fs = Some (fs(l \<mapsto> Link src)) \<and> fs_target (fs(l \<mapsto> Link src)) l = Some f"
proof -
  have src: "fs_target fs src = Some f"
    using resolve_mono [OF assms(3), of 41] by (simp add: fs_target_def)
  have "fs_target fs l \<noteq> Some f"
    using assms(1) src by (auto simp: fs_exists_def fs_equivalent_def)
  then have "resolve m fs l \<noteq> Some f" if "m \<le> 40" for m
    using resolve_mono [of m fs l f 41] that by (auto simp: fs_target_def)
  then have "resolve 40 (fs(l \<mapsto> Link src)) src = Some f"
    using resolve_avoid [OF assms(3), of l] by blast
  then have "fs_target (fs(l \<mapsto> Link src)) l = Some f"
    by (simp add: fs_target_def resolve_numeral [of _ _ l])
  moreover have "(if fs_exists fs l \<or> fs_is_symlink fs l then fs_remove l fs else Some fs) = Some (fs(l := None))"
  proof (cases "fs l")
    case None
    then have "fs(l := None) = fs" "\<not> fs_is_symlink fs l" by (auto simp: fs_is_symlink_def)
    moreover have "\<not> fs_exists fs l" using None by (simp add: fs_exists_def fs_target_def resolve_numeral)
    ultimately show ?thesis by simp
  next
    case (Some v)
    then have "fs_exists fs l \<or> fs_is_symlink fs l"
      by (cases v) (simp_all add: fs_is_symlink_def fs_exists_def fs_target_def resolve_numeral)
    then show ?thesis using assms(2) by (simp add: fs_remove_def)
  qed
  ultimately show ?thesis by (simp add: place_def create_symlink_def)
qed

text \<open>
  \<open>linkVaultFileToOriginalDir\<close> on an existing file of the vault whose name has an extension, reachable through
  at most 39 links, and an existing target directory: afterwards the name in the
  target directory resolves to the very file in the vault, whatever file or link (also a dangling one) had
  this name before, and no other entry of the file system has changed.
\<close>

theorem linkVault_resolves:
  assumes "resolve 40 fs src = Some f" "fs f = Some (File c)" "fs_is_directory fs targetDir"
    and "has_extension (targetDir @ [last src])" "\<not> fs_is_directory fs (targetDir @ [last src])"
  shows "\<exists>fs'. linkVaultFileToOriginalDir entries src targetDir fs = Some fs'
    \<and> fs_target fs' (targetDir @ [last src]) = Some f
    \<and> (\<forall>p. p \<noteq> targetDir @ [last src] \<longrightarrow> fs' p = fs p)"
proof -
  let ?l = "targetDir @ [last src]"
  have src: "fs_target fs src = Some f"
    using resolve_mono [OF assms(1), of 41] by (simp add: fs_target_def)
  have ex: "fs_exists fs src" "fs_exists fs targetDir" "\<not> fs_is_directory fs src"
    using src assms(2,3) by (auto simp: fs_exists_def fs_is_directory_def split: option.splits)
  have nd: "fs ?l \<noteq> Some Dir"
    using assms(5) by (auto simp: fs_is_directory_def fs_target_def resolve_numeral)
  show ?thesis
  proof (cases "fs_exists fs ?l \<and> fs_equivalent fs src ?l")
    case True
    then show ?thesis
      using ex src by (auto simp: linkVaultFileToOriginalDir_def copyOrLink_def fs_equivalent_def)
  next
    case False
    have "linkVaultFileToOriginalDir entries src targetDir fs = place True src ?l fs"
      using False ex assms(3,4)
      by (auto simp: linkVaultFileToOriginalDir_def copyOrLink_def copyOrLink_file_def)
    then show ?thesis using place_link [OF False nd assms(1)] by auto
  qed
qed

definition example_fs :: fs where
  "example_fs = [[''vault'', ''run.rawf''] \<mapsto> File ''data'', [''stg0''] \<mapsto> Dir,
     [''stg0'', ''run.rawf''] \<mapsto> Link [''old'', ''run.rawf'']]"

theorem linkVault_resolves_witness:
  "\<exists>fs'. linkVaultFileToOriginalDir (\<lambda>_. []) [''vault'', ''run.rawf''] [''stg0''] example_fs = Some fs'
    \<and> fs_target fs' [''stg0'', ''run.rawf''] = Some [''vault'', ''run.rawf'']"
proof -
  have "resolve 40 example_fs [''vault'', ''run.rawf''] = Some [''vault'', ''run.rawf'']"
    by (simp add: example_fs_def resolve_numeral)
  moreover have "fs_is_directory example_fs [''stg0'']" "\<not> fs_is_directory example_fs [''stg0'', ''run.rawf'']"
    by (simp_all add: fs_is_directory_def fs_target_def resolve_numeral example_fs_def)
  ultimately show ?thesis
    using linkVault_resolves [of example_fs "[''vault'', ''run.rawf'']" "[''vault'', ''run.rawf'']" "''data''" "[''stg0'']" "\<lambda>_. []"]
    by (auto simp: example_fs_def has_extension_def)
qed

end
