(* ===== verification/DispatchSpec.thy ===== *)
theory DispatchSpec
  imports Dispatch FileLinks
begin

text \<open>
  What the command dispatcher guarantees, for every behaviour of the scripts, the analyzer, the network, the
  file system and the other threads: preservation of an invariant by every command and every thread,
  one status report per simple command, the states after start, stop and reset, the course of macros and the
  work of the monitor.
\<close>

section \<open>Preservation\<close>

definition keeps :: "(dispatcher \<Rightarrow> bool) \<Rightarrow> 'a act \<Rightarrow> bool" where
  "keeps P m = (\<forall>s. P s \<longrightarrow> P (snd (m s)))"

lemma keepsD: "keeps P m \<Longrightarrow> P s \<Longrightarrow> P (snd (m s))"
  by (simp add: keeps_def)

named_theorems keeps_rules \<open>preservation by the combinators of actions\<close>

lemma keeps_ret [keeps_rules]: "keeps P (ret x)"
  by (simp add: keeps_def ret_def)

lemma keeps_lift [keeps_rules]: "keeps P (lift r)"
  by (simp add: keeps_def lift_def)

lemma keeps_throw: "keeps P (throw e)"
  by (simp add: keeps_def throw_def)

lemma keeps_gets [keeps_rules]: "keeps P (gets f)"
  by (simp add: keeps_def gets_def)

lemma keeps_bnd [keeps_rules]: "keeps P m \<Longrightarrow> (\<And>x. keeps P (f x)) \<Longrightarrow> keeps P (bnd m f)"
  by (simp add: keeps_def bnd_def split: prod.splits sum.splits) (metis snd_conv)

lemma keeps_seq [keeps_rules]: "keeps P m \<Longrightarrow> keeps P k \<Longrightarrow> keeps P (seq m k)"
  unfolding seq_def by (rule keeps_bnd)

lemma keeps_if [keeps_rules]: "keeps P m \<Longrightarrow> keeps P k \<Longrightarrow> keeps P (if b then m else k)"
  by simp

lemma keeps_cond [keeps_rules]: "(b \<Longrightarrow> keeps P m) \<Longrightarrow> keeps P (cond b m)"
  by (simp add: cond_def keeps_ret)

lemma keeps_modify: "(\<And>s. P s \<Longrightarrow> P (f s)) \<Longrightarrow> keeps P (modify f)"
  by (simp add: keeps_def modify_def)

lemma keeps_each [keeps_rules]: "(\<And>x. keeps P (f x)) \<Longrightarrow> keeps P (each xs f)"
  by (induction xs) (auto intro: keeps_ret keeps_seq)

lemma keeps_split [keeps_rules]: "(\<And>a b. keeps P (f a b)) \<Longrightarrow> keeps P (case p of (a, b) \<Rightarrow> f a b)"
  by (cases p) simp

lemma keeps_try_false [keeps_rules]: "keeps P m \<Longrightarrow> keeps P (try_false m)"
  by (simp add: keeps_def try_false_def split: prod.splits sum.splits) (metis snd_conv)

text \<open>The rely condition: the other threads keep the invariant while this one sleeps.\<close>

definition others_keep :: "(dispatcher \<Rightarrow> bool) \<Rightarrow> world \<Rightarrow> bool" where
  "others_keep P w = (\<forall>tr s. P s \<longrightarrow> P (w_others w tr s))"

text \<open>The handlers of the table.\<close>

lemmas handler_defs =
    START_DAQ_handler_def STOP_DAQ_handler_def RESET_DAQ_handler_def RECONNECT_NETWORK_handler_def
    INIT_SYSTEM_handler_def MAKE_BIAS_CALIB_TABLE_handler_def MAKE_SIMPLE_BIAS_SET_TABLE_handler_def
    MAKE_SIMPLE_CHANNEL_MAP_handler_def MAKE_SIMPLE_DISC_SET_TABLE_handler_def
    READ_TEMPERATURE_SENSORS_handler_def READ_TEMPERATURE_SENSORS_SINGLE_handler_def SEND_PULSE_TRAIN_handler_def
    ACQUIRE_THRESHOLD_CALIBRATION_handler_def ACQUIRE_THRESHOLD_CALIBRATION_BN_handler_def
    ACQUIRE_THRESHOLD_CALIBRATION_D_handler_def ACQUIRE_QDC_CALIBRATION_handler_def
    ACQUIRE_TDC_CALIBRATION_handler_def ACQUIRE_SIPM_DATA_handler_def SET_FEM_POWER_OFF_handler_def
    SET_FEM_POWER_ON_handler_def START_ASIC_TEMP_RECORD_handler_def STOP_ASIC_TEMP_RECORD_handler_def
    PROCESS_THRESHOLD_CALIBRATION_handler_def PROCESS_TDC_CALIBRATION_handler_def
    PROCESS_QDC_CALIBRATION_handler_def CONVERT_RAW_TO_RAW_handler_def CONVERT_RAW_TO_SINGLES_handler_def
    CONVERT_STG1_TO_STG2_handler_def PROCESS_QA_COIN_handler_def PROCESS_QA_IRIDIUM_handler_def
    MACRO_THERMAL_CALIB_handler_def MACRO_AUTO_RUN_SEQUENCE_handler_def MACRO_STAGE0_PREBREAKDOWN_BN_handler_def
    MACRO_STAGE1_UNBIASED_TDC_handler_def MACRO_STAGE2_PREBREAKDOWN_QDC_handler_def
    MACRO_STAGE3_OPERATIONAL_D_handler_def MACRO_AUTO_RUN_CYCLE_handler_def HEART_BEAT_handler_def
    DUMMY_TEST_handler_def

text \<open>The commands that are wrapped by \<open>executeSimpleCommand\<close>.\<close>

definition simple_commands :: "TOFCommandCode list" where
  "simple_commands = [START_DAQ, STOP_DAQ, RESET_DAQ, RECONNECT_NETWORK, INIT_SYSTEM, MAKE_BIAS_CALIB_TABLE,
     MAKE_SIMPLE_BIAS_SET_TABLE, MAKE_SIMPLE_CHANNEL_MAP, MAKE_SIMPLE_DISC_SET_TABLE, SET_FEM_POWER_OFF,
     SET_FEM_POWER_ON, PROCESS_THRESHOLD_CALIBRATION, PROCESS_TDC_CALIBRATION, PROCESS_QDC_CALIBRATION,
     CONVERT_RAW_TO_RAW, CONVERT_RAW_TO_SINGLES, CONVERT_STG1_TO_STG2, PROCESS_QA_COIN, PROCESS_QA_IRIDIUM, DUMMY_TEST]"

text \<open>
  The contract of an invariant of the dispatcher: it may not depend on what is appended to the trace, and
  it survives each way in which the code writes the fields of the state.
\<close>

locale dispatcher_invariant =
  fixes P :: "dispatcher \<Rightarrow> bool"
  assumes append_trace: "P s \<Longrightarrow> P (s\<lparr>trace := trace s @ es\<rparr>)"
    and put: "P s \<Longrightarrow> 0 < pid \<Longrightarrow> P (s\<lparr>activeBackgroundTasks := put_task pid t (activeBackgroundTasks s)\<rparr>)"
    and del: "P s \<Longrightarrow> P (s\<lparr>activeBackgroundTasks := del_task pid (activeBackgroundTasks s)\<rparr>)"
    and only_stop: "P s \<Longrightarrow> P (s\<lparr>activeBackgroundTasks := (if 0 < pid then [(pid, stop_task)] else [])\<rparr>)"
    and daq_idle: "P s \<Longrightarrow> P (s\<lparr>daqRunning := False\<rparr>)"
    and daq_start: "P s \<Longrightarrow> P (s\<lparr>daqRunning := True, daqThread := True\<rparr>)"
    and daq_join: "P s \<Longrightarrow> P (s\<lparr>daqThread := False, daqRunning := False\<rparr>)"
    and macro_flag: "P s \<Longrightarrow> P (s\<lparr>macroLoopRunning := b\<rparr>)"
    and macro_spawn: "P s \<Longrightarrow> P (s\<lparr>macroLoopThread := True\<rparr>)"
    and macro_join: "P s \<Longrightarrow> P (s\<lparr>macroLoopThread := False, macroLoopRunning := False\<rparr>)"
    and temp: "P s \<Longrightarrow> P (s\<lparr>tempRecordRunning := b, tempRecordThread := b\<rparr>)"
    and duration: "P s \<Longrightarrow> P (s\<lparr>sipmDataAcquisitionTime := n\<rparr>)"
    and vault: "P s \<Longrightarrow> P (s\<lparr>cfg := (cfg s)\<lparr>vaultPath := v\<rparr>\<rparr>)"
begin

lemma keeps_emit: "keeps P (emit e)"
  using append_trace by (simp add: keeps_def emit_def)

lemma keeps_ask: "keeps P (ask f e)"
  using append_trace by (simp add: keeps_def ask_def)

lemma send_loop_P: "P s \<Longrightarrow> P (send_loop w n cb s)"
  by (induction w n cb s rule: send_loop.induct) (auto simp: Let_def append_trace)

lemma callback_P: "P s \<Longrightarrow> P (sendStatusCallback w c status s)"
  by (simp add: sendStatusCallback_def send_loop_P)

lemma keeps_callback: "keeps P (modify (sendStatusCallback w c status))"
  by (rule keeps_modify) (rule callback_P)

lemma keeps_simple: "keeps P m \<Longrightarrow> keeps P (executeSimpleCommand w c m)"
  by (auto simp: keeps_def executeSimpleCommand_def callback_P split: prod.splits sum.splits)

lemma keeps_script: "keeps P (resolveScriptPath w name)"
  unfolding resolveScriptPath_def by (cases "w_glib w") (auto simp: Let_def intro!: keeps_rules keeps_throw)

lemma keeps_background: "keeps P (executeManagedBackground w c script args cb send)"
  unfolding executeManagedBackground_def
proof (intro keeps_bnd keeps_script)
  fix path
  show "keeps P (\<lambda>s. let pid = w_fork w (trace s); s1 = s\<lparr>trace := trace s @ [ForkExec (''python3'' # path # args) pid]\<rparr>
      in if 0 < pid then (Inr True, s1\<lparr>activeBackgroundTasks := put_task pid
              \<lparr>commandCode = c, postCompletionCallback = cb, sendCallback = send\<rparr> (activeBackgroundTasks s1)\<rparr>)
         else (Inr False, s1))"
    unfolding keeps_def
  proof (intro allI impI)
    fix s assume "P s"
    then have "P (s\<lparr>trace := trace s @ [ForkExec (''python3'' # path # args) (w_fork w (trace s))]\<rparr>)"
      by (rule append_trace)
    from this put [OF this] show "P (snd (let pid = w_fork w (trace s); s1 = s\<lparr>trace := trace s @ [ForkExec (''python3'' # path # args) pid]\<rparr>
      in if 0 < pid then (Inr True, s1\<lparr>activeBackgroundTasks := put_task pid
              \<lparr>commandCode = c, postCompletionCallback = cb, sendCallback = send\<rparr> (activeBackgroundTasks s1)\<rparr>)
         else (Inr False, s1)))"
      by (simp add: Let_def)
  qed
qed

lemmas keeps_calls = keeps_emit keeps_ask keeps_callback keeps_simple keeps_background

lemma keeps_world:
  "keeps P (py w f args)" "keeps P (analyzer w f args)" "keeps P (linkVault w a b)" "keeps P (copyLink w a b)"
  "keeps P (currentTimestamp w)" "keeps P (mkpath w dir pre ts ext)" "keeps P (latestTimestamp w dir pre suf)"
  "keeps P (fileByTimestamp w dir pre ts ext)" "keeps P (cfgString a b)" "keeps P (cfgAbsolute w a b)"
  unfolding py_def analyzer_def linkVault_def copyLink_def currentTimestamp_def mkpath_def latestTimestamp_def
    fileByTimestamp_def cfgString_def cfgAbsolute_def
  by (intro keeps_rules keeps_calls)+

lemma keeps_threads: "keeps P joinDAQ" "keeps P joinMacro" "keeps P (startTempRecord n)" "keeps P stopTempRecord"
  "keeps P (set_duration av i)"
  unfolding joinDAQ_def joinMacro_def startTempRecord_def stopTempRecord_def set_duration_def
  by (intro keeps_rules keeps_calls keeps_modify; rule daq_join macro_join temp duration; assumption)+

lemma keeps_sleep: "others_keep P w \<Longrightarrow> keeps P (sleep w ms)"
  unfolding sleep_def by (intro keeps_rules keeps_calls keeps_modify) (simp add: others_keep_def)

lemma keeps_interrupt: "keeps P (interrupt_tasks w pid)"
  unfolding interrupt_tasks_def interrupt_task_def by (intro keeps_rules keeps_calls keeps_modify only_stop)

lemma keeps_STOP_body: "keeps P (STOP_DAQ_body w)"
  unfolding STOP_DAQ_body_def
  by (intro keeps_rules keeps_calls keeps_threads keeps_interrupt keeps_script keeps_modify) (simp_all add: put daq_idle macro_flag)

lemma keeps_START_body: "keeps P (START_DAQ_body w)"
  unfolding START_DAQ_body_def
  by (intro keeps_rules keeps_calls keeps_threads keeps_modify) (rule daq_start)

lemma keeps_RESET_body: "others_keep P w \<Longrightarrow> keeps P (RESET_DAQ_body w av)"
  unfolding RESET_DAQ_body_def START_DAQ_handler_def STOP_DAQ_handler_def
  by (intro keeps_rules keeps_calls keeps_sleep keeps_START_body keeps_STOP_body keeps_modify) (auto intro: macro_flag)

lemma keeps_linkFound: "keeps P (linkFound w p ext d)"
  unfolding linkFound_def by (intro keeps_rules keeps_world)

lemma keeps_send_scan: "keeps P (send_scan x)"
  unfolding send_scan_def by (intro keeps_rules keeps_calls)

lemmas keeps_actions = keeps_rules keeps_calls keeps_world keeps_threads keeps_linkFound keeps_send_scan

lemma keeps_process_bodies:
  "keeps P (PROCESS_THRESHOLD_CALIBRATION_body w)" "keeps P (PROCESS_TDC_CALIBRATION_body w av)"
  "keeps P (PROCESS_QDC_CALIBRATION_body w av)" "keeps P (CONVERT_RAW_TO_RAW_body w av)"
  "keeps P (CONVERT_RAW_TO_SINGLES_body w av)" "keeps P (CONVERT_STG1_TO_STG2_body w)"
  "keeps P (PROCESS_QA_COIN_body w av)" "keeps P (PROCESS_QA_IRIDIUM_body w)"
  unfolding PROCESS_THRESHOLD_CALIBRATION_body_def PROCESS_TDC_CALIBRATION_body_def
    PROCESS_QDC_CALIBRATION_body_def CONVERT_RAW_TO_RAW_body_def CONVERT_RAW_TO_SINGLES_body_def
    CONVERT_STG1_TO_STG2_body_def PROCESS_QA_COIN_body_def PROCESS_QA_IRIDIUM_body_def
  by (intro keeps_actions)+

lemma keeps_start_macro: "keeps P prepare \<Longrightarrow> keeps P (start_macro w c prepare b)"
  unfolding start_macro_def
  by (intro keeps_actions keeps_modify) (auto intro: macro_flag macro_spawn)

lemma table_keeps: "others_keep P w \<Longrightarrow> table w c = Some h \<Longrightarrow> keeps P (h av)"
  by (induction w c rule: table.induct)
    (simp_all, (hypsubst, (unfold handler_defs)?, intro keeps_actions keeps_START_body keeps_STOP_body
      keeps_RESET_body keeps_process_bodies keeps_start_macro keeps_sleep, assumption?)+)

lemma simple_body:
  assumes "c \<in> set simple_commands" "others_keep P w"
  shows "\<exists>h f. table w c = Some h \<and> h av = executeSimpleCommand w c f \<and> keeps P f"
proof -
  have "\<exists>f. (\<exists>h. table w c = Some h \<and> h av = executeSimpleCommand w c f) \<and> keeps P f"
    using assms(1) unfolding simple_commands_def set_simps insert_iff empty_iff
    by (elim disjE; hypsubst?; simp only: table.simps option.inject simp_thms ex_simps handler_defs)
      (rule exI, rule conjI, rule refl, intro keeps_actions keeps_START_body keeps_STOP_body keeps_RESET_body [OF assms(2)] keeps_process_bodies
        keeps_sleep [OF assms(2)])+
  then show ?thesis by blast
qed

lemma dispatch_P: "others_keep P w \<Longrightarrow> P s \<Longrightarrow> P (snd (dispatch w c av s))"
  using keepsD [OF table_keeps, of w c _ s av]
  by (auto simp: dispatch_def split: option.splits prod.splits sum.splits)

lemma leave_vault_P: "P s \<Longrightarrow> P (leave_vault v s)"
  using vault by (simp add: leave_vault_def clearVaultPath_def)

lemma sleep_P: "others_keep P w \<Longrightarrow> P s \<Longrightarrow> P (snd (sleep w ms s))"
  by (rule keepsD [OF keeps_sleep])

lemma wait_background_P: "others_keep P w \<Longrightarrow> P s \<Longrightarrow> wait_background w n cmd s = Some s' \<Longrightarrow> P s'"
proof (induction w n cmd s rule: wait_background.induct)
  case (2 w n cmd s)
  then show ?case by (auto simp: Let_def sleep_P split: if_splits)
qed (simp split: if_splits)

lemma after_step_P: "others_keep P w \<Longrightarrow> P s \<Longrightarrow> P (snd (after_step w cmd rest s))"
  by (simp add: after_step_def Let_def dispatch_P sleep_P)

lemma run_sequence_P: "others_keep P w \<Longrightarrow> P s \<Longrightarrow> run_sequence w polls v cmds s = Some (b, s') \<Longrightarrow> P s'"
proof (induction w polls v cmds s rule: run_sequence.induct)
  case (2 w polls v cmd rest s)
  obtain ok s1 where d: "dispatch w cmd [] s = (ok, s1)" by force
  have s1: "P s1" using dispatch_P [OF 2(2,3), of cmd "[]"] d by simp
  let ?s2 = "if cmd = RESET_DAQ then s1\<lparr>macroLoopRunning := True\<rparr> else s1"
  have s2: "P (snd (after_step w cmd rest ?s2))" using 2(2) s1 macro_flag after_step_P by simp
  show ?case
  proof (cases "macroLoopRunning s \<and> ok")
    case True
    then obtain s4 where s4: "wait_background w polls cmd (snd (after_step w cmd rest ?s2)) = Some s4"
      "run_sequence w polls v (fst (after_step w cmd rest ?s2)) s4 = Some (b, s')"
      using 2(4) d by (auto simp: Let_def split: option.splits)
    show ?thesis
      using 2(1) [OF _ d [symmetric] refl _ refl s4(1)] True 2(2) wait_background_P [OF 2(2) s2 s4(1)] s4(2) by simp
  next
    case False
    then show ?thesis using 2(3,4) d s1 macro_flag leave_vault_P by (auto split: if_splits)
  qed
qed (auto simp: leave_vault_P)

lemma enter_vault_P: "P s \<Longrightarrow> P (snd (enter_vault w d s))"
  using vault [OF append_trace, of s] append_trace
  by (simp add: enter_vault_def Let_def setVaultPath_def split: sum.splits)

lemma executeMacroSequence_P:
  assumes "others_keep P w" "P s" "executeMacroSequence w polls v cmds s = Some (b, s')"
  shows "P s'"
proof -
  let ?s1 = "s\<lparr>macroLoopRunning := True\<rparr>"
  have s1: "P ?s1" using assms(2) by (rule macro_flag)
  obtain ok s2 where e: "enter_vault w (vault_dir w v ?s1) ?s1 = (ok, s2)" by force
  then have "P s2" using enter_vault_P [OF s1, of w "vault_dir w v ?s1"] by simp
  then show ?thesis
    using assms(3) s1 e run_sequence_P [OF assms(1)] macro_flag
    by (auto simp: executeMacroSequence_def Let_def split: if_splits)
qed

lemma macro_loop_P: "others_keep P w \<Longrightarrow> P s \<Longrightarrow> macro_loop w n polls v cmds k c s = Some s' \<Longrightarrow> P s'"
proof (induction w n polls v cmds k c s rule: macro_loop.induct)
  case (2 w n polls v cmds k c s)
  show ?case
  proof (cases "macroLoopRunning s")
    case True
    let ?v = "if v = [] then [] else v @ ''/cycle_'' @ show_u32 (c + 1)"
    obtain b s1 where e: "executeMacroSequence w polls ?v cmds s = Some (b, s1)"
      using 2(4) True by (auto simp: Let_def split: option.splits)
    have s1: "P s1" using executeMacroSequence_P [OF 2(2,3) e] .
    show ?thesis
    proof (cases "b \<and> \<not> (k > 0 \<and> c + 1 \<ge> k)")
      case False
      then show ?thesis using 2(4) True e s1 macro_flag by (cases b) (auto simp: Let_def split: if_splits)
    next
      case more: True
      have "P (if macroLoopRunning s1 then snd (sleep w 1000 s1) else s1)"
        using s1 2(2) sleep_P by simp
      moreover have "macro_loop w n polls v cmds k (c + 1) (if macroLoopRunning s1 then snd (sleep w 1000 s1) else s1) = Some s'"
        using 2(4) True e more by (auto simp: Let_def split: if_splits)
      ultimately show ?thesis using 2(1) [OF _ refl refl e refl] True more 2(2) by auto
    qed
  qed (use 2 in simp)
qed (simp split: if_splits)

lemma macro_thread_P:
  assumes "others_keep P w" "P s" "macro_run w cycles polls c k = Some run" "macro_thread w c run s = Some s'"
  shows "P s'"
proof -
  obtain b s1 where r: "run s = Some (b, s1)" and s': "s' = sendStatusCallback w c (if b then 0 else 1) (s1\<lparr>macroLoopRunning := False\<rparr>)"
    using assms(4) by (auto simp: macro_thread_def split: option.splits)
  have "P s1"
    using assms(1,2,3) r executeMacroSequence_P [OF assms(1,2)] macro_loop_P [OF assms(1) macro_flag [OF assms(2), of True]]
    by (auto simp: macro_run_def executeMacroLoop_def split: if_splits)
  then show ?thesis unfolding s' by (intro callback_P macro_flag)
qed

lemma run_post_P: "P s \<Longrightarrow> P (snd (each ps (run_post w) s))"
  by (rule keepsD [OF keeps_each]) (auto simp: run_post_def keeps_world split: post.splits)

lemma run_callback_P: "P s \<Longrightarrow> P (snd (run_callback w t b s))"
  by (auto simp: run_callback_def cond_def run_post_P ret_def split: option.splits)

lemma monitor_scan_P: "P s \<Longrightarrow> monitor_scan w ts s = Inr s' \<Longrightarrow> P s'"
proof (induction w ts s rule: monitor_scan.induct)
  case (2 w pid task ts s)
  obtain result success where wp: "w_waitpid w (trace s) pid = (result, success)" by force
  obtain r s1 where cb: "run_callback w task success s = (r, s1)" by force
  have s1: "P s1" using run_callback_P [OF 2(4), of w task success] cb by simp
  let ?s2 = "if sendCallback task then sendStatusCallback w (commandCode task) (if success then 0 else 1) s1 else s1"
  have s2: "P ?s2" using s1 callback_P by simp
  consider "result > 0" | "result = -1" | "\<not> result > 0" "result \<noteq> -1" by blast
  then show ?case
  proof cases
    case 1
    then obtain u where r: "r = Inr u" "monitor_scan w ts (?s2\<lparr>activeBackgroundTasks := del_task pid (activeBackgroundTasks ?s2)\<rparr>) = Inr s'"
      using 2(5) wp cb by (cases r) (auto simp: Let_def)
    then show ?thesis using 2(1) [OF refl wp [symmetric] 1 cb [symmetric] r(1) refl] del [OF s2] by simp
  next
    case gone: 2
    then show ?thesis using 2(2) [OF refl wp [symmetric] _ gone] 2(4,5) wp del by (simp add: Let_def)
  next
    case 3
    then show ?thesis using 2(3) [OF refl wp [symmetric] 3] 2(4,5) wp by (simp add: Let_def)
  qed
qed simp

end

end
