(* ===== verification/DispatchTheorems.thy ===== *)
theory DispatchTheorems
  imports DispatchSpec
begin

text \<open>
  The theorems about the command dispatcher: the invariant of all interleavings of commands and threads,
  the status reports, start, stop and reset, macros and the monitor.
\<close>

section \<open>The invariant of the dispatcher\<close>

definition wf_dispatcher :: "dispatcher \<Rightarrow> bool" where
  "wf_dispatcher s =
     (distinct (map fst (activeBackgroundTasks s)) \<and> (\<forall>p \<in> set (map fst (activeBackgroundTasks s)). 0 < p)
      \<and> (daqRunning s \<longrightarrow> daqThread s) \<and> tempRecordRunning s = tempRecordThread s)"

lemma map_fst_filter: "map fst (filter (\<lambda>(p, _). p \<noteq> pid) ts) = filter (\<lambda>p. p \<noteq> pid) (map fst ts)"
  by (induction ts) auto

interpretation wf: dispatcher_invariant wf_dispatcher
  by unfold_locales
    (auto simp: wf_dispatcher_def put_task_def del_task_def map_fst_filter image_iff split: if_splits)

interpretation mono: dispatcher_invariant "\<lambda>s. prefix tr (trace s)" for tr
  by unfold_locales auto

text \<open>
  The steps of the program: a command from the network, a pass of the monitor, the end of the
  acquisition, a macro thread that runs to its end (with the other threads in between, as
  the world says), and a round of the temperature recording. An exception of the monitor or of the recording is not caught and
  ends the program, so such a pass is no step.
\<close>

inductive dispatcher_step :: "world \<Rightarrow> dispatcher \<Rightarrow> dispatcher \<Rightarrow> bool" for w where
  command: "dispatch w c av s = (b, s') \<Longrightarrow> dispatcher_step w s s'"
| monitor: "monitorRunning s \<Longrightarrow> monitor_pass w s = Inr s' \<Longrightarrow> dispatcher_step w s s'"
| daq_end: "daqThread s \<Longrightarrow> dispatcher_step w s (runDAQThread_end s)"
| macro: "macroLoopThread s \<Longrightarrow> macro_run w cycles polls c k = Some run \<Longrightarrow> macro_thread w c run s = Some s' \<Longrightarrow>
    dispatcher_step w s s'"
| temp_round: "tempRecordRunning s \<Longrightarrow> temp_record_round w logPath s = (Inr b, s') \<Longrightarrow> dispatcher_step w s s'"

inductive_cases dispatcher_stepE: "dispatcher_step w s s'"

inductive reachable :: "world \<Rightarrow> dispatcher \<Rightarrow> dispatcher \<Rightarrow> bool" for w s0 where
  start: "reachable w s0 s0"
| step: "reachable w s0 s \<Longrightarrow> dispatcher_step w s s' \<Longrightarrow> reachable w s0 s'"

context dispatcher_invariant
begin

lemma step_P: "others_keep P w \<Longrightarrow> dispatcher_step w s s' \<Longrightarrow> P s \<Longrightarrow> P s'"
proof (erule dispatcher_stepE, goal_cases)
  case (1 c av b)
  then show ?case using dispatch_P [of w s c av] by simp
next
  case 2
  then show ?case using monitor_scan_P by (simp add: monitor_pass_def)
next
  case 3
  then show ?case using daq_idle by (simp add: runDAQThread_end_def)
next
  case (4 cycles polls c k run)
  then show ?case using macro_thread_P by blast
next
  case (5 logPath b)
  then show ?case
    using keepsD [OF keeps_background, of s w READ_TEMPERATURE_SENSORS "''read_temperature_sensors.py''"]
    by (simp add: temp_record_round_def) (metis snd_conv)
qed

lemma reachable_P: "reachable w s0 s \<Longrightarrow> others_keep P w \<Longrightarrow> P s0 \<Longrightarrow> P s"
  by (induction rule: reachable.induct) (auto intro: step_P)

end

text \<open>
  What the other threads may do while one sleeps: any number of the elementary writes to the state
  that the code contains. That every thread does nothing else is the guarantee that goes with this
  assumption: each step of the program is a sequence of such writes, so the threads may run inside
  of each other's pauses, in whole or in part.
\<close>

inductive thread_write :: "dispatcher \<Rightarrow> dispatcher \<Rightarrow> bool" where
  write_trace: "thread_write s (s\<lparr>trace := trace s @ es\<rparr>)"
| write_put: "0 < pid \<Longrightarrow> thread_write s (s\<lparr>activeBackgroundTasks := put_task pid t (activeBackgroundTasks s)\<rparr>)"
| write_del: "thread_write s (s\<lparr>activeBackgroundTasks := del_task pid (activeBackgroundTasks s)\<rparr>)"
| write_only_stop: "thread_write s (s\<lparr>activeBackgroundTasks := (if 0 < pid then [(pid, stop_task)] else [])\<rparr>)"
| write_daq_idle: "thread_write s (s\<lparr>daqRunning := False\<rparr>)"
| write_daq_start: "thread_write s (s\<lparr>daqRunning := True, daqThread := True\<rparr>)"
| write_daq_join: "thread_write s (s\<lparr>daqThread := False, daqRunning := False\<rparr>)"
| write_macro_flag: "thread_write s (s\<lparr>macroLoopRunning := b\<rparr>)"
| write_macro_spawn: "thread_write s (s\<lparr>macroLoopThread := True\<rparr>)"
| write_macro_join: "thread_write s (s\<lparr>macroLoopThread := False, macroLoopRunning := False\<rparr>)"
| write_temp: "thread_write s (s\<lparr>tempRecordRunning := b, tempRecordThread := b\<rparr>)"
| write_duration: "thread_write s (s\<lparr>sipmDataAcquisitionTime := n\<rparr>)"
| write_vault: "thread_write s (s\<lparr>cfg := (cfg s)\<lparr>vaultPath := v\<rparr>\<rparr>)"

definition others_write :: "world \<Rightarrow> bool" where
  "others_write w = (\<forall>tr s. thread_write\<^sup>*\<^sup>* s (w_others w tr s))"

interpretation writes: dispatcher_invariant "thread_write\<^sup>*\<^sup>* s0" for s0
  by unfold_locales (erule rtranclp.rtrancl_into_rtrancl, blast intro: thread_write.intros)+

lemma write_wf: "thread_write s s' \<Longrightarrow> wf_dispatcher s \<Longrightarrow> wf_dispatcher s'"
  by (induction rule: thread_write.induct)
    (auto intro: wf.append_trace wf.put wf.del wf.daq_idle wf.daq_start wf.daq_join wf.macro_flag wf.macro_spawn
      wf.macro_join wf.temp wf.duration wf.vault simp: wf.only_stop)

lemma writes_wf: "thread_write\<^sup>*\<^sup>* s s' \<Longrightarrow> wf_dispatcher s \<Longrightarrow> wf_dispatcher s'"
  by (induction rule: rtranclp_induct) (auto intro: write_wf)

lemma others_write_keep:
  assumes "others_write w"
  shows "others_keep wf_dispatcher w" "others_keep (thread_write\<^sup>*\<^sup>* s0) w"
  using assms writes_wf by (auto simp: others_keep_def others_write_def intro: rtranclp_trans)

lemma init_wf: "wf_dispatcher (dispatcher_init conf)"
  by (simp add: wf_dispatcher_def dispatcher_init_def)

text \<open>
  C16: Every state that commands, the monitor, the DAQ, macro and recording threads can reach from
  the constructed dispatcher, in any order, is well-formed: the registered processes have distinct positive
  process numbers, an acquisition that is marked as running has its thread (so starting again joins
  it first and never overwrites a running thread), and the temperature recording is marked as running exactly when its thread exists.
  While a thread sleeps the others may do any of the elementary writes, and each step consists of these: what
  a thread assumes of the others is what it guarantees itself.
\<close>

theorem reachable_wf:
  assumes "others_write w" "reachable w (dispatcher_init conf) s"
  shows "wf_dispatcher s \<and> (\<forall>s'. dispatcher_step w s s' \<longrightarrow> thread_write\<^sup>*\<^sup>* s s')"
  using wf.reachable_P [OF assms(2) others_write_keep(1) [OF assms(1)] init_wf]
    writes.step_P [OF others_write_keep(2) [OF assms(1)]] by blast

definition example_config :: config where
  "example_config = \<lparr>data = Map.empty, configDir = ''/glib/config'', configFilePath = ''/glib/config/config.ini'',
     tofdataDir = ''/data'', vaultPath = [], loaded = True\<rparr>"

text \<open>A world in which everything succeeds and nothing happens by itself.\<close>

definition calm_world :: world where
  "calm_world = \<lparr>w_send = \<lambda>_ _. True, w_py = \<lambda>_ _ _. Inr True, w_analyzer = \<lambda>_ _ _. Inr True, w_fork = \<lambda>_. 7,
     w_waitpid = \<lambda>_ _. (0, False), w_daqInit = \<lambda>_. Inr True, w_time = \<lambda>_. ''2025-01-01_00-00-00.0Z'',
     w_entries = \<lambda>_ _. None, w_exists = \<lambda>_ _. False, w_mkdirs = \<lambda>_ _. Inr (), w_link = \<lambda>_ _ _. Inr (), w_copy = \<lambda>_ _ _. Inr (),
     w_absolute = id, w_glib = None, w_access = \<lambda>_ _. True, w_system = \<lambda>_ _. True, w_scan = \<lambda>_ _. ([], [], []),
     w_others = \<lambda>_ s. s\<rparr>"

lemma calm_others: "others_write calm_world"
  by (simp add: others_write_def calm_world_def)

text \<open>A world in which the monitor reaps a process and a macro is told to stop whenever a thread sleeps.\<close>

definition busy_world :: world where
  "busy_world = calm_world\<lparr>w_others := (\<lambda>_ s. s\<lparr>activeBackgroundTasks := del_task 7 (activeBackgroundTasks s), macroLoopRunning := False\<rparr>)\<rparr>"

lemma busy_others: "others_write busy_world"
proof -
  have "thread_write\<^sup>*\<^sup>* s (s\<lparr>activeBackgroundTasks := del_task 7 (activeBackgroundTasks s), macroLoopRunning := False\<rparr>)" for s
    using rtranclp.rtrancl_into_rtrancl [OF r_into_rtranclp, of thread_write, OF write_del [of s 7] write_macro_flag [of _ False]] by simp
  then show ?thesis
    by (simp add: others_write_def busy_world_def)
qed

theorem reachable_wf_witness:
  "wf_dispatcher (snd (dispatch busy_world RESET_DAQ [] (dispatcher_init example_config)))"
proof -
  have "reachable busy_world (dispatcher_init example_config)
      (snd (dispatch busy_world RESET_DAQ [] (dispatcher_init example_config)))"
    by (rule reachable.step [OF reachable.start], rule dispatcher_step.command, rule surjective_pairing)
  from reachable_wf [OF busy_others this] show ?thesis
    by blast
qed

section \<open>Status reports\<close>

text \<open>The attempts to send a packet: \<open>k\<close> failures with pauses, then a success unless all attempts failed.\<close>

definition attempts :: "nat \<Rightarrow> packet \<Rightarrow> nat \<Rightarrow> effect list" where
  "attempts n cb k = concat (replicate k [SendPacket cb False, Sleep retry_delay_ms])
     @ (if k < n then [SendPacket cb True] else [])"

lemma send_loop_attempts: "\<exists>k \<le> n. send_loop w n cb s = s\<lparr>trace := trace s @ attempts n cb k\<rparr>"
proof (induction n arbitrary: s)
  case 0
  show ?case by (simp add: attempts_def)
next
  case (Suc n)
  show ?case
  proof (cases "w_send w (trace s) cb")
    case True
    then show ?thesis by (intro exI [of _ 0]) (simp add: attempts_def Let_def)
  next
    case False
    let ?s1 = "s\<lparr>trace := trace s @ [SendPacket cb False, Sleep retry_delay_ms]\<rparr>"
    obtain k where "k \<le> n" "send_loop w n cb ?s1 = ?s1\<lparr>trace := trace ?s1 @ attempts n cb k\<rparr>"
      using Suc.IH [of ?s1] by blast
    then show ?thesis using False by (intro exI [of _ "Suc k"]) (simp add: attempts_def Let_def)
  qed
qed

lemma callback_attempts:
  "\<exists>k \<le> 10. sendStatusCallback w c status s = s\<lparr>trace := trace s @ attempts 10 (callback_packet c status) k\<rparr>"
  using send_loop_attempts [of max_retries] unfolding sendStatusCallback_def max_retries_def .

text \<open>The other threads only add to the trace.\<close>

definition append_only :: "world \<Rightarrow> bool" where
  "append_only w = (\<forall>tr s. prefix (trace s) (trace (w_others w tr s)))"

lemma append_only_keeps: "append_only w \<Longrightarrow> others_keep (\<lambda>s. prefix tr (trace s)) w"
  by (auto simp: append_only_def others_keep_def intro: prefix_order.trans)

text \<open>
  A simple command reports exactly its result: whatever its body does, throws or leaves undone,
  \<open>dispatch\<close> ends by sending the status packet of this command, with status 0 if it returns true and 1 if it returns false; it
  tries at most ten times and stops after the first success; and what was done before stays in the trace.
\<close>

theorem simple_command_reports:
  assumes "c \<in> set simple_commands" "append_only w" "dispatch w c av s = (b, s')"
  shows "\<exists>tr k. k \<le> 10 \<and> prefix (trace s) tr
    \<and> trace s' = tr @ attempts 10 (callback_packet c (if b then 0 else 1)) k"
proof -
  obtain h f where h: "table w c = Some h" "h av = executeSimpleCommand w c f" "keeps (\<lambda>s'. prefix (trace s) (trace s')) f"
    using mono.simple_body [OF assms(1) append_only_keeps [OF assms(2)]] by blast
  obtain r s1 where f: "f s = (r, s1)" by force
  have "prefix (trace s) (trace s1)" using keepsD [OF h(3), of s] f by simp
  moreover have "s' = sendStatusCallback w c (if b then 0 else 1) s1"
    using assms(3) h f by (auto simp: dispatch_def executeSimpleCommand_def split: sum.splits)
  moreover obtain k where "k \<le> 10" "sendStatusCallback w c (if b then 0 else 1) s1
      = s1\<lparr>trace := trace s1 @ attempts 10 (callback_packet c (if b then 0 else 1)) k\<rparr>"
    using callback_attempts by blast
  ultimately show ?thesis by auto
qed

lemma calm_append_only: "append_only calm_world"
  by (simp add: append_only_def calm_world_def)

theorem simple_command_reports_witness:
  "\<exists>b s' tr k. dispatch calm_world PROCESS_QA_COIN [] (dispatcher_init example_config) = (b, s') \<and> k \<le> 10
     \<and> trace s' = tr @ attempts 10 (callback_packet PROCESS_QA_COIN (if b then 0 else 1)) k"
proof -
  obtain b s' where d: "dispatch calm_world PROCESS_QA_COIN [] (dispatcher_init example_config) = (b, s')" by force
  have "PROCESS_QA_COIN \<in> set simple_commands" by (simp add: simple_commands_def)
  from simple_command_reports [OF this calm_append_only d] obtain tr k where "k \<le> 10"
    "trace s' = tr @ attempts 10 (callback_packet PROCESS_QA_COIN (if b then 0 else 1)) k" by blast
  with d show ?thesis by (intro exI conjI)
qed

text \<open>
  A code without a handler (the acknowledgements, streams, callbacks and unnamed values) is refused by
  \<open>dispatch\<close> without any effect, and every code of the handler table is one of the named codes.
\<close>

theorem unknown_command_refused:
  "(table w c = None \<longrightarrow> dispatch w c av s = (False, s)) \<and> table w (Unnamed v) = None
   \<and> table w ACK = None \<and> table w CALLBACK = None \<and> table w MONITOR_DATA_STREAM = None
   \<and> table w LOGGER_DATA_STREAM = None"
  by (simp add: dispatch_def)

theorem unknown_command_refused_witness:
  "dispatch calm_world ACK [] (dispatcher_init example_config) = (False, dispatcher_init example_config)"
  using unknown_command_refused [of calm_world ACK "[]" "dispatcher_init example_config"] by simp

end
