(* ===== verification/DAQController.thy ===== *)
theory DAQController
  imports CommandClient DispatchTheorems
begin

text \<open>
  The controller of the flight program (FlightOps/src/GRAMS\_TOF\_DAQController.cpp): how a command that
  arrives reaches the dispatcher, how the start waits for the hub, and when the two links are reset.
  The composition of codec, queue, threads and dispatcher is here: what the hub sends is what the
  dispatcher executes, while the client thread goes on receiving.
\<close>

section \<open>Model\<close>

definition handleIncomingCommand :: "world \<Rightarrow> packet \<Rightarrow> dispatcher \<Rightarrow> bool \<times> dispatcher" where
  "handleIncomingCommand w pkt s = dispatch w (toTOFCommand (code pkt)) (argv pkt) s"

text \<open>The state of the dispatcher after a list of packets was handled.\<close>

definition execute_queue :: "world \<Rightarrow> packet list \<Rightarrow> dispatcher \<Rightarrow> dispatcher" where
  "execute_queue w q s = fold (\<lambda>pkt s. snd (handleIncomingCommand w pkt s)) q s"

text \<open>Waiting for both links at the start: the answers of the two clients at each test, at most 50 of
  them, while the program is not told to stop. The result is the number of tests that failed.\<close>

fun wait_for_hub :: "nat \<Rightarrow> bool list \<Rightarrow> (bool \<times> bool) list \<Rightarrow> nat" where
  "wait_for_hub retries (keepRunning # ks) ((eventReady, commandReady) # rs) =
     (if \<not> keepRunning \<or> \<not> retries < 50 then retries
      else if eventReady \<and> commandReady then retries
      else wait_for_hub (retries + 1) ks rs)"
| "wait_for_hub retries _ _ = retries"

definition startup_timed_out :: "nat \<Rightarrow> bool" where
  "startup_timed_out retries = (50 \<le> retries)"

text \<open>The test of the main loop, at a time and with the time of the last activity of the command link.\<close>

definition reset_needed :: "nat \<Rightarrow> nat \<Rightarrow> bool \<Rightarrow> hub_links \<Rightarrow> bool" where
  "reset_needed now last_activity_time networkResetRequested h =
     (\<not> CommandClient_isHealthy now last_activity_time (commandLink h) \<or> \<not> EventClient_isHealthy (eventLink h) \<or>
      networkResetRequested)"

section \<open>From the hub to the dispatcher\<close>

definition hub_packet :: "TOFCommandCode \<times> u32 list \<Rightarrow> packet" where
  "hub_packet c = \<lparr>code = toCommCode (fst c), argc = of_nat (length (snd c)), argv = snd c\<rparr>"

definition hub_stream :: "(TOFCommandCode \<times> u32 list) list \<Rightarrow> u8 list" where
  "hub_stream cs = concat (map (\<lambda>c. the (serialize (hub_packet c) None)) cs)"

definition urgent_command :: "TOFCommandCode \<times> u32 list \<Rightarrow> bool" where
  "urgent_command c = (fst c = STOP_DAQ \<or> fst c = RESET_DAQ)"

lemma hub_packet_wf: "length (snd c) \<le> 0xFFFF \<Longrightarrow> wf_packet (hub_packet c)"
  by (simp add: hub_packet_def wf_packet_def unat_of_nat_lt)

lemma bridge_code:
  assumes "bridged c"
  shows "toTOFCommand (toCommCode c) = c" "toCommCode c = 0x5001 \<longleftrightarrow> c = STOP_DAQ" "toCommCode c = 0x5002 \<longleftrightarrow> c = RESET_DAQ"
proof -
  note code = bridge_roundtrip [OF assms]
  then show "toTOFCommand (toCommCode c) = c"
    by (rule conjunct2)
  have "STOP_DAQ \<in> set named_codes" "RESET_DAQ \<in> set named_codes"
    by (simp_all add: named_codes_def)
  moreover have "c \<in> set named_codes"
    using assms unfolding bridged_def by blast
  ultimately have "to_u16 c = to_u16 STOP_DAQ \<longleftrightarrow> c = STOP_DAQ" "to_u16 c = to_u16 RESET_DAQ \<longleftrightarrow> c = RESET_DAQ"
    using inj_onD [OF inj_on_to_u16] by metis+
  then show "toCommCode c = 0x5001 \<longleftrightarrow> c = STOP_DAQ" "toCommCode c = 0x5002 \<longleftrightarrow> c = RESET_DAQ"
    using conjunct1 [OF code] by simp_all
qed

lemma hub_packet_urgent: "bridged (fst c) \<Longrightarrow> urgent (hub_packet c) = urgent_command c"
  by (simp add: urgent_def urgent_command_def hub_packet_def bridge_code)

lemma handle_hub_packet: "bridged (fst c) \<Longrightarrow> handleIncomingCommand w (hub_packet c) s = dispatch w (fst c) (snd c) s"
  by (simp add: handleIncomingCommand_def hub_packet_def bridge_code)

lemma execute_hub_packets:
  assumes "\<forall>c \<in> set cs. bridged (fst c)"
  shows "execute_queue w (map hub_packet cs) s = fold (\<lambda>c s. snd (dispatch w (fst c) (snd c) s)) cs s"
  using assms by (induction cs arbitrary: s) (simp_all add: execute_queue_def handle_hub_packet)

text \<open>
  The client thread, the worker thread, and the dispatcher, running at the same time, during one
  connection. \<open>svNetwork\<close> are the bytes that are not read yet, \<open>svHand\<close> is a packet that is acknowledged and
  not yet in the queue. The connection can be lost, and an acknowledgement fail, at any time. The client
  thread reads again, or looks at the flag again, only when no complete packet is left in the buffer.
\<close>

record hub_service =
  svThreads :: command_threads
  svNetwork :: "u8 list"
  svBuffer :: "u8 list"
  svHand :: "packet option"
  svAcks :: "u8 list list"
  svOpen :: bool
  svDispatcher :: dispatcher

definition service_start :: "u8 list \<Rightarrow> dispatcher \<Rightarrow> hub_service" where
  "service_start bytes d = \<lparr>svThreads = threads_start [], svNetwork = bytes, svBuffer = [], svHand = None, svAcks = [],
     svOpen = True, svDispatcher = d\<rparr>"

definition receiver_free :: "hub_service \<Rightarrow> bool" where
  "receiver_free s = (ctReceiver (svThreads s) = RBusy \<and> svOpen s \<and> svHand s = None)"

inductive service_step :: "world \<Rightarrow> hub_service \<Rightarrow> hub_service \<Rightarrow> bool" for w where
  sv_read: "receiver_free s \<Longrightarrow> take_packet (svBuffer s) = Some (Inl False) \<Longrightarrow> svNetwork s = bytes @ rest \<Longrightarrow>
    service_step w s (s\<lparr>svBuffer := svBuffer s @ bytes, svNetwork := rest\<rparr>)"
| sv_ack: "receiver_free s \<Longrightarrow> take_packet (svBuffer s) = Some (Inr (pkt, ack, rest)) \<Longrightarrow>
    service_step w s (s\<lparr>svBuffer := rest, svAcks := svAcks s @ [ack], svHand := Some pkt\<rparr>)"
| sv_ack_fails: "receiver_free s \<Longrightarrow> take_packet (svBuffer s) = Some (Inr (pkt, ack, rest)) \<Longrightarrow>
    service_step w s (s\<lparr>svBuffer := [], svOpen := False\<rparr>)"
| sv_close: "receiver_free s \<Longrightarrow> take_packet (svBuffer s) = Some (Inl b) \<Longrightarrow>
    service_step w s (s\<lparr>svBuffer := [], svOpen := False\<rparr>)"
| sv_push: "svHand s = Some pkt \<Longrightarrow> ctReceiver (svThreads s) = RBusy \<Longrightarrow> ctWorker (svThreads s) \<noteq> WHolding \<Longrightarrow>
    service_step w s (s\<lparr>svHand := None, svThreads := (svThreads s)\<lparr>ctQueue := enqueue pkt (ctQueue (svThreads s)),
      ctReceived := ctReceived (svThreads s) @ [pkt], ctReceiver := RNotify\<rparr>\<rparr>)"
| sv_idle: "ctReceiver (svThreads s) = RBusy \<Longrightarrow> svHand s = None \<Longrightarrow>
    (svOpen s \<longrightarrow> take_packet (svBuffer s) = Some (Inl False)) \<Longrightarrow>
    service_step w s (s\<lparr>svThreads := (svThreads s)\<lparr>ctReceiver := RLoop\<rparr>\<rparr>)"
| sv_executes: "ctWorker (svThreads s) = WExec pkt \<Longrightarrow>
    service_step w s (s\<lparr>svThreads := (svThreads s)\<lparr>ctExecuted := ctExecuted (svThreads s) @ [pkt], ctWorker := WLoop\<rparr>,
      svDispatcher := snd (handleIncomingCommand w pkt (svDispatcher s))\<rparr>)"
| sv_thread: "threads_step (svThreads s) t \<Longrightarrow> ctReceived t = ctReceived (svThreads s) \<Longrightarrow> ctExecuted t = ctExecuted (svThreads s) \<Longrightarrow>
    (ctReceiver (svThreads s) = RBusy \<longrightarrow> ctReceiver t = RBusy) \<Longrightarrow> service_step w s (s\<lparr>svThreads := t\<rparr>)"
| sv_spurious: "service_step w s (s\<lparr>svThreads := wake_worker (svThreads s)\<rparr>)"

inductive service_reach :: "world \<Rightarrow> hub_service \<Rightarrow> hub_service \<Rightarrow> bool" for w s0 where
  sv_start: "service_reach w s0 s0"
| sv_step: "service_reach w s0 s \<Longrightarrow> service_step w s s' \<Longrightarrow> service_reach w s0 s'"

definition command_of :: "packet \<Rightarrow> TOFCommandCode \<times> u32 list" where
  "command_of pkt = (toTOFCommand (code pkt), argv pkt)"

text \<open>The frames of the stream, and what a round of the client thread finds in a part of it.\<close>

definition hub_frame :: "TOFCommandCode \<times> u32 list \<Rightarrow> u8 list" where
  "hub_frame c = the (serialize (hub_packet c) None)"

definition hub_command :: "TOFCommandCode \<times> u32 list \<Rightarrow> bool" where
  "hub_command c = (bridged (fst c) \<and> length (snd c) \<le> 0xFFFF)"

lemma hub_frame: "hub_command c \<Longrightarrow> serialize (hub_packet c) None = Some (hub_frame c)"
  using hub_packet_wf [of c] by (simp add: hub_command_def hub_frame_def serialize_eq)

lemma take_packet_stream:
  assumes "hub_command c" "buf @ net = hub_frame c @ tl_bytes"
  shows "take_packet buf = (if length buf < length (hub_frame c) then Some (Inl False)
    else Some (Inr (hub_packet c, the (serialize (ack_packet (hub_packet c)) None), drop (length (hub_frame c)) buf)))"
proof -
  let ?p = "hub_packet c" and ?f = "hub_frame c"
  have "wf_packet ?p"
    using assms(1) hub_packet_wf by (simp add: hub_command_def)
  note header = frame_header [OF this hub_frame [OF assms(1)]]
  obtain ack where ack: "serialize (ack_packet ?p) None = Some ack"
    using ack_serializes by blast
  show ?thesis
  proof (cases "length buf < MIN_PACKET_SIZE")
    case True
    then show ?thesis
      using header(1) by (simp add: take_packet_def)
  next
    case False
    then have len: "7 < length buf"
      by (simp add: MIN_PACKET_SIZE_def)
    have "(buf @ net) ! 6 = ?f ! 6" "(buf @ net) ! 7 = ?f ! 7"
      using header(2) unfolding assms(2) by (simp_all add: nth_append)
    then have bytes: "buf ! 6 = ?f ! 6" "buf ! 7 = ?f ! 7"
      using len by (simp_all add: nth_append)
    show ?thesis
    proof (cases "length buf < length ?f")
      case True
      then show ?thesis
        using False len bytes header no_larger_argc by (simp add: take_packet_def rd_def Let_def)
    next
      case complete: False
      then have "take (length ?f) buf = take (length ?f) (buf @ net)"
        by simp
      then have "take (length ?f) buf = ?f"
        unfolding assms(2) by simp
      then show ?thesis
        using False complete len bytes header ack no_larger_argc by (simp add: take_packet_def rd_def Let_def)
    qed
  qed
qed

lemma take_packet_nothing: "take_packet [] = Some (Inl False)"
  by (simp add: take_packet_def MIN_PACKET_SIZE_def)

text \<open>The invariant: of the commands \<open>cs\<close> of the hub the first \<open>k\<close> are acknowledged.\<close>

definition stream_inv :: "(TOFCommandCode \<times> u32 list) list \<Rightarrow> nat \<Rightarrow> hub_service \<Rightarrow> bool" where
  "stream_inv cs k s =
     (k \<le> length cs \<and> ctReceived (svThreads s) @ (case svHand s of None \<Rightarrow> [] | Some p \<Rightarrow> [p]) = map hub_packet (take k cs) \<and>
      svAcks s = acks_of (map hub_packet (take k cs)) \<and>
      (svOpen s \<longrightarrow> svBuffer s @ svNetwork s = concat (map hub_frame (drop k cs))))"

definition queue_inv :: "command_threads \<Rightarrow> bool" where
  "queue_inv t = (\<exists>us ns. ctQueue t = us @ ns \<and> (\<forall>p \<in> set us. urgent p) \<and> (\<forall>p \<in> set ns. \<not> urgent p))"

lemma queue_inv_enqueue: "queue_inv t \<Longrightarrow> queue_inv (t\<lparr>ctQueue := enqueue p (ctQueue t), ctReceived := r, ctReceiver := x\<rparr>)"
proof -
  assume "queue_inv t"
  then obtain us ns where q: "ctQueue t = us @ ns" "\<forall>p \<in> set us. urgent p" "\<forall>p \<in> set ns. \<not> urgent p"
    by (auto simp: queue_inv_def)
  show ?thesis
  proof (cases "urgent p")
    case True
    then show ?thesis
      using q unfolding queue_inv_def by (intro exI [of _ "p # us"] exI [of _ ns]) (simp add: enqueue_def)
  next
    case False
    then show ?thesis
      using q unfolding queue_inv_def by (intro exI [of _ us] exI [of _ "ns @ [p]"]) (simp add: enqueue_def)
  qed
qed

lemma queue_inv_tl: "queue_inv t \<Longrightarrow> ctQueue t = p # q \<Longrightarrow> ctQueue t' = q \<Longrightarrow> queue_inv t'"
proof -
  assume a: "queue_inv t" "ctQueue t = p # q" "ctQueue t' = q"
  then obtain us ns where q: "p # q = us @ ns" "\<forall>p \<in> set us. urgent p" "\<forall>p \<in> set ns. \<not> urgent p"
    by (auto simp: queue_inv_def)
  show ?thesis
  proof (cases us)
    case Nil
    then show ?thesis
      using q a(3) unfolding queue_inv_def by (intro exI [of _ "[]"] exI [of _ q]) auto
  next
    case (Cons u us')
    then show ?thesis
      using q a(3) unfolding queue_inv_def by (intro exI [of _ us'] exI [of _ ns]) auto
  qed
qed

lemma queue_inv_cong: "queue_inv t \<Longrightarrow> ctQueue t' = ctQueue t \<Longrightarrow> queue_inv t'"
  by (simp add: queue_inv_def)

lemma wake_worker_same [simp]:
  "ctQueue (wake_worker t) = ctQueue t" "ctReceived (wake_worker t) = ctReceived t" "ctExecuted (wake_worker t) = ctExecuted t"
  "ctReceiver (wake_worker t) = ctReceiver t"
  by (simp_all add: wake_worker_def)

lemma queue_inv_thread:
  assumes "threads_step t t'" "queue_inv t" "ctReceived t' = ctReceived t"
  shows "queue_inv t'"
  using assms(1)
proof (cases rule: threads_step.cases)
  case worker_tests
  show ?thesis
  proof (cases "ctQueue t")
    case Nil
    then show ?thesis
      using worker_tests assms(2) queue_inv_cong by (simp add: worker_test_def)
  next
    case (Cons p q)
    then show ?thesis
      using worker_tests queue_inv_tl [OF assms(2) Cons] by (simp add: worker_test_def)
  qed
next
  case (receiver_pushes p)
  then show ?thesis
    using assms(3) by simp
qed (use assms(2) in \<open>auto intro: queue_inv_cong\<close>)


text \<open>The state of the service after any number of steps.\<close>

definition service_inv :: "world \<Rightarrow> (TOFCommandCode \<times> u32 list) list \<Rightarrow> dispatcher \<Rightarrow> hub_service \<Rightarrow> bool" where
  "service_inv w cs d s = ((\<exists>k. stream_inv cs k s) \<and> commands_inv (svThreads s) \<and> queue_inv (svThreads s) \<and>
     svDispatcher s = execute_queue w (ctExecuted (svThreads s)) d)"

lemma stream_inv_cong:
  "stream_inv cs k s \<Longrightarrow> ctReceived (svThreads s') = ctReceived (svThreads s) \<Longrightarrow> svHand s' = svHand s \<Longrightarrow>
   svAcks s' = svAcks s \<Longrightarrow> svOpen s' = svOpen s \<Longrightarrow> svBuffer s' = svBuffer s \<Longrightarrow> svNetwork s' = svNetwork s \<Longrightarrow> stream_inv cs k s'"
  by (simp add: stream_inv_def)

lemma stream_closed:
  "stream_inv cs k s \<Longrightarrow> stream_inv cs k (s\<lparr>svBuffer := b, svOpen := False\<rparr>)"
  by (simp add: stream_inv_def)

lemma stream_take:
  assumes "\<forall>c \<in> set cs. hub_command c" "stream_inv cs k s" "svOpen s" "take_packet (svBuffer s) = Some (Inr (pkt, ack, rest))"
  shows "k < length cs \<and> pkt = hub_packet (cs ! k) \<and> Some ack = serialize (ack_packet pkt) None \<and>
    rest @ svNetwork s = concat (map hub_frame (drop (Suc k) cs))"
proof (cases "k < length cs")
  case True
  then have d: "drop k cs = cs ! k # drop (Suc k) cs"
    by (rule Cons_nth_drop_Suc [symmetric])
  have c: "hub_command (cs ! k)"
    using assms(1) True by simp
  have eq: "svBuffer s @ svNetwork s = hub_frame (cs ! k) @ concat (map hub_frame (drop (Suc k) cs))"
    using assms(2,3) d by (simp add: stream_inv_def)
  note t = take_packet_stream [OF c eq]
  have len: "\<not> length (svBuffer s) < length (hub_frame (cs ! k))"
    using t assms(4) by auto
  then have "pkt = hub_packet (cs ! k)" "ack = the (serialize (ack_packet pkt) None)" "rest = drop (length (hub_frame (cs ! k))) (svBuffer s)"
    using t assms(4) by auto
  moreover have "drop (length (hub_frame (cs ! k))) (svBuffer s @ svNetwork s) = concat (map hub_frame (drop (Suc k) cs))"
    unfolding eq by simp
  ultimately show ?thesis
    using True len ack_serializes [of pkt] by auto
next
  case False
  then have "svBuffer s = []"
    using assms(2,3) by (simp add: stream_inv_def)
  then show ?thesis
    using assms(4) take_packet_nothing by simp
qed

lemma acks_of_snoc: "acks_of (ps @ [p]) = acks_of ps @ [the (serialize (ack_packet p) None)]"
  by (simp add: acks_of_def)

lemma stream_ack:
  assumes "\<forall>c \<in> set cs. hub_command c" "stream_inv cs k s" "receiver_free s" "take_packet (svBuffer s) = Some (Inr (pkt, ack, rest))"
  shows "stream_inv cs (Suc k) (s\<lparr>svBuffer := rest, svAcks := svAcks s @ [ack], svHand := Some pkt\<rparr>)"
proof -
  have "svOpen s" "svHand s = None"
    using assms(3) by (simp_all add: receiver_free_def)
  then show ?thesis
    using stream_take [OF assms(1,2) _ assms(4)] assms(2) 
    by (auto simp: stream_inv_def take_Suc_conv_app_nth acks_of_snoc dest: sym [of "Some ack"])
qed

lemma service_step_inv:
  assumes "service_step w s s'" "service_inv w cs d s" "\<forall>c \<in> set cs. hub_command c"
  shows "service_inv w cs d s'"
proof -
  obtain k where inv: "stream_inv cs k s" "commands_inv (svThreads s)" "queue_inv (svThreads s)"
    "svDispatcher s = execute_queue w (ctExecuted (svThreads s)) d"
    using assms(2) by (auto simp: service_inv_def)
  show ?thesis
    using assms(1)
  proof (cases rule: service_step.cases)
    case (sv_read bytes rest)
    then have "stream_inv cs k s'"
      using inv(1) by (simp add: stream_inv_def)
    then show ?thesis
      using sv_read inv unfolding service_inv_def by auto
  next
    case (sv_ack pkt ack rest)
    then have "stream_inv cs (Suc k) s'"
      using stream_ack [OF assms(3) inv(1)] by simp
    then show ?thesis
      using sv_ack inv unfolding service_inv_def by auto
  next
    case (sv_ack_fails pkt ack rest)
    then show ?thesis
      using stream_closed [OF inv(1)] inv unfolding service_inv_def by auto
  next
    case (sv_close b)
    then show ?thesis
      using stream_closed [OF inv(1)] inv unfolding service_inv_def by auto
  next
    case (sv_push pkt)
    have "threads_step (svThreads s) (svThreads s')"
      using sv_push receiver_pushes [of "svThreads s" pkt] by simp
    then have "commands_inv (svThreads s')"
      using commands_step inv(2) by blast
    moreover have "queue_inv (svThreads s')"
      using sv_push queue_inv_enqueue [OF inv(3)] by simp
    moreover have "stream_inv cs k s'"
      using sv_push inv(1) by (simp add: stream_inv_def)
    ultimately show ?thesis
      using sv_push inv(4) unfolding service_inv_def by auto
  next
    case sv_idle
    then have "threads_step (svThreads s) (svThreads s')"
      using receiver_idle [of "svThreads s"] by simp
    then have "commands_inv (svThreads s')"
      using commands_step inv(2) by blast
    moreover have "queue_inv (svThreads s')"
      using sv_idle queue_inv_cong [OF inv(3)] by simp
    moreover have "stream_inv cs k s'"
      using sv_idle stream_inv_cong [OF inv(1)] by simp
    ultimately show ?thesis
      using sv_idle inv(4) unfolding service_inv_def by auto
  next
    case (sv_executes pkt)
    have "threads_step (svThreads s) (svThreads s')"
      using sv_executes worker_executes [of "svThreads s" pkt] by simp
    then have "commands_inv (svThreads s')"
      using commands_step inv(2) by blast
    moreover have "queue_inv (svThreads s')"
      using sv_executes queue_inv_cong [OF inv(3)] by simp
    moreover have "stream_inv cs k s'"
      using sv_executes stream_inv_cong [OF inv(1)] by simp
    moreover have "svDispatcher s' = execute_queue w (ctExecuted (svThreads s')) d"
      using sv_executes inv(4) by (simp add: execute_queue_def)
    ultimately show ?thesis
      unfolding service_inv_def by blast
  next
    case (sv_thread t)
    then have "commands_inv (svThreads s')" "queue_inv (svThreads s')"
      using commands_step inv(2) queue_inv_thread [OF _ inv(3)] by auto
    moreover have "stream_inv cs k s'"
      using sv_thread stream_inv_cong [OF inv(1)] by simp
    ultimately show ?thesis
      using sv_thread inv(4) unfolding service_inv_def by auto
  next
    case sv_spurious
    then have "stream_inv cs k s'" "queue_inv (svThreads s')"
      using stream_inv_cong [OF inv(1)] queue_inv_cong [OF inv(3)] by simp_all
    then show ?thesis
      using sv_spurious inv unfolding service_inv_def by auto
  qed
qed

lemma service_reach_inv:
  assumes "service_reach w (service_start (hub_stream cs) d) s" "\<forall>c \<in> set cs. hub_command c"
  shows "service_inv w cs d s"
  using assms(1)
proof induction
  case sv_start
  have "hub_stream cs = concat (map hub_frame cs)"
    unfolding hub_stream_def hub_frame_def ..
  then have "stream_inv cs 0 (service_start (hub_stream cs) d)"
    by (simp add: stream_inv_def service_start_def threads_start_def acks_of_def)
  then show ?case
    unfolding service_inv_def
    by (auto simp: service_start_def threads_start_def commands_inv_def queue_inv_def execute_queue_def)
next
  case (sv_step s s')
  then show ?case
    using service_step_inv assms(2) by blast
qed

lemma command_of_hub_packet: "hub_command c \<Longrightarrow> command_of (hub_packet c) = c"
  by (simp add: command_of_def hub_packet_def hub_command_def bridge_code)

lemma execute_commands:
  "execute_queue w ps d = fold (\<lambda>c s. snd (dispatch w (fst c) (snd c) s)) (map command_of ps) d"
  by (induction ps arbitrary: d) (simp_all add: execute_queue_def handleIncomingCommand_def command_of_def)

text \<open>From packets to commands.\<close>

lemma commands_of_packets:
  assumes "\<forall>c \<in> set cs. hub_command c" "mset ps = mset (map hub_packet cs)"
    "filter (\<lambda>p. \<not> urgent p) ps = filter (\<lambda>p. \<not> urgent p) (map hub_packet cs)"
  shows "mset (map command_of ps) = mset cs \<and>
    filter (\<lambda>c. \<not> urgent_command c) (map command_of ps) = filter (\<lambda>c. \<not> urgent_command c) cs"
proof -
  have members: "\<forall>p \<in> set ps. urgent_command (command_of p) = urgent p"
  proof
    fix p
    assume "p \<in> set ps"
    then have "p \<in> hub_packet ` set cs"
      using mset_eq_setD [OF assms(2)] by simp
    then show "urgent_command (command_of p) = urgent p"
      using assms(1) command_of_hub_packet hub_packet_urgent by (auto simp: hub_command_def)
  qed
  have "map command_of (map hub_packet cs) = cs"
    using assms(1) command_of_hub_packet by (simp add: map_idI)
  moreover have "mset (map command_of ps) = mset (map command_of (map hub_packet cs))"
    using assms(2) by (metis mset_map)
  moreover have "filter (\<lambda>c. \<not> urgent_command c) (map command_of ps) = map command_of (filter (\<lambda>p. \<not> urgent p) ps)"
    using members by (induction ps) simp_all
  moreover have "map command_of (filter (\<lambda>p. \<not> urgent p) (map hub_packet cs)) = filter (\<lambda>c. \<not> urgent_command c) cs"
    using assms(1) by (induction cs) (simp_all add: command_of_hub_packet hub_packet_urgent hub_command_def)
  ultimately show ?thesis
    using assms(3) by simp
qed

text \<open>The packets that are acknowledged and not yet executed.\<close>

definition waiting :: "hub_service \<Rightarrow> packet list" where
  "waiting s = in_hand (svThreads s) @ ctQueue (svThreads s) @ (case svHand s of None \<Rightarrow> [] | Some p \<Rightarrow> [p])"

lemma service_packets:
  assumes "stream_inv cs k s" "commands_inv (svThreads s)"
  shows "mset (ctExecuted (svThreads s) @ waiting s) = mset (map hub_packet (take k cs)) \<and>
    filter (\<lambda>p. \<not> urgent p) (ctExecuted (svThreads s) @ waiting s) = filter (\<lambda>p. \<not> urgent p) (map hub_packet (take k cs))"
proof -
  let ?hand = "case svHand s of None \<Rightarrow> [] | Some p \<Rightarrow> [p]" and ?t = "svThreads s"
  have all: "map hub_packet (take k cs) = ctReceived ?t @ ?hand"
    using assms(1) by (simp add: stream_inv_def)
  have "ctExecuted ?t @ waiting s = (ctExecuted ?t @ in_hand ?t @ ctQueue ?t) @ ?hand"
    by (simp add: waiting_def)
  then show ?thesis
    using assms(2) unfolding all commands_inv_def by (simp only: mset_append filter_append)
qed

lemma service_next:
  assumes "\<forall>c \<in> set cs. hub_command c" "stream_inv cs k s" "svOpen s"
  shows "(take_packet (svBuffer s) = Some (Inl False) \<and> (svNetwork s = [] \<longrightarrow> k = length cs)) \<or>
    (k < length cs \<and> (\<exists>ack rest. take_packet (svBuffer s) = Some (Inr (hub_packet (cs ! k), ack, rest))))"
proof (cases "k < length cs")
  case True
  then have c: "hub_command (cs ! k)"
    using assms(1) by simp
  have eq: "svBuffer s @ svNetwork s = hub_frame (cs ! k) @ concat (map hub_frame (drop (Suc k) cs))"
    using assms(2,3) True by (simp add: stream_inv_def flip: Cons_nth_drop_Suc)
  show ?thesis
    using take_packet_stream [OF c eq] eq True by (cases "length (svBuffer s) < length (hub_frame (cs ! k))") auto
next
  case False
  then have "k = length cs" "svBuffer s = []"
    using assms(2,3) by (simp_all add: stream_inv_def)
  then show ?thesis
    using take_packet_nothing by simp
qed


text \<open>A run of the service: the hub sends a reading and a stop, and the stop is executed first.\<close>

definition service_state :: "packet list \<Rightarrow> worker_state \<Rightarrow> receiver_state \<Rightarrow> packet list \<Rightarrow> packet list \<Rightarrow> u8 list \<Rightarrow> u8 list \<Rightarrow>
    packet option \<Rightarrow> u8 list list \<Rightarrow> dispatcher \<Rightarrow> hub_service" where
  "service_state q work rcv got ex net buf hand acks d =
     \<lparr>svThreads = \<lparr>ctRunning = True, ctQueue = q, ctWorker = work, ctReceiver = rcv, ctStop = SIdle, ctReceived = got, ctExecuted = ex\<rparr>,
      svNetwork = net, svBuffer = buf, svHand = hand, svAcks = acks, svOpen = True, svDispatcher = d\<rparr>"

lemma two_commands_run:
  assumes c: "hub_command c" "\<not> urgent (hub_packet c)" "hub_command c'" "urgent (hub_packet c')"
  shows "\<exists>acks. service_reach w (service_start (hub_stream [c, c']) d)
    (service_state [hub_packet c] WLoop RNotify [hub_packet c, hub_packet c'] [hub_packet c'] [] [] None acks
      (snd (handleIncomingCommand w (hub_packet c') d)))"
proof -
  let ?p = "hub_packet c" and ?p' = "hub_packet c'"
  let ?a = "the (serialize (ack_packet ?p) None)" and ?a' = "the (serialize (ack_packet ?p') None)"
  let ?f = "hub_frame c @ hub_frame c'"
  let ?reach = "service_reach w (service_start (hub_stream [c, c']) d)"
  note st = service_state_def receiver_free_def
  have "hub_stream [c, c'] = ?f"
    by (simp add: hub_stream_def hub_frame_def)
  then have "?reach (service_state [] WLoop RLoop [] [] ?f [] None [] d)"
    using sv_start [of w "service_start (hub_stream [c, c']) d"] by (simp add: service_start_def threads_start_def st)
  then have "?reach (service_state [] WLoop RBusy [] [] ?f [] None [] d)"
    by (rule sv_step) (use sv_thread [of "service_state [] WLoop RLoop [] [] ?f [] None [] d", OF receiver_loop] in \<open>simp add: st\<close>)
  then have "?reach (service_state [] WLoop RBusy [] [] [] ?f None [] d)"
    by (rule sv_step) (use sv_read [of "service_state [] WLoop RBusy [] [] ?f [] None [] d" ?f "[]" w] in
        \<open>simp add: st take_packet_nothing\<close>)
  moreover have "take_packet ?f = Some (Inr (?p, ?a, hub_frame c'))"
    using take_packet_stream [OF c(1), of ?f "[]" "hub_frame c'"] by simp
  ultimately have "?reach (service_state [] WLoop RBusy [] [] [] (hub_frame c') (Some ?p) [?a] d)"
    by (elim sv_step) (use sv_ack [of "service_state [] WLoop RBusy [] [] [] ?f None [] d"] in \<open>simp add: st\<close>)
  then have "?reach (service_state [?p] WLoop RNotify [?p] [] [] (hub_frame c') None [?a] d)"
    by (rule sv_step) (use sv_push [of "service_state [] WLoop RBusy [] [] [] (hub_frame c') (Some ?p) [?a] d" ?p w] c(2) in
        \<open>simp add: st enqueue_def\<close>)
  then have "?reach (service_state [?p] WLoop RBusy [?p] [] [] (hub_frame c') None [?a] d)"
    by (rule sv_step) (use sv_thread [of "service_state [?p] WLoop RNotify [?p] [] [] (hub_frame c') None [?a] d",
          OF receiver_notifies] in \<open>simp add: st wake_worker_def\<close>)
  moreover have "take_packet (hub_frame c') = Some (Inr (?p', ?a', []))"
    using take_packet_stream [OF c(3), of "hub_frame c'" "[]" "[]"] by simp
  ultimately have "?reach (service_state [?p] WLoop RBusy [?p] [] [] [] (Some ?p') [?a, ?a'] d)"
    by (elim sv_step) (use sv_ack [of "service_state [?p] WLoop RBusy [?p] [] [] (hub_frame c') None [?a] d"] in \<open>simp add: st\<close>)
  then have "?reach (service_state [?p', ?p] WLoop RNotify [?p, ?p'] [] [] [] None [?a, ?a'] d)"
    by (rule sv_step) (use sv_push [of "service_state [?p] WLoop RBusy [?p] [] [] [] (Some ?p') [?a, ?a'] d" ?p' w] c(4) in
        \<open>simp add: st enqueue_def\<close>)
  then have "?reach (service_state [?p', ?p] WTest RNotify [?p, ?p'] [] [] [] None [?a, ?a'] d)"
    by (rule sv_step) (use sv_thread [of "service_state [?p', ?p] WLoop RNotify [?p, ?p'] [] [] [] None [?a, ?a'] d",
          OF worker_loop] in \<open>simp add: st\<close>)
  then have "?reach (service_state [?p] (WExec ?p') RNotify [?p, ?p'] [] [] [] None [?a, ?a'] d)"
    by (rule sv_step) (use sv_thread [of "service_state [?p', ?p] WTest RNotify [?p, ?p'] [] [] [] None [?a, ?a'] d",
          OF worker_tests] in \<open>simp add: st worker_test_def\<close>)
  then have "?reach (service_state [?p] WLoop RNotify [?p, ?p'] [?p'] [] [] None [?a, ?a']
      (snd (handleIncomingCommand w ?p' d)))"
    by (rule sv_step) (use sv_executes [of "service_state [?p] (WExec ?p') RNotify [?p, ?p'] [] [] [] None [?a, ?a'] d" ?p' w] in
        \<open>simp add: st\<close>)
  then show ?thesis
    by blast
qed


section \<open>Health\<close>

lemma wait_for_hub_bound: "retries \<le> 50 \<Longrightarrow> wait_for_hub retries ks rs \<le> 50"
  by (induction retries ks rs rule: wait_for_hub.induct) auto

text \<open>A link whose descriptor was closed behind its back never makes the controller reset the links: only
  a stopped event client, a request, or a day without bytes on the command link does.\<close>

lemma reset_needed_iff:
  "reset_needed now activity req h \<longleftrightarrow> req \<or> \<not> linkRunning (eventLink h) \<or>
     (if hubConnection (commandLink h) = None then \<not> linkRunning (commandLink h) else heartbeat_timeout \<le> now - activity)"
  by (auto simp: reset_needed_def CommandClient_isHealthy_def event_health_is_running)

section \<open>Start, reset and end\<close>

text \<open>The standard descriptors: one that is closed is opened on \<open>/dev/null\<close>.\<close>

definition ensure_fd :: "fd \<Rightarrow> fd_state \<Rightarrow> fd_state" where
  "ensure_fd fd s =
     (if fd \<in> set (openFDs s) then s
      else let (newfd, s') = os_socket s
        in if newfd \<noteq> fd then os_close newfd (s'\<lparr>openFDs := fd # openFDs s'\<rparr>) else s')"

definition ensureStandardFDs :: "fd_state \<Rightarrow> fd_state" where
  "ensureStandardFDs s = fold ensure_fd [0, 1, 2] s"

lemma ensure_fd_opens: "set (openFDs (ensure_fd fd s)) = insert fd (set (openFDs s))"
  using lowest_free_result [of "openFDs s"] by (auto simp: ensure_fd_def os_socket_def Let_def insert_absorb)

text \<open>After it the standard descriptors are open, which the lemmas on the links assume, and nothing else
  has changed.\<close>

lemma standard_fds_open: "set (openFDs (ensureStandardFDs s)) = {0, 1, 2} \<union> set (openFDs s)"
  by (auto simp: ensureStandardFDs_def ensure_fd_opens)

text \<open>Stopping a link while the other threads go on: the two schedules are the steps of the links between
  lowering the flag and closing the connection, and from then on. The command client joins its worker thread before it
  closes the connection; the argument \<open>t\<close> is the state of this worker and the threads around it, as in
  \<open>CommandClient\<close>, when the controller goes on. \<^const>\<open>None\<close> means that the stop has not returned: the
  worker is not joined, or the thread of the link has not ended within the schedule.\<close>

type_synonym schedule = "(ServerKind \<times> bool) list"

definition hub_link :: "ServerKind \<Rightarrow> hub_links \<Rightarrow> link" where
  "hub_link kind h = (if kind = COMMAND then commandLink h else eventLink h)"

definition put_link :: "ServerKind \<Rightarrow> fd_state \<times> link \<Rightarrow> hub_links \<Rightarrow> hub_links" where
  "put_link kind sl h =
     (if kind = COMMAND then h\<lparr>fds := fst sl, commandLink := snd sl\<rparr> else h\<lparr>fds := fst sl, eventLink := snd sl\<rparr>)"

definition worker_joined :: "command_threads \<Rightarrow> bool" where
  "worker_joined t = (ctStop t = SDone)"

definition hub_stop :: "ServerKind \<Rightarrow> command_threads \<Rightarrow> schedule \<times> schedule \<Rightarrow> hub_links \<Rightarrow> hub_links option" where
  "hub_stop kind t schedules h =
     (if \<not> linkRunning (hub_link kind h) then Some h
      else let h = fold links_step (fst schedules) (put_link kind (fds h, link_stop_flag (hub_link kind h)) h) in
        if kind = COMMAND \<and> \<not> worker_joined t then None
        else let h = fold links_step (snd schedules) (put_link kind (link_stop_close kind (fds h, hub_link kind h)) h)
          in map_option (\<lambda>sl. put_link kind sl h) (link_stop_end kind (fds h, hub_link kind h)))"

definition hub_start :: "ServerKind \<Rightarrow> hub_links \<Rightarrow> hub_links" where
  "hub_start kind h = put_link kind (fds h, link_start (hub_link kind h)) h"

definition controller_reset :: "command_threads \<Rightarrow> schedule \<times> schedule \<Rightarrow> schedule \<times> schedule \<Rightarrow> hub_links \<Rightarrow> hub_links option" where
  "controller_reset t schedules1 schedules2 h = do {
     h \<leftarrow> hub_stop COMMAND t schedules1 h;
     h \<leftarrow> hub_stop EVENT t schedules2 h;
     Some (hub_start EVENT (hub_start COMMAND h)) }"

definition controller_finish :: "command_threads \<Rightarrow> schedule \<times> schedule \<Rightarrow> schedule \<times> schedule \<Rightarrow> hub_links \<Rightarrow> hub_links option" where
  "controller_finish t schedules1 schedules2 h = do {
     h \<leftarrow> hub_stop COMMAND t schedules1 h;
     hub_stop EVENT t schedules2 h }"

text \<open>One pass of the main loop: with the request flag, the result also has the flag afterwards.\<close>

definition controller_pass :: "nat \<Rightarrow> nat \<Rightarrow> bool \<Rightarrow> command_threads \<Rightarrow> schedule \<times> schedule \<Rightarrow> schedule \<times> schedule \<Rightarrow> hub_links \<Rightarrow>
    (bool \<times> hub_links) option" where
  "controller_pass now last_activity_time networkResetRequested t schedules1 schedules2 h =
     (if reset_needed now last_activity_time networkResetRequested h
      then map_option (Pair False) (controller_reset t schedules1 schedules2 h)
      else Some (networkResetRequested, h))"

text \<open>How many steps a thread that is told to stop has before it at most.\<close>

definition steps_left :: "link_pc \<Rightarrow> nat" where
  "steps_left p = (case p of
     LEnd \<Rightarrow> 0 | LTop \<Rightarrow> 1 | LCloseEpoll _ \<Rightarrow> 2 | LRemove \<Rightarrow> 2 | LDrop \<Rightarrow> 2 | LRead _ _ \<Rightarrow> 3 | LClose _ \<Rightarrow> 3
   | LWatch _ _ \<Rightarrow> 4 | LEpoll _ \<Rightarrow> 5 | LMake _ \<Rightarrow> 6 | LConnect _ \<Rightarrow> 7 | LSet _ \<Rightarrow> 8 | LSocket \<Rightarrow> 9)"

lemma reset_hub_running [simp]: "linkRunning (snd (reset_hub sl)) = linkRunning (snd sl)"
  by (cases sl) (simp add: reset_hub_def split: option.splits)

lemma stopping_step:
  assumes "\<not> linkRunning l"
  shows "\<not> linkRunning (snd (link_step kind ok (s, l))) \<and>
    steps_left (lpc (snd (link_step kind ok (s, l)))) \<le> steps_left (lpc l) - 1"
proof -
  obtain s' l' where r: "reset_hub (s, l) = (s', l')" "\<not> linkRunning l'"
    using reset_hub_running [of "(s, l)"] assms by (cases "reset_hub (s, l)") simp
  show ?thesis
  proof (cases "lpc l")
    case (LMake fd)
    then show ?thesis
      using assms by (simp add: link_step_def steps_left_def make_hub_def Client_new_def os_socket_def Let_def)
  next
    case (LEpoll fd)
    then show ?thesis
      using assms r by (simp add: link_step_def steps_left_def epoll_hub_def os_socket_def Let_def)
  next
    case (LWatch fd epoll_fd)
    then show ?thesis
      using assms by (simp add: link_step_def steps_left_def watch_hub_def Client_new_def Let_def)
  qed (simp_all add: assms r link_step_def steps_left_def os_socket_def Let_def)
qed

lemma stopping_other: "kind \<noteq> fst a \<Longrightarrow> hub_link kind (links_step a h) = hub_link kind h \<or> kind = DAQ"
  by (cases kind; cases a; cases "fst a") (auto simp: links_step_def hub_link_def split: prod.splits)

lemma stopping_links_step:
  assumes "kind \<noteq> DAQ" "\<not> linkRunning (hub_link kind h)"
  shows "\<not> linkRunning (hub_link kind (links_step a h)) \<and>
    steps_left (lpc (hub_link kind (links_step a h))) \<le> steps_left (lpc (hub_link kind h)) - (if fst a = kind then 1 else 0)"
proof (cases "fst a = kind")
  case True
  obtain ok where a: "a = (kind, ok)"
    using True by (cases a) auto
  have "hub_link kind (links_step a h) = snd (link_step kind ok (fds h, hub_link kind h))"
    using assms(1) a by (cases kind) (auto simp: links_step_def hub_link_def split: prod.splits)
  then show ?thesis
    using stopping_step [OF assms(2), of kind ok "fds h"] True by simp
next
  case False
  then have "hub_link kind (links_step a h) = hub_link kind h"
    using stopping_other [of kind a h] assms(1) by auto
  then show ?thesis
    using assms(2) False by simp
qed

lemma stopping_run:
  assumes "kind \<noteq> DAQ" "\<not> linkRunning (hub_link kind h)"
  shows "\<not> linkRunning (hub_link kind (fold links_step as h)) \<and>
    steps_left (lpc (hub_link kind (fold links_step as h))) \<le>
      steps_left (lpc (hub_link kind h)) - length (filter (\<lambda>a. fst a = kind) as)"
  using assms(2)
proof (induction as arbitrary: h)
  case (Cons a as)
  note step = stopping_links_step [OF assms(1) Cons.prems, of a]
  note run = Cons.IH [OF conjunct1 [OF step]]
  show ?case
    using step run unfolding fold_Cons o_apply filter.simps by (cases "fst a = kind") (simp_all, linarith+)
qed simp

lemma steps_left_bound: "steps_left p \<le> 9" "steps_left p = 0 \<longleftrightarrow> p = LEnd"
  by (cases p; simp add: steps_left_def)+

lemma hub_link_put [simp]: "kind \<noteq> DAQ \<Longrightarrow> hub_link kind (put_link kind sl h) = snd sl"
  by (cases kind) (simp_all add: hub_link_def put_link_def)

lemma put_link_other [simp]: "hub_link COMMAND (put_link EVENT sl h) = hub_link COMMAND h"
  by (simp add: hub_link_def put_link_def)

lemma stop_parts_running [simp]:
  "\<not> linkRunning (link_stop_flag l)" "linkRunning (snd (link_stop_close kind sl)) = linkRunning (snd sl)"
  by (cases sl; simp add: link_stop_flag_def link_stop_close_def Let_def split: option.splits prod.splits)+

text \<open>A stop waits for the worker only; the thread of the link ends.\<close>

lemma hub_stop_waits:
  assumes "linkRunning (commandLink h)" "\<not> worker_joined t"
  shows "hub_stop COMMAND t schedules h = None"
  using assms by (simp add: hub_stop_def hub_link_def Let_def)

lemma hub_stop_ends:
  assumes "kind \<noteq> DAQ" "9 \<le> length (filter (\<lambda>a. fst a = kind) (snd schedules))"
    "kind = COMMAND \<and> linkRunning (commandLink h) \<longrightarrow> worker_joined t"
  shows "\<exists>h'. hub_stop kind t schedules h = Some h' \<and> \<not> linkRunning (hub_link kind h')"
proof (cases "linkRunning (hub_link kind h)")
  case True
  let ?h1 = "fold links_step (fst schedules) (put_link kind (fds h, link_stop_flag (hub_link kind h)) h)"
  let ?h2 = "put_link kind (link_stop_close kind (fds ?h1, hub_link kind ?h1)) ?h1"
  let ?h3 = "fold links_step (snd schedules) ?h2"
  have "\<not> linkRunning (hub_link kind ?h1)"
    using stopping_run [OF assms(1)] assms(1) by simp
  then have "\<not> linkRunning (hub_link kind ?h2)"
    using assms(1) by simp
  note run = stopping_run [OF assms(1) this, of "snd schedules"]
  then have end_reached: "lpc (hub_link kind ?h3) = LEnd"
    using steps_left_bound(1) [of "lpc (hub_link kind ?h2)"] assms(2) unfolding steps_left_bound(2) [symmetric] by linarith
  have "\<not> (kind = COMMAND \<and> \<not> worker_joined t)"
    using True assms(3) by (auto simp: hub_link_def)
  then have "hub_stop kind t schedules h = Some (put_link kind (removeServerFD kind (fds ?h3), hub_link kind ?h3) ?h3)"
    using True end_reached unfolding hub_stop_def Let_def link_stop_end_def by auto
  moreover have "\<not> linkRunning (hub_link kind (put_link kind (removeServerFD kind (fds ?h3), hub_link kind ?h3) ?h3))"
    using run assms(1) by simp
  ultimately show ?thesis
    by blast
qed (simp add: hub_stop_def)

lemma hub_stop_event_keeps:
  assumes "hub_stop EVENT t schedules h = Some h'" "\<not> linkRunning (hub_link COMMAND h)"
  shows "\<not> linkRunning (hub_link COMMAND h')"
proof (cases "linkRunning (hub_link EVENT h)")
  case True
  let ?h1 = "fold links_step (fst schedules) (put_link EVENT (fds h, link_stop_flag (hub_link EVENT h)) h)"
  let ?h2 = "put_link EVENT (link_stop_close EVENT (fds ?h1, hub_link EVENT ?h1)) ?h1"
  have "\<not> linkRunning (hub_link COMMAND ?h1)"
    using stopping_run [of COMMAND] assms(2) by simp
  then have "\<not> linkRunning (hub_link COMMAND (fold links_step (snd schedules) ?h2))"
    using stopping_run [of COMMAND] by simp
  then show ?thesis
    using assms(1) True by (auto simp: hub_stop_def Let_def)
next
  case False
  then show ?thesis
    using assms by (simp add: hub_stop_def)
qed

lemma reset_result:
  assumes "9 \<le> length (filter (\<lambda>a. fst a = COMMAND) (snd schedules1))" "9 \<le> length (filter (\<lambda>a. fst a = EVENT) (snd schedules2))"
  shows "if linkRunning (commandLink h) \<and> \<not> worker_joined t then controller_reset t schedules1 schedules2 h = None
    else \<exists>h'. controller_reset t schedules1 schedules2 h = Some h' \<and>
      linkRunning (commandLink h') \<and> lpc (commandLink h') = LTop \<and> linkRunning (eventLink h') \<and> lpc (eventLink h') = LTop"
proof (cases "linkRunning (commandLink h) \<and> \<not> worker_joined t")
  case True
  then show ?thesis
    using hub_stop_waits by (simp add: controller_reset_def)
next
  case False
  then obtain h1 where h1: "hub_stop COMMAND t schedules1 h = Some h1" "\<not> linkRunning (hub_link COMMAND h1)"
    using hub_stop_ends [OF _ assms(1), where t = t and h = h] by auto
  obtain h2 where h2: "hub_stop EVENT t schedules2 h1 = Some h2" "\<not> linkRunning (hub_link EVENT h2)"
    using hub_stop_ends [OF _ assms(2), where t = t and h = h1] by auto
  have "\<not> linkRunning (hub_link COMMAND h2)"
    using hub_stop_event_keeps [OF h2(1) h1(2)] .
  then show ?thesis
    using False h1(1) h2 by (auto simp: controller_reset_def hub_start_def put_link_def hub_link_def link_start_def)
qed



end
