(* ===== verification/DispatchControl.thy ===== *)
theory DispatchControl
  imports DispatchTheorems
begin

text \<open>
  Starting, stopping and resetting the acquisition, the course of macro sequences and loops, and the
  monitor of the background processes, for every behaviour of the world.
\<close>

section \<open>Evaluation of actions\<close>

lemmas action_defs = ret_def throw_def bnd_def seq_def gets_def modify_def emit_def lift_def cond_def ask_def

lemma bnd_Inr: "m s = (Inr x, s') \<Longrightarrow> bnd m f s = f x s'"
  by (simp add: bnd_def)

lemma seq_Inr: "m s = (Inr x, s') \<Longrightarrow> seq m k s = k s'"
  by (simp add: seq_def bnd_def)

lemma bnd_gets: "bnd (gets f) g s = g (f s) s"
  by (simp add: bnd_def gets_def)

lemma dispatch_simple:
  assumes "table w c = Some h" "h av = executeSimpleCommand w c f" "f s = (Inr b, s1)"
  shows "dispatch w c av s = (b, sendStatusCallback w c (if b then 0 else 1) s1)"
  using assms by (simp add: dispatch_def executeSimpleCommand_def)

lemma callback_fields [simp]:
  "cfg (sendStatusCallback w c st s) = cfg s" "daqThread (sendStatusCallback w c st s) = daqThread s"
  "daqRunning (sendStatusCallback w c st s) = daqRunning s"
  "activeBackgroundTasks (sendStatusCallback w c st s) = activeBackgroundTasks s"
  "macroLoopRunning (sendStatusCallback w c st s) = macroLoopRunning s"
  "macroLoopThread (sendStatusCallback w c st s) = macroLoopThread s"
  using callback_attempts [of w c st s] by auto

lemma joinDAQ_eval:
  "joinDAQ s = (Inr (), s\<lparr>trace := trace s @ (if daqThread s then [DaqJoined] else []), daqThread := False,
     daqRunning := (\<not> daqThread s \<and> daqRunning s)\<rparr>)"
  by (simp add: joinDAQ_def action_defs)

section \<open>Start\<close>

text \<open>
  START_DAQ succeeds exactly when no acquisition is marked as running and the acquisition can be
  initialised after a finished thread has been joined; then it is running with a thread. While an acquisition runs,
  the command changes nothing but the reports, and a failed start leaves the acquisition stopped.
\<close>

theorem start_daq_result:
  assumes "dispatch w START_DAQ av s = (b, s')"
  shows "b = (\<not> daqRunning s \<and> w_daqInit w (trace s @ (if daqThread s then [DaqJoined] else [])) = Inr True)
    \<and> (b \<longrightarrow> daqRunning s' \<and> daqThread s')
    \<and> (daqRunning s \<longrightarrow> (\<exists>k \<le> 10. s' = s\<lparr>trace := trace s @ attempts 10 (callback_packet START_DAQ 1) k\<rparr>))
    \<and> (\<not> daqRunning s \<and> \<not> b \<longrightarrow> \<not> daqRunning s' \<and> \<not> daqThread s')
    \<and> activeBackgroundTasks s' = activeBackgroundTasks s \<and> macroLoopRunning s' = macroLoopRunning s"
proof (cases "daqRunning s")
  case True
  then have "START_DAQ_body w s = (Inr False, s)"
    by (simp add: START_DAQ_body_def action_defs)
  from dispatch_simple [OF table.simps(1) START_DAQ_handler_def this]
  have "b = False" "s' = sendStatusCallback w START_DAQ 1 s" using assms by auto
  then show ?thesis using True callback_attempts [of w START_DAQ 1 s] by auto
next
  case False
  let ?tr = "trace s @ (if daqThread s then [DaqJoined] else [])"
  let ?s1 = "s\<lparr>trace := ?tr @ [DaqInitialize], daqThread := False, daqRunning := False\<rparr>"
  have body: "START_DAQ_body w s = (case w_daqInit w ?tr of
      Inl e \<Rightarrow> (Inl e, ?s1)
    | Inr ok \<Rightarrow> if ok then (Inr True, ?s1\<lparr>trace := trace ?s1 @ [DaqSpawned], daqRunning := True, daqThread := True\<rparr>)
                else (Inr False, ?s1))"
    using False by (simp add: START_DAQ_body_def joinDAQ_eval action_defs split: sum.split)
  have "dispatch w START_DAQ av s = (let (r, s1) = START_DAQ_body w s in
      (r = Inr True, sendStatusCallback w START_DAQ (if r = Inr True then 0 else 1) s1))"
    by (auto simp: dispatch_def START_DAQ_handler_def executeSimpleCommand_def split: sum.split prod.split)
  then show ?thesis using assms False unfolding body
    by (cases "w_daqInit w ?tr") (auto split: if_splits)
qed

theorem start_daq_result_witness:
  "fst (dispatch calm_world START_DAQ [] (dispatcher_init example_config))"
  using start_daq_result [OF surjective_pairing, of calm_world "[]" "dispatcher_init example_config"]
  by (simp add: dispatcher_init_def calm_world_def)

section \<open>Stop\<close>

text \<open>The part of the trace in which tasks are interrupted, with the number of failed attempts of each report.\<close>

definition interrupts :: "(int \<times> BackgroundTask) list \<Rightarrow> nat list \<Rightarrow> effect list" where
  "interrupts ts ks = concat (map (\<lambda>((pid, task), k). Kill pid # attempts 10 (callback_packet (commandCode task) 2) k)
     (zip ts ks))"

lemma each_interrupt:
  "\<exists>ks. length ks = length (del_task pid ts) \<and> (\<forall>k \<in> set ks. k \<le> 10) \<and>
     each ts (interrupt_task w pid) s
     = (Inr (), s\<lparr>trace := trace s @ interrupts (del_task pid ts) ks\<rparr>)"
proof (induction ts arbitrary: s)
  case Nil
  show ?case by (simp add: ret_def interrupts_def del_task_def)
next
  case (Cons x ts)
  obtain p t where x: "x = (p, t)" by force
  show ?case
  proof (cases "p = pid")
    case True
    then have "interrupt_task w pid x s = (Inr (), s)" by (simp add: x interrupt_task_def cond_def ret_def)
    then show ?thesis using Cons.IH [of s] True x by (simp add: seq_Inr del_task_def)
  next
    case False
    obtain k where k: "k \<le> 10" "sendStatusCallback w (commandCode t) 2 (s\<lparr>trace := trace s @ [Kill p]\<rparr>)
        = s\<lparr>trace := trace s @ Kill p # attempts 10 (callback_packet (commandCode t) 2) k\<rparr>" (is "_ = ?s1")
      using callback_attempts [of w "commandCode t" 2 "s\<lparr>trace := trace s @ [Kill p]\<rparr>"] by auto
    obtain ks where ks: "length ks = length (del_task pid ts)" "\<forall>k \<in> set ks. k \<le> 10"
      "each ts (interrupt_task w pid) ?s1
       = (Inr (), ?s1\<lparr>trace := trace ?s1 @ interrupts (del_task pid ts) ks\<rparr>)"
      using Cons.IH [of ?s1] by blast
    have "interrupt_task w pid x s = (Inr (), ?s1)"
      using False k(2) x by (simp add: interrupt_task_def action_defs)
    then show ?thesis using False k(1) ks x
      by (intro exI [of _ "k # ks"]) (simp add: seq_Inr del_task_def interrupts_def)
  qed
qed

lemma del_put_task: "del_task pid (put_task pid t ts) = del_task pid ts"
  by (simp add: del_task_def put_task_def)

text \<open>Finding a script leaves the state alone, and fails only for a missing file.\<close>

lemma resolve_eval: "resolveScriptPath w name (s\<lparr>macroLoopRunning := b\<rparr>) = (fst (resolveScriptPath w name s), s\<lparr>macroLoopRunning := b\<rparr>)"
  by (simp add: resolveScriptPath_def action_defs Let_def split: option.split)

lemma resolve_fails_iff:
  "(\<exists>e. fst (resolveScriptPath w name s) = Inl e) \<longleftrightarrow>
    (\<exists>glib. w_glib w = Some glib \<and> glib \<noteq> [] \<and> \<not> w_exists w (trace s) (path_join (path_join glib ''scripts'') name))"
  by (simp add: resolveScriptPath_def action_defs Let_def split: option.split)

lemma STOP_DAQ_body_fails:
  assumes "fst (resolveScriptPath w ''stop_daq.py'' s) = Inl e"
  shows "STOP_DAQ_body w s = (Inl e, s\<lparr>macroLoopRunning := False\<rparr>)"
  using assms resolve_eval [of w "''stop_daq.py''" False s]
  by (simp add: STOP_DAQ_body_def seq_def bnd_def modify_def)

lemma STOP_DAQ_body_eval:
  fixes w :: world and s :: dispatcher
  assumes "fst (resolveScriptPath w ''stop_daq.py'' s) = Inr path"
  defines "pid \<equiv> w_fork w (trace s)"
  shows "\<exists>ks. length ks = length (del_task pid (activeBackgroundTasks s)) \<and> (\<forall>k \<in> set ks. k \<le> 10) \<and>
    STOP_DAQ_body w s = (Inr True, s\<lparr>daqThread := False, daqRunning := False, macroLoopRunning := False,
      activeBackgroundTasks := (if 0 < pid then [(pid, stop_task)] else []),
      trace := trace s @ [ForkExec [''python3'', path] pid]
        @ interrupts (del_task pid (activeBackgroundTasks s)) ks @ [DaqStop] @ (if daqThread s then [DaqJoined] else [])\<rparr>)"
proof -
  define ts where "ts = (if 0 < pid then put_task pid stop_task (activeBackgroundTasks s) else activeBackgroundTasks s)"
  define s1 where "s1 = s\<lparr>macroLoopRunning := False,
    trace := trace s @ [ForkExec [''python3'', path] pid], activeBackgroundTasks := ts\<rparr>"
  have del: "del_task pid ts = del_task pid (activeBackgroundTasks s)" by (simp add: ts_def del_put_task)
  obtain ks where ks: "length ks = length (del_task pid (activeBackgroundTasks s))" "\<forall>k \<in> set ks. k \<le> 10"
    "each ts (interrupt_task w pid) s1
     = (Inr (), s1\<lparr>trace := trace s1 @ interrupts (del_task pid (activeBackgroundTasks s)) ks\<rparr>)"
    using each_interrupt [of pid ts w s1] unfolding del by blast
  have "activeBackgroundTasks s1 = ts" by (simp add: s1_def)
  then have "interrupt_tasks w pid s1 = (Inr (), s1\<lparr>trace := trace s1 @ interrupts (del_task pid (activeBackgroundTasks s)) ks,
      activeBackgroundTasks := (if 0 < pid then [(pid, stop_task)] else [])\<rparr>)"
    by (simp add: interrupt_tasks_def bnd_gets seq_Inr [where m = "each ts (interrupt_task w pid)", OF ks(3)] modify_def)
  moreover have "resolveScriptPath w ''stop_daq.py'' (s\<lparr>macroLoopRunning := False\<rparr>) = (Inr path, s\<lparr>macroLoopRunning := False\<rparr>)"
    using resolve_eval [of w "''stop_daq.py''" False s] assms(1) by simp
  then have "STOP_DAQ_body w s = seq (interrupt_tasks w pid) (seq (emit DaqStop) (seq joinDAQ
      (seq (modify (\<lambda>s. s\<lparr>daqRunning := False\<rparr>)) (ret True)))) s1"
    by (simp add: STOP_DAQ_body_def action_defs pid_def s1_def ts_def)
  ultimately show ?thesis using ks(1,2)
    by (intro exI [of _ ks]) (simp add: seq_Inr joinDAQ_eval action_defs s1_def)
qed

text \<open>
  C20: When the stop script is found (or \<open>GLIB\<close> is not set), STOP_DAQ succeeds and stops everything: afterwards no acquisition runs, its thread
  has been joined, macros are told to stop, and the only registered process is the hardware stop script, if it could be started.
  In this order, it starts the script, kills every other registered process and reports its command as interrupted
  (status 2), signals the acquisition, joins its thread (which has come to its end then) and reports success. When the script is missing, the command fails: macros are told
  to stop, but no process is killed and the acquisition goes on.
\<close>

theorem stop_daq_result:
  fixes w :: world and s :: dispatcher
  defines "pid \<equiv> w_fork w (trace s)"
  shows "case fst (resolveScriptPath w ''stop_daq.py'' s) of
    Inl e \<Rightarrow> \<exists>k \<le> 10. dispatch w STOP_DAQ av s = (False, s\<lparr>macroLoopRunning := False,
      trace := trace s @ attempts 10 (callback_packet STOP_DAQ 1) k\<rparr>)
  | Inr path \<Rightarrow> \<exists>ks k. length ks = length (del_task pid (activeBackgroundTasks s)) \<and> (\<forall>i < length ks. ks ! i \<le> 10) \<and> k \<le> 10 \<and>
    dispatch w STOP_DAQ av s = (True, s\<lparr>daqThread := False, daqRunning := False, macroLoopRunning := False,
      activeBackgroundTasks := (if 0 < pid then [(pid, stop_task)] else []),
      trace := trace s @ [ForkExec [''python3'', path] pid]
        @ interrupts (del_task pid (activeBackgroundTasks s)) ks @ [DaqStop]
        @ (if daqThread s then [DaqJoined] else []) @ attempts 10 (callback_packet STOP_DAQ 0) k\<rparr>)"
proof (cases "fst (resolveScriptPath w ''stop_daq.py'' s)")
  case (Inl e)
  obtain k where "k \<le> 10" "sendStatusCallback w STOP_DAQ 1 (s\<lparr>macroLoopRunning := False\<rparr>) =
      s\<lparr>macroLoopRunning := False, trace := trace s @ attempts 10 (callback_packet STOP_DAQ 1) k\<rparr>"
    using callback_attempts [of w STOP_DAQ 1 "s\<lparr>macroLoopRunning := False\<rparr>"] by auto
  then show ?thesis
    using Inl STOP_DAQ_body_fails [OF Inl]
    by (auto simp: dispatch_def STOP_DAQ_handler_def executeSimpleCommand_def)
next
  case (Inr path)
  obtain ks s1 where ks: "length ks = length (del_task pid (activeBackgroundTasks s))" "\<forall>k \<in> set ks. k \<le> 10"
    and s1: "s1 = s\<lparr>daqThread := False, daqRunning := False, macroLoopRunning := False,
      activeBackgroundTasks := (if 0 < pid then [(pid, stop_task)] else []),
      trace := trace s @ [ForkExec [''python3'', path] pid]
        @ interrupts (del_task pid (activeBackgroundTasks s)) ks @ [DaqStop] @ (if daqThread s then [DaqJoined] else [])\<rparr>"
      "STOP_DAQ_body w s = (Inr True, s1)"
    using STOP_DAQ_body_eval [OF Inr] unfolding pid_def by blast
  obtain k where "k \<le> 10" "sendStatusCallback w STOP_DAQ 0 s1 = s1\<lparr>trace := trace s1 @ attempts 10 (callback_packet STOP_DAQ 0) k\<rparr>"
    using callback_attempts by blast
  then have "\<exists>ks k. length ks = length (del_task pid (activeBackgroundTasks s)) \<and> (\<forall>i < length ks. ks ! i \<le> 10) \<and> k \<le> 10 \<and>
    dispatch w STOP_DAQ av s = (True, s\<lparr>daqThread := False, daqRunning := False, macroLoopRunning := False,
      activeBackgroundTasks := (if 0 < pid then [(pid, stop_task)] else []),
      trace := trace s @ [ForkExec [''python3'', path] pid]
        @ interrupts (del_task pid (activeBackgroundTasks s)) ks @ [DaqStop]
        @ (if daqThread s then [DaqJoined] else []) @ attempts 10 (callback_packet STOP_DAQ 0) k\<rparr>)"
    using ks s1(1) dispatch_simple [OF table.simps(2) STOP_DAQ_handler_def s1(2), of av]
    by (intro exI [of _ ks] exI [of _ k]) simp
  then show ?thesis
    by (simp add: Inr)
qed

text \<open>A directory without scripts.\<close>

definition no_scripts :: world where
  "no_scripts = calm_world\<lparr>w_glib := Some ''/glib''\<rparr>"

theorem stop_daq_result_witness:
  "daqRunning (snd (dispatch calm_world STOP_DAQ [] (dispatcher_init example_config\<lparr>daqRunning := True, daqThread := True\<rparr>)))
     = False
   \<and> daqRunning (snd (dispatch no_scripts STOP_DAQ [] (dispatcher_init example_config\<lparr>daqRunning := True, daqThread := True\<rparr>)))"
proof -
  let ?s = "dispatcher_init example_config\<lparr>daqRunning := True, daqThread := True\<rparr>"
  have "fst (resolveScriptPath calm_world ''stop_daq.py'' ?s) = Inr ''stop_daq.py''"
    "\<exists>e. fst (resolveScriptPath no_scripts ''stop_daq.py'' ?s) = Inl e"
    by (simp add: resolveScriptPath_def calm_world_def ret_def) (unfold resolve_fails_iff, simp add: no_scripts_def calm_world_def)
  then show ?thesis
    using stop_daq_result [where w = calm_world and s = ?s and av = "[]"]
      stop_daq_result [where w = no_scripts and s = ?s and av = "[]"] by auto
qed

section \<open>Reset\<close>

definition macro_commands :: "TOFCommandCode list" where
  "macro_commands = [MACRO_THERMAL_CALIB, MACRO_AUTO_RUN_SEQUENCE, MACRO_STAGE0_PREBREAKDOWN_BN, MACRO_STAGE1_UNBIASED_TDC,
     MACRO_STAGE2_PREBREAKDOWN_QDC, MACRO_STAGE3_OPERATIONAL_D, MACRO_AUTO_RUN_CYCLE]"

lemma macro_refused:
  assumes "c \<in> set macro_commands" "macroLoopRunning s"
  shows "dispatch w c av s = (False, sendStatusCallback w c 1 s)"
  using assms unfolding macro_commands_def
  by (auto simp: dispatch_def handler_defs start_macro_def action_defs)

lemma reset_sets_flag:
  assumes "dispatch w RESET_DAQ av s = (True, s')" "macroLoopThread s"
  shows "macroLoopRunning s'"
proof -
  obtain r s1 where r: "RESET_DAQ_body w av s = (r, s1)" by force
  with assms(1) have "r = Inr True" "s' = sendStatusCallback w RESET_DAQ 0 s1"
    by (auto simp: dispatch_def RESET_DAQ_handler_def executeSimpleCommand_def split: sum.splits)
  moreover have "r = Inr True \<Longrightarrow> macroLoopRunning s1"
    using r assms(2) unfolding RESET_DAQ_body_def
    by (auto simp: gets_def bnd_def seq_def cond_def ret_def modify_def split: prod.splits sum.splits if_splits)
  ultimately show ?thesis by simp
qed

text \<open>
  RESET_DAQ raises the running flag of the macros whenever the macro thread has not been joined, also
  when that macro finished long ago or was stopped: each macro command that follows is refused with a failure report, although no
  macro is running.
\<close>

theorem reset_blocks_macros:
  assumes "macroLoopThread s" "dispatch w RESET_DAQ av s = (True, s1)" "c \<in> set macro_commands"
  shows "dispatch w c av' s1 = (False, sendStatusCallback w c 1 s1)"
  using macro_refused [OF assms(3) reset_sets_flag [OF assms(2,1)]] .

text \<open>The macro thread of this state has come to its end: the flag is down and the thread not yet joined.\<close>

definition finished_macro :: dispatcher where
  "finished_macro = (dispatcher_init example_config)\<lparr>macroLoopThread := True\<rparr>"

lemma calm_send_loop: "0 < n \<Longrightarrow> send_loop calm_world n cb s = s\<lparr>trace := trace s @ [SendPacket cb True]\<rparr>"
  by (cases n) (simp_all add: calm_world_def)

lemma calm_callback:
  "sendStatusCallback calm_world c st s = s\<lparr>trace := trace s @ [SendPacket (callback_packet c st) True]\<rparr>"
  by (simp add: sendStatusCallback_def max_retries_def calm_send_loop)

lemma calm_reset: "fst (dispatch calm_world RESET_DAQ [] finished_macro)"
proof -
  have sub: "w_daqInit calm_world tr = Inr True" "w_fork calm_world tr = 7" "w_others calm_world tr s = s" "w_glib calm_world = None" for tr s
    by (simp_all add: calm_world_def)
  show ?thesis
    by (simp add: dispatch_def RESET_DAQ_handler_def RESET_DAQ_body_def START_DAQ_handler_def STOP_DAQ_handler_def
        executeSimpleCommand_def calm_callback STOP_DAQ_body_def START_DAQ_body_def resolveScriptPath_def interrupt_tasks_def interrupt_task_def
        joinDAQ_def sleep_def action_defs finished_macro_def dispatcher_init_def put_task_def sub)
qed

theorem reset_blocks_macros_witness:
  "fst (dispatch calm_world MACRO_THERMAL_CALIB [] (snd (dispatch calm_world RESET_DAQ [] finished_macro))) = False
   \<and> macroLoopRunning finished_macro = False"
  using reset_blocks_macros [of finished_macro calm_world "[]" "snd (dispatch calm_world RESET_DAQ [] finished_macro)"
      MACRO_THERMAL_CALIB "[]"] calm_reset
  by (simp add: prod_eq_iff macro_commands_def finished_macro_def dispatcher_init_def)

end
