(* ===== verification/DispatchMacros.thy ===== *)
theory DispatchMacros
  imports DispatchControl
begin

text \<open>
  Macro sequences and loops: the vault is left on every way out, loops with a cycle limit end, and what
  they report; and the monitor, which reaps every finished process and reports it.
\<close>

section \<open>The vault\<close>

lemma leave_vault_cleared: "v \<noteq> [] \<Longrightarrow> vaultPath (cfg (leave_vault v s)) = []"
  by (simp add: leave_vault_def clearVaultPath_def)

lemma run_sequence_leaves:
  "run_sequence w polls v cmds s = Some (b, s') \<Longrightarrow> v \<noteq> [] \<Longrightarrow> vaultPath (cfg s') = []"
  by (induction w polls v cmds s rule: run_sequence.induct)
    (auto simp: leave_vault_cleared Let_def split: if_splits option.splits prod.splits)

text \<open>
  A macro sequence redirects the data directories to its vault only while it runs: whether it completes, is
  stopped or fails in any step, the vault path is cleared when it returns, unless the vault could not be created, in which case it fails without running a step
  and without touching the path.
\<close>

theorem macro_sequence_leaves_vault:
  assumes "executeMacroSequence w polls v cmds s = Some (b, s')" "v \<noteq> []"
  shows "case w_mkdirs w (trace s) (vault_dir w v s) of
      Inl e \<Rightarrow> \<not> b \<and> cfg s' = cfg s \<and> trace s' = trace s @ [CreateDirectories (vault_dir w v s)] \<and> \<not> macroLoopRunning s'
    | Inr _ \<Rightarrow> vaultPath (cfg s') = []"
proof -
  have v: "vault_dir w v (s\<lparr>macroLoopRunning := True\<rparr>) = vault_dir w v s"
    by (simp add: vault_dir_def getTOFDataDir_def)
  show ?thesis
  proof (cases "w_mkdirs w (trace s) (vault_dir w v s)")
    case (Inl e)
    then show ?thesis using assms by (auto simp: executeMacroSequence_def enter_vault_def v)
  next
    case (Inr u)
    then have "\<exists>s2. run_sequence w polls v cmds s2 = Some (b, s')"
      using assms by (auto simp: executeMacroSequence_def enter_vault_def v)
    then show ?thesis using Inr run_sequence_leaves assms(2) by auto
  qed
qed

section \<open>Macro loops end\<close>

text \<open>Every wait for a background process ends within the polls, for example because the monitor reaps it.\<close>

definition waits_end :: "world \<Rightarrow> nat \<Rightarrow> bool" where
  "waits_end w polls = (\<forall>cmd s. wait_background w polls cmd s \<noteq> None)"

lemma run_sequence_returns: "waits_end w polls \<Longrightarrow> \<exists>b s'. run_sequence w polls v cmds s = Some (b, s')"
proof (induction w polls v cmds s rule: run_sequence.induct)
  case (2 w polls v cmd rest s)
  obtain ok s1 where d: "dispatch w cmd [] s = (ok, s1)" by force
  show ?case
  proof (cases "macroLoopRunning s \<and> ok")
    case True
    let ?s2 = "if cmd = RESET_DAQ then s1\<lparr>macroLoopRunning := True\<rparr> else s1"
    obtain s4 where "wait_background w polls cmd (snd (after_step w cmd rest ?s2)) = Some s4"
      using 2(2) by (auto simp: waits_end_def)
    then show ?thesis using 2 True d by (simp add: Let_def)
  next
    case False
    then show ?thesis using d by auto
  qed
qed auto

lemma executeMacroSequence_returns:
  "waits_end w polls \<Longrightarrow> \<exists>b s'. executeMacroSequence w polls v cmds s = Some (b, s')"
  using run_sequence_returns [of w polls v cmds]
  by (cases "enter_vault w (vault_dir w v (s\<lparr>macroLoopRunning := True\<rparr>)) (s\<lparr>macroLoopRunning := True\<rparr>)")
    (auto simp: executeMacroSequence_def Let_def)

lemma macro_loop_returns:
  assumes "waits_end w polls" "cur < num" "unat (num - cur) \<le> n"
  shows "\<exists>s'. macro_loop w n polls v cmds num cur s = Some s' \<and> \<not> macroLoopRunning s'"
  using assms(2,3)
proof (induction n arbitrary: cur s)
  case 0
  then have "num - cur = 0" by (simp add: unat_eq_zero)
  then show ?case using 0 by simp
next
  case (Suc n)
  let ?v = "if v = [] then [] else v @ ''/cycle_'' @ show_u32 (cur + 1)"
  obtain b s1 where s1: "executeMacroSequence w polls ?v cmds s = Some (b, s1)"
    using executeMacroSequence_returns [OF assms(1)] by blast
  have pos: "0 < num" using Suc.prems(1) by (metis word_coorder.not_eq_extremum word_not_simps(1))
  have "Suc (unat cur) < 2 ^ 32" using Suc.prems(1) unsigned_less [of num, where ?'a = nat] by (simp add: word_less_nat_alt)
  then have cur: "unat (cur + 1) = Suc (unat cur)" by (simp add: unat_word_ariths(1))
  have next_cycle: "cur + 1 < num" "unat (num - (cur + 1)) \<le> n" if "\<not> num \<le> cur + 1"
    using that Suc.prems by (auto simp: word_less_nat_alt word_le_nat_alt unat_sub_if' cur split: if_splits)
  show ?case
  proof (cases "macroLoopRunning s \<and> b \<and> \<not> num \<le> cur + 1")
    case True
    then show ?thesis using s1 pos Suc.IH [OF next_cycle, of "if macroLoopRunning s1 then snd (sleep w 1000 s1) else s1"]
      by (simp add: Let_def)
  next
    case False
    then show ?thesis using s1 pos by (cases b) (auto simp: Let_def)
  qed
qed

text \<open>
  C32: A macro loop with a limit of \<open>num > 0\<close> cycles ends: provided that every wait for a background
  process ends, the loop returns after at most \<open>num\<close> cycles, with the running flag down. It returns true in every case.
\<close>

theorem macro_loop_ends:
  assumes "waits_end w polls" "0 < num" "unat num \<le> cycles"
  shows "\<exists>s'. executeMacroLoop w cycles polls v cmds num s = Some (True, s') \<and> \<not> macroLoopRunning s'"
  using macro_loop_returns [OF assms(1,2), of cycles v cmds "s\<lparr>macroLoopRunning := True\<rparr>"] assms(3)
  by (auto simp: executeMacroLoop_def)

text \<open>A world in which the monitor has reaped every process after a pause.\<close>

definition served_world :: world where
  "served_world = calm_world\<lparr>w_others := \<lambda>tr s. s\<lparr>activeBackgroundTasks := []\<rparr>\<rparr>"

lemma served_waits_end: "waits_end served_world 1"
  by (auto simp: waits_end_def served_world_def sleep_def action_defs)

theorem macro_loop_ends_witness:
  "\<exists>s'. executeMacroLoop served_world 2 1 ''auto_run_cycle'' MACRO_AUTO_RUN_CYCLE_sequence 2 (dispatcher_init example_config)
     = Some (True, s') \<and> \<not> macroLoopRunning s'"
  by (rule macro_loop_ends [OF served_waits_end]) simp_all

text \<open>
  A failed cycle is reported as a success: when the first cycle of a macro loop fails, the thread of the macro
  sends the status 0.
\<close>

theorem failed_cycle_reports_success:
  assumes "executeMacroSequence w polls (v @ ''/cycle_1'') cmds (s\<lparr>macroLoopRunning := True\<rparr>) = Some (False, s1)" "v \<noteq> []"
  shows "macro_thread w c (executeMacroLoop w (Suc n) polls v cmds num) s
    = Some (sendStatusCallback w c 0 (s1\<lparr>macroLoopRunning := False\<rparr>))"
proof -
  have "show_u32 (0 + 1) = ''1''" by (simp add: show_u32_def show_nat.simps char_of_def bit_0)
  then show ?thesis using assms by (simp add: macro_thread_def executeMacroLoop_def Let_def)
qed

text \<open>A world without space for the vault.\<close>

definition full_disk :: world where
  "full_disk = calm_world\<lparr>w_mkdirs := \<lambda>_ _. Inl ''No space left on device''\<rparr>"

lemma full_disk_fails:
  "\<exists>s1. executeMacroSequence full_disk polls (v @ ''/cycle_1'') cmds s = Some (False, s1)"
  by (simp add: executeMacroSequence_def enter_vault_def full_disk_def Let_def)

theorem failed_cycle_reports_success_witness:
  "\<exists>s1. macro_thread full_disk MACRO_AUTO_RUN_CYCLE
       (executeMacroLoop full_disk 1 1 ''auto_run_cycle'' MACRO_AUTO_RUN_CYCLE_sequence 5) (dispatcher_init example_config)
     = Some (sendStatusCallback full_disk MACRO_AUTO_RUN_CYCLE 0 s1)"
proof -
  obtain s1 where "executeMacroSequence full_disk 1 (''auto_run_cycle'' @ ''/cycle_1'') MACRO_AUTO_RUN_CYCLE_sequence
      ((dispatcher_init example_config)\<lparr>macroLoopRunning := True\<rparr>) = Some (False, s1)"
    using full_disk_fails by blast
  from failed_cycle_reports_success [OF this, of MACRO_AUTO_RUN_CYCLE 0 5] show ?thesis by auto
qed

theorem macro_sequence_leaves_vault_witness:
  "case executeMacroSequence full_disk 1 ''auto_run'' [START_DAQ] (dispatcher_init example_config) of
     None \<Rightarrow> False | Some (b, s') \<Rightarrow> \<not> b \<and> cfg s' = example_config"
proof -
  obtain s' where s': "executeMacroSequence full_disk 1 ''auto_run'' [START_DAQ] (dispatcher_init example_config) = Some (False, s')"
    by (simp add: executeMacroSequence_def enter_vault_def full_disk_def Let_def)
  have "w_mkdirs full_disk tr d = Inl ''No space left on device''" "cfg (dispatcher_init example_config) = example_config" for tr d
    by (simp_all add: full_disk_def dispatcher_init_def)
  with macro_sequence_leaves_vault [OF s'] show ?thesis unfolding s' by simp
qed

section \<open>The monitor\<close>

lemma run_callback_tasks: "activeBackgroundTasks (snd (run_callback w t b s)) = activeBackgroundTasks s"
proof -
  let ?P = "\<lambda>s'. activeBackgroundTasks s' = activeBackgroundTasks s"
  have ask: "keeps ?P (ask f e)" for f :: "effect list \<Rightarrow> exn + unit" and e
    by (simp add: keeps_def ask_def)
  have "keeps ?P (run_post w p)" for p
    by (cases p) (auto simp: run_post_def linkVault_def copyLink_def intro: ask)
  then have "keeps ?P (run_callback w t b)"
    by (auto simp: run_callback_def intro!: keeps_rules split: option.split)
  from keepsD [OF this, of s] show ?thesis by simp
qed

text \<open>The answers of \<open>waitpid\<close> do not change during a pass.\<close>

definition steady :: "world \<Rightarrow> bool" where
  "steady w = (\<forall>tr pid. w_waitpid w tr pid = w_waitpid w [] pid)"

definition ended :: "world \<Rightarrow> int \<Rightarrow> bool" where
  "ended w pid = (fst (w_waitpid w [] pid) > 0 \<or> fst (w_waitpid w [] pid) = -1)"

text \<open>The state after one task of the scan.\<close>

lemma monitor_scan_step:
  assumes "steady w" "monitor_scan w ((pid, task) # ts) s = Inr s'"
  shows "\<exists>s1. monitor_scan w ts s1 = Inr s' \<and> prefix (trace s) (trace s1)
    \<and> activeBackgroundTasks s1 = (if ended w pid then del_task pid (activeBackgroundTasks s) else activeBackgroundTasks s)
    \<and> (0 < fst (w_waitpid w [] pid) \<and> sendCallback task \<longrightarrow> (\<exists>tr k. k \<le> 10 \<and> trace s1 =
         tr @ attempts 10 (callback_packet (commandCode task) (if snd (w_waitpid w [] pid) then 0 else 1)) k))"
proof -
  obtain result success where wp: "w_waitpid w [] pid = (result, success)" by force
  then have wp': "w_waitpid w (trace s) pid = (result, success)" using assms(1) unfolding steady_def by metis
  obtain r s1 where cb: "run_callback w task success s = (r, s1)" by force
  have s1: "prefix (trace s) (trace s1)" "activeBackgroundTasks s1 = activeBackgroundTasks s"
    using mono.run_callback_P [of "trace s" s w task success] run_callback_tasks [of w task success s] cb by auto
  let ?st = "if success then 0 else 1 :: u32"
  let ?s2 = "if sendCallback task then sendStatusCallback w (commandCode task) ?st s1 else s1"
  obtain k where k: "k \<le> 10" "sendStatusCallback w (commandCode task) ?st s1
      = s1\<lparr>trace := trace s1 @ attempts 10 (callback_packet (commandCode task) ?st) k\<rparr>"
    using callback_attempts by blast
  show ?thesis
  proof (cases "0 < result")
    case True
    then have "monitor_scan w ts (?s2\<lparr>activeBackgroundTasks := del_task pid (activeBackgroundTasks ?s2)\<rparr>) = Inr s'" (is "monitor_scan w ts ?s3 = _")
      using assms(2) wp' cb by (cases r) (auto simp: Let_def)
    moreover have "prefix (trace s) (trace ?s3)" using k(2) s1(1) by (simp add: prefix_order.trans [OF s1(1)])
    moreover have "activeBackgroundTasks ?s3 = del_task pid (activeBackgroundTasks s)" using s1(2) by simp
    moreover have "trace ?s3 = trace s1 @ attempts 10 (callback_packet (commandCode task) ?st) k" if "sendCallback task"
      using that k(2) by simp
    moreover have "ended w pid" using True wp by (simp add: ended_def)
    ultimately show ?thesis using k(1) wp by (intro exI [of _ ?s3]) fastforce
  next
    case False
    then show ?thesis using assms(2) wp wp' by (auto simp: ended_def Let_def split: if_splits)
  qed
qed

lemma monitor_scan_tasks:
  "steady w \<Longrightarrow> monitor_scan w ts s = Inr s' \<Longrightarrow>
     activeBackgroundTasks s' = filter (\<lambda>(p, _). \<not> (p \<in> fst ` set ts \<and> ended w p)) (activeBackgroundTasks s)"
proof (induction ts arbitrary: s)
  case Nil
  then show ?case by (simp add: case_prod_unfold)
next
  case (Cons x ts)
  obtain pid task where x: "x = (pid, task)" by force
  obtain s1 where s1: "monitor_scan w ts s1 = Inr s'"
    "activeBackgroundTasks s1 = (if ended w pid then del_task pid (activeBackgroundTasks s) else activeBackgroundTasks s)"
    using monitor_scan_step [OF Cons.prems(1), of pid task ts s s'] Cons.prems(2) x by blast
  have "activeBackgroundTasks s1 = filter (\<lambda>(p, _). \<not> (p = pid \<and> ended w p)) (activeBackgroundTasks s)"
    unfolding s1(2) del_task_def by (auto intro: filter_cong)
  then show ?case unfolding Cons.IH [OF Cons.prems(1) s1(1)] x by (auto intro: filter_cong)
qed

lemma monitor_scan_reports:
  "steady w \<Longrightarrow> monitor_scan w ts s = Inr s' \<Longrightarrow> (pid, task) \<in> set ts \<Longrightarrow> 0 < fst (w_waitpid w [] pid) \<Longrightarrow>
     sendCallback task \<Longrightarrow> \<exists>tr k rest. k \<le> 10 \<and> trace s' =
       tr @ attempts 10 (callback_packet (commandCode task) (if snd (w_waitpid w [] pid) then 0 else 1)) k @ rest"
proof (induction ts arbitrary: s)
  case (Cons x ts)
  obtain p t where x: "x = (p, t)" by force
  from monitor_scan_step [OF Cons.prems(1), of p t ts s s'] Cons.prems(2) x
  obtain s1 where s1: "monitor_scan w ts s1 = Inr s'"
    "0 < fst (w_waitpid w [] p) \<and> sendCallback t \<longrightarrow> (\<exists>tr k. k \<le> 10 \<and> trace s1 =
       tr @ attempts 10 (callback_packet (commandCode t) (if snd (w_waitpid w [] p) then 0 else 1)) k)"
    by blast
  show ?case
  proof (cases "(pid, task) = (p, t)")
    case True
    with s1(2) Cons.prems obtain tr k where k: "k \<le> 10" "trace s1 =
      tr @ attempts 10 (callback_packet (commandCode task) (if snd (w_waitpid w [] pid) then 0 else 1)) k" by auto
    moreover obtain rest where "trace s' = trace s1 @ rest"
      using mono.monitor_scan_P [OF prefix_order.refl s1(1)] by (rule prefixE)
    ultimately show ?thesis by (intro exI [of _ tr] exI [of _ k] exI [of _ rest]) simp
  next
    case False
    then show ?thesis using Cons.IH [OF Cons.prems(1) s1(1)] Cons.prems x by auto
  qed
qed simp

text \<open>
  A pass of the monitor removes exactly the processes that have ended (or do not exist) from the registry,
  keeps the others in order, and reports each ended process whose task asks for a report, with status 0 if it exited with code zero and 1 otherwise.
\<close>

theorem monitor_pass_reaps:
  assumes "steady w" "monitor_pass w s = Inr s'"
  shows "activeBackgroundTasks s' = filter (\<lambda>(pid, _). \<not> ended w pid) (activeBackgroundTasks s)
    \<and> (\<forall>(pid, task) \<in> set (activeBackgroundTasks s). 0 < fst (w_waitpid w [] pid) \<and> sendCallback task \<longrightarrow>
         (\<exists>tr k rest. k \<le> 10 \<and> trace s' =
            tr @ attempts 10 (callback_packet (commandCode task) (if snd (w_waitpid w [] pid) then 0 else 1)) k @ rest))"
proof
  show "activeBackgroundTasks s' = filter (\<lambda>(pid, _). \<not> ended w pid) (activeBackgroundTasks s)"
    using monitor_scan_tasks [OF assms(1) assms(2) [unfolded monitor_pass_def]] by (force intro: filter_cong)
qed (use monitor_scan_reports [OF assms(1) assms(2) [unfolded monitor_pass_def]] in blast)

text \<open>Process 7 has ended with exit code zero.\<close>

definition ended_world :: world where
  "ended_world = calm_world\<lparr>w_waitpid := \<lambda>_ pid. if pid = 7 then (7, True) else (0, False)\<rparr>"

theorem monitor_pass_reaps_witness:
  "\<exists>s'. monitor_pass ended_world ((dispatcher_init example_config)\<lparr>activeBackgroundTasks := [(7, stop_task), (8, stop_task)]\<rparr>) = Inr s'
     \<and> activeBackgroundTasks s' = [(8, stop_task)]"
proof -
  let ?s = "(dispatcher_init example_config)\<lparr>activeBackgroundTasks := [(7, stop_task), (8, stop_task)]\<rparr>"
  have "steady ended_world" by (simp add: steady_def ended_world_def)
  moreover obtain s' where s': "monitor_pass ended_world ?s = Inr s'"
    by (simp add: monitor_pass_def ended_world_def run_callback_def stop_task_def ret_def)
  ultimately show ?thesis using monitor_pass_reaps [of ended_world ?s s']
    by (simp add: ended_def ended_world_def)
qed

end
