(* ===== verification/ThreadPool.thy ===== *)
theory ThreadPool
  imports Prelude
begin

text \<open>
  The threads of the event pipeline: the pool of workers (\<open>external/base/src/ThreadPool.cpp\<close>) that pass the
  blocks of a step to a sink which takes them in order (\<open>external/base/include/OrderedEventHandler.h\<close>), and the
  reader that queues them (\<open>RawReader::processStep\<close>).

  All shared data is protected by the two mutexes, so a step of the transition relation is one critical
  section, from a lock to the next unlock or wait. A worker or the reader that waits on a condition variable is in a parked state and only
  leaves it by a signal; spurious wake-ups are steps of their own. The blocks are
  represented by their sequence numbers, which the reader counts from zero.
\<close>

section \<open>States\<close>

text \<open>
  A worker looks for work, waits for work (\<open>cond_queued\<close>), has taken a block and runs
  \<open>pushEvents\<close>: it arrives at the handler, waits for its turn, was woken, handles the events, passes the result on; or it
  has left. The field \<open>isBusy\<close> is set from taking a block to its completion. The map \<open>queue\<close> of the
  handler holds the sequence numbers of the workers that wait for their turn or were woken.
\<close>

datatype worker = AtQueue | ParkedQ | Arriving nat | WaitTurn nat | Woken nat | Handling nat | Pushing nat | Exited

definition isBusy :: "worker \<Rightarrow> bool" where
  "isBusy w = (w \<notin> {AtQueue, ParkedQ, Exited})"

text \<open>
  The reader: it queues blocks or waits for room (\<open>cond_dequeued\<close>); \<open>completeQueue\<close> waits for an empty queue
  and then looks at each worker once, waiting for \<open>cond_completed\<close> if it is busy; the destructor ends the workers and joins them.
\<close>

datatype producer = Queueing | ParkedD | Emptying | ParkedE | Checking nat | ParkedC nat | Completed | Joining

record pool =
  maxQueueSize :: nat
  jobs :: "nat list"
  workers :: "worker list"
  terminate :: bool
  expectedSeqN :: nat
  handled :: "nat list"
  prod :: producer
  nextSeqN :: nat
  total :: nat

definition BaseThreadPool :: "nat \<Rightarrow> nat \<Rightarrow> pool" where
  "BaseThreadPool nCPU n = \<lparr>maxQueueSize = max 1 (nCPU div 4), jobs = [], workers = replicate nCPU AtQueue,
     terminate = False, expectedSeqN = 0, handled = [], prod = Queueing, nextSeqN = 0, total = n\<rparr>"

section \<open>Steps\<close>

text \<open>\<open>pthread_cond_signal\<close> on the conditions that only the reader waits on, and on the turn of a block.\<close>

definition signal_dequeued :: "producer \<Rightarrow> producer" where
  "signal_dequeued p = (case p of ParkedD \<Rightarrow> Queueing | ParkedE \<Rightarrow> Emptying | _ \<Rightarrow> p)"

definition signal_completed :: "producer \<Rightarrow> producer" where
  "signal_completed p = (case p of ParkedC k \<Rightarrow> Checking (Suc k) | _ \<Rightarrow> p)"

definition signal_turn :: "nat \<Rightarrow> worker list \<Rightarrow> worker list" where
  "signal_turn n = map (\<lambda>w. if w = WaitTurn n then Woken n else w)"

definition broadcast_queued :: "worker list \<Rightarrow> worker list" where
  "broadcast_queued = map (\<lambda>w. if w = ParkedQ then AtQueue else w)"

text \<open>\<open>pthread_cond_signal(&cond_queued)\<close> wakes one of the waiting workers, if there are any.\<close>

inductive signal_queued :: "worker list \<Rightarrow> worker list \<Rightarrow> bool" where
  wake: "j < length ws \<Longrightarrow> ws ! j = ParkedQ \<Longrightarrow> signal_queued ws (ws[j := AtQueue])"
| nobody: "ParkedQ \<notin> set ws \<Longrightarrow> signal_queued ws ws"

definition set_worker :: "nat \<Rightarrow> worker \<Rightarrow> pool \<Rightarrow> pool" where
  "set_worker i w s = s\<lparr>workers := (workers s)[i := w]\<rparr>"

definition take_turn :: "nat \<Rightarrow> nat \<Rightarrow> worker" where
  "take_turn expected n = (if n = expected then Handling n else WaitTurn n)"

inductive worker_step :: "pool \<Rightarrow> nat \<Rightarrow> worker \<Rightarrow> pool \<Rightarrow> bool" where
  take_job: "\<not> terminate s \<Longrightarrow> jobs s = n # q \<Longrightarrow>
    worker_step s i AtQueue (set_worker i (Arriving n) (s\<lparr>jobs := q, prod := signal_dequeued (prod s)\<rparr>))"
| park: "\<not> terminate s \<Longrightarrow> jobs s = [] \<Longrightarrow> worker_step s i AtQueue (set_worker i ParkedQ s)"
| exit: "terminate s \<Longrightarrow> worker_step s i AtQueue (set_worker i Exited s)"
| arrive: "worker_step s i (Arriving n) (set_worker i (take_turn (expectedSeqN s) n) s)"
| woken: "worker_step s i (Woken n) (set_worker i (take_turn (expectedSeqN s) n) s)"
| handle: "worker_step s i (Handling n)
    (let s1 = set_worker i (Pushing n) (s\<lparr>expectedSeqN := expectedSeqN s + 1, handled := handled s @ [n]\<rparr>)
     in s1\<lparr>workers := signal_turn (expectedSeqN s1) (workers s1)\<rparr>)"
| complete: "worker_step s i (Pushing n) (set_worker i AtQueue (s\<lparr>prod := signal_completed (prod s)\<rparr>))"

inductive producer_step :: "pool \<Rightarrow> producer \<Rightarrow> pool \<Rightarrow> bool" where
  queue_job: "nextSeqN s < total s \<Longrightarrow> length (jobs s) < maxQueueSize s \<Longrightarrow> signal_queued (workers s) ws \<Longrightarrow>
    producer_step s Queueing (s\<lparr>jobs := jobs s @ [nextSeqN s], nextSeqN := nextSeqN s + 1, workers := ws\<rparr>)"
| full: "nextSeqN s < total s \<Longrightarrow> length (jobs s) \<ge> maxQueueSize s \<Longrightarrow> producer_step s Queueing (s\<lparr>prod := ParkedD\<rparr>)"
| complete_queue: "nextSeqN s = total s \<Longrightarrow> producer_step s Queueing (s\<lparr>prod := Emptying\<rparr>)"
| not_empty: "jobs s \<noteq> [] \<Longrightarrow> producer_step s Emptying (s\<lparr>prod := ParkedE\<rparr>)"
| emptied: "jobs s = [] \<Longrightarrow> producer_step s Emptying (s\<lparr>prod := Checking 0\<rparr>)"
| busy: "k < length (workers s) \<Longrightarrow> isBusy (workers s ! k) \<Longrightarrow> producer_step s (Checking k) (s\<lparr>prod := ParkedC k\<rparr>)"
| idle: "k < length (workers s) \<Longrightarrow> \<not> isBusy (workers s ! k) \<Longrightarrow> producer_step s (Checking k) (s\<lparr>prod := Checking (Suc k)\<rparr>)"
| checked: "k = length (workers s) \<Longrightarrow> producer_step s (Checking k) (s\<lparr>prod := Completed\<rparr>)"
| destroy: "producer_step s Completed (s\<lparr>terminate := True, workers := broadcast_queued (workers s), prod := Joining\<rparr>)"

inductive step :: "pool \<Rightarrow> pool \<Rightarrow> bool" where
  worker: "i < length (workers s) \<Longrightarrow> worker_step s i (workers s ! i) s' \<Longrightarrow> step s s'"
| producer: "producer_step s (prod s) s' \<Longrightarrow> step s s'"

text \<open>Spurious wake-ups, which the condition variables permit at any time.\<close>

inductive spurious :: "pool \<Rightarrow> pool \<Rightarrow> bool" where
  spurious_worker: "i < length (workers s) \<Longrightarrow> workers s ! i = ParkedQ \<Longrightarrow> spurious s (set_worker i AtQueue s)"
| spurious_turn: "i < length (workers s) \<Longrightarrow> workers s ! i = WaitTurn n \<Longrightarrow> spurious s (set_worker i (Woken n) s)"
| spurious_producer: "prod s \<in> {ParkedD, ParkedE} \<Longrightarrow> spurious s (s\<lparr>prod := signal_dequeued (prod s)\<rparr>)"
| spurious_completed: "prod s = ParkedC k \<Longrightarrow> spurious s (s\<lparr>prod := signal_completed (prod s)\<rparr>)"

inductive reachable_pool :: "nat \<Rightarrow> nat \<Rightarrow> pool \<Rightarrow> bool" for nCPU n where
  start: "reachable_pool nCPU n (BaseThreadPool nCPU n)"
| step: "reachable_pool nCPU n s \<Longrightarrow> step s s' \<or> spurious s s' \<Longrightarrow> reachable_pool nCPU n s'"

section \<open>The invariant\<close>

declare mset_upt [simp del]

text \<open>The block that a worker has taken and that has not been handled.\<close>

fun pending :: "worker \<Rightarrow> nat list" where
  "pending (Arriving n) = [n]"
| "pending (WaitTurn n) = [n]"
| "pending (Woken n) = [n]"
| "pending (Handling n) = [n]"
| "pending _ = []"

definition pendings :: "worker list \<Rightarrow> nat multiset" where
  "pendings ws = mset (concat (map pending ws))"

lemma pendings_update:
  "i < length ws \<Longrightarrow> pendings (ws[i := w]) + mset (pending (ws ! i)) = pendings ws + mset (pending w)"
proof (induction ws arbitrary: i)
  case (Cons x ws)
  then show ?case by (cases i) (auto simp: pendings_def)
qed simp

lemma pendings_same [simp]:
  "i < length ws \<Longrightarrow> pending w = pending (ws ! i) \<Longrightarrow> pendings (ws[i := w]) = pendings ws"
  using pendings_update [of i ws w] by simp

lemma pendings_map: "(\<And>w. pending (f w) = pending w) \<Longrightarrow> pendings (map f ws) = pendings ws"
  by (simp add: pendings_def comp_def)

lemma pendings_signal_turn [simp]: "pendings (signal_turn n ws) = pendings ws"
  unfolding signal_turn_def by (rule pendings_map) simp

lemma pendings_broadcast [simp]: "pendings (broadcast_queued ws) = pendings ws"
  unfolding broadcast_queued_def by (rule pendings_map) simp

lemma pendings_signal_queued: "signal_queued ws ws' \<Longrightarrow> pendings ws' = pendings ws"
  by (induction rule: signal_queued.induct) auto

lemma length_signals [simp]: "length (signal_turn n ws) = length ws" "length (broadcast_queued ws) = length ws"
  by (simp_all add: signal_turn_def broadcast_queued_def)

lemma length_signal_queued: "signal_queued ws ws' \<Longrightarrow> length ws' = length ws"
  by (induction rule: signal_queued.induct) auto

lemma pending_mem: "n \<in># pendings ws \<longleftrightarrow> (\<exists>w \<in> set ws. pending w = [n])"
proof -
  have "n \<in> set (pending w) \<longleftrightarrow> pending w = [n]" for w by (cases w) auto
  then show ?thesis by (auto simp: pendings_def)
qed

text \<open>The queue and the blocks in work are consecutive numbers, and the blocks in work belong to one worker each.\<close>

definition inv_jobs :: "pool \<Rightarrow> bool" where
  "inv_jobs s = (\<exists>deq. expectedSeqN s \<le> deq \<and> deq \<le> nextSeqN s \<and> nextSeqN s \<le> total s \<and> jobs s = [deq..<nextSeqN s]
     \<and> pendings (workers s) = mset [expectedSeqN s..<deq] \<and> handled s = [0..<expectedSeqN s])"

text \<open>Only the expected block is handled, and nobody sleeps when it is his turn.\<close>

definition inv_turn :: "pool \<Rightarrow> bool" where
  "inv_turn s = (WaitTurn (expectedSeqN s) \<notin> set (workers s)
     \<and> (\<forall>n. Handling n \<in> set (workers s) \<longrightarrow> n = expectedSeqN s))"

text \<open>Somebody is awake when there is work, and the reader only sleeps for a reason that persists.\<close>

definition inv_awake :: "pool \<Rightarrow> bool" where
  "inv_awake s = (workers s \<noteq> [] \<and> 0 < maxQueueSize s
     \<and> (jobs s \<noteq> [] \<longrightarrow> (\<exists>w \<in> set (workers s). w \<noteq> ParkedQ))
     \<and> (terminate s \<longrightarrow> ParkedQ \<notin> set (workers s)) \<and> (terminate s \<longleftrightarrow> prod s = Joining)
     \<and> (Exited \<in> set (workers s) \<longrightarrow> terminate s)
     \<and> (case prod s of
          Queueing \<Rightarrow> True
        | ParkedD \<Rightarrow> length (jobs s) \<ge> maxQueueSize s
        | Emptying \<Rightarrow> nextSeqN s = total s
        | ParkedE \<Rightarrow> nextSeqN s = total s \<and> jobs s \<noteq> []
        | Checking k \<Rightarrow> nextSeqN s = total s \<and> jobs s = [] \<and> k \<le> length (workers s)
        | ParkedC k \<Rightarrow> nextSeqN s = total s \<and> jobs s = [] \<and> k < length (workers s) \<and> isBusy (workers s ! k)
        | _ \<Rightarrow> nextSeqN s = total s \<and> jobs s = []))"

lemmas pool_invs = inv_jobs_def inv_turn_def inv_awake_def

lemma pending_take_turn [simp]: "pending (take_turn e n) = [n]"
  by (simp add: take_turn_def)

lemma upt_Cons_iff: "[i..<j] = n # q \<longleftrightarrow> i < j \<and> n = i \<and> q = [Suc i..<j]"
  by (cases "i < j") (auto simp: upt_conv_Cons)

lemma worker_step_jobs:
  assumes "worker_step s i w s'" "w = workers s ! i" "i < length (workers s)" "inv_jobs s" "inv_turn s"
  shows "inv_jobs s'"
  using assms(1)
proof cases
  case (take_job n q)
  obtain deq where deq: "expectedSeqN s \<le> deq" "deq \<le> nextSeqN s" "nextSeqN s \<le> total s" "jobs s = [deq..<nextSeqN s]"
    "pendings (workers s) = mset [expectedSeqN s..<deq]" "handled s = [0..<expectedSeqN s]"
    using assms(4) by (auto simp: inv_jobs_def)
  then have "[deq..<nextSeqN s] = n # q" using take_job by metis
  then have "deq < nextSeqN s" "n = deq" "q = [Suc deq..<nextSeqN s]" by (simp_all add: upt_Cons_iff)
  moreover have "pendings ((workers s)[i := Arriving n]) = mset [expectedSeqN s..<Suc deq]"
    using pendings_update [OF assms(3), of "Arriving n"] take_job assms(2) deq(1,5) calculation by simp
  ultimately show ?thesis using take_job deq(1,3,6)
    by (auto simp: inv_jobs_def set_worker_def intro!: exI [of _ "Suc deq"])
next
  case (handle n)
  obtain deq where deq: "expectedSeqN s \<le> deq" "deq \<le> nextSeqN s" "nextSeqN s \<le> total s" "jobs s = [deq..<nextSeqN s]"
    "pendings (workers s) = mset [expectedSeqN s..<deq]" "handled s = [0..<expectedSeqN s]"
    using assms(4) by (auto simp: inv_jobs_def)
  have mem: "Handling n \<in> set (workers s)" using handle assms(2,3) by (metis nth_mem)
  then have n: "n = expectedSeqN s" using assms(5) by (auto simp: inv_turn_def)
  have "n \<in># pendings (workers s)" using mem by (force simp: pending_mem)
  then have lt: "expectedSeqN s < deq" using deq(5) n by simp
  have "pendings ((workers s)[i := Pushing n]) = mset [Suc (expectedSeqN s)..<deq]"
    using pendings_update [OF assms(3), of "Pushing n"] handle assms(2) deq(5) lt n by (simp add: upt_conv_Cons)
  then show ?thesis using handle deq lt n
    by (auto simp: inv_jobs_def set_worker_def Let_def intro!: exI [of _ deq])
qed (use assms in \<open>auto simp: inv_jobs_def set_worker_def\<close>)

lemma producer_step_jobs: "producer_step s p s' \<Longrightarrow> inv_jobs s \<Longrightarrow> inv_jobs s'"
proof (induction rule: producer_step.induct)
  case (queue_job s ws)
  then show ?case using pendings_signal_queued [OF queue_job(3)] by (fastforce simp: inv_jobs_def)
qed (auto simp: inv_jobs_def)

lemma spurious_jobs: "spurious s s' \<Longrightarrow> inv_jobs s \<Longrightarrow> inv_jobs s'"
  by (induction rule: spurious.induct) (auto simp: inv_jobs_def set_worker_def)

lemma mem_update: "w \<in> set (ws[i := v]) \<Longrightarrow> w = v \<or> w \<in> set ws"
  by (meson insertE set_update_subset_insert subsetD)

lemma mem_signal_turn:
  "w \<in> set (signal_turn n ws) \<Longrightarrow> w \<noteq> WaitTurn n \<and> (w = Woken n \<or> w \<in> set ws)"
  by (auto simp: signal_turn_def split: if_splits)

lemma signal_queued_mem: "signal_queued ws ws' \<Longrightarrow> w \<in> set ws' \<Longrightarrow> w = AtQueue \<or> w \<in> set ws"
  by (induction rule: signal_queued.induct) (auto dest: mem_update)

lemma take_turn_cases: "WaitTurn e = take_turn e n \<longleftrightarrow> False" "Handling m = take_turn e n \<longleftrightarrow> m = n \<and> n = e"
  by (auto simp: take_turn_def)

lemma worker_step_turn:
  assumes "worker_step s i w s'" "w = workers s ! i" "i < length (workers s)" "inv_jobs s" "inv_turn s"
  shows "inv_turn s'"
  using assms(1)
proof cases
  case (handle n)
  have uniq: "Handling m \<notin> set ((workers s)[i := Pushing n])" for m
  proof
    assume m: "Handling m \<in> set ((workers s)[i := Pushing n])"
    then have "m = expectedSeqN s" "n = expectedSeqN s"
      using assms handle by (auto simp: inv_turn_def dest: mem_update)
    moreover have "m \<in># pendings ((workers s)[i := Pushing n])" using m by (force simp: pending_mem)
    moreover have "pendings ((workers s)[i := Pushing n]) + {#n#} = pendings (workers s)"
      using pendings_update [OF assms(3), of "Pushing n"] handle assms(2) by simp
    ultimately have "Suc 0 < count (pendings (workers s)) n" by (metis Suc_lessI add_mset_add_single count_add_mset count_greater_zero_iff lessI less_Suc_eq_0_disj nat.inject)
    moreover have "count (pendings (workers s)) n \<le> 1"
      using assms(4) distinct_count_atmost_1 [THEN iffD1, OF distinct_upt] by (auto simp: inv_jobs_def)
    ultimately show False by simp
  qed
  then show ?thesis using handle
    by (auto simp: inv_turn_def set_worker_def Let_def dest!: mem_signal_turn)
qed (use assms in \<open>auto simp: inv_turn_def set_worker_def take_turn_cases dest!: mem_update\<close>)

lemma producer_step_turn: "producer_step s p s' \<Longrightarrow> inv_turn s \<Longrightarrow> inv_turn s'"
proof (induction rule: producer_step.induct)
  case (queue_job s ws)
  then show ?case using signal_queued_mem [OF queue_job(3)] by (auto simp: inv_turn_def)
qed (auto simp: inv_turn_def broadcast_queued_def split: if_splits)

lemma spurious_turn_inv: "spurious s s' \<Longrightarrow> inv_turn s \<Longrightarrow> inv_turn s'"
  by (induction rule: spurious.induct) (auto simp: inv_turn_def set_worker_def dest!: mem_update)

lemma isBusy_simps [simp]:
  "\<not> isBusy AtQueue" "\<not> isBusy ParkedQ" "\<not> isBusy Exited" "isBusy (Arriving n)" "isBusy (WaitTurn n)"
  "isBusy (Woken n)" "isBusy (Handling n)" "isBusy (Pushing n)" "isBusy (take_turn e n)"
  by (auto simp: isBusy_def take_turn_def)

lemma isBusy_signal_turn [simp]: "k < length ws \<Longrightarrow> isBusy (signal_turn n ws ! k) = isBusy (ws ! k)"
  by (simp add: signal_turn_def)

lemma take_turn_awake [simp]: "take_turn e n \<noteq> ParkedQ" "take_turn e n \<noteq> Exited" "ParkedQ \<noteq> take_turn e n" "Exited \<noteq> take_turn e n"
  by (auto simp: take_turn_def)

lemma bex_update: "i < length ws \<Longrightarrow> v \<noteq> ParkedQ \<Longrightarrow> \<exists>w \<in> set (ws[i := v]). w \<noteq> ParkedQ"
  by (meson set_update_memI)

lemma mem_signal_turn_iff: "ParkedQ \<in> set (signal_turn n ws) \<longleftrightarrow> ParkedQ \<in> set ws"
    "Exited \<in> set (signal_turn n ws) \<longleftrightarrow> Exited \<in> set ws" "Pushing m \<in> set (signal_turn n ws) \<longleftrightarrow> Pushing m \<in> set ws"
  by (auto simp: signal_turn_def split: if_splits)

lemma signal_turn_Nil [simp]: "signal_turn n ws = [] \<longleftrightarrow> ws = []"
  by (simp add: signal_turn_def)

lemma worker_step_awake:
  assumes "worker_step s i w s'" "w = workers s ! i" "i < length (workers s)" "inv_awake s"
  shows "inv_awake s'"
  using assms(1)
proof cases
  case (take_job n q)
  then show ?thesis using assms(2-4)
    by (cases "prod s") (auto simp: inv_awake_def set_worker_def signal_dequeued_def bex_update dest!: mem_update)
next
  case park
  then show ?thesis using assms(2-4)
    by (cases "prod s") (auto simp: inv_awake_def set_worker_def nth_list_update dest!: mem_update)
next
  case exit
  then show ?thesis using assms(2-4)
    by (cases "prod s") (auto simp: inv_awake_def set_worker_def nth_list_update bex_update dest!: mem_update)
next
  case (arrive n)
  then show ?thesis using assms(2-4)
    by (cases "prod s") (auto simp: inv_awake_def set_worker_def nth_list_update bex_update dest!: mem_update)
next
  case (woken n)
  then show ?thesis using assms(2-4)
    by (cases "prod s") (auto simp: inv_awake_def set_worker_def nth_list_update bex_update dest!: mem_update)
next
  case (handle n)
  then show ?thesis using assms(2-4)
    by (cases "prod s") (auto simp: inv_awake_def set_worker_def Let_def nth_list_update mem_signal_turn_iff dest!: mem_update
        intro!: bexI [of _ "Pushing n"] set_update_memI)
next
  case (complete n)
  then show ?thesis using assms(2-4)
    by (cases "prod s") (auto simp: inv_awake_def set_worker_def signal_completed_def nth_list_update bex_update dest!: mem_update)
qed

lemma signal_queued_awake: "signal_queued ws ws' \<Longrightarrow> ws \<noteq> [] \<Longrightarrow> ws' \<noteq> [] \<and> (\<exists>w \<in> set ws'. w \<noteq> ParkedQ)"
proof (induction rule: signal_queued.induct)
  case (wake j ws)
  then show ?case using bex_update by auto
next
  case (nobody ws)
  then show ?case by (cases ws) auto
qed

lemma producer_step_awake: "producer_step s p s' \<Longrightarrow> p = prod s \<Longrightarrow> inv_awake s \<Longrightarrow> inv_awake s'"
proof (induction rule: producer_step.induct)
  case (queue_job s ws)
  then show ?case
    using signal_queued_awake [OF queue_job(3)] signal_queued_mem [OF queue_job(3)] by (auto simp: inv_awake_def split: producer.splits)
qed (auto simp: inv_awake_def broadcast_queued_def split: if_splits producer.splits)

lemma spurious_awake: "spurious s s' \<Longrightarrow> inv_awake s \<Longrightarrow> inv_awake s'"
proof (induction rule: spurious.induct)
  case (spurious_worker i s)
  then show ?case
    by (cases "prod s") (auto simp: inv_awake_def set_worker_def nth_list_update bex_update dest!: mem_update)
next
  case (spurious_turn i s n)
  then show ?case
    by (cases "prod s") (auto simp: inv_awake_def set_worker_def nth_list_update bex_update dest!: mem_update)
qed (auto simp: inv_awake_def signal_dequeued_def signal_completed_def split: producer.splits)

definition pool_inv :: "pool \<Rightarrow> bool" where
  "pool_inv s = (inv_jobs s \<and> inv_turn s \<and> inv_awake s)"

lemma pool_inv_start: "0 < nCPU \<Longrightarrow> pool_inv (BaseThreadPool nCPU n)"
  by (auto simp: pool_inv_def pool_invs BaseThreadPool_def pendings_def)

lemma pool_inv_step: "step s s' \<Longrightarrow> pool_inv s \<Longrightarrow> pool_inv s'"
proof (induction rule: step.induct)
  case (worker i s s')
  then show ?case
    using worker_step_jobs worker_step_turn worker_step_awake unfolding pool_inv_def by blast
next
  case (producer s s')
  then show ?case
    using producer_step_jobs producer_step_turn producer_step_awake unfolding pool_inv_def by blast
qed

lemma pool_inv_spurious: "spurious s s' \<Longrightarrow> pool_inv s \<Longrightarrow> pool_inv s'"
  unfolding pool_inv_def using spurious_jobs spurious_turn_inv spurious_awake by blast

lemma total_step: "step s s' \<or> spurious s s' \<Longrightarrow> total s' = total s"
  by (auto simp: step.simps worker_step.simps producer_step.simps spurious.simps set_worker_def Let_def)

lemma reachable_pool_inv:
  assumes "reachable_pool nCPU n s" "0 < nCPU"
  shows "pool_inv s \<and> total s = n"
  using assms(1)
proof induction
  case start
  show ?case using pool_inv_start [OF assms(2)] by (simp add: BaseThreadPool_def)
next
  case (step s s')
  then show ?case using pool_inv_step pool_inv_spurious total_step by metis
qed

text \<open>
  C9: The blocks of a step are handled in the order of their numbers, each once and one at a time, however the threads of
  the pool are scheduled: in every reachable state the handled blocks are \<open>0, 1, ..., expectedSeqN - 1\<close>, at most one worker is in \<open>handleEvents\<close>, with the
  expected block, and no worker sleeps when it is the turn of its block.
\<close>

theorem blocks_handled_in_order:
  assumes "reachable_pool nCPU n s" "0 < nCPU"
  shows "handled s = [0..<expectedSeqN s] \<and> expectedSeqN s \<le> n
    \<and> (\<forall>w \<in> set (workers s). \<forall>m. w = Handling m \<longrightarrow> m = expectedSeqN s)
    \<and> length (filter (\<lambda>w. \<exists>m. w = Handling m) (workers s)) \<le> 1 \<and> WaitTurn (expectedSeqN s) \<notin> set (workers s)"
proof -
  note inv = reachable_pool_inv [OF assms]
  have "size (filter_mset (\<lambda>x. x = expectedSeqN s) (pendings ws)) \<ge> length (filter (\<lambda>w. \<exists>m. w = Handling m) ws)"
    if "\<forall>w \<in> set ws. \<forall>m. w = Handling m \<longrightarrow> m = expectedSeqN s" for ws
    using that by (induction ws) (auto simp: pendings_def)
  moreover have "size (filter_mset (\<lambda>x. x = expectedSeqN s) (pendings (workers s))) \<le> 1"
    using inv distinct_count_atmost_1 [THEN iffD1, OF distinct_upt]
    by (auto simp: pool_inv_def inv_jobs_def filter_eq_replicate_mset)
  ultimately have "length (filter (\<lambda>w. \<exists>m. w = Handling m) (workers s)) \<le> 1"
    using inv by (fastforce simp: pool_inv_def inv_turn_def intro: order_trans)
  then show ?thesis using inv by (auto simp: pool_inv_def inv_jobs_def inv_turn_def)
qed

theorem blocks_handled_in_order_witness: "handled (BaseThreadPool 4 3) = []"
  using blocks_handled_in_order [OF reachable_pool.start, of 4 3] by (simp add: BaseThreadPool_def)

section \<open>Progress\<close>

text \<open>A step is enabled in every state in which a worker is not waiting.\<close>

lemma worker_enabled:
  assumes "i < length (workers s)" "\<forall>n. workers s ! i \<noteq> WaitTurn n" "workers s ! i \<noteq> ParkedQ" "workers s ! i \<noteq> Exited"
  shows "\<exists>s'. step s s'"
proof -
  have "\<exists>s'. worker_step s i (workers s ! i) s'"
  proof (cases "workers s ! i")
    case AtQueue
    then show ?thesis by (cases "jobs s"; cases "terminate s") (auto intro: worker_step.intros)
  qed (use assms in \<open>auto intro: worker_step.intros\<close>)
  then show ?thesis using assms(1) by (auto intro: step.worker)
qed

definition finished :: "pool \<Rightarrow> bool" where
  "finished s = (handled s = [0..<total s] \<and> jobs s = [] \<and> set (workers s) = {Exited} \<and> prod s = Joining)"

lemma signal_queued_total: "\<exists>ws'. signal_queued ws ws'"
  using signal_queued.intros in_set_conv_nth by metis

lemma producer_enabled:
  assumes "pool_inv s" "jobs s = []" "\<forall>w \<in> set (workers s). \<not> isBusy w" "prod s \<noteq> Joining"
  shows "\<exists>s'. producer_step s (prod s) s'"
proof (cases "prod s")
  case Queueing
  obtain ws where "signal_queued (workers s) ws" using signal_queued_total by blast
  then show ?thesis
    using Queueing assms(1,2) producer_step.complete_queue [of s] producer_step.queue_job [of s ws]
    by (cases "nextSeqN s = total s") (auto simp: pool_inv_def inv_jobs_def inv_awake_def)
next
  case (Checking k)
  then show ?thesis using assms(1) producer_step.intros(6-8) [of k s]
    by (cases "k = length (workers s)"; cases "isBusy (workers s ! k)") (auto simp: pool_inv_def inv_awake_def)
qed (use assms in \<open>auto simp: pool_inv_def inv_awake_def intro: producer_step.intros\<close>)

text \<open>A state without a step has finished: nobody waits for something that no one will do.\<close>

lemma stuck_finished:
  assumes "pool_inv s" "\<nexists>s'. step s s'"
  shows "finished s"
proof -
  have all: "w = ParkedQ \<or> w = Exited \<or> (\<exists>n. w = WaitTurn n)" if "w \<in> set (workers s)" for w
    using worker_enabled assms(2) that by (metis in_set_conv_nth)
  obtain deq where deq: "expectedSeqN s \<le> deq" "jobs s = [deq..<nextSeqN s]" "deq \<le> nextSeqN s"
    "pendings (workers s) = mset [expectedSeqN s..<deq]" "handled s = [0..<expectedSeqN s]"
    using assms(1) by (auto simp: pool_inv_def inv_jobs_def)
  have "\<not> expectedSeqN s < deq"
  proof
    assume "expectedSeqN s < deq"
    then have "expectedSeqN s \<in># pendings (workers s)" using deq(4) by simp
    then obtain w where "w \<in> set (workers s)" "pending w = [expectedSeqN s]" by (auto simp: pending_mem)
    then show False using all [of w] assms(1) by (auto simp: pool_inv_def inv_turn_def)
  qed
  then have none: "pendings (workers s) = {#}" and eq: "expectedSeqN s = deq" using deq by auto
  then have idle: "w = ParkedQ \<or> w = Exited" if "w \<in> set (workers s)" for w
    using all [OF that] that pending_mem [of _ "workers s"] by force
  have jobs: "jobs s = []"
  proof (rule ccontr)
    assume "jobs s \<noteq> []"
    then obtain w where "w \<in> set (workers s)" "w \<noteq> ParkedQ" using assms(1) by (auto simp: pool_inv_def inv_awake_def)
    then have "Exited \<in> set (workers s)" using idle by metis
    then show False using assms(1) \<open>jobs s \<noteq> []\<close> by (auto simp: pool_inv_def inv_awake_def)
  qed
  have "prod s = Joining"
    using producer_enabled [OF assms(1) jobs] idle assms(2) step.producer by (metis isBusy_simps(2,3))
  moreover have "set (workers s) = {Exited}"
  proof -
    have "ParkedQ \<notin> set (workers s)" "workers s \<noteq> []"
      using assms(1) \<open>prod s = Joining\<close> by (auto simp: pool_inv_def inv_awake_def)
    then have "set (workers s) \<subseteq> {Exited}" "set (workers s) \<noteq> {}" using idle by auto
    then show ?thesis by (metis subset_singletonD)
  qed
  moreover have "nextSeqN s = total s" using assms(1) \<open>prod s = Joining\<close> by (simp add: pool_inv_def inv_awake_def)
  moreover have "deq = nextSeqN s" using jobs deq(2,3) by auto
  ultimately show ?thesis using jobs deq(5) eq by (simp add: finished_def)
qed

text \<open>Every step that is not a spurious wake-up brings the pool closer to its end.\<close>

fun worker_weight :: "worker \<Rightarrow> nat" where
  "worker_weight AtQueue = 1"
| "worker_weight ParkedQ = 0"
| "worker_weight (Arriving n) = 9"
| "worker_weight (Woken n) = 8"
| "worker_weight (WaitTurn n) = 7"
| "worker_weight (Handling n) = 5"
| "worker_weight (Pushing n) = 3"
| "worker_weight Exited = 0"

fun producer_weight :: "nat \<Rightarrow> producer \<Rightarrow> nat" where
  "producer_weight w Queueing = 3 * w + 10"
| "producer_weight w ParkedD = 3 * w + 9"
| "producer_weight w Emptying = 3 * w + 8"
| "producer_weight w ParkedE = 3 * w + 7"
| "producer_weight w (Checking k) = 2 * (w - k) + w + 3"
| "producer_weight w (ParkedC k) = 2 * (w - k) + w + 2"
| "producer_weight w Completed = w + 1"
| "producer_weight w Joining = 0"

definition workers_weight :: "worker list \<Rightarrow> nat" where
  "workers_weight ws = sum_list (map worker_weight ws)"

definition pool_weight :: "pool \<Rightarrow> nat" where
  "pool_weight s = 20 * (total s - nextSeqN s) + 12 * length (jobs s) + workers_weight (workers s)
     + producer_weight (length (workers s)) (prod s)"

lemma weight_update:
  "i < length ws \<Longrightarrow> workers_weight (ws[i := w]) + worker_weight (ws ! i) = workers_weight ws + worker_weight w"
proof (induction ws arbitrary: i)
  case (Cons x ws)
  then show ?case by (cases i) (auto simp: workers_weight_def)
qed simp

lemma weight_signal_turn: "pendings ws = mset xs \<Longrightarrow> distinct xs \<Longrightarrow> workers_weight (signal_turn n ws) \<le> Suc (workers_weight ws)"
proof -
  have "workers_weight (signal_turn n ws) \<le> workers_weight ws + count (pendings ws) n"
    by (induction ws) (auto simp: workers_weight_def signal_turn_def pendings_def)
  moreover assume "pendings ws = mset xs" "distinct xs"
  ultimately show ?thesis using distinct_count_atmost_1 [THEN iffD1, of xs] by (auto split: if_splits)
qed

lemma weight_broadcast: "workers_weight (broadcast_queued ws) \<le> workers_weight ws + length ws"
  by (induction ws) (auto simp: workers_weight_def broadcast_queued_def)

lemma weight_signal_queued: "signal_queued ws ws' \<Longrightarrow> workers_weight ws' \<le> Suc (workers_weight ws)"
  by (induction rule: signal_queued.induct) (use weight_update in \<open>fastforce\<close>)+

lemma weight_dequeued: "producer_weight w (signal_dequeued p) \<le> Suc (producer_weight w p)"
  by (cases p) (auto simp: signal_dequeued_def)

lemma weight_completed: "producer_weight w (signal_completed p) \<le> Suc (producer_weight w p)"
  by (cases p) (auto simp: signal_completed_def)

lemma worker_step_weight:
  assumes "worker_step s i w s'" "w = workers s ! i" "i < length (workers s)" "pool_inv s" "pool_inv s'"
  shows "pool_weight s' < pool_weight s"
  using assms(1)
proof cases
  case (take_job n q)
  then show ?thesis using weight_update [OF assms(3), of "Arriving n"] assms(2)
      weight_dequeued [of "length (workers s)" "prod s"] by (simp add: pool_weight_def set_worker_def)
next
  case (handle n)
  let ?ws = "(workers s)[i := Pushing n]"
  have "pendings ?ws = pendings (signal_turn (Suc (expectedSeqN s)) ?ws)" by simp
  also have "\<dots> = pendings (workers s')" using handle by (simp add: set_worker_def Let_def)
  finally obtain deq where "pendings ?ws = mset [expectedSeqN s'..<deq]"
    using assms(5) by (auto simp: pool_inv_def inv_jobs_def)
  from weight_signal_turn [OF this, of "Suc (expectedSeqN s)"] weight_update [OF assms(3), of "Pushing n"]
  show ?thesis using handle assms(2) by (simp add: pool_weight_def set_worker_def Let_def)
next
  case (complete n)
  then show ?thesis using weight_update [OF assms(3), of AtQueue] assms(2)
      weight_completed [of "length (workers s)" "prod s"] by (simp add: pool_weight_def set_worker_def)
next
  case (arrive n)
  then show ?thesis using weight_update [OF assms(3), of "take_turn (expectedSeqN s) n"] assms(2)
    by (simp add: pool_weight_def set_worker_def take_turn_def split: if_splits)
next
  case (woken n)
  then show ?thesis using weight_update [OF assms(3), of "take_turn (expectedSeqN s) n"] assms(2)
    by (simp add: pool_weight_def set_worker_def take_turn_def split: if_splits)
next
  case park
  then show ?thesis using weight_update [OF assms(3), of ParkedQ] assms(2) by (simp add: pool_weight_def set_worker_def)
next
  case exit
  then show ?thesis using weight_update [OF assms(3), of Exited] assms(2) by (simp add: pool_weight_def set_worker_def)
qed

lemma producer_step_weight: "producer_step s p s' \<Longrightarrow> p = prod s \<Longrightarrow> pool_weight s' < pool_weight s"
proof (induction rule: producer_step.induct)
  case (queue_job s ws)
  then show ?case using weight_signal_queued [OF queue_job(3)] length_signal_queued [OF queue_job(3)]
    by (simp add: pool_weight_def)
next
  case (destroy s)
  then show ?case using weight_broadcast [of "workers s"] by (simp add: pool_weight_def flip: destroy)
qed (auto simp: pool_weight_def dest!: sym [of _ "prod _"])

lemma step_weight: "step s s' \<Longrightarrow> pool_inv s \<Longrightarrow> pool_weight s' < pool_weight s"
proof (induction rule: step.induct)
  case (worker i s s')
  then show ?case using worker_step_weight [OF worker(2) refl worker(1,3)] pool_inv_step step.worker by blast
next
  case (producer s s')
  then show ?case by (intro producer_step_weight) auto
qed

text \<open>
  C10: Once spurious wake-ups stop, the processing of a step comes to its end: from a
  reachable state only finitely many steps follow, and a state without a further step is one in which all blocks have been handled in order, the queue is empty
  and all workers have left. No signal is lost and the pool never deadlocks, whatever the number of workers and blocks.
\<close>

theorem pool_finishes:
  assumes "0 < nCPU"
  shows "wfp (\<lambda>s' s. reachable_pool nCPU n s \<and> step s s')
    \<and> (\<forall>s. reachable_pool nCPU n s \<and> (\<nexists>s'. step s s') \<longrightarrow> finished s \<and> handled s = [0..<n])"
proof
  have "(\<lambda>s' s. reachable_pool nCPU n s \<and> step s s') \<le> (\<lambda>s' s. pool_weight s' < pool_weight s)"
    using step_weight reachable_pool_inv assms by blast
  then show "wfp (\<lambda>s' s. reachable_pool nCPU n s \<and> step s s')"
    by (rule wfp_subset [rotated]) (simp add: wfp_if_convertible_to_nat [of _ pool_weight])
  show "\<forall>s. reachable_pool nCPU n s \<and> (\<nexists>s'. step s s') \<longrightarrow> finished s \<and> handled s = [0..<n]"
    using stuck_finished reachable_pool_inv [OF _ assms] by (fastforce simp: finished_def)
qed

theorem pool_finishes_witness: "wfp (\<lambda>s' s. reachable_pool 8 100 s \<and> step s s')"
  using pool_finishes [of 8 100] by simp

section \<open>Completion of the queue\<close>

text \<open>
  \<open>completeQueue\<close> waits for one completion per busy worker and does not look which worker it was. The run: worker
  0 is still passing on block 0 when worker 1, which \<open>completeQueue\<close> has not looked at yet, completes block 1.
\<close>

definition two :: "nat list \<Rightarrow> worker list \<Rightarrow> nat list \<Rightarrow> producer \<Rightarrow> nat \<Rightarrow> pool" where
  "two q ws h p nx = \<lparr>maxQueueSize = 1, jobs = q, workers = ws, terminate = False, expectedSeqN = length h, handled = h,
     prod = p, nextSeqN = nx, total = 2\<rparr>"

lemma by_worker:
  "reachable_pool 2 2 s \<Longrightarrow> i < length (workers s) \<Longrightarrow> worker_step s i (workers s ! i) s' \<Longrightarrow> reachable_pool 2 2 s'"
  by (rule reachable_pool.step) (auto intro: step.worker)

lemma by_producer: "reachable_pool 2 2 s \<Longrightarrow> producer_step s (prod s) s' \<Longrightarrow> reachable_pool 2 2 s'"
  by (rule reachable_pool.step) (auto intro: step.producer)

lemmas run_simps = two_def worker_step.simps producer_step.simps signal_queued.simps set_worker_def take_turn_def
  signal_dequeued_def signal_completed_def signal_turn_def

text \<open>
  \<open>completeQueue\<close> can return while a worker is still busy: a state is reachable with two workers and two blocks in which the
  reader has returned from \<open>completeQueue\<close> and worker 0 has not yet passed on the result of block 0.
\<close>

theorem completeQueue_returns_early:
  "\<exists>s. reachable_pool 2 2 s \<and> prod s = Completed \<and> workers s = [Pushing 0, AtQueue] \<and> isBusy (workers s ! 0)"
proof -
  have "reachable_pool 2 2 (two [] [AtQueue, AtQueue] [] Queueing 0)"
    using reachable_pool.start [of 2 2] by (simp add: BaseThreadPool_def two_def numeral_2_eq_2)
  then have "reachable_pool 2 2 (two [0] [AtQueue, AtQueue] [] Queueing 1)"
    by (rule by_producer) (auto simp: run_simps)
  then have "reachable_pool 2 2 (two [] [Arriving 0, AtQueue] [] Queueing 1)"
    by (rule by_worker [where i = 0]) (auto simp: run_simps)
  then have "reachable_pool 2 2 (two [1] [Arriving 0, AtQueue] [] Queueing 2)"
    by (rule by_producer) (auto simp: run_simps)
  then have "reachable_pool 2 2 (two [] [Arriving 0, Arriving 1] [] Queueing 2)"
    by (rule by_worker [where i = 1]) (auto simp: run_simps)
  then have "reachable_pool 2 2 (two [] [Arriving 0, Arriving 1] [] Emptying 2)"
    by (rule by_producer) (auto simp: run_simps)
  then have "reachable_pool 2 2 (two [] [Arriving 0, Arriving 1] [] (Checking 0) 2)"
    by (rule by_producer) (auto simp: run_simps)
  then have "reachable_pool 2 2 (two [] [Arriving 0, Arriving 1] [] (ParkedC 0) 2)"
    by (rule by_producer) (auto simp: run_simps)
  then have "reachable_pool 2 2 (two [] [Handling 0, Arriving 1] [] (ParkedC 0) 2)"
    by (rule by_worker [where i = 0]) (auto simp: run_simps)
  then have "reachable_pool 2 2 (two [] [Pushing 0, Arriving 1] [0] (ParkedC 0) 2)"
    by (rule by_worker [where i = 0]) (auto simp: run_simps Let_def)
  then have "reachable_pool 2 2 (two [] [Pushing 0, Handling 1] [0] (ParkedC 0) 2)"
    by (rule by_worker [where i = 1]) (auto simp: run_simps)
  then have "reachable_pool 2 2 (two [] [Pushing 0, Pushing 1] [0, 1] (ParkedC 0) 2)"
    by (rule by_worker [where i = 1]) (auto simp: run_simps Let_def)
  then have "reachable_pool 2 2 (two [] [Pushing 0, AtQueue] [0, 1] (Checking 1) 2)"
    by (rule by_worker [where i = 1]) (auto simp: run_simps)
  then have "reachable_pool 2 2 (two [] [Pushing 0, AtQueue] [0, 1] (Checking 2) 2)"
    by (rule by_producer) (auto simp: run_simps)
  then have "reachable_pool 2 2 (two [] [Pushing 0, AtQueue] [0, 1] Completed 2)"
    by (rule by_producer) (auto simp: run_simps)
  then show ?thesis by (intro exI conjI) (auto simp: two_def)
qed

end
