(* ===== verification/EventWord.thy ===== *)
theory EventWord
  imports Prelude
begin

text \<open>
  The event words and data frames of the TOFPET readout: the accessors of
  \<open>RawEventWord\<close> (\<open>external/rawdata/include/event_decode.h\<close>), of \<open>RawDataFrame\<close> and of the shared
  memory queue \<open>SHM_RAW\<close> (\<open>external/rawdata/include/shm_raw.h\<close>, \<open>src/shm_raw.cpp\<close>).

  An event word is 64 bits wide: fine and coarse times of the energy and the time branch (10 bits
  each), the analog buffer (2 bits) and the channel (22 bits). A frame is an array of
  8196 words, of which the first two are the header. Accessors that index the frame or the queue
  are checked: \<^const>\<open>None\<close> is an access outside of the array.
\<close>

section \<open>Event words\<close>

definition getEFine :: "u64 \<Rightarrow> u32" where
  "getEFine word = (let v = (ucast (word mod 1024) :: u32) in (v + 27) mod 1024)"

definition getTFine :: "u64 \<Rightarrow> u32" where
  "getTFine word = (let v = (ucast (drop_bit 10 word mod 1024) :: u32) in (v + 27) mod 1024)"

definition getECoarse :: "u64 \<Rightarrow> u32" where
  "getECoarse word = ucast (drop_bit 20 word mod 1024)"

definition getTCoarse :: "u64 \<Rightarrow> u32" where
  "getTCoarse word = ucast (drop_bit 30 word mod 1024)"

definition getTacID :: "u64 \<Rightarrow> u32" where
  "getTacID word = ucast (drop_bit 40 word mod 4)"

definition getChannelID :: "u64 \<Rightarrow> u32" where
  "getChannelID word = ucast (drop_bit 42 word)"

section \<open>Frames\<close>

definition MaxRawDataFrameSize :: nat where
  "MaxRawDataFrameSize = 8196"

definition MaxRawDataFrameQueueSize :: nat where
  "MaxRawDataFrameQueueSize = 16 * 1024"

type_synonym RawDataFrame = "u64 list"

text \<open>An access with a signed index, which is outside of the array when it is negative.\<close>

definition rdi :: "'a list \<Rightarrow> int \<Rightarrow> 'a checked" where
  "rdi xs i = (if i < 0 then None else rd xs (nat i))"

definition size_of_header :: "u64 \<Rightarrow> u32" where
  "size_of_header w = ucast (drop_bit 36 w AND 0x7FFF)"

definition frame_getFrameSize :: "RawDataFrame \<Rightarrow> u32 checked" where
  "frame_getFrameSize data = map_option size_of_header (rd data 0)"

definition id_of_header :: "u64 \<Rightarrow> u64" where
  "id_of_header w = w AND 0xFFFFFFFFF"

definition frame_getFrameID :: "RawDataFrame \<Rightarrow> u64 checked" where
  "frame_getFrameID data = map_option id_of_header (rd data 0)"

definition lost_of_header :: "u64 \<Rightarrow> bool" where
  "lost_of_header w = (w AND 0x18000 \<noteq> 0)"

definition frame_getFrameLost :: "RawDataFrame \<Rightarrow> bool checked" where
  "frame_getFrameLost data = map_option lost_of_header (rd data 1)"

definition nevents_of_header :: "u64 \<Rightarrow> int" where
  "nevents_of_header w = uint (w AND 0x7FFF)"

definition frame_getNEvents :: "RawDataFrame \<Rightarrow> int checked" where
  "frame_getNEvents data = map_option nevents_of_header (rd data 1)"

definition frame_getEFine :: "RawDataFrame \<Rightarrow> int \<Rightarrow> u32 checked" where
  "frame_getEFine data event = map_option getEFine (rdi data (event + 2))"

definition frame_getTFine :: "RawDataFrame \<Rightarrow> int \<Rightarrow> u32 checked" where
  "frame_getTFine data event = map_option getTFine (rdi data (event + 2))"

definition frame_getECoarse :: "RawDataFrame \<Rightarrow> int \<Rightarrow> u32 checked" where
  "frame_getECoarse data event = map_option getECoarse (rdi data (event + 2))"

definition frame_getTCoarse :: "RawDataFrame \<Rightarrow> int \<Rightarrow> u32 checked" where
  "frame_getTCoarse data event = map_option getTCoarse (rdi data (event + 2))"

definition frame_getTacID :: "RawDataFrame \<Rightarrow> int \<Rightarrow> u32 checked" where
  "frame_getTacID data event = map_option getTacID (rdi data (event + 2))"

definition frame_getChannelID :: "RawDataFrame \<Rightarrow> int \<Rightarrow> u32 checked" where
  "frame_getChannelID data event = map_option getChannelID (rdi data (event + 2))"

section \<open>The shared memory queue\<close>

text \<open>
  The descriptor and the pointer are abstracted to the frames the mapping shows. The size is a
  field of its own, because the constructor does not compare it with the size of the queue: its
  assertion is written with an assignment. \<open>ndebug\<close> says whether assertions are compiled out.
\<close>

record SHM_RAW =
  shm :: "RawDataFrame list"
  shmSize :: nat

definition sizeof_RawDataFrame :: nat where
  "sizeof_RawDataFrame = 8 * MaxRawDataFrameSize"

definition SHM_RAW_open :: "bool \<Rightarrow> RawDataFrame list option \<Rightarrow> nat \<Rightarrow> string + SHM_RAW" where
  "SHM_RAW_open ndebug segment actualSize = (case segment of
     None \<Rightarrow> Inl ''Opening returned an error''
   | Some frames \<Rightarrow>
       Inr \<lparr>shm = frames,
            shmSize = (if ndebug then actualSize else MaxRawDataFrameQueueSize * sizeof_RawDataFrame)\<rparr>)"

definition shm_getSizeInBytes :: "bool \<Rightarrow> SHM_RAW \<Rightarrow> nat \<times> SHM_RAW" where
  "shm_getSizeInBytes ndebug s =
     (let s' = (if ndebug then s else s\<lparr>shmSize := MaxRawDataFrameQueueSize * sizeof_RawDataFrame\<rparr>)
      in (shmSize s', s'))"

definition shm_getSizeInFrames :: "SHM_RAW \<Rightarrow> nat" where
  "shm_getSizeInFrames s = MaxRawDataFrameQueueSize"

definition shm_getRawDataFrame :: "SHM_RAW \<Rightarrow> int \<Rightarrow> RawDataFrame checked" where
  "shm_getRawDataFrame s index = rdi (shm s) index"

definition shm_getFrameWord :: "SHM_RAW \<Rightarrow> int \<Rightarrow> int \<Rightarrow> u64 checked" where
  "shm_getFrameWord s index n = do { dataFrame \<leftarrow> rdi (shm s) index; rdi dataFrame n }"

definition shm_getFrameSize :: "SHM_RAW \<Rightarrow> int \<Rightarrow> u32 checked" where
  "shm_getFrameSize s index = shm_getRawDataFrame s index \<bind> frame_getFrameSize"

definition shm_getFrameID :: "SHM_RAW \<Rightarrow> int \<Rightarrow> u64 checked" where
  "shm_getFrameID s index = shm_getRawDataFrame s index \<bind> frame_getFrameID"

definition shm_getFrameLost :: "SHM_RAW \<Rightarrow> int \<Rightarrow> bool checked" where
  "shm_getFrameLost s index = shm_getRawDataFrame s index \<bind> frame_getFrameLost"

definition shm_getNEvents :: "SHM_RAW \<Rightarrow> int \<Rightarrow> int checked" where
  "shm_getNEvents s index = shm_getRawDataFrame s index \<bind> frame_getNEvents"

definition shm_getEFine :: "SHM_RAW \<Rightarrow> int \<Rightarrow> int \<Rightarrow> u32 checked" where
  "shm_getEFine s index event = do { f \<leftarrow> shm_getRawDataFrame s index; frame_getEFine f event }"

definition shm_getTFine :: "SHM_RAW \<Rightarrow> int \<Rightarrow> int \<Rightarrow> u32 checked" where
  "shm_getTFine s index event = do { f \<leftarrow> shm_getRawDataFrame s index; frame_getTFine f event }"

definition shm_getECoarse :: "SHM_RAW \<Rightarrow> int \<Rightarrow> int \<Rightarrow> u32 checked" where
  "shm_getECoarse s index event = do { f \<leftarrow> shm_getRawDataFrame s index; frame_getECoarse f event }"

definition shm_getTCoarse :: "SHM_RAW \<Rightarrow> int \<Rightarrow> int \<Rightarrow> u32 checked" where
  "shm_getTCoarse s index event = do { f \<leftarrow> shm_getRawDataFrame s index; frame_getTCoarse f event }"

definition shm_getTacID :: "SHM_RAW \<Rightarrow> int \<Rightarrow> int \<Rightarrow> u32 checked" where
  "shm_getTacID s index event = do { f \<leftarrow> shm_getRawDataFrame s index; frame_getTacID f event }"

definition shm_getChannelID :: "SHM_RAW \<Rightarrow> int \<Rightarrow> int \<Rightarrow> u32 checked" where
  "shm_getChannelID s index event = do { f \<leftarrow> shm_getRawDataFrame s index; frame_getChannelID f event }"

lemmas event_getters = getEFine_def getTFine_def getECoarse_def getTCoarse_def getTacID_def
  getChannelID_def

section \<open>Ranges and losslessness of the event word\<close>

lemma unat_mod_1024_u64: "unat ((w :: u64) mod 1024) = unat w mod 1024"
  by (simp add: unat_mod)

lemma unat_ucast_u64_u32: "unat (w :: u64) < 2 ^ 32 \<Longrightarrow> unat (ucast w :: u32) = unat w"
  by (simp add: unsigned_ucast_eq take_bit_nat_eq_self)

lemma unat_drop_bit_u64: "unat (drop_bit n (w :: u64)) = unat w div 2 ^ n"
  unfolding unsigned_drop_bit_eq using unsigned_less [of w, where ?'a = nat]
  by (simp add: drop_bit_eq_div take_bit_nat_eq_self)

lemma unat_field_u64:
  "unat (ucast (drop_bit n (w :: u64) mod 1024) :: u32) = unat w div 2 ^ n mod 1024"
  by (subst unat_ucast_u64_u32) (simp_all add: unat_mod_1024_u64 unat_drop_bit_u64)

lemma unat_fine_shift:
  "unat (v :: u32) < 1024 \<Longrightarrow> unat ((v + 27) mod 1024) = (unat v + 27) mod 1024"
  by (simp add: unat_mod unat_word_ariths)

lemma unat_getEFine: "unat (getEFine w) = (unat w mod 1024 + 27) mod 1024"
  using unat_field_u64 [of 0 w] by (simp add: getEFine_def Let_def unat_fine_shift)

lemma unat_getTFine: "unat (getTFine w) = (unat w div 2 ^ 10 mod 1024 + 27) mod 1024"
  unfolding getTFine_def Let_def by (subst unat_fine_shift) (simp_all add: unat_field_u64)

lemma unat_getECoarse: "unat (getECoarse w) = unat w div 2 ^ 20 mod 1024"
  unfolding getECoarse_def by (rule unat_field_u64)

lemma unat_getTCoarse: "unat (getTCoarse w) = unat w div 2 ^ 30 mod 1024"
  unfolding getTCoarse_def by (rule unat_field_u64)

lemma unat_getTacID: "unat (getTacID w) = unat w div 2 ^ 40 mod 4"
  unfolding getTacID_def by (subst unat_ucast_u64_u32) (simp_all add: unat_mod unat_drop_bit_u64)

lemma unat_u64_lt: "unat (w :: u64) < 2 ^ 64"
  using unsigned_less [of w] by simp

lemma unat_getChannelID: "unat (getChannelID w) = unat w div 2 ^ 42"
proof -
  have "unat w div 2 ^ 42 < 2 ^ 22"
    using unat_u64_lt [of w] by (simp add: less_mult_imp_div_less)
  then show ?thesis
    unfolding getChannelID_def by (subst unat_ucast_u64_u32) (simp_all add: unat_drop_bit_u64)
qed

lemmas unat_getters = unat_getEFine unat_getTFine unat_getECoarse unat_getTCoarse unat_getTacID
  unat_getChannelID

lemma getChannelID_bound: "unat (getChannelID w) < 2 ^ 22"
  using unat_u64_lt [of w] by (simp add: unat_getChannelID less_mult_imp_div_less)

lemma fine_unshift: "n < 1024 \<Longrightarrow> ((n + 27) mod 1024 + 997) mod 1024 = (n :: nat)"
  by (simp add: mod_add_left_eq)

text \<open>The layout of the word, from the most to the least significant field.\<close>

definition event_word :: "nat \<Rightarrow> nat \<Rightarrow> nat \<Rightarrow> nat \<Rightarrow> nat \<Rightarrow> nat \<Rightarrow> u64" where
  "event_word channel tac tcoarse ecoarse tfine efine =
     of_nat ((((((channel * 4 + tac) * 1024 + tcoarse) * 1024 + ecoarse) * 1024
              + (tfine + 997) mod 1024) * 1024) + (efine + 997) mod 1024)"

lemma digit_split: "n div k mod m + (n div (k * m)) * m = n div (k :: nat)"
  by (simp add: div_mult2_eq mult.commute)

text \<open>
  The six fields of an event word determine it: the readout loses no bit of the word, and in
  particular undoing the clock offset of the fine counters (27, modulo 1024) gives back the fields
  that the electronics wrote.
\<close>

theorem event_word_lossless:
  "event_word (unat (getChannelID w)) (unat (getTacID w)) (unat (getTCoarse w))
     (unat (getECoarse w)) (unat (getTFine w)) (unat (getEFine w)) = w"
proof -
  let ?n = "unat w"
  have "(unat (getTFine w) + 997) mod 1024 = ?n div 2 ^ 10 mod 1024"
    and "(unat (getEFine w) + 997) mod 1024 = ?n mod 1024"
    unfolding unat_getters by (rule fine_unshift, simp)+
  moreover have "unat (getChannelID w) * 4 + unat (getTacID w) = ?n div 2 ^ 40"
    using digit_split [of ?n "2 ^ 40" 4] unfolding unat_getters by simp
  moreover have "?n div 2 ^ 40 * 1024 + unat (getTCoarse w) = ?n div 2 ^ 30"
    using digit_split [of ?n "2 ^ 30" 1024] unfolding unat_getters by simp
  moreover have "?n div 2 ^ 30 * 1024 + unat (getECoarse w) = ?n div 2 ^ 20"
    using digit_split [of ?n "2 ^ 20" 1024] unfolding unat_getters by simp
  moreover have "?n div 2 ^ 20 * 1024 + ?n div 2 ^ 10 mod 1024 = ?n div 2 ^ 10"
    using digit_split [of ?n "2 ^ 10" 1024] by simp
  moreover have "?n div 2 ^ 10 * 1024 + ?n mod 1024 = ?n"
    by simp
  ultimately show ?thesis
    unfolding event_word_def by simp
qed

end
