(* ===== verification/EventBuffer.thy ===== *)
theory EventBuffer
  imports Prelude
begin

text \<open>
  The event buffers that the stages of the event pipeline pass on:
  \<open>AbstractEventBuffer\<close> and the template \<open>EventBuffer\<close> of
  \<open>external/base/include/EventBuffer.h\<close>.

  The memory of a buffer is the list \<^term>\<open>slots\<close> of its elements, where \<^const>\<open>None\<close> is an element
  that was never written; reading it or leaving the memory gives \<^const>\<open>None\<close>. The fields
  \<open>capacity\<close> and \<open>used\<close> are kept apart from the memory, as in the code, so that their agreement is an
  invariant to be proved. Both are of type \<open>size_t\<close> and bounded by the memory, and are natural
  numbers here; the capacity a constructor computes is of type \<open>unsigned\<close> and may wrap. Allocation
  is taken to succeed.
\<close>

record 'e EventBuffer =
  bufferSeqN :: u64
  bufferTMin :: int
  bufferTMax :: "int option"
  slots :: "'e option list"
  capacity :: nat
  used :: nat

definition initial_capacity :: "u32 \<Rightarrow> nat" where
  "initial_capacity n = unat ((n div 1024 + 1) * 1024)"

text \<open>The constructors: neither of them sets \<open>bufferTMax\<close>.\<close>

definition EventBuffer_child :: "u32 \<Rightarrow> 'a EventBuffer \<Rightarrow> 'e EventBuffer" where
  "EventBuffer_child n parent =
     \<lparr>bufferSeqN = bufferSeqN parent, bufferTMin = bufferTMin parent, bufferTMax = None,
      slots = replicate (initial_capacity n) None, capacity = initial_capacity n, used = 0\<rparr>"

definition EventBuffer_new :: "u32 \<Rightarrow> u32 \<Rightarrow> int \<Rightarrow> 'e EventBuffer" where
  "EventBuffer_new n seqN tMin =
     \<lparr>bufferSeqN = ucast seqN, bufferTMin = tMin, bufferTMax = None,
      slots = replicate (initial_capacity n) None, capacity = initial_capacity n, used = 0\<rparr>"

definition getSeqN :: "'e EventBuffer \<Rightarrow> u64" where
  "getSeqN b = bufferSeqN b"

definition getTMin :: "'e EventBuffer \<Rightarrow> int" where
  "getTMin b = bufferTMin b"

definition getTMax :: "'e EventBuffer \<Rightarrow> int checked" where
  "getTMax b = bufferTMax b"

definition setTMax :: "int \<Rightarrow> 'e EventBuffer \<Rightarrow> 'e EventBuffer" where
  "setTMax t b = b\<lparr>bufferTMax := Some t\<rparr>"

text \<open>\<open>realloc\<close> keeps the elements that fit and leaves new ones unwritten.\<close>

definition resize :: "nat \<Rightarrow> 'e option list \<Rightarrow> 'e option list" where
  "resize n xs = take n xs @ replicate (n - length xs) None"

definition reserve :: "nat \<Rightarrow> 'e EventBuffer \<Rightarrow> 'e EventBuffer" where
  "reserve newCapacity b =
     (if newCapacity \<le> capacity b then b
      else b\<lparr>slots := resize newCapacity (slots b), capacity := newCapacity\<rparr>)"

definition getCapacity :: "'e EventBuffer \<Rightarrow> nat" where
  "getCapacity b = capacity b"

definition getUsed :: "'e EventBuffer \<Rightarrow> nat" where
  "getUsed b = used b"

definition getSize :: "'e EventBuffer \<Rightarrow> nat" where
  "getSize b = used b"

definition setUsed :: "nat \<Rightarrow> 'e EventBuffer \<Rightarrow> 'e EventBuffer" where
  "setUsed n b = b\<lparr>used := n\<rparr>"

definition getFree :: "'e EventBuffer \<Rightarrow> nat" where
  "getFree b = (getCapacity b + 2 ^ 64 - getUsed b) mod 2 ^ 64"

text \<open>
  \<open>getWriteSlot\<close> returns the element behind the last one as a reference: the index of the slot
  and the buffer, grown when it was full. Assigning to the reference is \<open>assign\<close>.
\<close>

definition getWriteSlot :: "'e EventBuffer \<Rightarrow> nat \<times> 'e EventBuffer" where
  "getWriteSlot b =
     (if used b \<ge> capacity b then
        let increment = (capacity b div 10240 + 1) * 1024;
            newCapacity = capacity b + increment
        in (used b, b\<lparr>capacity := newCapacity, slots := resize newCapacity (slots b)\<rparr>)
      else (used b, b))"

definition assign :: "nat \<Rightarrow> 'e \<Rightarrow> 'e EventBuffer \<Rightarrow> 'e EventBuffer checked" where
  "assign i e b = (if i < length (slots b) then Some (b\<lparr>slots := (slots b)[i := Some e]\<rparr>) else None)"

definition pushWriteSlot :: "'e EventBuffer \<Rightarrow> 'e EventBuffer" where
  "pushWriteSlot b = b\<lparr>used := used b + 1\<rparr>"

definition push :: "'e \<Rightarrow> 'e EventBuffer \<Rightarrow> 'e EventBuffer checked" where
  "push e b = do {
     let (i, b1) = getWriteSlot b;
     b2 \<leftarrow> assign i e b1;
     Some (pushWriteSlot b2)
   }"

definition get :: "'e EventBuffer \<Rightarrow> nat \<Rightarrow> 'e checked" where
  "get b index = rd (slots b) index \<bind> id"

definition getLast :: "'e EventBuffer \<Rightarrow> 'e checked" where
  "getLast b = get b ((getSize b + 2 ^ 64 - 1) mod 2 ^ 64)"

text \<open>
  The stages that fill a buffer through its pointer write a block of elements from the position
  \<open>getPtr() + getUsed()\<close> on and then raise \<open>used\<close>.
\<close>

fun write_from :: "nat \<Rightarrow> 'e list \<Rightarrow> 'e EventBuffer \<Rightarrow> 'e EventBuffer checked" where
  "write_from i [] b = Some b"
| "write_from i (e # es) b = assign i e b \<bind> write_from (Suc i) es"

section \<open>The invariant and the contents\<close>

definition wf_buffer :: "'e EventBuffer \<Rightarrow> bool" where
  "wf_buffer b = (length (slots b) = capacity b \<and> used b \<le> capacity b
     \<and> None \<notin> set (take (used b) (slots b)))"

definition contents :: "'e EventBuffer \<Rightarrow> 'e list" where
  "contents b = map the (take (used b) (slots b))"

text \<open>The buffer holds exactly the events \<open>es\<close>, in this order.\<close>

definition holds :: "'e EventBuffer \<Rightarrow> 'e list \<Rightarrow> bool" where
  "holds b es = (length (slots b) = capacity b \<and> used b \<le> capacity b
     \<and> take (used b) (slots b) = map Some es)"

lemma eq_map_Some_iff: "xs = map Some es \<longleftrightarrow> None \<notin> set xs \<and> map the xs = es"
  by (induction xs arbitrary: es) (auto simp: Cons_eq_map_conv)

lemma holds_iff: "holds b es \<longleftrightarrow> wf_buffer b \<and> contents b = es"
  by (auto simp: holds_def wf_buffer_def contents_def eq_map_Some_iff)

lemma holds_used: "holds b es \<Longrightarrow> used b = length es"
  by (auto simp: holds_def dest: arg_cong [where f = length])

lemma holds_getSize: "holds b es \<Longrightarrow> getSize b = length es"
  by (simp add: getSize_def holds_used)

lemma holds_slot: "holds b es \<Longrightarrow> i < length es \<Longrightarrow> slots b ! i = Some (es ! i)"
  by (metis (no_types) holds_def holds_used length_map nth_map nth_take)

lemma holds_get:
  assumes "holds b es" "i < length es"
  shows "get b i = Some (es ! i)"
  using holds_slot [OF assms] holds_used [OF assms(1)] assms
  by (simp add: get_def holds_def)

lemma holds_new: "holds (EventBuffer_new n seqN t) []"
  by (simp add: holds_def EventBuffer_new_def)

lemma holds_child: "holds (EventBuffer_child n p) []"
  by (simp add: holds_def EventBuffer_child_def)

lemma length_resize [simp]: "length (resize n xs) = n"
  by (simp add: resize_def)

lemma take_resize: "k \<le> length xs \<Longrightarrow> k \<le> n \<Longrightarrow> take k (resize n xs) = take k xs"
  by (simp add: resize_def min_def)

lemma holds_reserve: "holds b es \<Longrightarrow> holds (reserve n b) es"
  by (auto simp: holds_def reserve_def take_resize)

lemma holds_getWriteSlot:
  assumes "holds b es" "getWriteSlot b = (i, b1)"
  shows "holds b1 es \<and> i = length es \<and> i < length (slots b1)"
  using assms holds_used [OF assms(1)]
  by (auto simp: getWriteSlot_def holds_def take_resize Let_def split: if_splits)

lemma holds_assign_at:
  assumes "holds b es" "length es < length (slots b)"
  obtains b' where "assign (length es) e b = Some b'" "holds (pushWriteSlot b') (es @ [e])"
proof
  let ?b = "b\<lparr>slots := (slots b)[length es := Some e]\<rparr>"
  show "assign (length es) e b = Some ?b" using assms by (simp add: assign_def)
  show "holds (pushWriteSlot ?b) (es @ [e])"
    using assms holds_used [OF assms(1)]
    by (auto simp: holds_def pushWriteSlot_def take_Suc_conv_app_nth)
qed

lemma holds_push: "holds b es \<Longrightarrow> \<exists>b'. push e b = Some b' \<and> holds b' (es @ [e])"
proof -
  assume b: "holds b es"
  obtain i b1 where s: "getWriteSlot b = (i, b1)" by force
  note w = holds_getWriteSlot [OF b s]
  then obtain b' where "assign (length es) e b1 = Some b'" "holds (pushWriteSlot b') (es @ [e])"
    using holds_assign_at by metis
  then show ?thesis using s w by (simp add: push_def)
qed

lemma push_keeps_identity:
  "push e b = Some b' \<Longrightarrow> bufferSeqN b' = bufferSeqN b \<and> bufferTMin b' = bufferTMin b \<and> bufferTMax b' = bufferTMax b"
  by (auto simp: push_def getWriteSlot_def assign_def pushWriteSlot_def Let_def split: if_splits)

section \<open>Writing through the pointer\<close>

lemma write_from_eq:
  "i + length vs \<le> length (slots b) \<Longrightarrow> write_from i vs b
     = Some (b\<lparr>slots := take i (slots b) @ map Some vs @ drop (i + length vs) (slots b)\<rparr>)"
proof (induction vs arbitrary: i b)
  case (Cons v vs)
  then have i: "i < length (slots b)" by simp
  then have "take (Suc i) ((slots b)[i := Some v]) = take i (slots b) @ [Some v]"
    by (simp add: take_Suc_conv_app_nth)
  then show ?case using Cons i by (simp add: assign_def)
qed simp

lemma holds_write_from:
  assumes "holds b es" "length es + length vs \<le> capacity b"
  shows "\<exists>ss. write_from (length es) vs b = Some (b\<lparr>slots := ss\<rparr>)
    \<and> holds (setUsed (length es + length vs) (b\<lparr>slots := ss\<rparr>)) (es @ vs)"
proof -
  have "length (slots b) = capacity b" "take (length es) (slots b) = map Some es"
    using assms(1) holds_used [OF assms(1)] by (auto simp: holds_def)
  then show ?thesis
    using assms(2)
    by (intro exI [of _ "map Some (es @ vs) @ drop (length es + length vs) (slots b)"])
      (simp add: write_from_eq holds_def setUsed_def)
qed

lemma getFree_holds:
  "holds b es \<Longrightarrow> capacity b < 2 ^ 64 \<Longrightarrow> getFree b = capacity b - length es"
proof -
  assume b: "holds b es" and c: "capacity b < 2 ^ 64"
  then have "capacity b + 2 ^ 64 - length es = (capacity b - length es) + 2 ^ 64"
    using holds_used [OF b] by (simp add: holds_def)
  then show ?thesis
    using c by (simp only: getFree_def getCapacity_def getUsed_def holds_used [OF b] mod_add_self2)
      (rule mod_less, linarith)
qed

lemma initial_capacity_bounds: "initial_capacity n < 2 ^ 32"
  using unsigned_less [where ?'a = nat, of "(n div 1024 + 1) * 1024"]
  by (simp only: initial_capacity_def) simp

lemma initial_capacity_no_wrap:
  assumes "unat n < 4294966272"
  shows "initial_capacity n = (unat n div 1024 + 1) * 1024"
proof -
  have lt: "unat n div 1024 < 4194303" using assms by linarith
  have "unat (n div 1024 + 1) = unat n div 1024 + 1"
    using lt by (simp add: unat_word_ariths unat_div)
  then show ?thesis
    using lt by (simp add: initial_capacity_def unat_word_ariths)
qed

lemma initial_capacity_ge: "unat n < 4294966272 \<Longrightarrow> unat n < initial_capacity n"
  by (simp add: initial_capacity_no_wrap)

section \<open>The interface of the event queue\<close>

primrec push_all :: "('e \<Rightarrow> 'b \<Rightarrow> 'b option) \<Rightarrow> 'e list \<Rightarrow> 'b \<Rightarrow> 'b option" where
  "push_all p [] b = Some b"
| "push_all p (e # es) b = p e b \<bind> push_all p es"

text \<open>
  What a stage relies on when it appends events one by one: appending never fails and adds the
  event behind the ones that are there.
\<close>

locale event_queue =
  fixes enq :: "'e \<Rightarrow> 'b \<Rightarrow> 'b option"
    and repr :: "'b \<Rightarrow> 'e list \<Rightarrow> bool"
  assumes enq_repr: "repr b es \<Longrightarrow> \<exists>b'. enq e b = Some b' \<and> repr b' (es @ [e])"
begin

lemma push_all_repr: "repr b es \<Longrightarrow> \<exists>b'. push_all enq fs b = Some b' \<and> repr b' (es @ fs)"
proof (induction fs arbitrary: b es)
  case (Cons f fs)
  obtain b1 where "enq f b = Some b1" "repr b1 (es @ [f])"
    using enq_repr [OF Cons.prems] by blast
  then show ?case using Cons.IH by fastforce
qed simp

end

interpretation eb: event_queue push holds
  by unfold_locales (rule holds_push)

lemma push_all_keeps_identity:
  "push_all push es b = Some b' \<Longrightarrow>
     bufferSeqN b' = bufferSeqN b \<and> bufferTMin b' = bufferTMin b \<and> bufferTMax b' = bufferTMax b"
  by (induction es arbitrary: b) (auto simp: bind_eq_Some_conv dest!: push_keeps_identity)

text \<open>
  Pushing any number of events onto a buffer that was constructed with any initial capacity
  (also one for which the rounding to whole kilo-elements wraps to zero) never writes outside of
  its memory. Afterwards the buffer has their number as its size, \<open>get\<close> returns each of them at
  its position, and sequence number and start time are those of the construction.
\<close>

theorem push_all_new:
  "\<exists>b. push_all push es (EventBuffer_new n seqN t) = Some b \<and> getSize b = length es
     \<and> wf_buffer b \<and> map (get b) [0..<getSize b] = map Some es
     \<and> getSeqN b = ucast seqN \<and> getTMin b = t"
proof -
  obtain b where b: "push_all push es (EventBuffer_new n seqN t) = Some b" "holds b es"
    using eb.push_all_repr [OF holds_new] by fastforce
  have "map (get b) [0..<getSize b] = map Some es"
    using holds_get [OF b(2)] holds_getSize [OF b(2)] by (intro nth_equalityI) auto
  then show ?thesis
    using b holds_getSize push_all_keeps_identity [OF b(1)]
    by (auto simp: holds_iff getSeqN_def getTMin_def EventBuffer_new_def)
qed

end
