(* ===== verification/RawReader.thy ===== *)
theory RawReader
  imports EventWord EventBuffer
begin

text \<open>
  The reader of raw data files (\<open>external/rawdata/src/RawReader.cpp\<close>, \<open>include/RawReader.h\<close>): the
  file header and channel modes, the buffered byte reader, the step index, the loop that cuts a step into
  blocks of undecoded hits for the worker threads and accounts for lost frames, and the decoder of
  a block.

  The operating system is the sequence of the answers that \<open>read\<close> will give
  (\<^const>\<open>None\<close> is an error, an empty answer the end of the file) and the sequence of what \<open>fscanf\<close> will
  find in the index file. Files of running acquisitions grow, so an empty answer may be followed by
  data. When the answers are used up the reader is still waiting. Assertions are those of a build that
  compiles them in. Floating point values are their bit patterns.
\<close>

section \<open>State\<close>

definition MAX_NUMBER_CHANNELS :: nat where
  "MAX_NUMBER_CHANNELS = 4194304"

definition dataFileBufferSize :: nat where
  "dataFileBufferSize = 131072"

definition ULLONG_MAX :: u64 where
  "ULLONG_MAX = - 1"

record RawReader =
  indexIsTemp :: bool
  stepValue1 :: u32
  stepValue2 :: u32
  stepBegin :: u64
  stepEnd :: u64
  dataFileBuffer :: "u8 list"
  frequency :: u32
  qdcMode :: "nat \<rightharpoonup> bool"
  triggerID :: int
  answers :: "u8 list option list"
  indexAnswers :: "u64 option list"

record UndecodedHit =
  frameID :: u64
  eventWord :: u64

record RawHit =
  valid :: bool
  qdc :: bool
  time :: int
  timeEnd :: int
  channelID :: u32
  hitFrameID :: u64
  tcoarse :: u16
  ecoarse :: u16
  tfine :: u16
  efine :: u16
  tacID :: u16

section \<open>Opening a file\<close>

text \<open>One line of the mode file that \<open>sscanf\<close> could read: port, slave, chip, channel and mode.\<close>

type_synonym mode_line = "u32 \<times> u32 \<times> u32 \<times> u32 \<times> string"

definition mode_channel :: "u32 \<Rightarrow> u32 \<Rightarrow> u32 \<Rightarrow> u32 \<Rightarrow> u64" where
  "mode_channel portID slaveID chipID channel =
     ucast channel OR ucast (push_bit 6 chipID) OR ucast (push_bit 12 slaveID) OR ucast (push_bit 17 portID)"

fun load_modes :: "mode_line list \<Rightarrow> (nat \<rightharpoonup> bool) \<Rightarrow> (nat \<rightharpoonup> bool) checked" where
  "load_modes [] m = Some m"
| "load_modes ((portID, slaveID, chipID, channel, mode) # ls) m =
     (let g = unat (mode_channel portID slaveID chipID channel) in
      if g < MAX_NUMBER_CHANNELS then load_modes ls (m(g \<mapsto> (mode = ''qdc''))) else None)"

definition header_qdcMode :: "u64 \<Rightarrow> nat \<rightharpoonup> bool" where
  "header_qdcMode h0 = (\<lambda>g. if g < MAX_NUMBER_CHANNELS then Some (h0 AND 0x100000000 \<noteq> 0) else None)"

datatype open_error = NoIndexFile | NoDataFile | NoHeader | ShortHeader | NoModeFile

text \<open>
  \<open>tmpf\<close>, \<open>idxf\<close> and \<open>rawf\<close> say whether the files can be opened, \<open>got\<close> is what \<open>read\<close> returns for the
  64 bytes of the header with the words it filled, and \<open>modf\<close> the lines of the mode file.
\<close>

definition openFile ::
  "bool \<Rightarrow> bool \<Rightarrow> bool \<Rightarrow> int \<Rightarrow> u64 list \<Rightarrow> mode_line list option \<Rightarrow> (open_error + RawReader) checked" where
  "openFile tmpf idxf rawf got header modf =
     (if \<not> tmpf \<and> \<not> idxf then Some (Inl NoIndexFile)
      else if \<not> rawf then Some (Inl NoDataFile)
      else if got < 1 then Some (Inl NoHeader)
      else if got < 64 then Some (Inl ShortHeader)
      else do {
        h0 \<leftarrow> rd header 0;
        h2 \<leftarrow> rd header 2;
        h3 \<leftarrow> rd header 3;
        let trigger = (if h2 AND 0x8000 \<noteq> 0 then uint (h2 AND 0x7FFF) else -1);
        let reader = \<lparr>indexIsTemp = tmpf, stepValue1 = 0, stepValue2 = 0, stepBegin = 0, stepEnd = 0,
          dataFileBuffer = [], frequency = ucast (h0 AND 0xFFFFFFFF), qdcMode = Map.empty,
          triggerID = trigger, answers = [], indexAnswers = []\<rparr>;
        if h3 \<noteq> 0 then
          (case modf of
             None \<Rightarrow> Some (Inl NoModeFile)
           | Some ls \<Rightarrow> do { m \<leftarrow> load_modes ls Map.empty; Some (Inr (reader\<lparr>qdcMode := m\<rparr>)) })
        else Some (Inr (reader\<lparr>qdcMode := header_qdcMode h0\<rparr>))
      })"

definition getFrequency :: "RawReader \<Rightarrow> u32" where
  "getFrequency r = frequency r"

definition isQDC :: "RawReader \<Rightarrow> u32 \<Rightarrow> bool checked" where
  "isQDC r gChannelID = (if unat gChannelID < MAX_NUMBER_CHANNELS then qdcMode r (unat gChannelID) else None)"

function isTOT_from :: "RawReader \<Rightarrow> nat \<Rightarrow> bool checked" where
  "isTOT_from r g =
     (if g < MAX_NUMBER_CHANNELS then
        (case isQDC r (of_nat g) of
           None \<Rightarrow> None
         | Some True \<Rightarrow> Some False
         | Some False \<Rightarrow> isTOT_from r (Suc g))
      else Some True)"
  by pat_completeness auto
termination by (relation "measure (\<lambda>(r, g). MAX_NUMBER_CHANNELS - g)") auto

definition isTOT :: "RawReader \<Rightarrow> bool checked" where
  "isTOT r = isTOT_from r 0"

definition getTriggerID :: "RawReader \<Rightarrow> int" where
  "getTriggerID r = triggerID r"

section \<open>The step index\<close>

text \<open>
  \<open>fscanf\<close> converts a first part of the fields of its format and assigns these: \<open>n\<close> is the number
  that it returns.
\<close>

definition getNextStep_index :: "RawReader \<Rightarrow> nat \<times> u64 \<times> u64 \<times> u32 \<times> u32 \<Rightarrow> bool \<times> RawReader" where
  "getNextStep_index r = (\<lambda>(n, b, e, v1, v2).
     (n = 6, r\<lparr>stepBegin := if 1 \<le> n then b else stepBegin r, stepEnd := if 2 \<le> n then e else stepEnd r,
              stepValue1 := if 5 \<le> n then v1 else stepValue1 r,
              stepValue2 := if 6 \<le> n then v2 else stepValue2 r\<rparr>))"

definition getNextStep_temp :: "RawReader \<Rightarrow> u32 option \<Rightarrow> u32 option \<Rightarrow> u64 option \<Rightarrow> bool \<times> RawReader" where
  "getNextStep_temp r f1 f2 f3 = (case f1 of
     None \<Rightarrow> (False, r)
   | Some v1 \<Rightarrow> (case f2 of
       None \<Rightarrow> (False, r\<lparr>stepValue1 := v1\<rparr>)
     | Some v2 \<Rightarrow> (case f3 of
         None \<Rightarrow> (False, r\<lparr>stepValue1 := v1, stepValue2 := v2\<rparr>)
       | Some b \<Rightarrow>
           (b < ULLONG_MAX,
            r\<lparr>stepValue1 := v1, stepValue2 := v2, stepBegin := b, stepEnd := ULLONG_MAX\<rparr>))))"

definition getStepValue :: "RawReader \<Rightarrow> u32 \<times> u32" where
  "getStepValue r = (stepValue1 r, stepValue2 r)"

definition getStepBegin :: "RawReader \<Rightarrow> u64" where
  "getStepBegin r = stepBegin r"

definition getStepEnd :: "RawReader \<Rightarrow> u64 \<times> RawReader" where
  "getStepEnd r =
     (if stepEnd r < ULLONG_MAX then (stepEnd r, r)
      else if \<not> indexIsTemp r then (stepEnd r, r)
      else case indexAnswers r of
        Some readValue # as \<Rightarrow> (readValue, r\<lparr>stepEnd := readValue, indexAnswers := as\<rparr>)
      | None # as \<Rightarrow> (stepEnd r, r\<lparr>indexAnswers := as\<rparr>)
      | [] \<Rightarrow> (stepEnd r, r))"

section \<open>The buffered reader\<close>

datatype refill = Stalled | ReadError RawReader | Retry RawReader | Filled RawReader

definition refill :: "RawReader \<Rightarrow> refill" where
  "refill r = (case answers r of
     [] \<Rightarrow> Stalled
   | None # as \<Rightarrow> ReadError (r\<lparr>answers := as\<rparr>)
   | Some [] # as \<Rightarrow>
       (let (e, r1) = getStepEnd (r\<lparr>answers := as\<rparr>) in
        if e = ULLONG_MAX then Retry r1
        else (case answers r1 of
           [] \<Rightarrow> Stalled
         | None # as' \<Rightarrow> ReadError (r1\<lparr>answers := as'\<rparr>)
         | Some bs # as' \<Rightarrow> Filled (r1\<lparr>answers := as', dataFileBuffer := bs\<rparr>)))
   | Some bs # as \<Rightarrow> Filled (r\<lparr>answers := as, dataFileBuffer := bs\<rparr>))"

text \<open>The bytes that the answers of the operating system will still deliver.\<close>

definition pending :: "u8 list option list \<Rightarrow> u8 list" where
  "pending as = concat (map (case_option [] id) as)"

definition stream :: "RawReader \<Rightarrow> u8 list" where
  "stream r = dataFileBuffer r @ pending (answers r)"

lemma pending_simps [simp]:
  "pending [] = []" "pending (None # as) = pending as" "pending (Some bs # as) = bs @ pending as"
  by (simp_all add: pending_def)

lemma getStepEnd_keeps:
  "getStepEnd r = (e, r') \<Longrightarrow> answers r' = answers r \<and> dataFileBuffer r' = dataFileBuffer r"
  by (auto simp: getStepEnd_def split: list.splits option.splits if_splits)

lemma refill_Some_Nil:
  assumes "answers r = Some [] # as"
  obtains e r1 where "getStepEnd (r\<lparr>answers := as\<rparr>) = (e, r1)" "answers r1 = as"
    "dataFileBuffer r1 = dataFileBuffer r"
proof (cases "getStepEnd (r\<lparr>answers := as\<rparr>)")
  case (Pair e r1)
  then show thesis using that [of e r1] getStepEnd_keeps [OF Pair] by simp
qed

lemma refill_cases:
  assumes "dataFileBuffer r = []"
  shows "case refill r of Stalled \<Rightarrow> True
    | ReadError r' \<Rightarrow> stream r' = stream r
    | Retry r' \<Rightarrow> length (answers r') < length (answers r) \<and> stream r' = stream r
    | Filled r' \<Rightarrow> length (answers r') < length (answers r) \<and> stream r' = stream r"
proof (cases "answers r")
  case (Cons a as)
  show ?thesis
  proof (cases "a = Some []")
    case True
    then obtain e r1 where "getStepEnd (r\<lparr>answers := as\<rparr>) = (e, r1)" "answers r1 = as"
      "dataFileBuffer r1 = dataFileBuffer r"
      using Cons refill_Some_Nil by metis
    then show ?thesis
      using True Cons assms by (auto simp: refill_def stream_def split: list.splits option.splits)
  qed (use Cons assms in \<open>auto simp: refill_def stream_def split: list.splits option.splits\<close>)
qed (simp add: refill_def)

lemma refill_Retry: "refill r = Retry r' \<Longrightarrow> dataFileBuffer r = [] \<Longrightarrow> length (answers r') < length (answers r)"
  and refill_Filled: "refill r = Filled r' \<Longrightarrow> dataFileBuffer r = [] \<Longrightarrow> length (answers r') < length (answers r)"
  using refill_cases [of r] by auto

text \<open>
  The loop of \<open>readFromDataFile\<close>: \<open>buf\<close> are the bytes copied so far, so \<open>rval\<close> is their number.
  \<^const>\<open>None\<close> says that the call has not returned yet.
\<close>

function readLoop :: "nat \<Rightarrow> u8 list \<Rightarrow> RawReader \<Rightarrow> (int \<times> u8 list \<times> RawReader) option" where
  "readLoop wanted buf r =
     (if length buf < wanted then
        (case (if dataFileBuffer r = [] then refill r else Filled r) of
           Stalled \<Rightarrow> None
         | ReadError r1 \<Rightarrow> Some (-1, buf, r1)
         | Retry r1 \<Rightarrow> readLoop wanted buf r1
         | Filled r1 \<Rightarrow>
             (let count2 = min (wanted - length buf) (length (dataFileBuffer r1));
                  buf' = buf @ take count2 (dataFileBuffer r1);
                  r2 = r1\<lparr>dataFileBuffer := drop count2 (dataFileBuffer r1)\<rparr>
              in if count2 = 0 then Some (int (length buf'), buf', r2) else readLoop wanted buf' r2))
      else Some (int (length buf), buf, r))"
  by pat_completeness auto
termination
proof (relation "measure (\<lambda>(wanted, buf, r). length (answers r) + (wanted - length buf))", goal_cases)
  case (2 wanted buf r r1)
  then show ?case by (auto split: if_splits dest: refill_Retry)
next
  case (3 wanted buf r r1 count2 buf' r2)
  then have "length (answers r1) \<le> length (answers r)"
    by (auto split: if_splits dest: refill_Filled)
  moreover have "length buf' = length buf + count2" "0 < count2" "count2 \<le> wanted - length buf"
    "answers r2 = answers r1"
    using 3 by simp_all
  ultimately show ?case using 3(1) by simp
qed simp

definition readFromDataFile :: "nat \<Rightarrow> RawReader \<Rightarrow> (int \<times> u8 list \<times> RawReader) option" where
  "readFromDataFile wanted r = readLoop wanted [] r"

declare readLoop.simps [simp del]

section \<open>Processing a step\<close>

text \<open>The words of a frame are read as bytes in the order of the host, which is little endian.\<close>

fun le64 :: "u8 list \<Rightarrow> u64" where
  "le64 [] = 0"
| "le64 (b # bs) = ucast b OR push_bit 8 (le64 bs)"

definition words64 :: "nat \<Rightarrow> u8 list \<Rightarrow> u64 list" where
  "words64 n bs = map (\<lambda>i. le64 (take 8 (drop (8 * i) bs))) [0..<n]"

datatype step_error = Waiting | ShortFrameHeader | FrameTooLong | ShortFrameBody | OutsideBuffer

text \<open>The local variables of \<open>processStep\<close>; \<open>queued\<close> are the blocks handed to the thread pool.\<close>

record step_state =
  reader :: RawReader
  queued :: "UndecodedHit EventBuffer list"
  outBuffer :: "UndecodedHit EventBuffer option"
  seqN :: u64
  currentBufferFirstFrame :: int
  currentPosition :: u64
  lastFrameID :: int
  lastFrameWasLost0 :: bool
  nFrames :: int
  nFramesLost0 :: int
  nFramesLostN :: int
  nEventsNoLost :: int
  nEventsSomeLost :: int

definition step_init :: "RawReader \<Rightarrow> step_state" where
  "step_init r = \<lparr>reader = r\<lparr>dataFileBuffer := []\<rparr>, queued = [], outBuffer = None, seqN = 0,
     currentBufferFirstFrame = 0, currentPosition = getStepBegin r, lastFrameID = -1,
     lastFrameWasLost0 = False, nFrames = 0, nFramesLost0 = 0, nFramesLostN = 0,
     nEventsNoLost = 0, nEventsSomeLost = 0\<rparr>"

text \<open>Reading \<open>n\<close> words: the assertion that the whole amount was read gives the error.\<close>

definition read_words :: "step_error \<Rightarrow> nat \<Rightarrow> RawReader \<Rightarrow> step_error + u64 list \<times> RawReader" where
  "read_words short n r = (case readFromDataFile (8 * n) r of
     None \<Rightarrow> Inl Waiting
   | Some (got, buf, r') \<Rightarrow> if got = 8 * int n then Inr (words64 n buf, r') else Inl short)"

text \<open>The accounting of frames and events; the number of skipped frames is narrowed to \<open>int\<close>.\<close>

definition account_frame :: "int \<Rightarrow> bool \<Rightarrow> int \<Rightarrow> step_state \<Rightarrow> step_state" where
  "account_frame fid frameLost n st0 =
     (let st = (if lastFrameID st0 = -1 then st0\<lparr>lastFrameID := fid - 1\<rparr> else st0);
          skippedFrames = (if fid \<noteq> lastFrameID st + 1
                           then signed_take_bit 31 (fid - lastFrameID st - 1) else 0);
          lost0 = (frameLost \<and> n = 0);
          lostN = (frameLost \<and> n \<noteq> 0)
      in st\<lparr>nFrames := nFrames st + skippedFrames + 1,
            nFramesLost0 := nFramesLost0 st + (if lastFrameWasLost0 st then skippedFrames else 0)
              + (if lost0 then 1 else 0),
            nFramesLostN := nFramesLostN st + (if lostN then 1 else 0),
            nEventsSomeLost := nEventsSomeLost st + (if frameLost then n else 0),
            nEventsNoLost := nEventsNoLost st + (if frameLost then 0 else n),
            lastFrameWasLost0 := lost0, lastFrameID := fid\<rparr>)"

text \<open>The block that takes the \<open>n\<close> events of the frame: the current one or a new one.\<close>

definition new_block :: "int \<Rightarrow> nat \<Rightarrow> u64 \<Rightarrow> UndecodedHit EventBuffer" where
  "new_block fid n k = EventBuffer_new (of_nat (max n 2048)) (ucast k) (fid * 1024)"

definition choose_block :: "int \<Rightarrow> nat \<Rightarrow> step_state \<Rightarrow> UndecodedHit EventBuffer \<times> step_state" where
  "choose_block fid n st = (case outBuffer st of
     None \<Rightarrow> (new_block fid n (seqN st), st\<lparr>currentBufferFirstFrame := fid, seqN := seqN st + 1\<rparr>)
   | Some b \<Rightarrow>
       if getFree b < n \<or> fid - currentBufferFirstFrame st > 2 ^ 32
       then (new_block fid n (seqN st),
             st\<lparr>queued := queued st @ [b], currentBufferFirstFrame := fid, seqN := seqN st + 1\<rparr>)
       else (b, st))"

definition store_events :: "int \<Rightarrow> u64 list \<Rightarrow> step_state \<Rightarrow> step_error + step_state" where
  "store_events fid ws st =
     (let n = length ws; (b, st1) = choose_block fid n st;
          hits = map (\<lambda>w. \<lparr>frameID = word_of_int (fid - currentBufferFirstFrame st1), eventWord = w\<rparr>) ws
      in case write_from (getUsed b) hits b of
           None \<Rightarrow> Inl OutsideBuffer
         | Some b1 \<Rightarrow>
             Inr (st1\<lparr>outBuffer := Some (setTMax ((fid + 1) * 1024) (setUsed (getUsed b + n) b1))\<rparr>))"

text \<open>The body of the loop.\<close>

definition processFrame :: "step_state \<Rightarrow> step_error + step_state" where
  "processFrame st0 = (case read_words ShortFrameHeader 2 (reader st0) of
     Inl e \<Rightarrow> Inl e
   | Inr (header, r1) \<Rightarrow>
       (let n = nevents_of_header (header ! 1);
            fid = uint (id_of_header (header ! 0));
            st1 = st0\<lparr>reader := r1, currentPosition := currentPosition st0 + 16\<rparr>
        in if n + 2 > int MaxRawDataFrameSize then Inl FrameTooLong
           else let st2 = account_frame fid (lost_of_header (header ! 1)) n st1
           in if n = 0 then Inr st2
           else case read_words ShortFrameBody (nat n) (reader st2) of
                  Inl e \<Rightarrow> Inl e
                | Inr (ws, r2) \<Rightarrow>
                    store_events fid ws
                      (st2\<lparr>reader := r2, currentPosition := currentPosition st2 + of_int (8 * n)\<rparr>)))"

lemma readLoop_Filled:
  assumes "length buf < wanted" "(if dataFileBuffer r = [] then refill r else Filled r) = Filled r1"
    and "k = min (wanted - length buf) (length (dataFileBuffer r1))"
  shows "readLoop wanted buf r =
     (let buf' = buf @ take k (dataFileBuffer r1); r2 = r1\<lparr>dataFileBuffer := drop k (dataFileBuffer r1)\<rparr>
      in if k = 0 then Some (int (length buf'), buf', r2) else readLoop wanted buf' r2)"
  unfolding assms(3) by (subst readLoop.simps) (simp only: assms(1,2) if_True refill.case Let_def)

lemma readLoop_conserves:
  "readLoop wanted buf r = Some (v, buf', r') \<Longrightarrow>
     buf' @ stream r' = buf @ stream r \<and> (v = -1 \<or> v = int (length buf'))"
proof (induction wanted buf r rule: readLoop.induct)
  case (1 wanted buf r)
  let ?f = "if dataFileBuffer r = [] then refill r else Filled r"
  show ?case
  proof (cases "length buf < wanted")
    case True
    show ?thesis
    proof (cases ?f)
      case (ReadError r1)
      then show ?thesis
        using 1(3) True refill_cases [of r] by (auto simp: readLoop.simps split: if_splits)
    next
      case (Retry r1)
      then have "stream r1 = stream r" using refill_cases [of r] by (auto split: if_splits)
      then show ?thesis using 1(1) [OF True Retry] 1(3) True Retry by (auto simp: readLoop.simps [of wanted buf r])
    next
      case (Filled r1)
      then have s: "stream r1 = stream r" using refill_cases [of r] by (auto split: if_splits)
      let ?k = "min (wanted - length buf) (length (dataFileBuffer r1))"
      let ?r2 = "r1\<lparr>dataFileBuffer := drop ?k (dataFileBuffer r1)\<rparr>"
      have s2: "take ?k (dataFileBuffer r1) @ stream ?r2 = stream r"
        by (simp add: s [symmetric]) (simp add: stream_def)
      show ?thesis
      proof (cases "?k = 0")
        case True
        then have "dataFileBuffer r1 = []" using \<open>length buf < wanted\<close> by (auto simp: min_def split: if_splits)
        then show ?thesis
          using 1(3) Filled \<open>length buf < wanted\<close> s
          by (auto simp: readLoop.simps [of wanted buf r] stream_def)
      next
        case False
        then have "readLoop wanted (buf @ take ?k (dataFileBuffer r1)) ?r2 = Some (v, buf', r')"
          using 1(3) unfolding readLoop_Filled [OF True Filled refl] Let_def by (simp only: False if_False)
        then show ?thesis using 1(2) [OF True Filled refl refl refl False] s2 by simp
      qed
    qed (use 1(3) True in \<open>simp add: readLoop.simps [of wanted buf r]\<close>)
  qed (use 1(3) in \<open>auto simp add: readLoop.simps [of wanted buf r]\<close>)
qed

lemma read_words_conserves:
  assumes "read_words e n r = Inr (ws, r')"
  shows "length (stream r) = length (stream r') + 8 * n \<and> length ws = n
    \<and> ws = words64 n (take (8 * n) (stream r)) \<and> stream r' = drop (8 * n) (stream r)"
proof -
  obtain buf where b: "readLoop (8 * n) [] r = Some (8 * int n, buf, r')" and ws: "ws = words64 n buf"
    using assms by (auto simp: read_words_def readFromDataFile_def split: option.splits prod.splits if_splits)
  have "buf @ stream r' = stream r" "length buf = 8 * n"
    using readLoop_conserves [OF b] by auto
  then show ?thesis using ws by (auto simp: words64_def simp flip: \<open>buf @ stream r' = stream r\<close>)
qed

lemma reader_store_events: "store_events fid ws st = Inr st' \<Longrightarrow> reader st' = reader st"
  by (auto simp: store_events_def choose_block_def Let_def split: option.splits if_splits prod.splits)

lemma reader_account_frame [simp]: "reader (account_frame fid l n st) = reader st"
  by (simp add: account_frame_def Let_def)

lemma processFrame_header:
  assumes "read_words ShortFrameHeader 2 (reader st) = Inr (header, r1)"
    and "n = nevents_of_header (header ! 1)" and "fid = uint (id_of_header (header ! 0))"
    and "st2 = account_frame fid (lost_of_header (header ! 1)) n
                 (st\<lparr>reader := r1, currentPosition := currentPosition st + 16\<rparr>)"
  shows "processFrame st =
     (if n + 2 > int MaxRawDataFrameSize then Inl FrameTooLong
      else if n = 0 then Inr st2
      else case read_words ShortFrameBody (nat n) r1 of
             Inl e \<Rightarrow> Inl e
           | Inr (ws, r2) \<Rightarrow> store_events fid ws
               (st2\<lparr>reader := r2, currentPosition := currentPosition st2 + of_int (8 * n)\<rparr>))"
  unfolding processFrame_def assms(2-4) by (simp add: assms(1) Let_def del: One_nat_def)

lemma processFrame_consumes:
  assumes st': "processFrame st = Inr st'"
  shows "length (stream (reader st')) < length (stream (reader st))"
proof (cases "read_words ShortFrameHeader 2 (reader st)")
  case (Inr p)
  obtain header r1 where p: "p = (header, r1)" by force
  have r1: "length (stream (reader st)) = length (stream r1) + 16"
    using read_words_conserves [THEN conjunct1, OF Inr [unfolded p]] by simp
  define n fid where defs: "n = nevents_of_header (header ! 1)" "fid = uint (id_of_header (header ! 0))"
  define st2 where "st2 = account_frame fid (lost_of_header (header ! 1)) n
      (st\<lparr>reader := r1, currentPosition := currentPosition st + 16\<rparr>)"
  note eq = processFrame_header [OF Inr [unfolded p] defs st2_def]
  show ?thesis
  proof (cases "n = 0")
    case True
    then show ?thesis
      using st' r1 unfolding eq by (auto simp: st2_def split: if_splits)
  next
    case False
    then obtain ws r2 where r2: "read_words ShortFrameBody (nat n) r1 = Inr (ws, r2)" "reader st' = r2"
      using st' unfolding eq by (auto split: if_splits sum.splits dest: reader_store_events)
    then show ?thesis using r1 read_words_conserves [THEN conjunct1, OF r2(1)] by simp
  qed
qed (use st' in \<open>simp add: processFrame_def\<close>)

function processLoop :: "step_state \<Rightarrow> step_error + step_state" where
  "processLoop st =
     (let (e, r) = getStepEnd (reader st); st1 = st\<lparr>reader := r\<rparr> in
      if currentPosition st < e then
        (case processFrame st1 of Inl err \<Rightarrow> Inl err | Inr st2 \<Rightarrow> processLoop st2)
      else Inr st1)"
  by pat_completeness auto
termination
proof (relation "measure (\<lambda>st. length (stream (reader st)))", goal_cases)
  case (2 st x e r st1 st2)
  then have "stream r = stream (reader st)"
    using getStepEnd_keeps [of "reader st" e r] by (simp add: stream_def)
  then show ?case using processFrame_consumes [of st1 st2] 2 by simp
qed simp

declare processLoop.simps [simp del]

text \<open>The blocks that are queued for the decoder in the course of a step, and the counters.\<close>

definition processStep :: "RawReader \<Rightarrow> step_error + step_state" where
  "processStep r = (case processLoop (step_init r) of
     Inl e \<Rightarrow> Inl e
   | Inr st \<Rightarrow> Inr (case outBuffer st of None \<Rightarrow> st | Some b \<Rightarrow> st\<lparr>queued := queued st @ [b], outBuffer := None\<rparr>))"

section \<open>The decoder\<close>

definition long_long :: "u64 \<Rightarrow> int" where
  "long_long w = sint w"

definition decode_hit :: "RawReader \<Rightarrow> UndecodedHit \<Rightarrow> RawHit checked" where
  "decode_hit r h = do {
     let w = eventWord h;
     let ch = getChannelID w;
     q \<leftarrow> isQDC r ch;
     let tc = (ucast (getTCoarse w) :: u16);
     let ec = (ucast (getECoarse w) :: u16);
     let t = long_long (frameID h * 1024 + ucast tc);
     let te = long_long (frameID h * 1024 + ucast ec);
     Some \<lparr>valid = True, qdc = q, time = t, timeEnd = (if te - t < -256 then te + 1024 else te),
       channelID = ch, hitFrameID = frameID h, tcoarse = tc, ecoarse = ec,
       tfine = ucast (getTFine w), efine = ucast (getEFine w), tacID = ucast (getTacID w)\<rparr>
   }"

text \<open>
  \<open>Decoder::handleEvents\<close>: reads every hit of the block, writes as many through the pointer of a new buffer
  of this capacity.
\<close>

definition Decoder_handleEvents :: "RawReader \<Rightarrow> UndecodedHit EventBuffer \<Rightarrow> RawHit EventBuffer checked" where
  "Decoder_handleEvents r inBuffer = do {
     let n = getSize inBuffer;
     hits \<leftarrow> those (map (\<lambda>i. get inBuffer i \<bind> decode_hit r) [0..<n]);
     b \<leftarrow> write_from 0 hits (EventBuffer_child (of_nat n) inBuffer);
     Some (setUsed n b)
   }"

end
