(* ===== verification/SystemConfig.thy ===== *)
theory SystemConfig
  imports Prelude
begin

text \<open>
  The system configuration of the event pipeline (\<open>external/base/src/SystemConfig.cpp\<close> and its header): the
  calibration constants per channel, the channel map, the trigger map and the options of the software trigger.

  The text of a table is read line by line with \<open>sscanf\<close>; a table is the list of its lines, \<^const>\<open>None\<close> for a line
  that is empty or does not have the fields (the loaders skip it). Floating-point numbers are values of a type
  variable. The arrays are accessed as in the code, without checks: \<^const>\<open>None\<close> as a result
  says that the access leaves the array.
\<close>

section \<open>Data\<close>

record 'f TacConfig =
  tac_t0 :: 'f
  tac_a0 :: 'f
  tac_a1 :: 'f
  tac_a2 :: 'f

text \<open>\<open>QacConfig\<close>: the ten coefficients; \<open>EnergyConfig\<close>: four.\<close>

type_synonym 'f QacConfig = "'f list"
type_synonym 'f EnergyConfig = "'f list"

record 'f ChannelConfig =
  cc_x :: 'f
  cc_y :: 'f
  cc_z :: 'f
  cc_xi :: int
  cc_yi :: int
  triggerRegion :: int
  cc_t0 :: 'f
  tac_T :: "'f TacConfig list"
  tac_E :: "'f TacConfig list"
  qac_Q :: "'f QacConfig list"
  eCal :: "'f EnergyConfig list"

record ('f, 'd) SystemConfig =
  sw_trigger_group_max_hits :: int
  sw_trigger_group_min_hits :: int
  sw_trigger_group_min_energy :: 'f
  sw_trigger_group_max_energy :: 'f
  sw_trigger_group_max_distance :: 'f
  sw_trigger_group_time_window :: 'd
  sw_trigger_coincidence_time_window :: 'd
  hasTDCCalibration :: bool
  hasQDCCalibration :: bool
  hasEnergyCalibration :: bool
  hasTimeOffsetCalibration :: bool
  hasXYZ :: bool
  channelConfig :: "nat \<Rightarrow> (nat \<Rightarrow> 'f ChannelConfig) option"
  nullChannelConfig :: "'f ChannelConfig"
  coincidenceTriggerMap :: "nat \<Rightarrow> bool"
  multihitTriggerMap :: "nat \<Rightarrow> bool"

definition MAX_TRIGGER_REGIONS :: nat where
  "MAX_TRIGGER_REGIONS = 4096"

definition PATH_MAX :: nat where
  "PATH_MAX = 4096"

definition null_channel :: "'f::zero ChannelConfig" where
  "null_channel = (let tac = \<lparr>tac_t0 = 0, tac_a0 = 0, tac_a1 = 0, tac_a2 = 0\<rparr> in
     \<lparr>cc_x = 0, cc_y = 0, cc_z = 0, cc_xi = 0, cc_yi = 0, triggerRegion = -1, cc_t0 = 0,
      tac_T = replicate 4 tac, tac_E = replicate 4 tac, qac_Q = replicate 4 (replicate 10 0), eCal = replicate 4 (replicate 4 0)\<rparr>)"

text \<open>The constructor; the options of the trigger are not set by it and are given by the caller of this definition.\<close>

definition SystemConfig_new :: "('f::zero, 'd) SystemConfig \<Rightarrow> ('f, 'd) SystemConfig" where
  "SystemConfig_new unset = unset\<lparr>hasTDCCalibration := False, hasQDCCalibration := False, hasXYZ := False,
     channelConfig := (\<lambda>_. None), nullChannelConfig := null_channel,
     coincidenceTriggerMap := (\<lambda>_. False), multihitTriggerMap := (\<lambda>_. False)\<rparr>"

section \<open>Access\<close>

definition getChannelConfig :: "('f, 'd) SystemConfig \<Rightarrow> u32 \<Rightarrow> 'f ChannelConfig checked" where
  "getChannelConfig c channel =
     (let indexH = unat channel div 4096; indexL = unat channel mod 4096 in
      if indexH < PATH_MAX
      then Some (case channelConfig c indexH of None \<Rightarrow> nullChannelConfig c | Some ptr \<Rightarrow> ptr indexL)
      else None)"

definition trigger_entry :: "(nat \<Rightarrow> bool) \<Rightarrow> int \<Rightarrow> int \<Rightarrow> bool checked" where
  "trigger_entry m r1 r2 =
     (if r1 < 0 \<or> r2 < 0 then Some False
      else let i = nat r1 * MAX_TRIGGER_REGIONS + nat r2 in
        if i < MAX_TRIGGER_REGIONS * MAX_TRIGGER_REGIONS then Some (m i) else None)"

definition isCoincidenceAllowed :: "('f, 'd) SystemConfig \<Rightarrow> int \<Rightarrow> int \<Rightarrow> bool checked" where
  "isCoincidenceAllowed c r1 r2 = trigger_entry (coincidenceTriggerMap c) r1 r2"

definition isMultiHitAllowed :: "('f, 'd) SystemConfig \<Rightarrow> int \<Rightarrow> int \<Rightarrow> bool checked" where
  "isMultiHitAllowed c r1 r2 = trigger_entry (multihitTriggerMap c) r1 r2"

section \<open>Loading tables\<close>

definition MAKE_GID :: "u64 \<Rightarrow> u64 \<Rightarrow> u64 \<Rightarrow> u64 \<Rightarrow> u32" where
  "MAKE_GID portID slaveID chipID channelID =
     ucast (channelID OR push_bit 6 chipID OR push_bit 12 slaveID OR push_bit 17 portID)"

definition touchChannelConfig :: "u32 \<Rightarrow> ('f, 'd) SystemConfig \<Rightarrow> ('f, 'd) SystemConfig checked" where
  "touchChannelConfig channel c =
     (let indexH = unat channel div 4096 in
      if indexH < PATH_MAX then
        Some (case channelConfig c indexH of
          None \<Rightarrow> c\<lparr>channelConfig := (channelConfig c)(indexH := Some (\<lambda>_. nullChannelConfig c))\<rparr>
        | Some ptr \<Rightarrow> c)
      else None)"

text \<open>Writing through the reference that \<open>getChannelConfig\<close> returns.\<close>

definition update_channel ::
  "u32 \<Rightarrow> ('f ChannelConfig \<Rightarrow> 'f ChannelConfig checked) \<Rightarrow> ('f, 'd) SystemConfig \<Rightarrow> ('f, 'd) SystemConfig checked" where
  "update_channel channel f c = do {
     cc \<leftarrow> getChannelConfig c channel;
     cc' \<leftarrow> f cc;
     let indexH = unat channel div 4096;
     let indexL = unat channel mod 4096;
     Some (case channelConfig c indexH of
       None \<Rightarrow> c\<lparr>nullChannelConfig := cc'\<rparr>
     | Some ptr \<Rightarrow> c\<lparr>channelConfig := (channelConfig c)(indexH := Some (ptr(indexL := cc')))\<rparr>)
   }"

definition wr :: "'a list \<Rightarrow> nat \<Rightarrow> 'a \<Rightarrow> 'a list checked" where
  "wr xs i v = (if i < length xs then Some (xs[i := v]) else None)"

text \<open>The fields by which a line names a channel and a buffer of it.\<close>

record chan_fields =
  portID :: u32
  slaveID :: u32
  chipID :: u32
  chanID :: u32

definition line_gid :: "'a chan_fields_scheme \<Rightarrow> u32" where
  "line_gid l = MAKE_GID (ucast (portID l)) (ucast (slaveID l)) (ucast (chipID l)) (ucast (chanID l))"

definition store_line ::
  "u32 \<Rightarrow> ('f ChannelConfig \<Rightarrow> 'f ChannelConfig checked) \<Rightarrow> ('f, 'd) SystemConfig \<Rightarrow> ('f, 'd) SystemConfig checked" where
  "store_line gid f c = touchChannelConfig gid c \<bind> update_channel gid f"

record 'f tdc_line = chan_fields +
  tdc_tac :: u32
  bStr :: char
  tdc_coeffs :: "'f TacConfig"

definition tdc_store :: "'f tdc_line \<Rightarrow> ('f, 'd) SystemConfig \<Rightarrow> ('f, 'd) SystemConfig checked" where
  "tdc_store l = store_line (line_gid l) (\<lambda>cc.
     if bStr l = CHR ''T''
     then map_option (\<lambda>ts. cc\<lparr>tac_T := ts\<rparr>) (wr (tac_T cc) (unat (tdc_tac l)) (tdc_coeffs l))
     else map_option (\<lambda>ts. cc\<lparr>tac_E := ts\<rparr>) (wr (tac_E cc) (unat (tdc_tac l)) (tdc_coeffs l)))"

record 'f qdc_line = chan_fields +
  qdc_tac :: u32
  qdc_coeffs :: "'f list"

definition qdc_store :: "'f qdc_line \<Rightarrow> ('f, 'd) SystemConfig \<Rightarrow> ('f, 'd) SystemConfig checked" where
  "qdc_store l = store_line (line_gid l) (\<lambda>cc.
     map_option (\<lambda>qs. cc\<lparr>qac_Q := qs\<rparr>) (wr (qac_Q cc) (unat (qdc_tac l)) (qdc_coeffs l)))"

definition energy_store :: "'f qdc_line \<Rightarrow> ('f, 'd) SystemConfig \<Rightarrow> ('f, 'd) SystemConfig checked" where
  "energy_store l = store_line (line_gid l) (\<lambda>cc.
     map_option (\<lambda>es. cc\<lparr>eCal := es\<rparr>) (wr (eCal cc) (unat (qdc_tac l)) (qdc_coeffs l)))"

text \<open>The channel number of an offset table is a signed \<open>int\<close>, which is extended with its sign.\<close>

record 'f offset_line = chan_fields +
  offset_t0 :: 'f

definition offset_store :: "'f offset_line \<Rightarrow> ('f, 'd) SystemConfig \<Rightarrow> ('f, 'd) SystemConfig checked" where
  "offset_store l =
     store_line (MAKE_GID (ucast (portID l)) (ucast (slaveID l)) (ucast (chipID l)) (scast (chanID l)))
       (\<lambda>cc. Some (cc\<lparr>cc_t0 := offset_t0 l\<rparr>))"

record 'f map_line = chan_fields +
  map_region :: int
  map_xi :: int
  map_yi :: int
  map_xyz :: "'f \<times> 'f \<times> 'f"

definition map_store :: "'f map_line \<Rightarrow> ('f, 'd) SystemConfig \<Rightarrow> ('f, 'd) SystemConfig checked" where
  "map_store l = store_line (line_gid l) (\<lambda>cc. case map_xyz l of (x, y, z) \<Rightarrow>
     Some (cc\<lparr>triggerRegion := map_region l, cc_xi := map_xi l, cc_yi := map_yi l, cc_x := x, cc_y := y, cc_z := z\<rparr>))"

text \<open>The loop over the lines of a table; a table that cannot be opened is an exception.\<close>

datatype config_error = CannotOpen string | NoEntry string | TriggerFields nat | TriggerRegion nat | TriggerType nat

fun load_lines :: "('l \<Rightarrow> 'c \<Rightarrow> 'c checked) \<Rightarrow> 'l option list \<Rightarrow> 'c \<Rightarrow> 'c checked" where
  "load_lines store [] c = Some c"
| "load_lines store (None # ls) c = load_lines store ls c"
| "load_lines store (Some l # ls) c = store l c \<bind> load_lines store ls"

definition load_table ::
  "('l \<Rightarrow> 'c \<Rightarrow> 'c checked) \<Rightarrow> (string \<Rightarrow> 'l option list option) \<Rightarrow> string \<Rightarrow> 'c \<Rightarrow> (config_error + 'c) checked" where
  "load_table store files fn c = (case files fn of
     None \<Rightarrow> Some (Inl (CannotOpen fn))
   | Some ls \<Rightarrow> map_option Inr (load_lines store ls c))"

definition loadTDCCalibration ::
  "(string \<Rightarrow> 'f tdc_line option list option) \<Rightarrow> string \<Rightarrow> ('f, 'd) SystemConfig \<Rightarrow> (config_error + ('f, 'd) SystemConfig) checked" where
  "loadTDCCalibration = load_table tdc_store"

definition loadQDCCalibration ::
  "(string \<Rightarrow> 'f qdc_line option list option) \<Rightarrow> string \<Rightarrow> ('f, 'd) SystemConfig \<Rightarrow> (config_error + ('f, 'd) SystemConfig) checked" where
  "loadQDCCalibration = load_table qdc_store"

definition loadEnergyCalibration ::
  "(string \<Rightarrow> 'f qdc_line option list option) \<Rightarrow> string \<Rightarrow> ('f, 'd) SystemConfig \<Rightarrow> (config_error + ('f, 'd) SystemConfig) checked" where
  "loadEnergyCalibration = load_table energy_store"

definition loadTimeOffsetCalibration ::
  "(string \<Rightarrow> 'f offset_line option list option) \<Rightarrow> string \<Rightarrow> ('f, 'd) SystemConfig \<Rightarrow> (config_error + ('f, 'd) SystemConfig) checked" where
  "loadTimeOffsetCalibration = load_table offset_store"

definition loadChannelMap ::
  "(string \<Rightarrow> 'f map_line option list option) \<Rightarrow> string \<Rightarrow> ('f, 'd) SystemConfig \<Rightarrow> (config_error + ('f, 'd) SystemConfig) checked" where
  "loadChannelMap = load_table map_store"

text \<open>A line of the trigger map is empty, lacks fields, or names two regions and a type.\<close>

datatype trigger_line = Blank | Malformed | Trigger int int char

definition toupper :: "char \<Rightarrow> char" where
  "toupper ch = (if ch \<in> set ''abcdefghijklmnopqrstuvwxyz'' then char_of (of_char ch - 32 :: nat) else ch)"

definition set_trigger :: "int \<Rightarrow> int \<Rightarrow> char \<Rightarrow> ('f, 'd) SystemConfig \<Rightarrow> ('f, 'd) SystemConfig" where
  "set_trigger r1 r2 ch c =
     (let i = nat r1 * MAX_TRIGGER_REGIONS + nat r2; j = nat r2 * MAX_TRIGGER_REGIONS + nat r1 in
      c\<lparr>coincidenceTriggerMap := (coincidenceTriggerMap c)(i := (ch = CHR ''C''), j := (ch = CHR ''C'')),
        multihitTriggerMap := (multihitTriggerMap c)(i := (ch = CHR ''M''), j := (ch = CHR ''M''))\<rparr>)"

fun trigger_lines :: "nat \<Rightarrow> trigger_line list \<Rightarrow> ('f, 'd) SystemConfig \<Rightarrow> config_error + ('f, 'd) SystemConfig" where
  "trigger_lines n [] c = Inr c"
| "trigger_lines n (Blank # ls) c = trigger_lines (n + 1) ls c"
| "trigger_lines n (Malformed # ls) c = Inl (TriggerFields (n + 1))"
| "trigger_lines n (Trigger r1 r2 ch # ls) c =
     (if r1 < 0 \<or> r1 \<ge> int MAX_TRIGGER_REGIONS \<or> r2 < 0 \<or> r2 \<ge> int MAX_TRIGGER_REGIONS then Inl (TriggerRegion (n + 1))
      else if toupper ch \<noteq> CHR ''M'' \<and> toupper ch \<noteq> CHR ''C'' then Inl (TriggerType (n + 1))
      else trigger_lines (n + 1) ls (set_trigger r1 r2 (toupper ch) c))"

definition loadTriggerMap ::
  "(string \<Rightarrow> trigger_line list option) \<Rightarrow> string \<Rightarrow> ('f, 'd) SystemConfig \<Rightarrow> config_error + ('f, 'd) SystemConfig" where
  "loadTriggerMap files fn c = (case files fn of
     None \<Rightarrow> Inl (CannotOpen fn)
   | Some ls \<Rightarrow> trigger_lines 0 ls c)"

section \<open>Loading a configuration\<close>

text \<open>
  \<open>fromFile\<close> takes the entries of the ini file, the expansion of variables in file names and the tables as
  arguments. An entry of the section \<open>main\<close> that is required but missing is an exception; its message
  names the table, which for the TDC table is the wrong one.
\<close>

record ('f, 'd) sources =
  ini_string :: "string \<Rightarrow> string option"
  ini_int :: "string \<Rightarrow> int option"
  ini_float :: "string \<Rightarrow> 'f option"
  ini_double :: "string \<Rightarrow> 'd option"
  replace_variables :: "string \<Rightarrow> string"
  tdc_tables :: "string \<Rightarrow> 'f tdc_line option list option"
  qdc_tables :: "string \<Rightarrow> 'f qdc_line option list option"
  energy_tables :: "string \<Rightarrow> 'f qdc_line option list option"
  offset_tables :: "string \<Rightarrow> 'f offset_line option list option"
  map_tables :: "string \<Rightarrow> 'f map_line option list option"
  trigger_tables :: "string \<Rightarrow> trigger_line list option"

type_synonym 'c loading = "(config_error + 'c) checked"

definition and_then :: "'c loading \<Rightarrow> ('c \<Rightarrow> 'c loading) \<Rightarrow> 'c loading" where
  "and_then m f = (case m of None \<Rightarrow> None | Some (Inl e) \<Rightarrow> Some (Inl e) | Some (Inr c) \<Rightarrow> f c)"

definition LOAD_TDC_CALIBRATION :: u64 where "LOAD_TDC_CALIBRATION = 0x2"
definition LOAD_QDC_CALIBRATION :: u64 where "LOAD_QDC_CALIBRATION = 0x4"
definition LOAD_MAPPING :: u64 where "LOAD_MAPPING = 0x10"
definition LOAD_TIMEALIGN_CALIBRATION :: u64 where "LOAD_TIMEALIGN_CALIBRATION = 0x20"

text \<open>A required and an optional table.\<close>

definition required :: "('f, 'd) sources \<Rightarrow> string \<Rightarrow> string \<Rightarrow> (string \<Rightarrow> 'c loading) \<Rightarrow> 'c loading" where
  "required src entry name f = (case ini_string src entry of
     None \<Rightarrow> Some (Inl (NoEntry name)) | Some fn \<Rightarrow> f (replace_variables src fn))"

definition optional :: "('f, 'd) sources \<Rightarrow> string \<Rightarrow> 'c \<Rightarrow> (string \<Rightarrow> 'c loading) \<Rightarrow> 'c loading" where
  "optional src entry c f = (case ini_string src entry of None \<Rightarrow> Some (Inr c) | Some fn \<Rightarrow> f (replace_variables src fn))"

definition from_tdc :: "('f, 'd) sources \<Rightarrow> u64 \<Rightarrow> ('f, 'd) SystemConfig \<Rightarrow> ('f, 'd) SystemConfig loading" where
  "from_tdc src m c =
     (let c1 = c\<lparr>hasTDCCalibration := False\<rparr> in
      if m AND LOAD_TDC_CALIBRATION \<noteq> 0 then
        required src ''main:tdc_calibration_table'' ''qdc_calibration_table'' (\<lambda>fn.
          and_then (loadTDCCalibration (tdc_tables src) fn c1) (\<lambda>c2. Some (Inr (c2\<lparr>hasTDCCalibration := True\<rparr>))))
      else Some (Inr c1))"

definition from_qdc :: "('f, 'd) sources \<Rightarrow> u64 \<Rightarrow> ('f, 'd) SystemConfig \<Rightarrow> ('f, 'd) SystemConfig loading" where
  "from_qdc src m c =
     (let c1 = c\<lparr>hasQDCCalibration := False, hasEnergyCalibration := False\<rparr> in
      if m AND LOAD_QDC_CALIBRATION \<noteq> 0 then
        and_then
          (required src ''main:qdc_calibration_table'' ''qdc_calibration_table'' (\<lambda>fn.
             and_then (loadQDCCalibration (qdc_tables src) fn c1) (\<lambda>c2. Some (Inr (c2\<lparr>hasQDCCalibration := True\<rparr>)))))
          (\<lambda>c2. optional src ''main:energy_calibration_table'' c2 (\<lambda>fn.
             and_then (loadEnergyCalibration (energy_tables src) fn c2) (\<lambda>c3. Some (Inr (c3\<lparr>hasEnergyCalibration := True\<rparr>)))))
      else Some (Inr c1))"

definition from_map :: "('f, 'd) sources \<Rightarrow> u64 \<Rightarrow> ('f, 'd) SystemConfig \<Rightarrow> ('f, 'd) SystemConfig loading" where
  "from_map src m c =
     (let c1 = c\<lparr>hasXYZ := False\<rparr> in
      if m AND LOAD_MAPPING \<noteq> 0 then
        and_then
          (required src ''main:channel_map'' ''channel_map'' (\<lambda>fn.
             and_then (loadChannelMap (map_tables src) fn c1) (\<lambda>c2. Some (Inr (c2\<lparr>hasXYZ := True\<rparr>)))))
          (\<lambda>c2. required src ''main:trigger_map'' ''trigger_map'' (\<lambda>fn. Some (loadTriggerMap (trigger_tables src) fn c2)))
      else Some (Inr c1))"

definition from_offset :: "('f, 'd) sources \<Rightarrow> u64 \<Rightarrow> ('f, 'd) SystemConfig \<Rightarrow> ('f, 'd) SystemConfig loading" where
  "from_offset src m c =
     (let c1 = c\<lparr>hasTimeOffsetCalibration := False\<rparr> in
      if m AND LOAD_TIMEALIGN_CALIBRATION \<noteq> 0 then
        optional src ''main:time_offset_calibration_table'' c1 (\<lambda>fn.
          and_then (loadTimeOffsetCalibration (offset_tables src) fn c1) (\<lambda>c2. Some (Inr (c2\<lparr>hasTimeOffsetCalibration := True\<rparr>))))
      else Some (Inr c1))"

definition or_default :: "'a option \<Rightarrow> 'a \<Rightarrow> 'a" where
  "or_default x d = (case x of None \<Rightarrow> d | Some v \<Rightarrow> v)"

definition from_trigger :: "('f::{numeral,uminus}, 'd::numeral) sources \<Rightarrow> ('f, 'd) SystemConfig \<Rightarrow> ('f, 'd) SystemConfig" where
  "from_trigger src c = c\<lparr>
     sw_trigger_group_max_hits := or_default (ini_int src ''sw_trigger:group_max_hits'') 64,
     sw_trigger_group_min_hits := or_default (ini_int src ''sw_trigger:group_min_hits'') 1,
     sw_trigger_group_min_energy := or_default (ini_float src ''sw_trigger:group_min_energy'') (- 1000000),
     sw_trigger_group_max_energy := or_default (ini_float src ''sw_trigger:group_max_energy'') 1000000,
     sw_trigger_group_max_distance := or_default (ini_float src ''sw_trigger:group_max_distance'') 100,
     sw_trigger_group_time_window := or_default (ini_double src ''sw_trigger:group_time_window'') 20,
     sw_trigger_coincidence_time_window := or_default (ini_double src ''sw_trigger:coincidence_time_window'') 2\<rparr>"

definition fromFile ::
  "('f::{numeral,uminus,zero}, 'd::numeral) sources \<Rightarrow> u64 \<Rightarrow> ('f, 'd) SystemConfig \<Rightarrow> ('f, 'd) SystemConfig loading" where
  "fromFile src m unset =
     and_then (and_then (and_then (and_then (Some (Inr (SystemConfig_new unset)))
       (from_tdc src m)) (from_qdc src m)) (from_map src m))
       (\<lambda>c. and_then (from_offset src m c) (\<lambda>c. Some (Inr (from_trigger src c))))"

section \<open>The trigger map\<close>

text \<open>The reference: the last line that names a pair of regions, in either order, decides.\<close>

fun last_trigger :: "trigger_line list \<Rightarrow> int \<Rightarrow> int \<Rightarrow> char option" where
  "last_trigger [] r1 r2 = None"
| "last_trigger (Trigger a b ch # ls) r1 r2 =
     (case last_trigger ls r1 r2 of
        Some x \<Rightarrow> Some x
      | None \<Rightarrow> if r1 = a \<and> r2 = b \<or> r1 = b \<and> r2 = a then Some (toupper ch) else None)"
| "last_trigger (_ # ls) r1 r2 = last_trigger ls r1 r2"

definition in_regions :: "int \<Rightarrow> bool" where
  "in_regions r = (0 \<le> r \<and> r < int MAX_TRIGGER_REGIONS)"

lemma trigger_index_inj:
  assumes "in_regions a" "in_regions b" "in_regions c" "in_regions d"
  shows "nat a * MAX_TRIGGER_REGIONS + nat b = nat c * MAX_TRIGGER_REGIONS + nat d \<longleftrightarrow> a = c \<and> b = d"
proof
  assume eq: "nat a * MAX_TRIGGER_REGIONS + nat b = nat c * MAX_TRIGGER_REGIONS + nat d"
  have *: "nat b < MAX_TRIGGER_REGIONS" "nat d < MAX_TRIGGER_REGIONS" using assms by (auto simp: in_regions_def)
  have "(nat a * MAX_TRIGGER_REGIONS + nat b) mod MAX_TRIGGER_REGIONS = nat b"
    "(nat c * MAX_TRIGGER_REGIONS + nat d) mod MAX_TRIGGER_REGIONS = nat d" using * by simp_all
  then have "nat b = nat d" using eq by metis
  moreover from this have "nat a = nat c" using eq by (auto simp: MAX_TRIGGER_REGIONS_def)
  ultimately show "a = c \<and> b = d" using assms by (auto simp: in_regions_def)
qed simp

lemma trigger_index_bound:
  "in_regions a \<Longrightarrow> in_regions b \<Longrightarrow> nat a * MAX_TRIGGER_REGIONS + nat b < MAX_TRIGGER_REGIONS * MAX_TRIGGER_REGIONS"
  by (auto simp: in_regions_def MAX_TRIGGER_REGIONS_def)

text \<open>Looking up a map inside the range is reading the array.\<close>

lemma trigger_entry_inside:
  "in_regions a \<Longrightarrow> in_regions b \<Longrightarrow> trigger_entry m a b = Some (m (nat a * MAX_TRIGGER_REGIONS + nat b))"
  using trigger_index_bound [of a b] by (auto simp: trigger_entry_def in_regions_def)

definition same_pair :: "int \<Rightarrow> int \<Rightarrow> int \<Rightarrow> int \<Rightarrow> bool" where
  "same_pair a b r1 r2 = (r1 = a \<and> r2 = b \<or> r1 = b \<and> r2 = a)"

lemma set_trigger_entry:
  assumes "in_regions a" "in_regions b" "in_regions r1" "in_regions r2"
  shows "isCoincidenceAllowed (set_trigger a b ch c) r1 r2 =
       (if same_pair a b r1 r2 then Some (ch = CHR ''C'') else isCoincidenceAllowed c r1 r2)"
    and "isMultiHitAllowed (set_trigger a b ch c) r1 r2 =
       (if same_pair a b r1 r2 then Some (ch = CHR ''M'') else isMultiHitAllowed c r1 r2)"
proof -
  let ?i = "nat r1 * MAX_TRIGGER_REGIONS + nat r2"
  have upd: "(m(nat a * MAX_TRIGGER_REGIONS + nat b := v, nat b * MAX_TRIGGER_REGIONS + nat a := v)) ?i
      = (if same_pair a b r1 r2 then v else m ?i)" for m :: "nat \<Rightarrow> bool" and v
    unfolding fun_upd_apply trigger_index_inj [OF assms(3,4,1,2)] trigger_index_inj [OF assms(3,4,2,1)] same_pair_def
    by (simp only: split: if_split) blast
  show "isCoincidenceAllowed (set_trigger a b ch c) r1 r2 =
       (if same_pair a b r1 r2 then Some (ch = CHR ''C'') else isCoincidenceAllowed c r1 r2)"
    "isMultiHitAllowed (set_trigger a b ch c) r1 r2 =
       (if same_pair a b r1 r2 then Some (ch = CHR ''M'') else isMultiHitAllowed c r1 r2)"
    unfolding isCoincidenceAllowed_def isMultiHitAllowed_def trigger_entry_inside [OF assms(3,4)] set_trigger_def Let_def
    using upd by simp_all
qed

lemma trigger_lines_entry:
  assumes "trigger_lines n ls c = Inr c'" "in_regions r1" "in_regions r2"
  shows "isCoincidenceAllowed c' r1 r2 = (case last_trigger ls r1 r2 of
       None \<Rightarrow> isCoincidenceAllowed c r1 r2 | Some ch \<Rightarrow> Some (ch = CHR ''C''))
    \<and> isMultiHitAllowed c' r1 r2 = (case last_trigger ls r1 r2 of
       None \<Rightarrow> isMultiHitAllowed c r1 r2 | Some ch \<Rightarrow> Some (ch = CHR ''M''))"
  using assms(1)
proof (induction n ls c rule: trigger_lines.induct)
  case (4 n a b ch ls c)
  then have r: "\<not> (a < 0 \<or> a \<ge> int MAX_TRIGGER_REGIONS \<or> b < 0 \<or> b \<ge> int MAX_TRIGGER_REGIONS)"
    and ty: "\<not> (toupper ch \<noteq> CHR ''M'' \<and> toupper ch \<noteq> CHR ''C'')"
    and rest: "trigger_lines (n + 1) ls (set_trigger a b (toupper ch) c) = Inr c'"
    by (auto split: if_splits)
  have "in_regions a" "in_regions b" using r by (auto simp: in_regions_def)
  note entry = set_trigger_entry [OF this assms(2,3), of "toupper ch" c]
  have "last_trigger (Trigger a b ch # ls) r1 r2 = (case last_trigger ls r1 r2 of
      Some x \<Rightarrow> Some x | None \<Rightarrow> if same_pair a b r1 r2 then Some (toupper ch) else None)"
    by (simp only: last_trigger.simps same_pair_def)
  then show ?case using "4.IH" [OF r ty rest] unfolding entry
    by (cases "last_trigger ls r1 r2"; cases "same_pair a b r1 r2") simp_all
qed auto

text \<open>
  C29: The trigger map that is loaded into a new configuration agrees with its text: two regions may
  form a coincidence exactly if the last line that names them, in either order, has the type \<open>C\<close> (in any case),
  and a multi-hit group exactly if it has the type \<open>M\<close>. So both relations are symmetric and exclude each other, and
  every access stays inside the arrays.
\<close>

theorem trigger_map_agrees:
  assumes "loadTriggerMap files fn (SystemConfig_new unset) = Inr c" "files fn = Some ls" "in_regions r1" "in_regions r2"
  shows "isCoincidenceAllowed c r1 r2 = Some (last_trigger ls r1 r2 = Some (CHR ''C''))
    \<and> isMultiHitAllowed c r1 r2 = Some (last_trigger ls r1 r2 = Some (CHR ''M''))"
  using trigger_lines_entry [of 0 ls "SystemConfig_new unset" c r1 r2] assms
  by (auto simp: loadTriggerMap_def isCoincidenceAllowed_def isMultiHitAllowed_def trigger_entry_inside
      SystemConfig_new_def split: option.split)

definition example_config0 :: "(int, int) SystemConfig" where
  "example_config0 = \<lparr>sw_trigger_group_max_hits = 64, sw_trigger_group_min_hits = 1, sw_trigger_group_min_energy = - 1000000,
     sw_trigger_group_max_energy = 1000000, sw_trigger_group_max_distance = 100, sw_trigger_group_time_window = 20,
     sw_trigger_coincidence_time_window = 2, hasTDCCalibration = False, hasQDCCalibration = False,
     hasEnergyCalibration = False, hasTimeOffsetCalibration = False, hasXYZ = False, channelConfig = \<lambda>_. None,
     nullChannelConfig = null_channel, coincidenceTriggerMap = \<lambda>_. False, multihitTriggerMap = \<lambda>_. False\<rparr>"

theorem trigger_map_agrees_witness:
  "\<exists>c. loadTriggerMap (\<lambda>_. Some [Trigger 0 1 CHR ''C'', Trigger 1 0 CHR ''M'']) ''trigger.tsv'' (SystemConfig_new example_config0) = Inr c
     \<and> isCoincidenceAllowed c 0 1 = Some False \<and> isMultiHitAllowed c 0 1 = Some True"
proof -
  let ?ls = "[Trigger 0 1 CHR ''C'', Trigger 1 0 CHR ''M'']"
  obtain c where c: "loadTriggerMap (\<lambda>_. Some ?ls) ''trigger.tsv'' (SystemConfig_new example_config0) = Inr c"
    by (simp add: loadTriggerMap_def MAX_TRIGGER_REGIONS_def toupper_def)
  from trigger_map_agrees [OF c refl, of 0 1] c show ?thesis
    by (auto simp: in_regions_def MAX_TRIGGER_REGIONS_def toupper_def)
qed

section \<open>Channel numbers\<close>

lemma bit_nat_le: "bit m n \<Longrightarrow> 2 ^ n \<le> m" for m :: nat
  by (metis bit_iff_odd div_less dvd_0_right linorder_not_less)

lemma bit_less:
  fixes w :: u64
  assumes "bit w n" "w < 2 ^ k" "k < 64"
  shows "n < k"
proof -
  have "uint w < 2 ^ k" using assms(2,3) by (simp add: word_2p_lem word_size)
  then have "unat w < 2 ^ k" by (metis nat_less_numeral_power_cancel_iff unat_eq_nat_uint)
  moreover have "2 ^ n \<le> unat w" using assms(1) by (intro bit_nat_le) (simp add: bit_unsigned_iff)
  ultimately have "(2::nat) ^ n < 2 ^ k" by (rule le_less_trans [rotated])
  then show ?thesis by simp
qed

lemma bit_MAKE_GID:
  "bit (MAKE_GID port slave chip chan) n \<longleftrightarrow> n < 32 \<and>
     (bit chan n \<or> 6 \<le> n \<and> bit chip (n - 6) \<or> 12 \<le> n \<and> bit slave (n - 12) \<or> 17 \<le> n \<and> bit port (n - 17))"
  by (auto simp: MAKE_GID_def bit_ucast_iff bit_or_iff bit_push_bit_iff)

text \<open>
  The number of a channel determines port, slave, chip and channel within their ranges: each of them is read back from its bits, so channels of
  different hardware addresses never share a number, and the number of every address up to port 127 lies in the table of blocks.
\<close>

theorem make_gid_fields:
  assumes "port < 2 ^ 7" "slave < 2 ^ 5" "chip < 2 ^ 6" "chan < 2 ^ 6"
  defines "gid \<equiv> MAKE_GID port slave chip chan"
  shows "take_bit 6 gid = ucast chan \<and> take_bit 6 (drop_bit 6 gid) = ucast chip
    \<and> take_bit 5 (drop_bit 12 gid) = ucast slave \<and> drop_bit 17 gid = ucast port \<and> unat gid div 4096 < PATH_MAX"
proof -
  note bits = bit_less [OF _ assms(1)] bit_less [OF _ assms(2)] bit_less [OF _ assms(3)] bit_less [OF _ assms(4)]
  have gid: "bit gid n \<longleftrightarrow> bit chan n \<or> 6 \<le> n \<and> bit chip (n - 6) \<or> 12 \<le> n \<and> bit slave (n - 12) \<or> 17 \<le> n \<and> bit port (n - 17)" for n
    using bits [of n] bits [of "n - 6"] bits [of "n - 12"] bits [of "n - 17"] unfolding gid_def bit_MAKE_GID by auto
  have "take_bit 6 gid = ucast chan"
    by (rule bit_word_eqI) (use bits in \<open>auto simp: bit_take_bit_iff gid bit_ucast_iff\<close>)
  moreover have "take_bit 6 (drop_bit 6 gid) = ucast chip"
    by (rule bit_word_eqI) (use bits in \<open>fastforce simp: bit_take_bit_iff bit_drop_bit_eq gid bit_ucast_iff\<close>)
  moreover have "take_bit 5 (drop_bit 12 gid) = ucast slave"
    by (rule bit_word_eqI) (use bits in \<open>fastforce simp: bit_take_bit_iff bit_drop_bit_eq gid bit_ucast_iff\<close>)
  moreover have "drop_bit 17 gid = ucast port"
    by (rule bit_word_eqI) (use bits in \<open>fastforce simp: bit_drop_bit_eq gid bit_ucast_iff\<close>)
  moreover have "take_bit 24 gid = gid"
    by (rule bit_word_eqI) (use bits in \<open>fastforce simp: bit_take_bit_iff gid\<close>)
  then have "unat gid < 2 ^ 24" by (metis take_bit_nat_less_exp unsigned_take_bit_eq)
  then have "unat gid div 4096 < PATH_MAX" by (simp add: PATH_MAX_def less_mult_imp_div_less)
  ultimately show ?thesis by blast
qed

theorem make_gid_fields_witness: "drop_bit 17 (MAKE_GID 3 1 5 63) = (3 :: u32)"
  using make_gid_fields [of 3 1 5 63] by simp

section \<open>Calibration constants\<close>

definition gid_ok :: "u32 \<Rightarrow> bool" where
  "gid_ok g = (unat g div 4096 < PATH_MAX)"

text \<open>The configuration of a channel, for channels inside the table of blocks.\<close>

definition channel :: "('f, 'd) SystemConfig \<Rightarrow> u32 \<Rightarrow> 'f ChannelConfig" where
  "channel c g = (case channelConfig c (unat g div 4096) of None \<Rightarrow> nullChannelConfig c | Some ptr \<Rightarrow> ptr (unat g mod 4096))"

lemma getChannelConfig_channel: "gid_ok g \<Longrightarrow> getChannelConfig c g = Some (channel c g)"
  by (simp add: getChannelConfig_def gid_ok_def channel_def Let_def)

lemma channel_index: "g = h \<longleftrightarrow> unat g div 4096 = unat h div 4096 \<and> unat g mod 4096 = unat h mod 4096" for g h :: u32
  by (metis div_mult_mod_eq word_unat_eq_iff)

lemma store_line_channel:
  assumes "gid_ok g" "f (channel c g) = Some cc"
  shows "\<exists>c'. store_line g f c = Some c' \<and> (\<forall>h. channel c' h = (if h = g then cc else channel c h))"
proof -
  obtain c1 where c1: "touchChannelConfig g c = Some c1" "\<forall>h. channel c1 h = channel c h"
    "channelConfig c1 (unat g div 4096) \<noteq> None"
    using assms(1) by (cases "channelConfig c (unat g div 4096)")
      (auto simp: touchChannelConfig_def gid_ok_def channel_def split: option.splits)
  then obtain ptr where ptr: "channelConfig c1 (unat g div 4096) = Some ptr" by blast
  let ?c2 = "c1\<lparr>channelConfig := (channelConfig c1)(unat g div 4096 := Some (ptr(unat g mod 4096 := cc)))\<rparr>"
  have "store_line g f c = Some ?c2"
    using c1 ptr assms by (simp add: store_line_def update_channel_def getChannelConfig_channel)
  moreover have "channel ?c2 h = (if h = g then cc else channel c1 h)" for h
    unfolding channel_index [of h g] by (simp add: channel_def ptr split: option.split)
  then have "\<forall>h. channel ?c2 h = (if h = g then cc else channel c h)" using c1(2) by simp
  ultimately show ?thesis by blast
qed

definition tac_entry :: "bool \<Rightarrow> 'f ChannelConfig \<Rightarrow> nat \<Rightarrow> 'f TacConfig" where
  "tac_entry isT cc i = (if isT then tac_T cc ! i else tac_E cc ! i)"

definition four_tacs :: "('f, 'd) SystemConfig \<Rightarrow> bool" where
  "four_tacs c = (\<forall>g. length (tac_T (channel c g)) = 4 \<and> length (tac_E (channel c g)) = 4)"

text \<open>A line is within the hardware: a channel number inside the table and one of four buffers.\<close>

definition tdc_line_ok :: "'f tdc_line \<Rightarrow> bool" where
  "tdc_line_ok l = (gid_ok (line_gid l) \<and> unat (tdc_tac l) < 4)"

definition line_for :: "u32 \<Rightarrow> bool \<Rightarrow> nat \<Rightarrow> 'f tdc_line \<Rightarrow> bool" where
  "line_for g isT i l = (line_gid l = g \<and> (bStr l = CHR ''T'') = isT \<and> unat (tdc_tac l) = i)"

text \<open>The lines of a table that have all fields.\<close>

fun lines_of :: "'l option list \<Rightarrow> 'l list" where
  "lines_of [] = []"
| "lines_of (None # ls) = lines_of ls"
| "lines_of (Some l # ls) = l # lines_of ls"

lemma tdc_store_channel:
  assumes "tdc_line_ok l" "four_tacs c"
  shows "\<exists>c'. tdc_store l c = Some c' \<and> four_tacs c' \<and>
    (\<forall>g isT. \<forall>i < 4. tac_entry isT (channel c' g) i = (if line_for g isT i l then tdc_coeffs l else tac_entry isT (channel c g) i))"
proof -
  let ?g = "line_gid l" and ?i = "unat (tdc_tac l)"
  let ?cc = "if bStr l = CHR ''T'' then (channel c ?g)\<lparr>tac_T := (tac_T (channel c ?g))[?i := tdc_coeffs l]\<rparr>
    else (channel c ?g)\<lparr>tac_E := (tac_E (channel c ?g))[?i := tdc_coeffs l]\<rparr>"
  let ?f = "\<lambda>cc. if bStr l = CHR ''T'' then map_option (\<lambda>ts. cc\<lparr>tac_T := ts\<rparr>) (wr (tac_T cc) ?i (tdc_coeffs l))
    else map_option (\<lambda>ts. cc\<lparr>tac_E := ts\<rparr>) (wr (tac_E cc) ?i (tdc_coeffs l))"
  have "?f (channel c ?g) = Some ?cc" using assms by (simp add: wr_def tdc_line_ok_def four_tacs_def)
  from store_line_channel [where f = ?f, OF _ this] assms(1)
  obtain c' where c': "tdc_store l c = Some c'" "\<forall>h. channel c' h = (if h = ?g then ?cc else channel c h)"
    unfolding tdc_store_def tdc_line_ok_def by blast
  have "four_tacs c'" using c'(2) assms(2) by (simp add: four_tacs_def)
  moreover have "tac_entry isT (channel c' g) i = (if line_for g isT i l then tdc_coeffs l else tac_entry isT (channel c g) i)"
    if "i < 4" for g isT i
    using c'(2) assms that by (auto simp: tac_entry_def line_for_def four_tacs_def tdc_line_ok_def nth_list_update)
  ultimately show ?thesis using c'(1) by blast
qed

text \<open>
  Loading a TDC calibration table whose lines are within the hardware stays inside all arrays, and afterwards every channel
  has, for each of its four buffers and both branches, the constants of the last line of the table that names
  them, or the ones it had before if there is none.
\<close>

theorem tdc_calibration_lookup:
  assumes "files fn = Some ls" "\<forall>l. Some l \<in> set ls \<longrightarrow> tdc_line_ok l" "four_tacs c"
  shows "\<exists>c'. loadTDCCalibration files fn c = Some (Inr c') \<and>
    (\<forall>g isT. \<forall>i < 4. tac_entry isT (channel c' g) i =
       (case find (line_for g isT i) (rev (lines_of ls)) of None \<Rightarrow> tac_entry isT (channel c g) i | Some l \<Rightarrow> tdc_coeffs l))"
proof -
  have "\<exists>c'. load_lines tdc_store ls c = Some c' \<and> (\<forall>g isT. \<forall>i < 4. tac_entry isT (channel c' g) i =
       (case find (line_for g isT i) (rev (lines_of ls)) of None \<Rightarrow> tac_entry isT (channel c g) i | Some l \<Rightarrow> tdc_coeffs l))"
    using assms(2,3)
  proof (induction ls arbitrary: c)
    case (Cons x ls)
    show ?case
    proof (cases x)
    case None
    then show ?thesis using Cons by simp
    next
    case (Some l)
    obtain c1 where c1: "tdc_store l c = Some c1" "four_tacs c1" "\<forall>g isT. \<forall>i < 4.
        tac_entry isT (channel c1 g) i = (if line_for g isT i l then tdc_coeffs l else tac_entry isT (channel c g) i)"
      using tdc_store_channel [of l c] Cons.prems Some by auto
    have find: "find P (xs @ [x]) = (case find P xs of None \<Rightarrow> if P x then Some x else None | Some y \<Rightarrow> Some y)"
      for P and xs :: "'a tdc_line list" and x by (induction xs) auto
    obtain c2 where "load_lines tdc_store ls c1 = Some c2" "\<forall>g isT. \<forall>i < 4. tac_entry isT (channel c2 g) i =
       (case find (line_for g isT i) (rev (lines_of ls)) of None \<Rightarrow> tac_entry isT (channel c1 g) i | Some l \<Rightarrow> tdc_coeffs l)"
      using Cons.IH [OF _ c1(2)] Cons.prems(1) by auto
    then show ?thesis using c1(1,3) Some by (simp add: find split: option.split)
    qed
  qed simp
  then show ?thesis using assms(1) by (auto simp: loadTDCCalibration_def load_table_def)
qed

lemma four_tacs_new: "four_tacs (SystemConfig_new unset)"
  by (simp add: four_tacs_def channel_def SystemConfig_new_def null_channel_def Let_def)

definition example_line :: "int tdc_line" where
  "example_line = \<lparr>portID = 3, slaveID = 1, chipID = 5, chanID = 63, tdc_tac = 2, bStr = CHR ''T'',
     tdc_coeffs = \<lparr>tac_t0 = 1, tac_a0 = 2, tac_a1 = 3, tac_a2 = 4\<rparr>\<rparr>"

theorem tdc_calibration_lookup_witness:
  "\<exists>c'. loadTDCCalibration (\<lambda>_. Some [None, Some example_line]) ''tdc.tsv'' (SystemConfig_new example_config0) = Some (Inr c')
     \<and> tac_entry True (channel c' (line_gid example_line)) 2 = tdc_coeffs example_line"
proof -
  have "gid_ok (line_gid example_line)"
    by (simp add: gid_ok_def line_gid_def MAKE_GID_def example_line_def PATH_MAX_def)
  then have ok: "\<forall>l. Some l \<in> set [None, Some example_line] \<longrightarrow> tdc_line_ok l" by (simp add: tdc_line_ok_def example_line_def)
  have "line_for (line_gid example_line) True 2 example_line" by (simp add: line_for_def example_line_def)
  then show ?thesis
    using tdc_calibration_lookup [where files = "\<lambda>_. Some [None, Some example_line]", OF refl ok four_tacs_new]
    by fastforce
qed

section \<open>Every loaded configuration is well-typed\<close>

text \<open>
  The arrays of a channel have their sizes, in the configurations of all channels and in the default one; energies are
  only calibrated together with charges.
\<close>

definition full_channel :: "'f ChannelConfig \<Rightarrow> bool" where
  "full_channel cc = (length (tac_T cc) = 4 \<and> length (tac_E cc) = 4 \<and> length (qac_Q cc) = 4 \<and> length (eCal cc) = 4
     \<and> (\<forall>q \<in> set (qac_Q cc). length q = 10) \<and> (\<forall>e \<in> set (eCal cc). length e = 4))"

definition full_config :: "('f, 'd) SystemConfig \<Rightarrow> bool" where
  "full_config c = (full_channel (nullChannelConfig c) \<and> (\<forall>i ptr j. channelConfig c i = Some ptr \<longrightarrow> full_channel (ptr j)))"

lemma full_configD: "full_config c \<Longrightarrow> full_channel (channel c g)"
  by (auto simp: full_config_def channel_def split: option.split)

lemma full_config_new: "full_config (SystemConfig_new unset)"
  by (simp add: full_config_def full_channel_def SystemConfig_new_def null_channel_def Let_def)

lemma full_config_updates [simp]:
  "full_config (c\<lparr>hasTDCCalibration := b\<rparr>) = full_config c" "full_config (c\<lparr>hasQDCCalibration := b\<rparr>) = full_config c"
  "full_config (c\<lparr>hasEnergyCalibration := b\<rparr>) = full_config c" "full_config (c\<lparr>hasXYZ := b\<rparr>) = full_config c"
  "full_config (c\<lparr>hasTimeOffsetCalibration := b\<rparr>) = full_config c"
  by (simp_all add: full_config_def)

lemma full_config_from_trigger [simp]: "full_config (from_trigger src c) = full_config c"
  by (simp add: full_config_def from_trigger_def)

text \<open>A function on channels that keeps the sizes, and what the loaders do with it.\<close>

definition keeps_full :: "('f ChannelConfig \<Rightarrow> 'f ChannelConfig checked) \<Rightarrow> bool" where
  "keeps_full f = (\<forall>cc cc'. full_channel cc \<longrightarrow> f cc = Some cc' \<longrightarrow> full_channel cc')"

lemma store_line_full:
  assumes "keeps_full f" "full_config c" "store_line g f c = Some c'"
  shows "full_config c'"
proof -
  obtain c1 where c1: "touchChannelConfig g c = Some c1" "update_channel g f c1 = Some c'"
    using assms(3) by (auto simp: store_line_def bind_eq_Some_conv)
  then have full: "full_config c1" and g: "gid_ok g"
    using assms(2) by (auto simp: touchChannelConfig_def full_config_def gid_ok_def Let_def split: if_splits option.splits)
  obtain cc' where "f (channel c1 g) = Some cc'" "c' = (case channelConfig c1 (unat g div 4096) of None \<Rightarrow> c1\<lparr>nullChannelConfig := cc'\<rparr>
      | Some ptr \<Rightarrow> c1\<lparr>channelConfig := (channelConfig c1)(unat g div 4096 := Some (ptr(unat g mod 4096 := cc')))\<rparr>)"
    using c1(2) by (auto simp: update_channel_def getChannelConfig_channel [OF g] bind_eq_Some_conv Let_def)
  moreover from this(1) have "full_channel cc'" using assms(1) full_configD [OF full] by (auto simp: keeps_full_def)
  ultimately show ?thesis using full by (auto simp: full_config_def split: option.splits if_splits)
qed

definition stores_full :: "('l \<Rightarrow> ('f, 'd) SystemConfig \<Rightarrow> ('f, 'd) SystemConfig checked) \<Rightarrow> 'l \<Rightarrow> bool" where
  "stores_full store l = (\<forall>c c'. full_config c \<longrightarrow> store l c = Some c' \<longrightarrow> full_config c')"

lemma load_lines_full:
  "\<forall>l. Some l \<in> set ls \<longrightarrow> stores_full store l \<Longrightarrow> full_config c \<Longrightarrow> load_lines store ls c = Some c' \<Longrightarrow> full_config c'"
proof (induction ls arbitrary: c)
  case (Cons x ls)
  show ?case
  proof (cases x)
    case None
    then show ?thesis using Cons by simp
  next
    case (Some l)
    then obtain c1 where c1: "store l c = Some c1" "load_lines store ls c1 = Some c'"
      using Cons.prems(3) by (auto simp: bind_eq_Some_conv)
    moreover have "full_config c1" using c1(1) Cons.prems(1,2) Some by (auto simp: stores_full_def)
    ultimately show ?thesis using Cons.IH Cons.prems(1) by simp
  qed
qed simp

lemma load_table_full:
  assumes "\<forall>ls l. files fn = Some ls \<longrightarrow> Some l \<in> set ls \<longrightarrow> stores_full store l" "load_table store files fn c = Some (Inr c')"
  shows "full_config c \<longrightarrow> full_config c'"
proof -
  obtain ls where "files fn = Some ls" "load_lines store ls c = Some c'"
    using assms(2) by (auto simp: load_table_def split: option.splits)
  then show ?thesis using load_lines_full [of ls store c c'] assms(1) by blast
qed

lemma set_wr: "wr xs i v = Some ys \<Longrightarrow> length ys = length xs \<and> set ys \<subseteq> insert v (set xs)"
  using set_update_subset_insert [of xs i v] by (auto simp: wr_def split: if_splits)

lemma store_line_stores: "keeps_full f \<Longrightarrow> full_config c \<longrightarrow> store_line g f c = Some c' \<longrightarrow> full_config c'"
  using store_line_full by blast

lemma store_full:
  "stores_full tdc_store t" "length (qdc_coeffs q) = 10 \<Longrightarrow> stores_full qdc_store q"
  "length (qdc_coeffs q) = 4 \<Longrightarrow> stores_full energy_store q" "stores_full offset_store u" "stores_full map_store v"
  unfolding stores_full_def tdc_store_def qdc_store_def energy_store_def offset_store_def map_store_def
  by (intro allI store_line_stores; auto simp: keeps_full_def full_channel_def dest!: set_wr split: if_splits prod.splits)+

lemma trigger_lines_full: "trigger_lines n ls c = Inr c' \<Longrightarrow> full_config c \<Longrightarrow> full_config c'"
proof (induction n ls c rule: trigger_lines.induct)
  case (4 n r1 r2 ch ls c)
  have "full_config (set_trigger r1 r2 (toupper ch) c) = full_config c" by (simp add: set_trigger_def full_config_def Let_def)
  then show ?case using 4 by (auto split: if_splits)
qed auto

lemma and_then_Inr: "and_then m f = Some (Inr c') \<longleftrightarrow> (\<exists>c. m = Some (Inr c) \<and> f c = Some (Inr c'))"
  by (auto simp: and_then_def split: option.splits sum.splits)

lemma required_Inr: "required src entry name f = Some (Inr c') \<longleftrightarrow> (\<exists>fn. ini_string src entry = Some fn \<and> f (replace_variables src fn) = Some (Inr c'))"
  by (auto simp: required_def split: option.splits)

lemma optional_Inr: "optional src entry c f = Some (Inr c') \<longleftrightarrow>
    ini_string src entry = None \<and> c' = c \<or> (\<exists>fn. ini_string src entry = Some fn \<and> f (replace_variables src fn) = Some (Inr c'))"
  by (auto simp: optional_def split: option.splits)

text \<open>The readers of the tables deliver all coefficients of a line: ten for charges and four for energies.\<close>

definition coefficients_read :: "('f, 'd) sources \<Rightarrow> bool" where
  "coefficients_read src = ((\<forall>fn ls l. qdc_tables src fn = Some ls \<longrightarrow> Some l \<in> set ls \<longrightarrow> length (qdc_coeffs l) = 10)
     \<and> (\<forall>fn ls l. energy_tables src fn = Some ls \<longrightarrow> Some l \<in> set ls \<longrightarrow> length (qdc_coeffs l) = 4))"

lemma load_full:
  assumes "coefficients_read src"
  shows "loadTDCCalibration (tdc_tables src) fn c = Some (Inr c') \<Longrightarrow> full_config c \<longrightarrow> full_config c'"
    "loadQDCCalibration (qdc_tables src) fn c = Some (Inr c') \<Longrightarrow> full_config c \<longrightarrow> full_config c'"
    "loadEnergyCalibration (energy_tables src) fn c = Some (Inr c') \<Longrightarrow> full_config c \<longrightarrow> full_config c'"
    "loadTimeOffsetCalibration (offset_tables src) fn c = Some (Inr c') \<Longrightarrow> full_config c \<longrightarrow> full_config c'"
    "loadChannelMap (map_tables src) fn c = Some (Inr c') \<Longrightarrow> full_config c \<longrightarrow> full_config c'"
    "loadTriggerMap (trigger_tables src) fn c = Inr c' \<Longrightarrow> full_config c \<longrightarrow> full_config c'"
  using assms load_table_full [of "tdc_tables src" fn tdc_store c c'] load_table_full [of "qdc_tables src" fn qdc_store c c']
    load_table_full [of "energy_tables src" fn energy_store c c'] load_table_full [of "offset_tables src" fn offset_store c c']
    load_table_full [of "map_tables src" fn map_store c c']
  by (auto simp: coefficients_read_def store_full loadTDCCalibration_def loadQDCCalibration_def loadEnergyCalibration_def
    loadTimeOffsetCalibration_def loadChannelMap_def loadTriggerMap_def split: option.splits intro: trigger_lines_full)

lemma from_full:
  assumes "coefficients_read src" "full_config c"
  shows "from_tdc src m c = Some (Inr c') \<Longrightarrow> full_config c'" "from_qdc src m c = Some (Inr c') \<Longrightarrow> full_config c'"
    "from_map src m c = Some (Inr c') \<Longrightarrow> full_config c'" "from_offset src m c = Some (Inr c') \<Longrightarrow> full_config c'"
  using assms(2)
  by (auto simp: from_tdc_def from_qdc_def from_map_def from_offset_def Let_def and_then_Inr required_Inr optional_Inr split: if_splits
    dest!: load_full [OF assms(1)])

lemma fromFile_full:
  assumes "coefficients_read src" "fromFile src m unset = Some (Inr c)"
  shows "full_config c"
proof -
  obtain c1 c2 c3 c4 where c: "from_tdc src m (SystemConfig_new unset) = Some (Inr c1)" "from_qdc src m c1 = Some (Inr c2)"
    "from_map src m c2 = Some (Inr c3)" "from_offset src m c3 = Some (Inr c4)" "c = from_trigger src c4"
    using assms(2) by (auto simp: fromFile_def and_then_Inr)
  have "full_config c1" using from_full(1) [OF assms(1) full_config_new c(1)] .
  from from_full(2) [OF assms(1) this c(2)] have "full_config c2" .
  from from_full(3) [OF assms(1) this c(3)] have "full_config c3" .
  from from_full(4) [OF assms(1) this c(4)] show ?thesis by (simp add: c(5))
qed

section \<open>The tables of a loaded configuration\<close>

text \<open>The entries of a channel, named by keys: a time calibration of a branch and buffer, a charge and an energy calibration
  of a buffer, the time offset, and the place of the channel. Each line of a table is an entry for a key of a channel.\<close>

datatype entry_key = KTac bool nat | KCharge nat | KEnergy nat | KOffset | KPlace

datatype 'f entry = VTac "'f TacConfig" | VCoeffs "'f list" | VOffset 'f | VPlace int int int "'f \<times> 'f \<times> 'f"

fun channel_entry :: "entry_key \<Rightarrow> 'f ChannelConfig \<Rightarrow> 'f entry" where
  "channel_entry (KTac isT i) cc = VTac (if isT then tac_T cc ! i else tac_E cc ! i)"
| "channel_entry (KCharge i) cc = VCoeffs (qac_Q cc ! i)"
| "channel_entry (KEnergy i) cc = VCoeffs (eCal cc ! i)"
| "channel_entry KOffset cc = VOffset (cc_t0 cc)"
| "channel_entry KPlace cc = VPlace (triggerRegion cc) (cc_xi cc) (cc_yi cc) (cc_x cc, cc_y cc, cc_z cc)"

fun key_ok :: "entry_key \<Rightarrow> bool" where
  "key_ok (KTac isT i) = (i < 4)"
| "key_ok (KCharge i) = (i < 4)"
| "key_ok (KEnergy i) = (i < 4)"
| "key_ok _ = True"

type_synonym 'f table_entry = "(u32 \<times> entry_key) \<times> 'f entry"

definition tdc_entry :: "'f tdc_line \<Rightarrow> 'f table_entry" where
  "tdc_entry l = ((line_gid l, KTac (bStr l = CHR ''T'') (unat (tdc_tac l))), VTac (tdc_coeffs l))"

definition qdc_entry :: "'f qdc_line \<Rightarrow> 'f table_entry" where
  "qdc_entry l = ((line_gid l, KCharge (unat (qdc_tac l))), VCoeffs (qdc_coeffs l))"

definition energy_entry :: "'f qdc_line \<Rightarrow> 'f table_entry" where
  "energy_entry l = ((line_gid l, KEnergy (unat (qdc_tac l))), VCoeffs (qdc_coeffs l))"

definition offset_entry :: "'f offset_line \<Rightarrow> 'f table_entry" where
  "offset_entry l = ((MAKE_GID (ucast (portID l)) (ucast (slaveID l)) (ucast (chipID l)) (scast (chanID l)), KOffset), VOffset (offset_t0 l))"

definition place_entry :: "'f map_line \<Rightarrow> 'f table_entry" where
  "place_entry l = ((line_gid l, KPlace), VPlace (map_region l) (map_xi l) (map_yi l) (map_xyz l))"

text \<open>The entry of a channel by the last line of a list that names it, or that of a new channel.\<close>

definition last_entry :: "'f::zero table_entry list \<Rightarrow> u32 \<Rightarrow> entry_key \<Rightarrow> 'f entry" where
  "last_entry es g k = (case map_of (rev es) (g, k) of None \<Rightarrow> channel_entry k null_channel | Some v \<Rightarrow> v)"

lemma last_entry_snoc: "last_entry (es @ [e]) g k = (if (g, k) = fst e then snd e else last_entry es g k)"
  by (cases e) (auto simp: last_entry_def)

definition four_each :: "'f ChannelConfig \<Rightarrow> bool" where
  "four_each cc = (length (tac_T cc) = 4 \<and> length (tac_E cc) = 4 \<and> length (qac_Q cc) = 4 \<and> length (eCal cc) = 4)"

definition config_flags :: "('f, 'd) SystemConfig \<Rightarrow> bool \<times> bool \<times> bool \<times> bool \<times> bool" where
  "config_flags c = (hasTDCCalibration c, hasQDCCalibration c, hasEnergyCalibration c, hasXYZ c, hasTimeOffsetCalibration c)"

definition agrees :: "('f::zero, 'd) SystemConfig \<Rightarrow> 'f table_entry list \<Rightarrow> bool" where
  "agrees c es = (\<forall>g. four_each (channel c g) \<and> (\<forall>k. key_ok k \<longrightarrow> channel_entry k (channel c g) = last_entry es g k))"

lemma agrees_cong:
  "channelConfig c' = channelConfig c \<Longrightarrow> nullChannelConfig c' = nullChannelConfig c \<Longrightarrow> agrees c' es = agrees c es"
  by (simp add: agrees_def channel_def cong: option.case_cong)

lemma agrees_updates [simp]:
  "agrees (c\<lparr>hasTDCCalibration := b\<rparr>) es = agrees c es" "agrees (c\<lparr>hasQDCCalibration := b\<rparr>) es = agrees c es"
  "agrees (c\<lparr>hasEnergyCalibration := b\<rparr>) es = agrees c es" "agrees (c\<lparr>hasXYZ := b\<rparr>) es = agrees c es"
  "agrees (c\<lparr>hasTimeOffsetCalibration := b\<rparr>) es = agrees c es" "agrees (set_trigger r1 r2 ch c) es = agrees c es"
  by (rule agrees_cong; simp add: set_trigger_def Let_def)+

lemma agrees_from_trigger [simp]: "agrees (from_trigger src c) es = agrees c es"
  by (rule agrees_cong; simp add: from_trigger_def)

lemma agrees_new: "agrees (SystemConfig_new unset) []"
  by (simp add: agrees_def last_entry_def channel_def SystemConfig_new_def four_each_def null_channel_def Let_def)

text \<open>A line that is stored is in the table of blocks, and changes one channel and nothing else.\<close>

lemma store_line_result:
  assumes "store_line g f c = Some c'"
  shows "\<exists>cc. f (channel c g) = Some cc \<and> (\<forall>h. channel c' h = (if h = g then cc else channel c h)) \<and> config_flags c' = config_flags c"
proof -
  obtain c1 where c1: "touchChannelConfig g c = Some c1" "update_channel g f c1 = Some c'"
    using assms by (auto simp: store_line_def bind_eq_Some_conv)
  then have g: "gid_ok g"
    by (auto simp: touchChannelConfig_def gid_ok_def Let_def split: if_splits)
  have same: "channel c1 g = channel c g" "config_flags c1 = config_flags c"
    using c1(1) by (auto simp: touchChannelConfig_def channel_def config_flags_def Let_def split: if_splits option.splits)
  obtain cc where cc: "f (channel c g) = Some cc"
    using c1(2) same(1) by (auto simp: update_channel_def getChannelConfig_channel [OF g] bind_eq_Some_conv)
  moreover have "config_flags c' = config_flags c1"
    using c1(2) by (auto simp: update_channel_def config_flags_def bind_eq_Some_conv Let_def split: option.splits)
  ultimately show ?thesis
    using store_line_channel [where f = f, OF g cc] same(2) assms by auto
qed

definition stores_entry :: "('l \<Rightarrow> ('f::zero, 'd) SystemConfig \<Rightarrow> ('f, 'd) SystemConfig checked) \<Rightarrow> ('l \<Rightarrow> 'f table_entry) \<Rightarrow> bool" where
  "stores_entry store e = (\<forall>l c c' es. agrees c es \<longrightarrow> store l c = Some c' \<longrightarrow>
     agrees c' (es @ [e l]) \<and> config_flags c' = config_flags c)"

text \<open>It is enough that the change of the channel sets the entry.\<close>

lemma store_line_entry:
  assumes "store_line g f c = Some c'" "agrees c es"
    and "\<And>cc cc'. four_each cc \<Longrightarrow> f cc = Some cc' \<Longrightarrow> four_each cc' \<and>
      (\<forall>k. key_ok k \<longrightarrow> channel_entry k cc' = (if k = k0 then v else channel_entry k cc))"
  shows "agrees c' (es @ [((g, k0), v)]) \<and> config_flags c' = config_flags c"
proof -
  obtain cc where cc: "f (channel c g) = Some cc" "\<forall>h. channel c' h = (if h = g then cc else channel c h)" "config_flags c' = config_flags c"
    using store_line_result [OF assms(1)] by blast
  then have "four_each cc \<and> (\<forall>k. key_ok k \<longrightarrow> channel_entry k cc = (if k = k0 then v else channel_entry k (channel c g)))"
    using assms(2) by (intro assms(3)) (auto simp: agrees_def)
  then show ?thesis
    using assms(2) cc(2,3) by (simp add: agrees_def last_entry_snoc)
qed

lemma wr_entry: "wr xs i v = Some ys \<longleftrightarrow> i < length xs \<and> ys = xs[i := v]"
  by (auto simp: wr_def)

lemma stores_entries:
  "stores_entry tdc_store tdc_entry" "stores_entry qdc_store qdc_entry" "stores_entry energy_store energy_entry"
  "stores_entry offset_store offset_entry" "stores_entry map_store place_entry"
  unfolding stores_entry_def tdc_store_def qdc_store_def energy_store_def offset_store_def map_store_def
    tdc_entry_def qdc_entry_def energy_entry_def offset_entry_def place_entry_def
  by (intro allI impI; erule (1) store_line_entry;
      auto simp: four_each_def wr_entry nth_list_update split: if_splits prod.splits elim!: key_ok.elims)+

lemma load_lines_entries:
  assumes "stores_entry store e" "agrees c es" "load_lines store ls c = Some c'"
  shows "agrees c' (es @ map e (lines_of ls)) \<and> config_flags c' = config_flags c"
  using assms(2,3)
proof (induction ls arbitrary: c es)
  case (Cons x ls)
  show ?case
  proof (cases x)
    case None
    then show ?thesis
      using Cons by simp
  next
    case (Some l)
    then obtain c1 where c1: "store l c = Some c1" "load_lines store ls c1 = Some c'"
      using Cons.prems(2) by (auto simp: bind_eq_Some_conv)
    then have "agrees c1 (es @ [e l]) \<and> config_flags c1 = config_flags c"
      using assms(1) Cons.prems(1) unfolding stores_entry_def by blast
    then show ?thesis
      using Cons.IH [OF _ c1(2)] Some by fastforce
  qed
qed simp

text \<open>The lines of the table that an entry of the ini file names.\<close>

definition named_lines :: "('f, 'd) sources \<Rightarrow> (string \<Rightarrow> 'l option list option) \<Rightarrow> string \<Rightarrow> 'l list" where
  "named_lines src files entry = (case ini_string src entry of
     None \<Rightarrow> [] | Some fn \<Rightarrow> (case files (replace_variables src fn) of None \<Rightarrow> [] | Some ls \<Rightarrow> lines_of ls))"

lemma load_table_entries:
  assumes "stores_entry store e" "agrees c es" "load_table store files (replace_variables src fn) c = Some (Inr c')"
    and "ini_string src entry = Some fn"
  shows "agrees c' (es @ map e (named_lines src files entry)) \<and> config_flags c' = config_flags c"
proof -
  obtain ls where "files (replace_variables src fn) = Some ls" "load_lines store ls c = Some c'"
    using assms(3) by (auto simp: load_table_def split: option.splits)
  then show ?thesis
    using load_lines_entries [OF assms(1,2)] assms(4) by (simp add: named_lines_def)
qed

text \<open>All entries that the options of a call load, in the order of the loaders.\<close>

definition loaded_entries :: "('f, 'd) sources \<Rightarrow> u64 \<Rightarrow> 'f table_entry list" where
  "loaded_entries src m =
     (if m AND LOAD_TDC_CALIBRATION \<noteq> 0
      then map tdc_entry (named_lines src (tdc_tables src) ''main:tdc_calibration_table'') else []) @
     (if m AND LOAD_QDC_CALIBRATION \<noteq> 0
      then map qdc_entry (named_lines src (qdc_tables src) ''main:qdc_calibration_table'') @
        map energy_entry (named_lines src (energy_tables src) ''main:energy_calibration_table'') else []) @
     (if m AND LOAD_MAPPING \<noteq> 0 then map place_entry (named_lines src (map_tables src) ''main:channel_map'') else []) @
     (if m AND LOAD_TIMEALIGN_CALIBRATION \<noteq> 0
      then map offset_entry (named_lines src (offset_tables src) ''main:time_offset_calibration_table'') else [])"

lemma from_tdc_entries:
  assumes "from_tdc src m c = Some (Inr c')" "agrees c es"
  shows "agrees c' (es @ (if m AND LOAD_TDC_CALIBRATION \<noteq> 0
      then map tdc_entry (named_lines src (tdc_tables src) ''main:tdc_calibration_table'') else [])) \<and>
    config_flags c' = (m AND LOAD_TDC_CALIBRATION \<noteq> 0, snd (config_flags c))"
proof (cases "m AND LOAD_TDC_CALIBRATION \<noteq> 0")
  case True
  let ?c1 = "c\<lparr>hasTDCCalibration := False\<rparr>"
  obtain fn c2 where 2: "ini_string src ''main:tdc_calibration_table'' = Some fn"
    "load_table tdc_store (tdc_tables src) (replace_variables src fn) ?c1 = Some (Inr c2)" "c' = c2\<lparr>hasTDCCalibration := True\<rparr>"
    using assms(1) True by (auto simp: from_tdc_def Let_def required_Inr and_then_Inr loadTDCCalibration_def)
  from load_table_entries [OF stores_entries(1) _ 2(2,1)] show ?thesis
    using assms(2) True 2(3) by (auto simp: config_flags_def)
qed (use assms in \<open>auto simp: from_tdc_def Let_def config_flags_def\<close>)

lemma from_offset_entries:
  assumes "from_offset src m c = Some (Inr c')" "agrees c es"
  shows "agrees c' (es @ (if m AND LOAD_TIMEALIGN_CALIBRATION \<noteq> 0
      then map offset_entry (named_lines src (offset_tables src) ''main:time_offset_calibration_table'') else [])) \<and>
    config_flags c' = (hasTDCCalibration c, hasQDCCalibration c, hasEnergyCalibration c, hasXYZ c,
      m AND LOAD_TIMEALIGN_CALIBRATION \<noteq> 0 \<and> ini_string src ''main:time_offset_calibration_table'' \<noteq> None)"
proof (cases "m AND LOAD_TIMEALIGN_CALIBRATION \<noteq> 0 \<and> ini_string src ''main:time_offset_calibration_table'' \<noteq> None")
  case True
  let ?c1 = "c\<lparr>hasTimeOffsetCalibration := False\<rparr>"
  obtain fn c2 where 2: "ini_string src ''main:time_offset_calibration_table'' = Some fn"
    "load_table offset_store (offset_tables src) (replace_variables src fn) ?c1 = Some (Inr c2)" "c' = c2\<lparr>hasTimeOffsetCalibration := True\<rparr>"
    using assms(1) True by (auto simp: from_offset_def Let_def optional_Inr and_then_Inr loadTimeOffsetCalibration_def)
  from load_table_entries [OF stores_entries(4) _ 2(2,1)] show ?thesis
    using assms(2) True 2(3) by (auto simp: config_flags_def)
qed (use assms in \<open>auto simp: from_offset_def Let_def config_flags_def optional_Inr named_lines_def\<close>)

lemma from_qdc_entries:
  assumes "from_qdc src m c = Some (Inr c')" "agrees c es"
  shows "agrees c' (es @ (if m AND LOAD_QDC_CALIBRATION \<noteq> 0
      then map qdc_entry (named_lines src (qdc_tables src) ''main:qdc_calibration_table'') @
        map energy_entry (named_lines src (energy_tables src) ''main:energy_calibration_table'') else [])) \<and>
    config_flags c' = (hasTDCCalibration c, m AND LOAD_QDC_CALIBRATION \<noteq> 0,
      m AND LOAD_QDC_CALIBRATION \<noteq> 0 \<and> ini_string src ''main:energy_calibration_table'' \<noteq> None, hasXYZ c, hasTimeOffsetCalibration c)"
proof (cases "m AND LOAD_QDC_CALIBRATION \<noteq> 0")
  case True
  let ?c1 = "c\<lparr>hasQDCCalibration := False, hasEnergyCalibration := False\<rparr>"
  let ?es = "es @ map qdc_entry (named_lines src (qdc_tables src) ''main:qdc_calibration_table'')"
  obtain fn c2 where 2: "ini_string src ''main:qdc_calibration_table'' = Some fn"
    "load_table qdc_store (qdc_tables src) (replace_variables src fn) ?c1 = Some (Inr c2)"
    and rest: "optional src ''main:energy_calibration_table'' (c2\<lparr>hasQDCCalibration := True\<rparr>) (\<lambda>fn.
       and_then (loadEnergyCalibration (energy_tables src) fn (c2\<lparr>hasQDCCalibration := True\<rparr>))
         (\<lambda>c3. Some (Inr (c3\<lparr>hasEnergyCalibration := True\<rparr>)))) = Some (Inr c')"
    using assms(1) True by (auto simp: from_qdc_def Let_def required_Inr and_then_Inr loadQDCCalibration_def)
  have charges: "agrees (c2\<lparr>hasQDCCalibration := True\<rparr>) ?es" "config_flags c2 = config_flags ?c1"
    using load_table_entries [OF stores_entries(2) _ 2(2,1)] assms(2) by simp_all
  show ?thesis
  proof (cases "ini_string src ''main:energy_calibration_table''")
    case None
    then show ?thesis
      using charges rest True by (auto simp: optional_Inr config_flags_def named_lines_def)
  next
    case (Some fn2)
    then obtain c3 where 3: "load_table energy_store (energy_tables src) (replace_variables src fn2) (c2\<lparr>hasQDCCalibration := True\<rparr>) =
        Some (Inr c3)" "c' = c3\<lparr>hasEnergyCalibration := True\<rparr>"
      using rest by (auto simp: optional_Inr and_then_Inr loadEnergyCalibration_def)
    from load_table_entries [OF stores_entries(3) charges(1) 3(1) Some] show ?thesis
      using charges(2) True 3(2) Some by (auto simp: config_flags_def)
  qed
qed (use assms in \<open>auto simp: from_qdc_def Let_def config_flags_def\<close>)

lemma trigger_lines_entries:
  "trigger_lines n ls c = Inr c' \<Longrightarrow> agrees c es \<Longrightarrow> agrees c' es \<and> config_flags c' = config_flags c"
proof (induction n ls c rule: trigger_lines.induct)
  case (4 n r1 r2 ch ls c)
  have "config_flags (set_trigger r1 r2 (toupper ch) c) = config_flags c"
    by (simp add: set_trigger_def config_flags_def Let_def)
  then show ?case
    using 4 by (auto split: if_splits)
qed auto

lemma from_map_entries:
  assumes "from_map src m c = Some (Inr c')" "agrees c es"
  shows "agrees c' (es @ (if m AND LOAD_MAPPING \<noteq> 0
      then map place_entry (named_lines src (map_tables src) ''main:channel_map'') else [])) \<and>
    config_flags c' = (hasTDCCalibration c, hasQDCCalibration c, hasEnergyCalibration c, m AND LOAD_MAPPING \<noteq> 0, hasTimeOffsetCalibration c)"
proof (cases "m AND LOAD_MAPPING \<noteq> 0")
  case True
  let ?c1 = "c\<lparr>hasXYZ := False\<rparr>"
  obtain fn fn2 c2 where 2: "ini_string src ''main:channel_map'' = Some fn"
    "load_table map_store (map_tables src) (replace_variables src fn) ?c1 = Some (Inr c2)"
    and trigger: "loadTriggerMap (trigger_tables src) fn2 (c2\<lparr>hasXYZ := True\<rparr>) = Inr c'"
    using assms(1) True by (auto simp: from_map_def Let_def required_Inr and_then_Inr loadChannelMap_def)
  have places: "agrees (c2\<lparr>hasXYZ := True\<rparr>) (es @ map place_entry (named_lines src (map_tables src) ''main:channel_map''))"
    "config_flags c2 = config_flags ?c1"
    using load_table_entries [OF stores_entries(5) _ 2(2,1)] assms(2) by simp_all
  obtain ls where "trigger_lines 0 ls (c2\<lparr>hasXYZ := True\<rparr>) = Inr c'"
    using trigger by (auto simp: loadTriggerMap_def split: option.splits)
  from trigger_lines_entries [OF this places(1)] show ?thesis
    using places(2) True by (auto simp: config_flags_def)
qed (use assms in \<open>auto simp: from_map_def Let_def config_flags_def\<close>)

text \<open>C30: What a configuration that \<open>fromFile\<close> returns holds for each channel inside the table of blocks, for the
  options it was called with: each time calibration of a branch and one of the four buffers, each charge and energy calibration of a
  buffer, the time offset, and the region, indices and position have the value in the last line of their table that names them,
  and that of a new channel when no line does or the table was not asked for (or, for the optional tables, not named in the ini file).
  Nothing is stored for another channel, branch, buffer or kind. The arrays keep their four elements, and the flags say which
  tables were loaded. The lines are those that have all their fields.\<close>

theorem fromFile_loads_tables:
  assumes "fromFile src m unset = Some (Inr c)" "gid_ok g" "key_ok k"
  shows "\<exists>cc. getChannelConfig c g = Some cc \<and> channel_entry k cc = last_entry (loaded_entries src m) g k \<and>
    length (tac_T cc) = 4 \<and> length (tac_E cc) = 4 \<and> length (qac_Q cc) = 4 \<and> length (eCal cc) = 4 \<and>
    hasTDCCalibration c = (m AND LOAD_TDC_CALIBRATION \<noteq> 0) \<and> hasQDCCalibration c = (m AND LOAD_QDC_CALIBRATION \<noteq> 0) \<and>
    hasEnergyCalibration c = (m AND LOAD_QDC_CALIBRATION \<noteq> 0 \<and> ini_string src ''main:energy_calibration_table'' \<noteq> None) \<and>
    hasXYZ c = (m AND LOAD_MAPPING \<noteq> 0) \<and>
    hasTimeOffsetCalibration c =
      (m AND LOAD_TIMEALIGN_CALIBRATION \<noteq> 0 \<and> ini_string src ''main:time_offset_calibration_table'' \<noteq> None)"
proof -
  obtain c1 c2 c3 c4 where steps: "from_tdc src m (SystemConfig_new unset) = Some (Inr c1)" "from_qdc src m c1 = Some (Inr c2)"
    "from_map src m c2 = Some (Inr c3)" "from_offset src m c3 = Some (Inr c4)" "c = from_trigger src c4"
    using assms(1) by (auto simp: fromFile_def and_then_Inr)
  note e1 = from_tdc_entries [OF steps(1) agrees_new]
  note e2 = from_qdc_entries [OF steps(2) conjunct1 [OF e1]]
  note e3 = from_map_entries [OF steps(3) conjunct1 [OF e2]]
  note e4 = from_offset_entries [OF steps(4) conjunct1 [OF e3]]
  have "agrees c (loaded_entries src m)"
    using conjunct1 [OF e4] unfolding steps(5) agrees_from_trigger loaded_entries_def by (simp only: append_assoc append.simps)
  moreover have "config_flags c = config_flags c4"
    by (simp add: steps(5) from_trigger_def config_flags_def)
  ultimately show ?thesis
    using conjunct2 [OF e1] conjunct2 [OF e2] conjunct2 [OF e3] conjunct2 [OF e4] assms(3)
    by (auto simp: agrees_def four_each_def getChannelConfig_channel [OF assms(2)] config_flags_def)
qed

definition example_sources0 :: "(int, int) sources" where
  "example_sources0 = \<lparr>ini_string = \<lambda>_. Some ''t'', ini_int = \<lambda>_. None, ini_float = \<lambda>_. None, ini_double = \<lambda>_. None, replace_variables = id,
     tdc_tables = \<lambda>_. Some [Some example_line], qdc_tables = \<lambda>_. Some [], energy_tables = \<lambda>_. Some [], offset_tables = \<lambda>_. Some [],
     map_tables = \<lambda>_. Some [], trigger_tables = \<lambda>_. Some []\<rparr>"

theorem fromFile_loads_tables_witness:
  "\<exists>c cc. fromFile example_sources0 LOAD_TDC_CALIBRATION example_config0 = Some (Inr c) \<and>
    getChannelConfig c (line_gid example_line) = Some cc \<and> tac_T cc ! 2 = tdc_coeffs example_line"
proof -
  have gid: "gid_ok (line_gid example_line)"
    by (simp add: gid_ok_def PATH_MAX_def line_gid_def MAKE_GID_def example_line_def)
  then obtain c1 where "tdc_store example_line ((SystemConfig_new example_config0)\<lparr>hasTDCCalibration := False\<rparr>) = Some c1"
    using tdc_store_channel [of example_line "(SystemConfig_new example_config0)\<lparr>hasTDCCalibration := False\<rparr>"]
    by (auto simp: tdc_line_ok_def example_line_def four_tacs_def channel_def SystemConfig_new_def null_channel_def Let_def)
  then obtain c where c: "fromFile example_sources0 LOAD_TDC_CALIBRATION example_config0 = Some (Inr c)"
    by (simp add: fromFile_def from_tdc_def from_qdc_def from_map_def from_offset_def and_then_def required_def example_sources0_def
      loadTDCCalibration_def load_table_def LOAD_TDC_CALIBRATION_def LOAD_QDC_CALIBRATION_def LOAD_MAPPING_def LOAD_TIMEALIGN_CALIBRATION_def Let_def)
  have "last_entry (loaded_entries example_sources0 LOAD_TDC_CALIBRATION) (line_gid example_line) (KTac True 2) = VTac (tdc_coeffs example_line)"
    by (simp add: last_entry_def loaded_entries_def named_lines_def example_sources0_def tdc_entry_def LOAD_TDC_CALIBRATION_def
      LOAD_QDC_CALIBRATION_def LOAD_MAPPING_def LOAD_TIMEALIGN_CALIBRATION_def) (simp add: example_line_def)
  then show ?thesis
    using fromFile_loads_tables [OF c gid, of "KTac True 2"] c by auto
qed

end
