(* ===== verification/EventStage.thy ===== *)
theory EventStage
  imports EventBuffer
begin

text \<open>
  The contract of the stages of the event pipeline (\<open>external/base/include/UnorderedEventHandler.h\<close>,
  \<open>EventSourceSink.h\<close>): a stage turns a buffer of events into a new one and passes it to its sink, and has counters as
  its state. What stages and the ordered handler behind them rely on is that a stage handles every block of events it accepts, that the
  result is related to the input, and that the new buffer keeps the sequence number and the start time.
\<close>

type_synonym ('a, 'b, 's) stage = "'a EventBuffer \<Rightarrow> 's \<Rightarrow> ('b EventBuffer \<times> 's) checked"

text \<open>\<open>pushEvents\<close> of a stage whose sink is another stage; and the blocks of a step, one after the other.\<close>

definition chain :: "('a, 'b, 's) stage \<Rightarrow> ('b, 'c, 't) stage \<Rightarrow> ('a, 'c, 's \<times> 't) stage" where
  "chain h1 h2 b = (\<lambda>(s, t). do {
     (b1, s1) \<leftarrow> h1 b s;
     (b2, t1) \<leftarrow> h2 b1 t;
     Some (b2, (s1, t1))
   })"

fun handle_blocks :: "('a, 'b, 's) stage \<Rightarrow> 'a EventBuffer list \<Rightarrow> 's \<Rightarrow> ('b EventBuffer list \<times> 's) checked" where
  "handle_blocks h [] s = Some ([], s)"
| "handle_blocks h (b # bs) s = do {
     (b1, s1) \<leftarrow> h b s;
     (bs1, s2) \<leftarrow> handle_blocks h bs s1;
     Some (b1 # bs1, s2)
   }"

locale event_stage =
  fixes handle :: "('a, 'b, 's) stage"
    and accepts :: "'a list \<Rightarrow> bool"
    and result :: "'a list \<Rightarrow> 'b list \<Rightarrow> bool"
  assumes handles: "holds b xs \<Longrightarrow> accepts xs \<Longrightarrow>
    \<exists>b' s' ys. handle b s = Some (b', s') \<and> holds b' ys \<and> result xs ys \<and> getSeqN b' = getSeqN b \<and> getTMin b' = getTMin b"
begin

text \<open>A sequence of blocks is handled, and the results have the numbers of the blocks.\<close>

lemma handles_blocks:
  assumes "list_all2 holds bs xss" "\<forall>xs \<in> set xss. accepts xs"
  shows "\<exists>bs' s' yss. handle_blocks handle bs s = Some (bs', s') \<and> list_all2 holds bs' yss \<and> list_all2 result xss yss
    \<and> map getSeqN bs' = map getSeqN bs \<and> map getTMin bs' = map getTMin bs"
  using assms
proof (induction bs xss arbitrary: s rule: list_all2_induct)
  case (Cons b bs xs xss)
  obtain b1 s1 ys where h: "handle b s = Some (b1, s1)" "holds b1 ys" "result xs ys" "getSeqN b1 = getSeqN b" "getTMin b1 = getTMin b"
    using handles [OF Cons.hyps(1)] Cons.prems by fastforce
  obtain bs1 s2 yss where "handle_blocks handle bs s1 = Some (bs1, s2)" "list_all2 holds bs1 yss" "list_all2 result xss yss"
    "map getSeqN bs1 = map getSeqN bs" "map getTMin bs1 = map getTMin bs"
    using Cons.IH [of s1] Cons.prems by auto
  then show ?case using h
    by (intro exI [of _ "b1 # bs1"] exI [of _ s2] exI [of _ "ys # yss"]) simp
qed simp

end

text \<open>Two stages in a row are a stage, when the second accepts what the first one makes.\<close>

locale stage_chain =
  first: event_stage h1 accepts1 result1 + second: event_stage h2 accepts2 result2
  for h1 :: "('a, 'b, 's) stage" and accepts1 result1
    and h2 :: "('b, 'c, 't) stage" and accepts2 result2 +
  assumes fits: "accepts1 xs \<Longrightarrow> result1 xs ys \<Longrightarrow> accepts2 ys"
begin

lemma chain_handles:
  assumes "holds b xs" "accepts1 xs"
  shows "\<exists>b' s' zs. chain h1 h2 b s = Some (b', s') \<and> holds b' zs \<and> (\<exists>ys. result1 xs ys \<and> result2 ys zs)
    \<and> getSeqN b' = getSeqN b \<and> getTMin b' = getTMin b"
proof -
  obtain s1 t where s: "s = (s1, t)" by force
  obtain b1 s2 ys where h1: "h1 b s1 = Some (b1, s2)" "holds b1 ys" "result1 xs ys" "getSeqN b1 = getSeqN b" "getTMin b1 = getTMin b"
    using first.handles [OF assms] by blast
  obtain b2 t2 zs where "h2 b1 t = Some (b2, t2)" "holds b2 zs" "result2 ys zs" "getSeqN b2 = getSeqN b1" "getTMin b2 = getTMin b1"
    using second.handles [OF h1(2) fits [OF assms(2) h1(3)]] by blast
  then show ?thesis using h1 by (auto simp: chain_def s)
qed

end

sublocale stage_chain \<subseteq> chained: event_stage "chain h1 h2" accepts1 "\<lambda>xs zs. \<exists>ys. result1 xs ys \<and> result2 ys zs"
  by unfold_locales (rule chain_handles)

end
