(* ===== verification/Grouping.thy ===== *)
theory Grouping
  imports RawReader SystemConfig EventStage
begin

text \<open>
  The stages of the event pipeline behind the decoder: \<open>CoarseSorter\<close>, \<open>SimpleGrouper\<close> and
  \<open>CoincidenceGrouper\<close> (\<open>external/base/src\<close>, the events of \<open>external/base/include/Event.h\<close>).

  Times are of a type \<open>'d\<close> and energies and positions of a type \<open>'f\<close>; the definitions use the arithmetic
  operations that the code uses on \<open>double\<close> and \<open>float\<close>. Theorems that depend on the arithmetic
  are about exact arithmetic (a linearly ordered ring), so they do not speak about rounding.
  Pointers to hits and photons of the input buffer are their positions in it; the pointer of a hit to its raw hit, which
  never changes after its construction, is that raw hit. A stage gives
  \<^const>\<open>None\<close> when it leaves an array.
\<close>

section \<open>Events\<close>

record ('d, 'f) Hit =
  h_valid :: bool
  h_raw :: RawHit
  h_time :: 'd
  h_timeEnd :: 'd
  h_energy :: 'f
  h_region :: int
  h_xi :: int
  h_yi :: int
  h_x :: 'f
  h_y :: 'f
  h_z :: 'f

record ('d, 'f) GammaPhoton =
  p_valid :: bool
  p_time :: 'd
  p_energy :: 'f
  p_region :: int
  p_x :: 'f
  p_y :: 'f
  p_z :: 'f
  p_nHits :: nat
  p_hits :: "nat list"

definition photon_maxHits :: nat where
  "photon_maxHits = 256"

record Coincidence =
  c_valid :: bool
  c_nPhotons :: nat
  c_photons :: "nat \<times> nat"

definition MAX_UNORDER :: "'d::numeral" where
  "MAX_UNORDER = 20"

definition read_all :: "'e EventBuffer \<Rightarrow> 'e list checked" where
  "read_all b = those (map (get b) [0..<getSize b])"

lemma read_all_holds: "holds b es \<Longrightarrow> read_all b = Some es"
proof -
  assume b: "holds b es"
  have "those (map (get b) [0..<length es]) = Some (map (\<lambda>i. es ! i) [0..<length es])"
    by (rule those_map_Some) (simp add: holds_get [OF b])
  then show ?thesis by (simp add: read_all_def holds_getSize [OF b] map_nth)
qed

lemma holds_assign_beyond:
  assumes "holds b es" "assign (length es) e b = Some b'"
  shows "holds b' es"
  using assms holds_used [OF assms(1)] by (auto simp: assign_def holds_def split: if_splits)

lemma write_slot_works:
  assumes "holds b es" "getWriteSlot b = (slot, b1)"
  shows "\<exists>b2. assign slot e b1 = Some b2 \<and> holds b2 es \<and> holds (pushWriteSlot b2) (es @ [e])"
proof -
  have w: "holds b1 es" "slot = length es" "length es < length (slots b1)" using holds_getWriteSlot [OF assms] by auto
  obtain b2 where b2: "assign (length es) e b1 = Some b2" "holds (pushWriteSlot b2) (es @ [e])"
    by (rule holds_assign_at [OF w(1,3)])
  show ?thesis using b2 w(2) holds_assign_beyond [OF w(1) b2(1)] by simp
qed

section \<open>CoarseSorter\<close>

text \<open>\<open>std::sort\<close> on entries that compare by their first component: some permutation into ascending order.\<close>

definition sorts_entries :: "((int \<times> RawHit) list \<Rightarrow> (int \<times> RawHit) list) \<Rightarrow> bool" where
  "sorts_entries srt = (\<forall>es. mset (srt es) = mset es \<and> sorted (map fst (srt es)))"

definition CoarseSorter_handleEvents ::
  "((int \<times> RawHit) list \<Rightarrow> (int \<times> RawHit) list) \<Rightarrow> RawHit EventBuffer \<Rightarrow> u64 \<Rightarrow> (RawHit EventBuffer \<times> u64) checked" where
  "CoarseSorter_handleEvents srt inBuffer nSingleRead = do {
     let n = getSize inBuffer;
     hits \<leftarrow> read_all inBuffer;
     let sortList = srt (map (\<lambda>h. (time h, h)) hits);
     b \<leftarrow> write_from 0 (map snd sortList) (EventBuffer_child (of_nat n) inBuffer);
     let lSingleRead = length sortList;
     Some (setUsed lSingleRead b, nSingleRead + of_nat lSingleRead)
   }"

lemma coarse_sorter_works:
  assumes "sorts_entries srt" "holds inBuffer hits" "length hits < 4294966272"
  shows "\<exists>b out. CoarseSorter_handleEvents srt inBuffer n = Some (b, n + of_nat (length hits)) \<and> holds b out
    \<and> mset out = mset hits \<and> sorted (map time out) \<and> getSeqN b = getSeqN inBuffer \<and> getTMin b = getTMin inBuffer"
proof -
  let ?es = "map (\<lambda>h. (time h, h)) hits" and ?c = "EventBuffer_child (of_nat (length hits)) inBuffer :: RawHit EventBuffer"
  have srt: "mset (srt ?es) = mset ?es" "sorted (map fst (srt ?es))" using assms(1) by (auto simp: sorts_entries_def)
  have len: "length (srt ?es) = length hits" using srt(1) by (metis length_map mset_eq_length)
  have "length hits \<le> capacity ?c"
    using initial_capacity_ge [of "of_nat (length hits)"] assms(3)
    by (simp add: EventBuffer_child_def unsigned_of_nat take_bit_nat_eq_self)
  then obtain ss where ss: "write_from 0 (map snd (srt ?es)) ?c = Some (?c\<lparr>slots := ss\<rparr>)"
    "holds (setUsed (length hits) (?c\<lparr>slots := ss\<rparr>)) (map snd (srt ?es))"
    using holds_write_from [OF holds_child, of "map snd (srt ?es)" "of_nat (length hits)" inBuffer] len by auto
  have "mset (map snd (srt ?es)) = image_mset snd (mset ?es)" using srt(1) by simp
  then have out: "mset (map snd (srt ?es)) = mset hits" by (simp add: multiset.map_comp comp_def)
  have "map time (map snd (srt ?es)) = map fst (srt ?es)"
    using mset_eq_setD [OF srt(1)] by auto
  then have "sorted (map time (map snd (srt ?es)))" using srt(2) by metis
  then show ?thesis using ss len out assms(2)
    by (intro exI [of _ "setUsed (length hits) (?c\<lparr>slots := ss\<rparr>)"] exI [of _ "map snd (srt ?es)"])
      (simp add: CoarseSorter_handleEvents_def holds_getSize read_all_holds getSeqN_def getTMin_def setUsed_def EventBuffer_child_def Let_def)
qed

text \<open>The sorter as a stage.\<close>

interpretation sorter: event_stage "CoarseSorter_handleEvents srt"
  "\<lambda>hits. sorts_entries srt \<and> length hits < 4294966272" "\<lambda>hits out. mset out = mset hits \<and> sorted (map time out)" for srt
  by unfold_locales (blast dest: coarse_sorter_works)

text \<open>
  The sorter passes on exactly the hits of its input in chronological order, stays inside its buffers,
  keeps sequence number and start time, and counts the events modulo the width of its counter.
\<close>

theorem coarse_sorter_sorts:
  assumes "sorts_entries srt" "holds inBuffer hits" "length hits < 4294966272"
  shows "\<exists>b out. CoarseSorter_handleEvents srt inBuffer n = Some (b, n + of_nat (length hits)) \<and> holds b out
    \<and> mset out = mset hits \<and> sorted (map time out) \<and> getSeqN b = getSeqN inBuffer \<and> getTMin b = getTMin inBuffer"
  by (rule coarse_sorter_works [OF assms])

text \<open>The sorting functions of the library are an instance.\<close>

lemma sorts_sort_key: "sorts_entries (sort_key fst)"
  by (simp add: sorts_entries_def)

definition example_hit :: "int \<Rightarrow> RawHit" where
  "example_hit t = \<lparr>valid = True, qdc = True, time = t, timeEnd = t + 5, channelID = 0, hitFrameID = 0, tcoarse = 0,
     ecoarse = 0, tfine = 0, efine = 0, tacID = 0\<rparr>"

definition example_buffer :: "RawHit EventBuffer" where
  "example_buffer = \<lparr>bufferSeqN = 3, bufferTMin = 0, bufferTMax = None, slots = [Some (example_hit 7), Some (example_hit 4)],
     capacity = 2, used = 2\<rparr>"

theorem coarse_sorter_sorts_witness:
  "\<exists>b out. CoarseSorter_handleEvents (sort_key fst) example_buffer 10 = Some (b, 12) \<and> holds b out
     \<and> mset out = {#example_hit 4, example_hit 7#} \<and> sorted (map time out)"
proof -
  have "holds example_buffer [example_hit 7, example_hit 4]" by (simp add: holds_def example_buffer_def)
  from coarse_sorter_sorts [OF sorts_sort_key this, of 10] show ?thesis by (auto simp: add_mset_commute)
qed

section \<open>CoincidenceGrouper\<close>

definition coincidence :: "nat \<Rightarrow> ('d, 'f) GammaPhoton \<Rightarrow> nat \<Rightarrow> ('d, 'f) GammaPhoton \<Rightarrow> Coincidence" where
  "coincidence i photon1 j photon2 =
     (let first1 = p_region photon1 > p_region photon2 in
      \<lparr>c_valid = True, c_nPhotons = 2, c_photons = (if first1 then (i, j) else (j, i))\<rparr>)"

text \<open>The inner loop: the photons from position \<open>j\<close> on, until one is too late to be misordered.\<close>

fun pair_scan ::
  "('f, 'd::{numeral,ord,plus,minus,abs}) SystemConfig \<Rightarrow> nat \<Rightarrow> ('d, 'f) GammaPhoton \<Rightarrow> nat \<Rightarrow> ('d, 'f) GammaPhoton list \<Rightarrow> Coincidence list checked" where
  "pair_scan c i photon1 j [] = Some []"
| "pair_scan c i photon1 j (photon2 # ps) =
     (if p_time photon2 - p_time photon1 > sw_trigger_coincidence_time_window c + MAX_UNORDER then Some []
      else do {
        allowed \<leftarrow> isCoincidenceAllowed c (p_region photon1) (p_region photon2);
        rest \<leftarrow> pair_scan c i photon1 (j + 1) ps;
        Some (if allowed \<and> \<bar>p_time photon1 - p_time photon2\<bar> \<le> sw_trigger_coincidence_time_window c
              then coincidence i photon1 j photon2 # rest else rest)
      })"

fun pairs_from ::
  "('f, 'd::{numeral,ord,plus,minus,abs}) SystemConfig \<Rightarrow> nat \<Rightarrow> ('d, 'f) GammaPhoton list \<Rightarrow> Coincidence list checked" where
  "pairs_from c i [] = Some []"
| "pairs_from c i (p # ps) = do {
     cs \<leftarrow> pair_scan c i p (i + 1) ps;
     rest \<leftarrow> pairs_from c (i + 1) ps;
     Some (cs @ rest)
   }"

definition CoincidenceGrouper_handleEvents ::
  "('f, 'd::{numeral,ord,plus,minus,abs}) SystemConfig \<Rightarrow> ('d, 'f) GammaPhoton EventBuffer \<Rightarrow> u64
     \<Rightarrow> (Coincidence EventBuffer \<times> u64) checked" where
  "CoincidenceGrouper_handleEvents c inBuffer nPrompts = do {
     photons \<leftarrow> read_all inBuffer;
     cs \<leftarrow> pairs_from c 0 photons;
     b \<leftarrow> push_all push cs (EventBuffer_child (of_nat (getSize inBuffer)) inBuffer);
     Some (b, nPrompts + of_nat (length cs))
   }"

text \<open>The reference: all pairs of positions, compared without an early end.\<close>

definition coincident :: "('f, 'd::{ord,minus,abs}) SystemConfig \<Rightarrow> ('d, 'f) GammaPhoton \<Rightarrow> ('d, 'f) GammaPhoton \<Rightarrow> bool" where
  "coincident c p q = (isCoincidenceAllowed c (p_region p) (p_region q) = Some True
     \<and> \<bar>p_time p - p_time q\<bar> \<le> sw_trigger_coincidence_time_window c)"

definition all_pairs :: "('f, 'd::{ord,minus,abs}) SystemConfig \<Rightarrow> ('d, 'f) GammaPhoton list \<Rightarrow> Coincidence list" where
  "all_pairs c ps = concat (map (\<lambda>i. map (\<lambda>j. coincidence i (ps ! i) j (ps ! j))
     (filter (\<lambda>j. coincident c (ps ! i) (ps ! j)) [Suc i..<length ps])) [0..<length ps])"

text \<open>Photons out of order by at most the tolerance.\<close>

definition nearly_sorted :: "'d::{numeral,ord,minus} list \<Rightarrow> bool" where
  "nearly_sorted ts = (\<forall>i j. i < j \<and> j < length ts \<longrightarrow> ts ! i - MAX_UNORDER \<le> ts ! j)"

definition regions_ok :: "('d, 'f) GammaPhoton list \<Rightarrow> bool" where
  "regions_ok ps = (\<forall>p \<in> set ps. p_region p < int MAX_TRIGGER_REGIONS)"

lemma trigger_entry_ok:
  assumes "r1 < int MAX_TRIGGER_REGIONS" "r2 < int MAX_TRIGGER_REGIONS"
  shows "\<exists>b. trigger_entry m r1 r2 = Some b"
proof (cases "r1 < 0 \<or> r2 < 0")
  case False
  then show ?thesis using assms trigger_entry_inside [of r1 r2 m] by (auto simp: in_regions_def)
qed (auto simp: trigger_entry_def)

lemma upt_Cons: "[0..<length (x # xs)] = 0 # map Suc [0..<length xs]" "[Suc i..<length (x # xs)] = map Suc [i..<length xs]"
  by (simp_all add: map_Suc_upt upt_conv_Cons del: upt_Suc)

text \<open>The early end is sound: what follows is too late as well.\<close>

lemma pair_scan_filter:
  fixes p :: "('d::linordered_idom, 'f) GammaPhoton"
  assumes "\<forall>q \<in> set ps. p_region q < int MAX_TRIGGER_REGIONS" "p_region p < int MAX_TRIGGER_REGIONS"
    "nearly_sorted (map p_time ps)"
  shows "pair_scan c i p j ps = Some (map (\<lambda>k. coincidence i p (j + k) (ps ! k)) (filter (\<lambda>k. coincident c p (ps ! k)) [0..<length ps]))"
  using assms(1,3)
proof (induction ps arbitrary: j)
  case (Cons q ps)
  let ?w = "sw_trigger_coincidence_time_window c"
  have nth: "filter (\<lambda>k. coincident c p ((q # ps) ! k)) [0..<length (q # ps)]
      = (if coincident c p q then [0] else []) @ map Suc (filter (\<lambda>k. coincident c p (ps ! k)) [0..<length ps])"
    unfolding upt_Cons by (simp add: filter_map comp_def)
  show ?case
  proof (cases "p_time q - p_time p > ?w + MAX_UNORDER")
    case True
    have late: "\<not> coincident c p r" if "r \<in> set (q # ps)" for r
    proof -
      from that obtain k where k: "k < length (q # ps)" "r = (q # ps) ! k" by (metis in_set_conv_nth)
      have "p_time q - MAX_UNORDER \<le> p_time r"
      proof (cases k)
        case 0
        then show ?thesis using k by (simp add: MAX_UNORDER_def)
      next
        case (Suc m)
        have "map p_time (q # ps) ! 0 - MAX_UNORDER \<le> map p_time (q # ps) ! k"
          using Cons.prems(2) k(1) Suc unfolding nearly_sorted_def by (metis length_map zero_less_Suc)
        then show ?thesis using k Suc by simp
      qed
      then have "p_time r - p_time p > ?w" using True by simp
      then show ?thesis by (auto simp: coincident_def abs_le_iff)
    qed
    then have "filter (\<lambda>k. coincident c p ((q # ps) ! k)) [0..<length (q # ps)] = []"
      using late [OF nth_mem] by (auto simp: filter_empty_conv simp del: upt_Suc nth_mem)
    then show ?thesis using True by simp
  next
    case False
    have "nearly_sorted (map p_time ps)"
      using Cons.prems(2) unfolding nearly_sorted_def by (metis Suc_less_eq length_Cons list.simps(9) nth_Cons_Suc)
    then have ih: "pair_scan c i p (j + 1) ps = Some (map (\<lambda>k. coincidence i p (j + 1 + k) (ps ! k)) (filter (\<lambda>k. coincident c p (ps ! k)) [0..<length ps]))"
      using Cons by simp
    obtain b where b: "isCoincidenceAllowed c (p_region p) (p_region q) = Some b"
      using trigger_entry_ok Cons.prems(1) assms(2) unfolding isCoincidenceAllowed_def by fastforce
    have "coincident c p q \<longleftrightarrow> b \<and> \<bar>p_time p - p_time q\<bar> \<le> ?w" using b by (simp add: coincident_def)
    then show ?thesis using False b ih unfolding nth by (simp add: comp_def)
  qed
qed simp

lemma nearly_sorted_tl: "nearly_sorted (t # ts) \<Longrightarrow> nearly_sorted ts"
  unfolding nearly_sorted_def by (metis Suc_less_eq length_Cons nth_Cons_Suc)

lemma pairs_from_all:
  fixes ps :: "('d::linordered_idom, 'f) GammaPhoton list"
  assumes "regions_ok ps" "nearly_sorted (map p_time ps)"
  shows "pairs_from c n ps = Some (concat (map (\<lambda>i. map (\<lambda>j. coincidence (n + i) (ps ! i) (n + j) (ps ! j))
     (filter (\<lambda>j. coincident c (ps ! i) (ps ! j)) [Suc i..<length ps])) [0..<length ps]))"
  using assms
proof (induction ps arbitrary: n)
  case (Cons p ps)
  have sorted: "nearly_sorted (map p_time ps)" using nearly_sorted_tl Cons.prems(2) by auto
  have "pair_scan c n p (n + 1) ps = Some (map (\<lambda>k. coincidence n p (n + 1 + k) (ps ! k)) (filter (\<lambda>k. coincident c p (ps ! k)) [0..<length ps]))"
    using Cons.prems(1) sorted by (intro pair_scan_filter) (auto simp: regions_ok_def)
  moreover have "regions_ok ps" using Cons.prems(1) by (simp add: regions_ok_def)
  ultimately show ?case using Cons.IH [of "n + 1"] sorted unfolding upt_Cons by (simp add: filter_map comp_def)
qed simp

text \<open>
  C18: The coincidence search is the exhaustive one: for photons that are out of order by at most the tolerance, the
  search with its early end finds exactly the pairs of positions whose regions may form a coincidence and whose times differ by at most the
  window, in lexicographic order, with the photon of the larger region first. It stays inside its arrays and
  counts the prompts.
\<close>

theorem coincidence_search_exhaustive:
  fixes ps :: "('d::linordered_idom, 'f) GammaPhoton list"
  assumes "holds inBuffer ps" "regions_ok ps" "nearly_sorted (map p_time ps)"
  shows "\<exists>b. CoincidenceGrouper_handleEvents c inBuffer n = Some (b, n + of_nat (length (all_pairs c ps))) \<and> holds b (all_pairs c ps)"
proof -
  have "pairs_from c 0 ps = Some (all_pairs c ps)"
    using pairs_from_all [OF assms(2,3), of c 0] by (simp add: all_pairs_def)
  moreover obtain b where "push_all push (all_pairs c ps) (EventBuffer_child (of_nat (getSize inBuffer)) inBuffer) = Some b"
    "holds b (all_pairs c ps)"
    using eb.push_all_repr [OF holds_child] by fastforce
  ultimately show ?thesis using read_all_holds [OF assms(1)] by (simp add: CoincidenceGrouper_handleEvents_def)
qed

definition example_photon :: "int \<Rightarrow> int \<Rightarrow> (int, int) GammaPhoton" where
  "example_photon t r = \<lparr>p_valid = True, p_time = t, p_energy = 5, p_region = r, p_x = 0, p_y = 0, p_z = 0, p_nHits = 1, p_hits = [0]\<rparr>"

theorem coincidence_search_exhaustive_witness:
  "\<exists>b. CoincidenceGrouper_handleEvents (set_trigger 0 1 CHR ''C'' example_config0)
     \<lparr>bufferSeqN = 0, bufferTMin = 0, bufferTMax = None, slots = [Some (example_photon 10 0), Some (example_photon 9 1)], capacity = 2, used = 2\<rparr> 0
     = Some (b, 1) \<and> holds b [\<lparr>c_valid = True, c_nPhotons = 2, c_photons = (1, 0)\<rparr>]"
proof -
  let ?ps = "[example_photon 10 0, example_photon 9 1]" and ?c = "set_trigger 0 1 CHR ''C'' example_config0"
  let ?b = "\<lparr>bufferSeqN = 0, bufferTMin = 0, bufferTMax = None, slots = map Some ?ps, capacity = 2, used = 2\<rparr>"
  have "holds ?b ?ps" "regions_ok ?ps" "nearly_sorted (map p_time ?ps)"
    by (auto simp: holds_def regions_ok_def example_photon_def MAX_TRIGGER_REGIONS_def nearly_sorted_def MAX_UNORDER_def less_Suc_eq)
  moreover have "isCoincidenceAllowed ?c 0 1 = Some True"
    using set_trigger_entry(1) [of 0 1 0 1 "CHR ''C''" example_config0] by (simp add: in_regions_def MAX_TRIGGER_REGIONS_def same_pair_def)
  then have "all_pairs ?c ?ps = [\<lparr>c_valid = True, c_nPhotons = 2, c_photons = (1, 0)\<rparr>]"
    by (simp add: all_pairs_def coincident_def coincidence_def example_photon_def set_trigger_def example_config0_def)
  ultimately show ?thesis using coincidence_search_exhaustive [of ?b ?ps ?c 0] by simp
qed

end
