(* ===== verification/HitGrouper.thy ===== *)
theory HitGrouper
  imports Grouping
begin

text \<open>
  \<open>SimpleGrouper::handleEvents\<close> (\<open>external/base/src/SimpleGrouper.cpp\<close>): hits that are close in time and space are
  collected into one photon, whose hits are put in the order of their energies by bubble sort.
\<close>

section \<open>Bubble sort\<close>

text \<open>One pass of the \<open>for\<close> loop, with the flag \<open>sorted\<close>; the smaller element is carried on.\<close>

fun bubble_pass :: "('a \<Rightarrow> 'f::ord) \<Rightarrow> 'a list \<Rightarrow> bool \<times> 'a list" where
  "bubble_pass e [] = (True, [])"
| "bubble_pass e [x] = (True, [x])"
| "bubble_pass e (x # y # zs) =
     (if e x < e y then (False, y # snd (bubble_pass e (x # zs)))
      else (fst (bubble_pass e (y # zs)), x # snd (bubble_pass e (y # zs))))"

fun inversions :: "('a \<Rightarrow> 'f::ord) \<Rightarrow> 'a list \<Rightarrow> nat" where
  "inversions e [] = 0"
| "inversions e (x # xs) = length (filter (\<lambda>y. e x < e y) xs) + inversions e xs"

lemma mset_bubble_pass [simp]: "mset (snd (bubble_pass e xs)) = mset xs"
  by (induction e xs rule: bubble_pass.induct) (auto simp: add_mset_commute)

lemma count_filter_mset: "mset xs = mset ys \<Longrightarrow> length (filter P xs) = length (filter P ys)"
  by (metis mset_filter size_mset)

lemma bubble_pass_inversions:
  fixes e :: "'a \<Rightarrow> 'f::linorder"
  shows "inversions e (snd (bubble_pass e xs)) + (if fst (bubble_pass e xs) then 0 else 1) \<le> inversions e xs"
proof (induction e xs rule: bubble_pass.induct)
  case (3 e x y zs)
  show ?case
  proof (cases "e x < e y")
    case True
    have "length (filter (\<lambda>z. e y < e z) (snd (bubble_pass e (x # zs)))) = length (filter (\<lambda>z. e y < e z) (x # zs))"
      by (rule count_filter_mset) simp
    then show ?thesis using "3.IH"(1) [OF True] True by (auto split: if_splits)
  next
    case False
    have "length (filter (\<lambda>z. e x < e z) (snd (bubble_pass e (y # zs)))) = length (filter (\<lambda>z. e x < e z) (y # zs))"
      by (rule count_filter_mset) simp
    then show ?thesis using "3.IH"(2) [OF False] False by (auto split: if_splits)
  qed
qed simp_all

text \<open>The loop \<open>while(!sorted)\<close>; every pass that swaps removes an inversion.\<close>

function bubble_sort :: "('a \<Rightarrow> 'f::linorder) \<Rightarrow> 'a list \<Rightarrow> 'a list" where
  "bubble_sort e xs = (if fst (bubble_pass e xs) then snd (bubble_pass e xs) else bubble_sort e (snd (bubble_pass e xs)))"
  by pat_completeness auto
termination
proof (relation "measure (\<lambda>(e, xs). inversions e xs)")
  fix e :: "'a \<Rightarrow> 'f::linorder" and xs
  assume "\<not> fst (bubble_pass e xs)"
  then show "((e, snd (bubble_pass e xs)), (e, xs)) \<in> measure (\<lambda>(e, xs). inversions e xs)"
    using bubble_pass_inversions [of e xs] by simp
qed simp

declare bubble_sort.simps [simp del]

lemma bubble_pass_sorted:
  fixes e :: "'a \<Rightarrow> 'f::linorder"
  shows "fst (bubble_pass e xs) \<Longrightarrow> snd (bubble_pass e xs) = xs \<and> sorted_wrt (\<lambda>x y. e y \<le> e x) xs"
  by (induction e xs rule: bubble_pass.induct) (auto split: if_splits intro: order_trans)

lemma bubble_sort_props:
  "mset (bubble_sort e xs) = mset xs \<and> sorted_wrt (\<lambda>x y. e y \<le> e x) (bubble_sort e xs)"
proof (induction e xs rule: bubble_sort.induct)
  case (1 e xs)
  show ?case
  proof (cases "fst (bubble_pass e xs)")
    case True
    then show ?thesis using bubble_pass_sorted [of e xs] by (simp add: bubble_sort.simps [of e xs])
  next
    case False
    then show ?thesis using 1 by (simp add: bubble_sort.simps [of e xs])
  qed
qed

lemma set_bubble_sort [simp]: "set (bubble_sort e xs) = set xs"
  using bubble_sort_props by (metis mset_eq_setD)

lemma length_bubble_sort [simp]: "length (bubble_sort e xs) = length xs"
  using bubble_sort_props by (metis mset_eq_length)

lemma distinct_bubble_sort [simp]: "distinct (bubble_sort e xs) = distinct xs"
  using bubble_sort_props by (metis mset_eq_imp_distinct_iff)

text \<open>
  The bubble sort of the grouper ends on every list of hits, with a permutation of it in descending order of the
  energies, so that the first hit has the highest energy.
\<close>

theorem bubble_sort_correct:
  "mset (bubble_sort e xs) = mset xs \<and> sorted_wrt (\<lambda>x y. e y \<le> e x) (bubble_sort e xs)
   \<and> (\<forall>x \<in> set xs. e x \<le> e (hd (bubble_sort e xs)))"
proof -
  have "\<forall>x \<in> set (bubble_sort e xs). e x \<le> e (hd (bubble_sort e xs))"
    using bubble_sort_props [of e xs] by (cases "bubble_sort e xs") auto
  then show ?thesis using bubble_sort_props [of e xs] by simp
qed

theorem bubble_sort_correct_witness: "(1::nat) \<le> hd (bubble_sort id [1, 3, 2])"
  using bubble_sort_correct [of id "[1, 3, 2 :: nat]"] by simp

section \<open>Grouping\<close>

record grouper_counts =
  nHitsReceived :: u64
  nHitsReceivedValid :: u64
  nPhotonsFound :: u64
  nPhotonsHits :: "u64 list"
  nPhotonsHitsOverflow :: u64
  nPhotonsHitsUnderflow :: u64
  nPhotonsLowEnergy :: u64
  nPhotonsHighEnergy :: u64
  nPhotonsPassed :: u64

definition SimpleGrouper_new :: grouper_counts where
  "SimpleGrouper_new = \<lparr>nHitsReceived = 0, nHitsReceivedValid = 0, nPhotonsFound = 0, nPhotonsHits = replicate photon_maxHits 0,
     nPhotonsHitsOverflow = 0, nPhotonsHitsUnderflow = 0, nPhotonsLowEnergy = 0, nPhotonsHighEnergy = 0, nPhotonsPassed = 0\<rparr>"

definition distance2 :: "('d, 'f::{plus,minus,times}) Hit \<Rightarrow> ('d, 'f) Hit \<Rightarrow> 'f" where
  "distance2 hit hit2 =
     (let u = h_x hit - h_x hit2; v = h_y hit - h_y hit2; w = h_z hit - h_z hit2 in u * u + v * v + w * w)"

definition radius2 :: "('f::times, 'd) SystemConfig \<Rightarrow> 'f" where
  "radius2 c = sw_trigger_group_max_distance c * sw_trigger_group_max_distance c"

text \<open>
  The inner loop over the hits from position \<open>j\<close> on, with the flags \<open>taken\<close>, the array \<open>hits\<close> and the counter
  \<open>nHits\<close>, which goes on when the array is full.
\<close>

fun gather ::
  "('f::{ord,plus,minus,times}, 'd::{numeral,ord,plus,minus,abs}) SystemConfig \<Rightarrow> ('d, 'f) Hit \<Rightarrow> nat \<Rightarrow> ('d, 'f) Hit list
     \<Rightarrow> bool list \<Rightarrow> nat list \<Rightarrow> nat \<Rightarrow> (bool list \<times> nat list \<times> nat) checked" where
  "gather c hit j [] taken hs nHits = Some (taken, hs, nHits)"
| "gather c hit j (hit2 # rest) taken hs nHits =
     (if \<not> h_valid hit2 then gather c hit (j + 1) rest taken hs nHits
      else if taken ! j then gather c hit (j + 1) rest taken hs nHits
      else if h_time hit2 - h_time hit > sw_trigger_group_time_window c + MAX_UNORDER then Some (taken, hs, nHits)
      else do {
        allowed \<leftarrow> isMultiHitAllowed c (h_region hit2) (h_region hit);
        if \<not> allowed \<or> \<bar>h_time hit - h_time hit2\<bar> > sw_trigger_group_time_window c \<or> distance2 hit hit2 > radius2 c
        then gather c hit (j + 1) rest taken hs nHits
        else gather c hit (j + 1) rest (taken[j := True])
               (if int nHits \<ge> sw_trigger_group_max_hits c then hs else hs @ [j]) (nHits + 1)
      })"

text \<open>The flags of a photon.\<close>

definition hits_flags :: "('f, 'd) SystemConfig \<Rightarrow> nat \<Rightarrow> u8" where
  "hits_flags c nHits = (if int nHits > sw_trigger_group_max_hits c then 0x1
     else if int nHits < sw_trigger_group_min_hits c then 0x8 else 0)"

definition energy_flags :: "('f::ord, 'd) SystemConfig \<Rightarrow> 'f \<Rightarrow> u8" where
  "energy_flags c e = (if e < sw_trigger_group_min_energy c then 0x2 else 0) OR (if e > sw_trigger_group_max_energy c then 0x4 else 0)"

text \<open>
  The photon of the sorted hits. The code sets \<open>valid\<close> when the photon is passed on; a slot that is not passed on is
  overwritten before anything reads it.
\<close>

definition assemble :: "('d, 'f) Hit list \<Rightarrow> nat list \<Rightarrow> ('d, 'f) GammaPhoton" where
  "assemble hits hs = (let h = hits ! hd hs in
     \<lparr>p_valid = True, p_time = h_time h, p_energy = h_energy h, p_region = h_region h, p_x = h_x h, p_y = h_y h, p_z = h_z h,
      p_nHits = length hs, p_hits = hs\<rparr>)"

definition bump :: "bool \<Rightarrow> u64 \<Rightarrow> u64" where
  "bump b n = (if b then n + 1 else n)"

definition count_photon :: "u8 \<Rightarrow> nat \<Rightarrow> grouper_counts \<Rightarrow> grouper_counts checked" where
  "count_photon flags n k = do {
     ph \<leftarrow> (if flags AND 0x1 = 0 then do { old \<leftarrow> rd (nPhotonsHits k) (n - 1); wr (nPhotonsHits k) (n - 1) (old + 1) }
           else Some (nPhotonsHits k));
     Some (k\<lparr>nPhotonsFound := nPhotonsFound k + 1, nPhotonsHits := ph,
       nPhotonsHitsOverflow := bump (flags AND 0x1 \<noteq> 0) (nPhotonsHitsOverflow k),
       nPhotonsHitsUnderflow := bump (flags AND 0x8 \<noteq> 0) (nPhotonsHitsUnderflow k),
       nPhotonsLowEnergy := bump (flags AND 0x2 \<noteq> 0) (nPhotonsLowEnergy k),
       nPhotonsHighEnergy := bump (flags AND 0x4 \<noteq> 0) (nPhotonsHighEnergy k),
       nPhotonsPassed := bump (flags = 0) (nPhotonsPassed k)\<rparr>)
   }"

record ('d, 'f) grouping =
  taken :: "bool list"
  outPhotons :: "('d, 'f) GammaPhoton EventBuffer"
  counts :: grouper_counts

text \<open>The photon that hit \<open>i\<close> starts; its array of hits has room for \<open>maxHits\<close>, the one in the photon for 256.\<close>

definition make_photon ::
  "('f::{linorder,plus,minus,times}, 'd::{numeral,ord,plus,minus,abs}) SystemConfig \<Rightarrow> ('d, 'f) Hit list \<Rightarrow> nat
     \<Rightarrow> ('d, 'f) grouping \<Rightarrow> ('d, 'f) grouping checked" where
  "make_photon c hits i st = do {
     guard_hits \<leftarrow> (if 0 < sw_trigger_group_max_hits c then Some () else None);
     (tk, hs, nHits) \<leftarrow> gather c (hits ! i) (i + 1) (drop (i + 1) hits) ((taken st)[i := True]) [i] 1;
     let sorted_hits = bubble_sort (\<lambda>k. h_energy (hits ! k)) hs;
     guard_photon \<leftarrow> (if length sorted_hits \<le> photon_maxHits then Some () else None);
     let photon = assemble hits sorted_hits;
     let flags = hits_flags c nHits OR energy_flags c (p_energy photon);
     k \<leftarrow> count_photon flags (p_nHits photon) (counts st);
     let (slot, b1) = getWriteSlot (outPhotons st);
     b2 \<leftarrow> assign slot photon b1;
     Some \<lparr>taken = tk, outPhotons = (if flags = 0 then pushWriteSlot b2 else b2), counts = k\<rparr>
   }"

definition group_hit ::
  "('f::{linorder,plus,minus,times}, 'd::{numeral,ord,plus,minus,abs}) SystemConfig \<Rightarrow> ('d, 'f) Hit list \<Rightarrow> nat
     \<Rightarrow> ('d, 'f) grouping \<Rightarrow> ('d, 'f) grouping checked" where
  "group_hit c hits i st =
     (let st1 = st\<lparr>counts := (counts st)\<lparr>nHitsReceived := nHitsReceived (counts st) + 1\<rparr>\<rparr> in
      if \<not> h_valid (hits ! i) then Some st1
      else
        let st2 = st1\<lparr>counts := (counts st1)\<lparr>nHitsReceivedValid := nHitsReceivedValid (counts st1) + 1\<rparr>\<rparr> in
        if taken st2 ! i then Some st2 else make_photon c hits i st2)"

fun group_from ::
  "('f::{linorder,plus,minus,times}, 'd::{numeral,ord,plus,minus,abs}) SystemConfig \<Rightarrow> ('d, 'f) Hit list \<Rightarrow> nat list
     \<Rightarrow> ('d, 'f) grouping \<Rightarrow> ('d, 'f) grouping checked" where
  "group_from c hits [] st = Some st"
| "group_from c hits (i # is) st = group_hit c hits i st \<bind> group_from c hits is"

text \<open>The end: the local counters, of which the one per number of hits has \<open>maxHits\<close> places, are added to the totals.\<close>

definition add_counts :: "grouper_counts \<Rightarrow> grouper_counts \<Rightarrow> grouper_counts checked" where
  "add_counts totals l =
     (if length (nPhotonsHits l) \<le> length (nPhotonsHits totals) then
        Some \<lparr>nHitsReceived = nHitsReceived totals + nHitsReceived l,
          nHitsReceivedValid = nHitsReceivedValid totals + nHitsReceivedValid l,
          nPhotonsFound = nPhotonsFound totals + nPhotonsFound l,
          nPhotonsHits = map2 (+) (take (length (nPhotonsHits l)) (nPhotonsHits totals)) (nPhotonsHits l)
            @ drop (length (nPhotonsHits l)) (nPhotonsHits totals),
          nPhotonsHitsOverflow = nPhotonsHitsOverflow totals + nPhotonsHitsOverflow l,
          nPhotonsHitsUnderflow = nPhotonsHitsUnderflow totals + nPhotonsHitsUnderflow l,
          nPhotonsLowEnergy = nPhotonsLowEnergy totals + nPhotonsLowEnergy l,
          nPhotonsHighEnergy = nPhotonsHighEnergy totals + nPhotonsHighEnergy l,
          nPhotonsPassed = nPhotonsPassed totals + nPhotonsPassed l\<rparr>
      else None)"

definition SimpleGrouper_handleEvents ::
  "('f::{linorder,plus,minus,times}, 'd::{numeral,ord,plus,minus,abs}) SystemConfig \<Rightarrow> ('d, 'f) Hit EventBuffer \<Rightarrow> grouper_counts
     \<Rightarrow> (('d, 'f) GammaPhoton EventBuffer \<times> grouper_counts) checked" where
  "SimpleGrouper_handleEvents c inBuffer totals = do {
     let maxHits = sw_trigger_group_max_hits c;
     guard_size \<leftarrow> (if 0 \<le> maxHits then Some () else None);
     let n = getSize inBuffer;
     hits \<leftarrow> read_all inBuffer;
     st \<leftarrow> group_from c hits [0..<n] \<lparr>taken = replicate n False, outPhotons = EventBuffer_child (of_nat n) inBuffer,
       counts = SimpleGrouper_new\<lparr>nPhotonsHits := replicate (nat maxHits) 0\<rparr>\<rparr>;
     k \<leftarrow> add_counts totals (counts st);
     Some (outPhotons st, k)
   }"

section \<open>The counters\<close>

lemma length_wr: "wr xs i v = Some ys \<Longrightarrow> length ys = length xs"
  by (auto simp: wr_def split: if_splits)

lemma count_photon_length: "count_photon f n k = Some k' \<Longrightarrow> length (nPhotonsHits k') = length (nPhotonsHits k)"
  by (auto simp: count_photon_def bind_eq_Some_conv length_wr split: if_splits)

lemma group_hit_length:
  "group_hit c hits i st = Some st' \<Longrightarrow> length (nPhotonsHits (counts st')) = length (nPhotonsHits (counts st))"
  by (cases "getWriteSlot (outPhotons st)")
    (auto simp: group_hit_def make_photon_def Let_def bind_eq_Some_conv split: if_splits dest!: count_photon_length)

lemma group_from_length:
  "group_from c hits is st = Some st' \<Longrightarrow> length (nPhotonsHits (counts st')) = length (nPhotonsHits (counts st))"
  by (induction "is" arbitrary: st) (auto simp: bind_eq_Some_conv group_hit_length)

text \<open>
  The limit of 256 hits is not enforced: the line that should clamp \<open>group_max_hits\<close> assigns the variable to
  itself. With a larger configured value every block, even an empty one, makes the grouper write outside of its
  counters (\<^const>\<open>None\<close>).
\<close>

theorem grouper_overruns_counters:
  assumes "sw_trigger_group_max_hits c > 256" "length (nPhotonsHits totals) = photon_maxHits"
  shows "SimpleGrouper_handleEvents c inBuffer totals = None"
proof (rule ccontr)
  assume "SimpleGrouper_handleEvents c inBuffer totals \<noteq> None"
  then obtain st hits k where "group_from c hits [0..<getSize inBuffer] \<lparr>taken = replicate (getSize inBuffer) False,
      outPhotons = EventBuffer_child (of_nat (getSize inBuffer)) inBuffer,
      counts = SimpleGrouper_new\<lparr>nPhotonsHits := replicate (nat (sw_trigger_group_max_hits c)) 0\<rparr>\<rparr> = Some st"
    "add_counts totals (counts st) = Some k"
    by (auto simp: SimpleGrouper_handleEvents_def Let_def bind_eq_Some_conv split: if_splits)
  then show False using group_from_length assms by (fastforce simp: add_counts_def photon_maxHits_def split: if_splits)
qed

theorem grouper_overruns_counters_witness:
  "SimpleGrouper_handleEvents (example_config0\<lparr>sw_trigger_group_max_hits := 300\<rparr>)
     \<lparr>bufferSeqN = 0, bufferTMin = 0, bufferTMax = None, slots = [], capacity = 0, used = 0\<rparr> SimpleGrouper_new = None"
  by (rule grouper_overruns_counters) (simp_all add: SimpleGrouper_new_def)

section \<open>Groups\<close>

text \<open>The hits that belong to the photon of hit \<open>l\<close>.\<close>

definition joins ::
  "('f::{ord,plus,minus,times}, 'd::{ord,minus,abs}) SystemConfig \<Rightarrow> ('d, 'f) Hit \<Rightarrow> ('d, 'f) Hit \<Rightarrow> bool" where
  "joins c hit hit2 = (h_valid hit2 \<and> isMultiHitAllowed c (h_region hit2) (h_region hit) = Some True
     \<and> \<not> \<bar>h_time hit - h_time hit2\<bar> > sw_trigger_group_time_window c \<and> \<not> distance2 hit hit2 > radius2 c)"

definition hit_regions_ok :: "('d, 'f) Hit list \<Rightarrow> bool" where
  "hit_regions_ok hits = (\<forall>h \<in> set hits. h_region h < int MAX_TRIGGER_REGIONS)"

text \<open>
  The inner loop never leaves the trigger map, marks the hits that it takes, and fills the array with them in order
  as long as there is room.
\<close>

lemma gather_takes:
  assumes "hit_regions_ok rest" "h_region hit < int MAX_TRIGGER_REGIONS" "length tk = j + length rest"
    and "length hs = min nHits (nat (sw_trigger_group_max_hits c))"
  shows "\<exists>tk' new. gather c hit j rest tk hs nHits = Some (tk', hs @ take (nat (sw_trigger_group_max_hits c) - nHits) new, nHits + length new)
    \<and> length tk' = length tk \<and> distinct new \<and> (\<forall>k. k < length tk \<longrightarrow> tk' ! k = (tk ! k \<or> k \<in> set new))
    \<and> (\<forall>k \<in> set new. j \<le> k \<and> k < length tk \<and> \<not> tk ! k \<and> joins c hit (rest ! (k - j)))"
  using assms
proof (induction rest arbitrary: j tk hs nHits)
  case Nil
  then show ?case by (intro exI [of _ tk] exI [of _ "[]"]) simp
next
  case (Cons hit2 rest)
  let ?m = "nat (sw_trigger_group_max_hits c)"
  let ?goal = "\<lambda>r. \<exists>tk' new. r = Some (tk', hs @ take (?m - nHits) new, nHits + length new)
    \<and> length tk' = length tk \<and> distinct new \<and> (\<forall>k. k < length tk \<longrightarrow> tk' ! k = (tk ! k \<or> k \<in> set new))
    \<and> (\<forall>k \<in> set new. j \<le> k \<and> k < length tk \<and> \<not> tk ! k \<and> joins c hit ((hit2 # rest) ! (k - j)))"
  have ok: "hit_regions_ok rest" using Cons.prems(1) by (simp add: hit_regions_ok_def)
  obtain b where b: "isMultiHitAllowed c (h_region hit2) (h_region hit) = Some b"
    using trigger_entry_ok Cons.prems(1,2) unfolding isMultiHitAllowed_def hit_regions_ok_def by fastforce
  have skip: "?goal (gather c hit (j + 1) rest tk hs nHits)"
  proof -
    obtain tk' new where *: "gather c hit (j + 1) rest tk hs nHits = Some (tk', hs @ take (?m - nHits) new, nHits + length new)"
      "length tk' = length tk" "distinct new" "\<forall>k. k < length tk \<longrightarrow> tk' ! k = (tk ! k \<or> k \<in> set new)"
      "\<forall>k \<in> set new. j + 1 \<le> k \<and> k < length tk \<and> \<not> tk ! k \<and> joins c hit (rest ! (k - (j + 1)))"
      using Cons.IH [OF ok Cons.prems(2), of tk "j + 1" hs nHits] Cons.prems(3,4) by auto
    have "joins c hit ((hit2 # rest) ! (k - j))" if "k \<in> set new" for k
      using *(5) that by (auto simp: nth_Cons')
    then show ?thesis using * by (intro exI [of _ tk'] exI [of _ new]) auto
  qed
  show ?case
  proof (cases "h_valid hit2 \<and> \<not> tk ! j")
    case False
    then show ?thesis using skip by auto
  next
    case take_it: True
    show ?thesis
    proof (cases "h_time hit2 - h_time hit > sw_trigger_group_time_window c + MAX_UNORDER")
      case True
      then show ?thesis using take_it by (intro exI [of _ tk] exI [of _ "[]"]) simp
    next
      case in_time: False
      show ?thesis
      proof (cases "joins c hit hit2")
        case False
        then show ?thesis using skip take_it in_time b by (auto simp: joins_def)
      next
        case True
        let ?hs = "if int nHits \<ge> sw_trigger_group_max_hits c then hs else hs @ [j]"
        have len: "length ?hs = min (nHits + 1) ?m" using Cons.prems(4) by auto
        obtain tk' new where *: "gather c hit (j + 1) rest (tk[j := True]) ?hs (nHits + 1)
            = Some (tk', ?hs @ take (?m - (nHits + 1)) new, nHits + 1 + length new)"
          "length tk' = length tk" "distinct new" "\<forall>k. k < length tk \<longrightarrow> tk' ! k = (tk[j := True] ! k \<or> k \<in> set new)"
          "\<forall>k \<in> set new. j + 1 \<le> k \<and> k < length tk \<and> \<not> tk[j := True] ! k \<and> joins c hit (rest ! (k - (j + 1)))"
          using Cons.IH [OF ok Cons.prems(2) _ len, of "tk[j := True]" "j + 1"] Cons.prems(3) by auto
        have "gather c hit j (hit2 # rest) tk hs nHits = gather c hit (j + 1) rest (tk[j := True]) ?hs (nHits + 1)"
          using take_it in_time b True by (simp add: joins_def)
        moreover have "?hs @ take (?m - (nHits + 1)) new = hs @ take (?m - nHits) (j # new)"
        proof (cases "int nHits \<ge> sw_trigger_group_max_hits c")
          case False
          then have "?m - nHits = Suc (?m - (nHits + 1))" by linarith
          then show ?thesis using False by simp
        qed simp
        moreover have "joins c hit ((hit2 # rest) ! (k - j)) \<and> j < k \<and> \<not> tk ! k" if "k \<in> set new" for k
          using *(5) that by (auto simp: nth_Cons')
        moreover have "j < length tk" using Cons.prems(3) by simp
        ultimately show ?thesis using * take_it True
          by (intro exI [of _ tk'] exI [of _ "j # new"]) (auto simp: nth_list_update)
      qed
    qed
  qed
qed

text \<open>What makes a photon that is passed on.\<close>

definition photon_ok ::
  "('f::{linorder,plus,minus,times}, 'd::{ord,minus,abs}) SystemConfig \<Rightarrow> ('d, 'f) Hit list \<Rightarrow> ('d, 'f) GammaPhoton \<Rightarrow> bool" where
  "photon_ok c hits p =
     (p = assemble hits (p_hits p) \<and> distinct (p_hits p) \<and> sorted_wrt (\<lambda>k l. h_energy (hits ! l) \<le> h_energy (hits ! k)) (p_hits p)
      \<and> sw_trigger_group_min_hits c \<le> int (p_nHits p) \<and> int (p_nHits p) \<le> sw_trigger_group_max_hits c
      \<and> sw_trigger_group_min_energy c \<le> p_energy p \<and> p_energy p \<le> sw_trigger_group_max_energy c
      \<and> (\<forall>k \<in> set (p_hits p). k < length hits \<and> h_valid (hits ! k))
      \<and> (\<exists>l \<in> set (p_hits p). \<forall>k \<in> set (p_hits p). k \<noteq> l \<longrightarrow> joins c (hits ! l) (hits ! k)))"

text \<open>The state after the first \<open>i\<close> hits, with the photons passed on so far.\<close>

definition grouped ::
  "('f::{linorder,plus,minus,times}, 'd::{ord,minus,abs}) SystemConfig \<Rightarrow> ('d, 'f) Hit list \<Rightarrow> nat \<Rightarrow> ('d, 'f) grouping
     \<Rightarrow> ('d, 'f) GammaPhoton list \<Rightarrow> bool" where
  "grouped c hits i st ps =
     (holds (outPhotons st) ps \<and> length (taken st) = length hits \<and> (\<forall>p \<in> set ps. photon_ok c hits p)
      \<and> distinct (concat (map p_hits ps)) \<and> (\<forall>k \<in> set (concat (map p_hits ps)). taken st ! k)
      \<and> length (nPhotonsHits (counts st)) = nat (sw_trigger_group_max_hits c)
      \<and> nHitsReceived (counts st) = of_nat i
      \<and> nHitsReceivedValid (counts st) = of_nat (length (filter h_valid (take i hits)))
      \<and> nPhotonsPassed (counts st) = of_nat (length ps))"

lemma flags_zero:
  "hits_flags c n OR energy_flags c e = 0 \<longleftrightarrow>
     sw_trigger_group_min_hits c \<le> int n \<and> int n \<le> sw_trigger_group_max_hits c
     \<and> \<not> e < sw_trigger_group_min_energy c \<and> \<not> e > sw_trigger_group_max_energy c"
  by (auto simp: hits_flags_def energy_flags_def)

lemma count_photon_works:
  assumes "0 < n" "n \<le> length (nPhotonsHits k)"
  shows "\<exists>k'. count_photon f n k = Some k' \<and> length (nPhotonsHits k') = length (nPhotonsHits k)
    \<and> nHitsReceived k' = nHitsReceived k \<and> nHitsReceivedValid k' = nHitsReceivedValid k
    \<and> nPhotonsPassed k' = bump (f = 0) (nPhotonsPassed k)"
  using assms by (auto simp: count_photon_def wr_def)

text \<open>A photon whose hits all join one that was free, from hits that were free.\<close>

lemma assembled_ok:
  fixes c :: "('f::{linorder,plus,minus,times}, 'd::{ord,minus,abs}) SystemConfig"
  assumes "distinct hs" "i \<in> set hs" "\<And>k. k \<in> set hs \<Longrightarrow> k < length hits \<and> h_valid (hits ! k)"
    and "\<And>k. k \<in> set hs \<Longrightarrow> k \<noteq> i \<Longrightarrow> joins c (hits ! i) (hits ! k)"
    and "hits_flags c (length hs) OR energy_flags c (p_energy (assemble hits (bubble_sort (\<lambda>k. h_energy (hits ! k)) hs))) = 0"
  shows "photon_ok c hits (assemble hits (bubble_sort (\<lambda>k. h_energy (hits ! k)) hs))"
proof -
  let ?s = "bubble_sort (\<lambda>k. h_energy (hits ! k)) hs"
  have "p_hits (assemble hits ?s) = ?s" "p_nHits (assemble hits ?s) = length hs" by (simp_all add: assemble_def Let_def)
  then show ?thesis
    using assms(1-4) assms(5) [unfolded flags_zero] bubble_sort_props [of "\<lambda>k. h_energy (hits ! k)" hs]
    unfolding photon_ok_def by (simp add: not_less) blast
qed

lemma grouped_next:
  assumes "grouped c hits n st ps" "holds b (ps @ qs)" "length tk = length hits"
    and "\<And>k. k < length hits \<Longrightarrow> taken st ! k \<Longrightarrow> tk ! k" "\<And>q. q \<in> set qs \<Longrightarrow> photon_ok c hits q"
    and "distinct (concat (map p_hits qs))" "\<And>k. k \<in> set (concat (map p_hits qs)) \<Longrightarrow> tk ! k \<and> \<not> taken st ! k"
    and "length (nPhotonsHits k) = length (nPhotonsHits (counts st))" "nHitsReceived k = nHitsReceived (counts st)"
    and "nHitsReceivedValid k = nHitsReceivedValid (counts st)" "nPhotonsPassed k = nPhotonsPassed (counts st) + of_nat (length qs)"
  shows "grouped c hits n \<lparr>taken = tk, outPhotons = b, counts = k\<rparr> (ps @ qs)"
proof -
  note g = assms(1) [unfolded grouped_def]
  have old: "j < length hits \<and> taken st ! j" if "j \<in> set (concat (map p_hits ps))" for j
    using g that by (auto simp: photon_ok_def)
  then have "set (concat (map p_hits ps)) \<inter> set (concat (map p_hits qs)) = {}" using assms(7) by blast
  then have "distinct (concat (map p_hits (ps @ qs)))" using g assms(6) by simp
  moreover have "\<forall>j \<in> set (concat (map p_hits (ps @ qs))). tk ! j"
    using old assms(4,7) unfolding map_append concat_append set_append by blast
  moreover have "\<forall>p \<in> set (ps @ qs). photon_ok c hits p" using g assms(5) by auto
  ultimately show ?thesis unfolding grouped_def using g assms(2,3,8-11) by (simp del: concat_append)
qed

lemma gather_from:
  fixes c :: "('f::{linorder,plus,minus,times}, 'd::{numeral,ord,plus,minus,abs}) SystemConfig"
  assumes "length (taken st) = length hits" "i < length hits" "hit_regions_ok hits" "1 \<le> sw_trigger_group_max_hits c"
  shows "\<exists>tk new. gather c (hits ! i) (i + 1) (drop (i + 1) hits) ((taken st)[i := True]) [i] 1
      = Some (tk, i # take (nat (sw_trigger_group_max_hits c) - 1) new, 1 + length new)
    \<and> length tk = length hits \<and> distinct new \<and> tk ! i \<and> (\<forall>k < length hits. taken st ! k \<longrightarrow> tk ! k)
    \<and> (\<forall>k \<in> set new. i < k \<and> k < length hits \<and> \<not> taken st ! k \<and> tk ! k \<and> joins c (hits ! i) (hits ! k))"
proof -
  let ?m = "nat (sw_trigger_group_max_hits c)" and ?tk = "(taken st)[i := True]"
  have "hit_regions_ok (drop (i + 1) hits)" "h_region (hits ! i) < int MAX_TRIGGER_REGIONS"
    using assms(2,3) by (auto simp: hit_regions_ok_def dest: in_set_dropD)
  moreover have "length ?tk = i + 1 + length (drop (i + 1) hits)" "length [i] = min 1 ?m" using assms by auto
  ultimately obtain tk new where new: "gather c (hits ! i) (i + 1) (drop (i + 1) hits) ?tk [i] 1
      = Some (tk, [i] @ take (?m - 1) new, 1 + length new)"
    "length tk = length ?tk" "distinct new" "\<forall>k. k < length ?tk \<longrightarrow> tk ! k = (?tk ! k \<or> k \<in> set new)"
    "\<forall>k \<in> set new. i + 1 \<le> k \<and> k < length ?tk \<and> \<not> ?tk ! k \<and> joins c (hits ! i) (drop (i + 1) hits ! (k - (i + 1)))"
    using gather_takes [of "drop (i + 1) hits" "hits ! i" ?tk "i + 1" "[i]" 1 c] by blast
  have "i < k \<and> k < length hits \<and> \<not> taken st ! k \<and> tk ! k \<and> joins c (hits ! i) (hits ! k)" if "k \<in> set new" for k
    using new(4,5) that assms(1,2) by (auto simp: nth_list_update split: if_splits)
  then show ?thesis using new assms(1,2) by (intro exI [of _ tk] exI [of _ new]) (auto simp: nth_list_update)
qed

lemma make_photon_eval:
  assumes "0 < sw_trigger_group_max_hits c"
    and "gather c (hits ! i) (i + 1) (drop (i + 1) hits) ((taken st)[i := True]) [i] 1 = Some (tk, hs, n)" "length hs \<le> 256"
    and "p = assemble hits (bubble_sort (\<lambda>k. h_energy (hits ! k)) hs)" "f = hits_flags c n OR energy_flags c (p_energy p)"
    and "count_photon f (length hs) (counts st) = Some k" "getWriteSlot (outPhotons st) = (slot, b1)" "assign slot p b1 = Some b2"
  shows "make_photon c hits i st = Some \<lparr>taken = tk, outPhotons = (if f = 0 then pushWriteSlot b2 else b2), counts = k\<rparr>"
proof -
  have "p_nHits p = length hs" using assms(4) by (simp add: assemble_def Let_def)
  then show ?thesis using assms(1-3,6-8) unfolding make_photon_def assms(2) assms(4) [symmetric]
    by (simp add: photon_maxHits_def Let_def flip: assms(4,5))
qed

lemma make_photon_groups:
  fixes c :: "('f::{linorder,plus,minus,times}, 'd::{numeral,ord,plus,minus,abs}) SystemConfig"
  assumes g: "grouped c hits n st ps" and i: "i < length hits" "h_valid (hits ! i)" "\<not> taken st ! i" and ok: "hit_regions_ok hits"
    and m: "1 \<le> sw_trigger_group_max_hits c" "sw_trigger_group_max_hits c \<le> 256"
  shows "\<exists>st' ps'. make_photon c hits i st = Some st' \<and> grouped c hits n st' ps'"
proof -
  have st: "length (taken st) = length hits" "holds (outPhotons st) ps"
    "length (nPhotonsHits (counts st)) = nat (sw_trigger_group_max_hits c)" using g by (simp_all add: grouped_def)
  obtain tk new where new: "gather c (hits ! i) (i + 1) (drop (i + 1) hits) ((taken st)[i := True]) [i] 1
      = Some (tk, i # take (nat (sw_trigger_group_max_hits c) - 1) new, 1 + length new)"
    and tk: "length tk = length hits" "distinct new" "tk ! i" "\<forall>k < length hits. taken st ! k \<longrightarrow> tk ! k"
    and joined: "\<forall>k \<in> set new. i < k \<and> k < length hits \<and> \<not> taken st ! k \<and> tk ! k \<and> joins c (hits ! i) (hits ! k)"
    using gather_from [OF st(1) i(1) ok m(1)] by blast
  define hs where "hs = i # take (nat (sw_trigger_group_max_hits c) - 1) new"
  define p where "p = assemble hits (bubble_sort (\<lambda>k. h_energy (hits ! k)) hs)"
  define f where "f = hits_flags c (1 + length new) OR energy_flags c (p_energy p)"
  have hs: "distinct hs" "length hs \<le> nat (sw_trigger_group_max_hits c)" "length hs \<le> 256" "0 < length hs" "set hs \<subseteq> insert i (set new)"
    using tk(2) joined m by (auto simp: hs_def dest: in_set_takeD)
  have p: "p_nHits p = length hs" "set (p_hits p) = set hs" "distinct (p_hits p)"
    using hs(1) by (simp_all add: p_def assemble_def Let_def)
  obtain slot b1 where slot: "getWriteSlot (outPhotons st) = (slot, b1)" by force
  obtain b2 where b2: "assign slot p b1 = Some b2" "holds b2 ps" "holds (pushWriteSlot b2) (ps @ [p])"
    using write_slot_works [OF st(2) slot] by blast
  obtain k where k: "count_photon f (length hs) (counts st) = Some k" "length (nPhotonsHits k) = length (nPhotonsHits (counts st))"
      "nHitsReceived k = nHitsReceived (counts st)" "nHitsReceivedValid k = nHitsReceivedValid (counts st)"
      "nPhotonsPassed k = bump (f = 0) (nPhotonsPassed (counts st))"
    using count_photon_works [of "length hs" "counts st" f] st(3) hs(2,4) by auto
  have "make_photon c hits i st = Some \<lparr>taken = tk, outPhotons = (if f = 0 then pushWriteSlot b2 else b2), counts = k\<rparr>"
    using m(1) by (intro make_photon_eval [OF _ new [folded hs_def] hs(3) p_def f_def k(1) slot b2(1)]) simp
  moreover have "grouped c hits n \<lparr>taken = tk, outPhotons = b2, counts = k\<rparr> (ps @ [])" if "f \<noteq> 0"
    using that k b2(2) tk by (intro grouped_next [OF g]) (auto simp: bump_def)
  moreover have "grouped c hits n \<lparr>taken = tk, outPhotons = pushWriteSlot b2, counts = k\<rparr> (ps @ [p])" if "f = 0"
  proof (rule grouped_next [OF g b2(3)])
    have full: "length hs = 1 + length new" using that by (auto simp: f_def flags_zero hs_def)
    have "photon_ok c hits p" unfolding p_def
      by (rule assembled_ok [where i = i]) (use that full i hs joined in \<open>auto simp: f_def p_def hs_def joins_def\<close>)
    then show "\<And>q. q \<in> set [p] \<Longrightarrow> photon_ok c hits q" by simp
  qed (use that k tk p hs joined i(3) in \<open>auto simp: bump_def\<close>)
  ultimately show ?thesis by (cases "f = 0") auto
qed

lemma group_hit_groups:
  fixes c :: "('f::{linorder,plus,minus,times}, 'd::{numeral,ord,plus,minus,abs}) SystemConfig"
  assumes g: "grouped c hits i st ps" and i: "i < length hits" and ok: "hit_regions_ok hits"
    and m: "1 \<le> sw_trigger_group_max_hits c" "sw_trigger_group_max_hits c \<le> 256"
  shows "\<exists>st' ps'. group_hit c hits i st = Some st' \<and> grouped c hits (i + 1) st' ps'"
proof -
  define st1 where "st1 = st\<lparr>counts := (counts st)\<lparr>nHitsReceived := nHitsReceived (counts st) + 1\<rparr>\<rparr>"
  define st2 where "st2 = st1\<lparr>counts := (counts st1)\<lparr>nHitsReceivedValid := nHitsReceivedValid (counts st1) + 1\<rparr>\<rparr>"
  note take_Suc = take_Suc_conv_app_nth [OF i]
  show ?thesis
  proof (cases "h_valid (hits ! i)")
    case False
    then have "grouped c hits (i + 1) st1 ps" using g by (auto simp: grouped_def st1_def take_Suc)
    then show ?thesis using False by (auto simp: group_hit_def st1_def Let_def)
  next
    case True
    then have g2: "grouped c hits (i + 1) st2 ps" using g by (auto simp: grouped_def st1_def st2_def take_Suc)
    have eval: "group_hit c hits i st = (if taken st2 ! i then Some st2 else make_photon c hits i st2)"
      using True by (simp add: group_hit_def st1_def st2_def Let_def)
    then show ?thesis
    proof (cases "taken st2 ! i")
      case True
      then show ?thesis using eval g2 by auto
    next
      case False
      then show ?thesis using eval make_photon_groups [OF g2 i True False ok m] by simp
    qed
  qed
qed

lemma group_from_groups:
  fixes c :: "('f::{linorder,plus,minus,times}, 'd::{numeral,ord,plus,minus,abs}) SystemConfig"
  assumes "grouped c hits i st ps" "i \<le> length hits" "hit_regions_ok hits"
    and "1 \<le> sw_trigger_group_max_hits c" "sw_trigger_group_max_hits c \<le> 256"
  shows "\<exists>st' ps'. group_from c hits [i..<length hits] st = Some st' \<and> grouped c hits (length hits) st' ps'"
  using assms(1,2)
proof (induction "length hits - i" arbitrary: i st ps)
  case (Suc n)
  then have i: "i < length hits" by simp
  obtain st' ps' where "group_hit c hits i st = Some st'" "grouped c hits (i + 1) st' ps'"
    using group_hit_groups [OF Suc.prems(1) i assms(3-5)] by blast
  then show ?case using Suc.hyps(1) [of "i + 1" st' ps'] Suc.hyps(2) i by (simp add: upt_conv_Cons)
qed auto

text \<open>
  C17: For a configuration with one to 256 hits per photon and hits of known regions, the grouper stays inside all its arrays. Every photon that
  it passes on has between the configured minimal and maximal number of different valid hits, which all join one of them in time, place and trigger region; they are in
  descending order of energy, the photon has the values of the first and its energy is within the limits. No hit
  is part of two photons, and the counters of hits and of passed photons are right.
\<close>

theorem grouper_photons:
  fixes c :: "('f::{linorder,plus,minus,times}, 'd::{numeral,ord,plus,minus,abs}) SystemConfig"
  assumes "holds inBuffer hits" "hit_regions_ok hits" "length (nPhotonsHits totals) = photon_maxHits"
    and "1 \<le> sw_trigger_group_max_hits c" "sw_trigger_group_max_hits c \<le> 256"
  shows "\<exists>b k ps. SimpleGrouper_handleEvents c inBuffer totals = Some (b, k) \<and> holds b ps
    \<and> (\<forall>p \<in> set ps. photon_ok c hits p) \<and> distinct (concat (map p_hits ps))
    \<and> nHitsReceived k = nHitsReceived totals + of_nat (length hits)
    \<and> nHitsReceivedValid k = nHitsReceivedValid totals + of_nat (length (filter h_valid hits))
    \<and> nPhotonsPassed k = nPhotonsPassed totals + of_nat (length ps)"
proof -
  let ?st = "\<lparr>taken = replicate (length hits) False, outPhotons = EventBuffer_child (of_nat (length hits)) inBuffer,
    counts = SimpleGrouper_new\<lparr>nPhotonsHits := replicate (nat (sw_trigger_group_max_hits c)) 0\<rparr>\<rparr>"
  have "grouped c hits 0 ?st []" by (simp add: grouped_def holds_child SimpleGrouper_new_def)
  from group_from_groups [OF this _ assms(2,4,5)] obtain st ps where
    st: "group_from c hits [0..<length hits] ?st = Some st" "grouped c hits (length hits) st ps" by auto
  then have "length (nPhotonsHits (counts st)) \<le> length (nPhotonsHits totals)"
    using assms(3,5) by (simp add: grouped_def photon_maxHits_def)
  then obtain k where "add_counts totals (counts st) = Some k" "nHitsReceived k = nHitsReceived totals + nHitsReceived (counts st)"
    "nHitsReceivedValid k = nHitsReceivedValid totals + nHitsReceivedValid (counts st)"
    "nPhotonsPassed k = nPhotonsPassed totals + nPhotonsPassed (counts st)"
    by (simp add: add_counts_def)
  then show ?thesis using st assms(1,4)
    by (intro exI [of _ "outPhotons st"] exI [of _ k] exI [of _ ps])
      (simp add: SimpleGrouper_handleEvents_def Let_def read_all_holds holds_getSize grouped_def)
qed

definition hit_at :: "int \<Rightarrow> int \<Rightarrow> (int, int) Hit" where
  "hit_at t e = \<lparr>h_valid = True, h_raw = example_hit t, h_time = t, h_timeEnd = t, h_energy = e, h_region = 3, h_xi = 0, h_yi = 0, h_x = 0, h_y = 0, h_z = 0\<rparr>"

theorem grouper_photons_witness:
  "\<exists>b k ps. SimpleGrouper_handleEvents (set_trigger 3 3 CHR ''M'' example_config0)
     \<lparr>bufferSeqN = 0, bufferTMin = 0, bufferTMax = None, slots = [Some (hit_at 1 5), Some (hit_at 2 9)], capacity = 2, used = 2\<rparr>
     SimpleGrouper_new = Some (b, k) \<and> holds b ps \<and> nHitsReceived k = 2"
proof -
  let ?hits = "[hit_at 1 5, hit_at 2 9]" and ?c = "set_trigger 3 3 CHR ''M'' example_config0"
  let ?b = "\<lparr>bufferSeqN = 0, bufferTMin = 0, bufferTMax = None, slots = map Some ?hits, capacity = 2, used = 2\<rparr>"
  have "holds ?b ?hits" "hit_regions_ok ?hits" "length (nPhotonsHits SimpleGrouper_new) = photon_maxHits"
    "1 \<le> sw_trigger_group_max_hits ?c" "sw_trigger_group_max_hits ?c \<le> 256"
    by (simp_all add: holds_def hit_regions_ok_def hit_at_def MAX_TRIGGER_REGIONS_def SimpleGrouper_new_def set_trigger_def example_config0_def)
  from grouper_photons [OF this] show ?thesis by (auto simp: SimpleGrouper_new_def)
qed

end
