(* ===== verification/RawReaderSpec.thy ===== *)
theory RawReaderSpec
  imports RawReader
begin

text \<open>
  What the reader of raw data files guarantees: the buffered byte reader gives the bytes of the file
  however the operating system cuts them into answers, a step is handed to the thread pool completely, in
  order and in well-formed blocks, the counters are those of the frames, and decoding keeps the time of
  each hit.
\<close>

section \<open>Reading bytes\<close>

text \<open>Every answer of \<open>read\<close> delivers data: the file is complete and there is no error.\<close>

definition all_data :: "u8 list option list \<Rightarrow> bool" where
  "all_data as = (None \<notin> set as \<and> Some [] \<notin> set as)"

lemma refill_data:
  assumes "all_data (answers r)" "stream r \<noteq> []" "dataFileBuffer r = []"
  obtains bs as where "refill r = Filled (r\<lparr>answers := as, dataFileBuffer := bs\<rparr>)" "bs \<noteq> []" "all_data as"
proof (cases "answers r")
  case (Cons a as)
  then obtain b bs where "a = Some (b # bs)"
    using assms(1) by (cases a; cases "the a") (auto simp: all_data_def)
  then show thesis using that [of "b # bs" as] Cons assms(1) by (auto simp: refill_def all_data_def)
qed (use assms in \<open>simp add: stream_def\<close>)

lemma readLoop_complete:
  assumes "all_data (answers r)" "length buf \<le> wanted" "wanted \<le> length buf + length (stream r)"
  shows "\<exists>as bs. readLoop wanted buf r = Some (int wanted, buf @ take (wanted - length buf) (stream r),
      r\<lparr>answers := as, dataFileBuffer := bs\<rparr>) \<and> all_data as"
  using assms
proof (induction wanted buf r rule: readLoop.induct)
  case (1 wanted buf r)
  let ?f = "if dataFileBuffer r = [] then refill r else Filled r"
  show ?case
  proof (cases "length buf < wanted")
    case True
    then obtain bs as where f: "?f = Filled (r\<lparr>answers := as, dataFileBuffer := bs\<rparr>)" "bs \<noteq> []" "all_data as"
      "bs @ pending as = stream r"
    proof (cases "dataFileBuffer r = []")
      case True
      have "stream r \<noteq> []" using \<open>length buf < wanted\<close> 1(5) by auto
      with True obtain bs as where *: "refill r = Filled (r\<lparr>answers := as, dataFileBuffer := bs\<rparr>)" "bs \<noteq> []" "all_data as"
        using refill_data 1(3) by metis
      then show thesis using that True refill_cases [of r] by (simp add: stream_def)
    next
      case False
      then show thesis using that [of "dataFileBuffer r" "answers r"] 1(3) by (simp add: stream_def)
    qed
    define k where "k = min (wanted - length buf) (length bs)"
    let ?r1 = "r\<lparr>answers := as, dataFileBuffer := bs\<rparr>"
    let ?r2 = "?r1\<lparr>dataFileBuffer := drop k bs\<rparr>"
    have k: "0 < k" "k \<le> wanted - length buf" "k \<le> length bs"
      using True f(2) by (auto simp: k_def)
    have kdef: "k = min (wanted - length buf) (length (dataFileBuffer ?r1))" by (simp add: k_def)
    have eq: "readLoop wanted buf r = readLoop wanted (buf @ take k bs) ?r2"
      using readLoop_Filled [OF True f(1) kdef] k(1) by simp
    have s: "stream r = take k bs @ stream ?r2" unfolding f(4) [symmetric] by (simp add: stream_def)
    have "\<exists>as' bs'. readLoop wanted (buf @ take k bs) ?r2 = Some (int wanted,
        (buf @ take k bs) @ take (wanted - length (buf @ take k bs)) (stream ?r2),
        ?r2\<lparr>answers := as', dataFileBuffer := bs'\<rparr>) \<and> all_data as'"
    proof (rule 1(2) [OF True f(1) kdef _ _ _, of "buf @ take k bs" ?r2], goal_cases)
      case 6
      then show ?case using 1(5) s k by simp
    qed (use k f(3) True in simp_all)
    then show ?thesis using k by (simp add: eq) (simp add: s)
  next
    case False
    then show ?thesis
      using 1(3-5) by (intro exI [of _ "answers r"] exI [of _ "dataFileBuffer r"]) (simp add: readLoop.simps [of wanted buf r])
  qed
qed

lemma read_words_complete:
  assumes "all_data (answers r)" "8 * n \<le> length (stream r)"
  shows "\<exists>as bs. read_words e n r = Inr (words64 n (take (8 * n) (stream r)), r\<lparr>answers := as, dataFileBuffer := bs\<rparr>)
    \<and> all_data as \<and> stream (r\<lparr>answers := as, dataFileBuffer := bs\<rparr>) = drop (8 * n) (stream r)"
proof -
  obtain as bs where *: "readLoop (8 * n) [] r = Some (int (8 * n), take (8 * n) (stream r),
      r\<lparr>answers := as, dataFileBuffer := bs\<rparr>)" "all_data as"
    using readLoop_complete [of r "[]" "8 * n"] assms by auto
  then show ?thesis
    using readLoop_conserves [OF *(1)] assms(2)
    by (auto simp: read_words_def readFromDataFile_def intro!: exI [of _ as] exI [of _ bs])
      (metis append_eq_conv_conj append_take_drop_id)
qed

section \<open>Frames in the file\<close>

definition bytes64 :: "u64 \<Rightarrow> u8 list" where
  "bytes64 w = map (\<lambda>i. ucast (drop_bit (8 * i) w)) [0..<8]"

lemma length_bytes64 [simp]: "length (bytes64 w) = 8"
  by (simp add: bytes64_def)

lemma le64_bytes: "le64 (map (\<lambda>i. ucast (drop_bit (8 * i) w)) [m..<m + k]) = take_bit (8 * k) (drop_bit (8 * m) w)"
proof (induction k arbitrary: m)
  case (Suc k)
  have "[m..<m + Suc k] = m # [Suc m..<Suc m + k]" by (simp add: upt_rec)
  then have "le64 (map (\<lambda>i. ucast (drop_bit (8 * i) w)) [m..<m + Suc k])
      = ucast (ucast (drop_bit (8 * m) w) :: u8) OR push_bit 8 (take_bit (8 * k) (drop_bit (8 * Suc m) w))"
    using Suc [of "Suc m"] by simp
  also have "\<dots> = take_bit (8 * Suc k) (drop_bit (8 * m) w)"
  proof (rule bit_word_eqI)
    fix n assume "n < LENGTH(64)"
    show "bit (ucast (ucast (drop_bit (8 * m) w) :: u8) OR push_bit 8 (take_bit (8 * k) (drop_bit (8 * Suc m) w))) n
        = bit (take_bit (8 * Suc k) (drop_bit (8 * m) w)) n"
    proof (cases "n < 8")
      case False
      then have "8 * Suc m + (n - 8) = 8 * m + n" "n - 8 < 8 * k \<longleftrightarrow> n < 8 * Suc k" by auto
      then show ?thesis using False \<open>n < LENGTH(64)\<close> by (auto simp: bit_simps simp del: mult_Suc_right)
    qed (simp add: bit_simps)
  qed
  finally show ?case .
qed simp

lemma le64_bytes64 [simp]: "le64 (bytes64 w) = w"
  using le64_bytes [of w 0 8] by (simp add: bytes64_def take_bit_word_eq_self)

lemma words64_concat: "words64 (length ws) (concat (map bytes64 ws)) = ws"
proof (rule nth_equalityI)
  fix i assume "i < length (words64 (length ws) (concat (map bytes64 ws)))"
  then have i: "i < length ws" by (simp add: words64_def)
  have len: "length (concat (map bytes64 ws)) = length ws * 8" by (rule length_concat_chunks) simp
  have "take 8 (drop (8 * i) (concat (map bytes64 ws))) = bytes64 (ws ! i)"
  proof (rule nth_equalityI)
    fix k assume "k < length (take 8 (drop (8 * i) (concat (map bytes64 ws))))"
    then show "take 8 (drop (8 * i) (concat (map bytes64 ws))) ! k = bytes64 (ws ! i) ! k"
      using nth_concat_chunks [of bytes64 8 i ws k] i len by (simp add: mult.commute)
  qed (use i len in simp)
  then show "words64 (length ws) (concat (map bytes64 ws)) ! i = ws ! i"
    using i by (simp add: words64_def)
qed (simp add: words64_def)

text \<open>A frame is two header words and the event words; the second header word counts the events.\<close>

type_synonym raw_frame = "u64 \<times> u64 \<times> u64 list"

fun frame_bytes :: "raw_frame \<Rightarrow> u8 list" where
  "frame_bytes (h0, h1, ws) = concat (map bytes64 (h0 # h1 # ws))"

fun wf_raw_frame :: "raw_frame \<Rightarrow> bool" where
  "wf_raw_frame (h0, h1, ws) = (nevents_of_header h1 = int (length ws) \<and> length ws + 2 \<le> MaxRawDataFrameSize)"

fun frame_events :: "raw_frame \<Rightarrow> (int \<times> u64) list" where
  "frame_events (h0, h1, ws) = map (\<lambda>w. (uint (id_of_header h0), w)) ws"

lemma length_frame_bytes: "length (frame_bytes (h0, h1, ws)) = 16 + 8 * length ws"
  using length_concat_chunks [of bytes64 8 ws] by simp

fun take_frame :: "raw_frame \<Rightarrow> step_state \<Rightarrow> step_error + step_state" where
  "take_frame (h0, h1, ws) st =
     (let fid = uint (id_of_header h0); st2 = account_frame fid (lost_of_header h1) (int (length ws)) st
      in if ws = [] then Inr st2 else store_events fid ws st2)"

lemma words64_2: "words64 2 (bytes64 a @ bytes64 b) = [a, b]"
  using words64_concat [of "[a, b]"] by (simp add: numeral_2_eq_2)

lemma account_frame_update:
  "account_frame fid l n (st\<lparr>reader := r, currentPosition := p\<rparr>)
     = (account_frame fid l n st)\<lparr>reader := r, currentPosition := p\<rparr>"
  by (simp add: account_frame_def Let_def)

lemma currentPosition_account_frame [simp]: "currentPosition (account_frame fid l n st) = currentPosition st"
  by (simp add: account_frame_def Let_def)

lemma processFrame_take:
  assumes wf: "wf_raw_frame (h0, h1, ws)" and data: "all_data (answers (reader st))"
    and s: "stream (reader st) = frame_bytes (h0, h1, ws) @ rest"
  shows "\<exists>as bs. let r' = (reader st)\<lparr>answers := as, dataFileBuffer := bs\<rparr> in
    processFrame st = take_frame (h0, h1, ws)
      (st\<lparr>reader := r', currentPosition := currentPosition st + of_nat (length (frame_bytes (h0, h1, ws)))\<rparr>)
    \<and> all_data as \<and> stream r' = rest"
proof -
  let ?body = "concat (map bytes64 ws)"
  have body: "length ?body = 8 * length ws" using length_concat_chunks [of bytes64 8 ws] by simp
  have s': "stream (reader st) = (bytes64 h0 @ bytes64 h1) @ ?body @ rest" using s by simp
  obtain as bs where r1: "read_words ShortFrameHeader 2 (reader st) = Inr ([h0, h1], (reader st)\<lparr>answers := as, dataFileBuffer := bs\<rparr>)"
    "all_data as" "stream ((reader st)\<lparr>answers := as, dataFileBuffer := bs\<rparr>) = ?body @ rest"
    using read_words_complete [OF data, of 2 ShortFrameHeader] s' words64_2 by auto
  let ?r1 = "(reader st)\<lparr>answers := as, dataFileBuffer := bs\<rparr>"
  have n: "int (length ws) = nevents_of_header ([h0, h1] ! 1)" using wf by simp
  have fid: "uint (id_of_header h0) = uint (id_of_header ([h0, h1] ! 0))" by simp
  note eq = processFrame_header [OF r1(1) n fid refl]
  have small: "\<not> int (length ws) + 2 > int MaxRawDataFrameSize" using wf by simp
  show ?thesis
  proof (cases "ws = []")
    case True
    then show ?thesis
      using eq r1 small by (intro exI [of _ as] exI [of _ bs]) (simp add: Let_def)
  next
    case False
    obtain as' bs' where r2: "read_words ShortFrameBody (length ws) ?r1 = Inr (ws, ?r1\<lparr>answers := as', dataFileBuffer := bs'\<rparr>)"
      "all_data as'" "stream (?r1\<lparr>answers := as', dataFileBuffer := bs'\<rparr>) = rest"
      using read_words_complete [of ?r1 "length ws" ShortFrameBody] r1 body words64_concat [of ws] by auto
    show ?thesis
      using eq small False r2
      by (intro exI [of _ as'] exI [of _ bs'])
        (simp del: frame_bytes.simps add: length_frame_bytes Let_def account_frame_update add.assoc)
  qed
qed

section \<open>The blocks of a step\<close>

text \<open>
  The events of a block: a hit stores its frame relative to the first frame of the block, which is
  the start time of the block in units of 1024 clocks.
\<close>

definition block_events :: "UndecodedHit EventBuffer \<Rightarrow> (int \<times> u64) list" where
  "block_events b = map (\<lambda>h. (bufferTMin b div 1024 + sint (frameID h), eventWord h)) (contents b)"

definition blocks :: "step_state \<Rightarrow> UndecodedHit EventBuffer list" where
  "blocks st = queued st @ (case outBuffer st of None \<Rightarrow> [] | Some b \<Rightarrow> [b])"

definition wf_block :: "UndecodedHit EventBuffer \<Rightarrow> bool" where
  "wf_block b = (wf_buffer b \<and> capacity b < 2 ^ 16 \<and> 1024 dvd bufferTMin b)"

definition block_inv :: "(int \<times> u64) list \<Rightarrow> step_state \<Rightarrow> bool" where
  "block_inv evs st = (concat (map block_events (blocks st)) = evs \<and> list_all wf_block (blocks st)
     \<and> map bufferSeqN (blocks st) = map (\<lambda>k. ucast (of_nat k :: u32)) [0..<length (blocks st)]
     \<and> seqN st = of_nat (length (blocks st))
     \<and> (\<forall>b. outBuffer st = Some b \<longrightarrow> bufferTMin b = currentBufferFirstFrame st * 1024
           \<and> 0 \<le> currentBufferFirstFrame st \<and> currentBufferFirstFrame st < 2 ^ 36))"

lemma block_inv_account [simp]: "block_inv evs (account_frame fid l n st) = block_inv evs st"
  by (simp add: block_inv_def blocks_def account_frame_def Let_def)

lemma block_inv_reader [simp]: "block_inv evs (st\<lparr>reader := r, currentPosition := p\<rparr>) = block_inv evs st"
  by (simp add: block_inv_def blocks_def)

lemma frame_id_bounds: "0 \<le> uint (id_of_header h)" "uint (id_of_header h) < 2 ^ 36"
proof -
  have "id_of_header h = take_bit 36 h"
    by (simp add: id_of_header_def take_bit_eq_mask mask_eq_exp_minus_1)
  then have "uint (id_of_header h) = take_bit 36 (uint h)" by (simp add: unsigned_take_bit_eq)
  then show "uint (id_of_header h) < 2 ^ 36" using take_bit_int_less_exp [of 36 "uint h"] by simp
qed simp

lemma sint_frame_offset:
  assumes "0 \<le> fid" "fid < 2 ^ 36" "0 \<le> first" "first < 2 ^ 36"
  shows "sint (word_of_int (fid - first) :: u64) = fid - first"
  using assms unfolding signed_of_int by (subst signed_take_bit_int_eq_self) simp_all

lemma new_block_facts:
  assumes "n \<le> 8194"
  shows "holds (new_block fid n k) []" "capacity (new_block fid n k) < 2 ^ 16" "n \<le> capacity (new_block fid n k)"
    "bufferTMin (new_block fid n k) = fid * 1024" "bufferSeqN (new_block fid n k) = ucast (ucast k :: u32)"
proof -
  have u: "unat (of_nat (max n 2048) :: u32) = max n 2048"
    using assms by (intro unat_of_nat_lt) simp
  have "max n 2048 < initial_capacity (of_nat (max n 2048))"
    using initial_capacity_ge [of "of_nat (max n 2048)"] assms unfolding u by simp
  then show "n \<le> capacity (new_block fid n k)" by (simp add: new_block_def EventBuffer_new_def)
  have "initial_capacity (of_nat (max n 2048)) \<le> (max n 2048 div 1024 + 1) * 1024"
    using u by (simp add: initial_capacity_def unat_word_ariths unat_div)
  also have "\<dots> < 2 ^ 16" using div_le_mono [of "max n 2048" 8194 1024] assms by simp
  finally show "capacity (new_block fid n k) < 2 ^ 16" by (simp add: new_block_def EventBuffer_new_def)
qed (simp add: new_block_def holds_new, simp_all add: new_block_def EventBuffer_new_def)

text \<open>Storing the events of a frame into a block with room for them.\<close>

lemma block_store:
  assumes b: "wf_block b" "length (contents b) + length ws \<le> capacity b" "bufferTMin b = first * 1024"
    and fid: "0 \<le> fid" "fid < 2 ^ 36" "0 \<le> first" "first < 2 ^ 36"
  shows "\<exists>b1. write_from (getUsed b) (map (\<lambda>w. \<lparr>frameID = word_of_int (fid - first), eventWord = w\<rparr>) ws) b = Some b1
    \<and> (let b2 = setTMax t (setUsed (getUsed b + length ws) b1) in
       wf_block b2 \<and> block_events b2 = block_events b @ map (\<lambda>w. (fid, w)) ws
       \<and> bufferTMin b2 = bufferTMin b \<and> bufferSeqN b2 = bufferSeqN b)"
proof -
  let ?hits = "map (\<lambda>w. \<lparr>frameID = word_of_int (fid - first), eventWord = w\<rparr>) ws"
  have h: "holds b (contents b)" using b(1) by (simp add: holds_iff wf_block_def)
  have u: "getUsed b = length (contents b)" using holds_used [OF h] by (simp add: getUsed_def)
  obtain ss where ss: "write_from (length (contents b)) ?hits b = Some (b\<lparr>slots := ss\<rparr>)"
    "holds (setUsed (length (contents b) + length ?hits) (b\<lparr>slots := ss\<rparr>)) (contents b @ ?hits)"
    using holds_write_from [OF h, of ?hits] b(2) by auto
  let ?b2 = "setTMax t (setUsed (getUsed b + length ws) (b\<lparr>slots := ss\<rparr>))"
  have "holds ?b2 (contents b @ ?hits)"
    using ss(2) u by (simp add: holds_def setTMax_def setUsed_def)
  then have "wf_buffer ?b2" "contents ?b2 = contents b @ ?hits" by (simp_all add: holds_iff)
  moreover have "bufferTMin ?b2 = bufferTMin b" "bufferSeqN ?b2 = bufferSeqN b" "capacity ?b2 = capacity b"
    by (simp_all add: setTMax_def setUsed_def)
  ultimately show ?thesis
    using ss(1) u b sint_frame_offset [OF fid]
    by (intro exI [of _ "b\<lparr>slots := ss\<rparr>"]) (simp add: Let_def wf_block_def block_events_def)
qed

lemma contents_new_block [simp]: "n \<le> 8194 \<Longrightarrow> contents (new_block fid n k) = []"
  using new_block_facts(1) by (simp add: holds_iff)

lemma ucast_u32_of_nat: "(ucast (of_nat k :: u64) :: u32) = of_nat k"
  by (rule bit_word_eqI) (auto simp: bit_simps)

lemma block_inv_new:
  assumes inv: "block_inv evs st" and n: "n \<le> 8194" and fid: "0 \<le> fid" "fid < 2 ^ 36"
    and st': "queued st' = blocks st" "outBuffer st' = Some (new_block fid n (seqN st))"
      "currentBufferFirstFrame st' = fid" "seqN st' = seqN st + 1"
  shows "block_inv evs st'"
proof -
  let ?b = "new_block fid n (seqN st)"
  have "blocks st' = blocks st @ [?b]" using st' by (simp add: blocks_def)
  moreover have "block_events ?b = []" using n by (simp add: block_events_def)
  moreover have "wf_block ?b" using new_block_facts [OF n] by (simp add: wf_block_def holds_iff)
  moreover have "bufferSeqN ?b = ucast (of_nat (length (blocks st)) :: u32)"
    using inv new_block_facts(5) [OF n, of fid "seqN st"] by (simp add: block_inv_def ucast_u32_of_nat)
  ultimately show ?thesis
    using inv fid st' new_block_facts(4) [OF n, of fid "seqN st"] by (simp add: block_inv_def)
qed

lemma choose_block_inv:
  assumes inv: "block_inv evs st" and n: "n \<le> 8194" and fid: "0 \<le> fid" "fid < 2 ^ 36"
    and c: "choose_block fid n st = (b, st1)"
  shows "block_inv evs (st1\<lparr>outBuffer := Some b\<rparr>) \<and> length (contents b) + n \<le> capacity b"
proof (cases "outBuffer st")
  case None
  then show ?thesis
    using c new_block_facts(3) [OF n] n
    by (auto simp: choose_block_def blocks_def intro!: block_inv_new [OF inv n fid])
next
  case (Some b0)
  then have b0: "wf_block b0" using inv by (simp add: block_inv_def blocks_def)
  then have h: "holds b0 (contents b0)" and cap: "capacity b0 < 2 ^ 16" by (simp_all add: holds_iff wf_block_def)
  have "capacity b0 < 2 ^ 64" by (rule less_trans [OF cap]) simp
  note free = getFree_holds [OF h this]
  have room: "length (contents b0) \<le> capacity b0"
    using holds_used [OF h] h by (simp add: holds_def)
  show ?thesis
  proof (cases "getFree b0 < n \<or> fid - currentBufferFirstFrame st > 2 ^ 32")
    case True
    then show ?thesis
      using c Some new_block_facts(3) [OF n] n
      by (auto simp: choose_block_def blocks_def intro!: block_inv_new [OF inv n fid])
  next
    case False
    then have "b = b0" "st1 = st" using c Some by (auto simp: choose_block_def)
    moreover have "st\<lparr>outBuffer := Some b0\<rparr> = st" using Some by simp
    ultimately show ?thesis using False free room inv by auto
  qed
qed

text \<open>The part of the state that the accounting reads and writes.\<close>

definition counters :: "step_state \<Rightarrow> int \<times> bool \<times> int \<times> int \<times> int \<times> int \<times> int" where
  "counters st = (lastFrameID st, lastFrameWasLost0 st, nFrames st, nFramesLost0 st, nFramesLostN st,
     nEventsNoLost st, nEventsSomeLost st)"

lemma choose_block_keeps:
  "choose_block fid n st = (b, st1) \<Longrightarrow> reader st1 = reader st \<and> currentPosition st1 = currentPosition st
     \<and> counters st1 = counters st"
  by (auto simp: choose_block_def counters_def split: option.splits if_splits)

lemma store_events_inv:
  assumes inv: "block_inv evs st" and fid: "0 \<le> fid" "fid < 2 ^ 36" and n: "length ws \<le> 8194"
  shows "\<exists>st'. store_events fid ws st = Inr st' \<and> block_inv (evs @ map (\<lambda>w. (fid, w)) ws) st'
    \<and> reader st' = reader st \<and> currentPosition st' = currentPosition st
    \<and> counters st' = counters st"
proof -
  obtain b st1 where c: "choose_block fid (length ws) st = (b, st1)" by force
  note i1 = choose_block_inv [OF inv n fid c]
  let ?first = "currentBufferFirstFrame st1"
  have b: "wf_block b" "bufferTMin b = ?first * 1024" "0 \<le> ?first" "?first < 2 ^ 36"
    using i1 by (auto simp: block_inv_def blocks_def)
  let ?t = "(fid + 1) * 1024"
  obtain b1 where b1: "write_from (getUsed b) (map (\<lambda>w. \<lparr>frameID = word_of_int (fid - ?first), eventWord = w\<rparr>) ws) b = Some b1"
    "let b2 = setTMax ?t (setUsed (getUsed b + length ws) b1) in
       wf_block b2 \<and> block_events b2 = block_events b @ map (\<lambda>w. (fid, w)) ws
       \<and> bufferTMin b2 = bufferTMin b \<and> bufferSeqN b2 = bufferSeqN b"
    using block_store [OF b(1) i1 [THEN conjunct2] b(2) fid b(3,4), of ?t] by auto
  then show ?thesis
    using c i1 choose_block_keeps [OF c] b
    by (simp add: store_events_def Let_def block_inv_def blocks_def counters_def)
qed

section \<open>A whole step\<close>

fun account :: "raw_frame \<Rightarrow> step_state \<Rightarrow> step_state" where
  "account (h0, h1, ws) = account_frame (uint (id_of_header h0)) (lost_of_header h1) (int (length ws))"

lemma counters_account_frame:
  "counters s = counters t \<Longrightarrow> counters (account_frame fid l n s) = counters (account_frame fid l n t)"
  by (simp add: counters_def account_frame_def Let_def)

lemma counters_account: "counters s = counters t \<Longrightarrow> counters (account f s) = counters (account f t)"
  by (cases f) (simp only: account.simps, rule counters_account_frame)

lemma counters_fold_account:
  "counters s = counters t \<Longrightarrow> counters (fold account fs s) = counters (fold account fs t)"
proof (induction fs arbitrary: s t)
  case (Cons f fs)
  show ?case using Cons.IH [OF counters_account [OF Cons.prems]] by simp
qed simp

lemma take_frame_inv:
  assumes wf: "wf_raw_frame f" and inv: "block_inv evs st"
  shows "\<exists>st'. take_frame f st = Inr st' \<and> block_inv (evs @ frame_events f) st'
    \<and> reader st' = reader st \<and> currentPosition st' = currentPosition st \<and> counters st' = counters (account f st)"
proof -
  obtain h0 h1 ws where f: "f = (h0, h1, ws)" by (metis prod_cases3)
  let ?st2 = "account_frame (uint (id_of_header h0)) (lost_of_header h1) (int (length ws)) st"
  have n: "length ws \<le> 8194" using wf f by (simp add: MaxRawDataFrameSize_def)
  show ?thesis
  proof (cases "ws = []")
    case True
    then show ?thesis using f inv by simp
  next
    case False
    obtain st' where "store_events (uint (id_of_header h0)) ws ?st2 = Inr st'"
      "block_inv (evs @ map (\<lambda>w. (uint (id_of_header h0), w)) ws) st'"
      "reader st' = reader ?st2" "currentPosition st' = currentPosition ?st2" "counters st' = counters ?st2"
      using store_events_inv [of evs ?st2 "uint (id_of_header h0)" ws] inv frame_id_bounds n by auto
    then show ?thesis using False f by simp
  qed
qed

lemma getStepEnd_known [simp]: "stepEnd r < ULLONG_MAX \<Longrightarrow> getStepEnd r = (stepEnd r, r)"
  by (simp add: getStepEnd_def)

lemma processLoop_frames:
  assumes "stepEnd (reader st) < ULLONG_MAX" "all_data (answers (reader st))"
    and "stream (reader st) = concat (map frame_bytes fs) @ rest"
    and "unat (currentPosition st) + length (concat (map frame_bytes fs)) = unat (stepEnd (reader st))"
    and "\<forall>f \<in> set fs. wf_raw_frame f" and "block_inv evs st"
  shows "\<exists>st'. processLoop st = Inr st' \<and> block_inv (evs @ concat (map frame_events fs)) st'
    \<and> counters st' = counters (fold account fs st) \<and> stream (reader st') = rest"
  using assms
proof (induction fs arbitrary: st evs)
  case Nil
  then have "currentPosition st = stepEnd (reader st)" by (simp add: word_unat_eq_iff)
  then show ?case using Nil by (simp add: processLoop.simps [of st])
next
  case (Cons f fs)
  obtain h0 h1 ws where f: "f = (h0, h1, ws)" by (metis prod_cases3)
  have less: "currentPosition st < stepEnd (reader st)"
    using Cons.prems(4) f length_frame_bytes [of h0 h1 ws] by (simp add: word_less_nat_alt)
  obtain as bs where pf: "processFrame st = take_frame f
      (st\<lparr>reader := (reader st)\<lparr>answers := as, dataFileBuffer := bs\<rparr>,
          currentPosition := currentPosition st + of_nat (length (frame_bytes f))\<rparr>)" (is "_ = take_frame f ?st1")
    and as: "all_data as" "stream ((reader st)\<lparr>answers := as, dataFileBuffer := bs\<rparr>) = concat (map frame_bytes fs) @ rest"
    using processFrame_take [of h0 h1 ws st "concat (map frame_bytes fs) @ rest"] Cons.prems(2,3,5) f
    by (auto simp: Let_def)
  obtain st' where st': "take_frame f ?st1 = Inr st'" "block_inv (evs @ frame_events f) st'"
      "reader st' = reader ?st1" "currentPosition st' = currentPosition ?st1"
      "counters st' = counters (account f ?st1)"
    using take_frame_inv [of f evs ?st1] Cons.prems(5,6) by auto
  have "counters ?st1 = counters st" by (simp add: counters_def)
  then have cnt: "counters (fold account fs st') = counters (fold account fs (account f st))"
    by (intro counters_fold_account trans [OF st'(5)] counters_account)
  have "unat (currentPosition st) + length (frame_bytes f) < 2 ^ 64"
    using Cons.prems(4) unat_u64_lt [of "stepEnd (reader st)"] by simp
  then have "unat (currentPosition st') = unat (currentPosition st) + length (frame_bytes f)"
    using st'(4) by (simp add: unat_word_ariths unat_of_nat)
  then have "\<exists>st''. processLoop st' = Inr st''
      \<and> block_inv ((evs @ frame_events f) @ concat (map frame_events fs)) st''
      \<and> counters st'' = counters (fold account fs st') \<and> stream (reader st'') = rest"
    using Cons.prems st' as by (intro Cons.IH) (simp_all add: add.assoc)
  then show ?case
    using less Cons.prems(1) pf st'(1) cnt by (simp add: processLoop.simps [of st])
qed

text \<open>The frames come in increasing order with gaps that fit the narrowed counter.\<close>

fun increasing :: "int \<Rightarrow> raw_frame list \<Rightarrow> bool" where
  "increasing k [] = True"
| "increasing k ((h0, h1, ws) # fs) =
     (let fid = uint (id_of_header h0) in k < fid \<and> fid - k \<le> 2 ^ 31 \<and> increasing fid fs)"

definition fid_of :: "raw_frame \<Rightarrow> int" where
  "fid_of f = uint (id_of_header (fst f))"

lemma account_step:
  assumes "lastFrameID st = k" "0 \<le> k" "increasing k [f]"
  shows "nFrames (account f st) = nFrames st + (fid_of f - k) \<and> lastFrameID (account f st) = fid_of f
    \<and> nFramesLost0 (account f st) + nFramesLostN (account f st)
        \<le> nFramesLost0 st + nFramesLostN st + (fid_of f - k)
    \<and> nFramesLost0 st \<le> nFramesLost0 (account f st) \<and> nFramesLostN st \<le> nFramesLostN (account f st)"
proof -
  obtain h0 h1 ws where f: "f = (h0, h1, ws)" by (metis prod_cases3)
  let ?fid = "uint (id_of_header h0)"
  have "signed_take_bit 31 (?fid - k - 1) = ?fid - k - 1"
    using assms f by (intro signed_take_bit_int_eq_self) (auto simp: Let_def)
  then show ?thesis
    using assms f by (auto simp: account_frame_def Let_def fid_of_def)
qed

lemma account_all:
  assumes "lastFrameID st = k" "0 \<le> k" "increasing k fs" "0 \<le> nFramesLost0 st" "0 \<le> nFramesLostN st"
    "nFramesLost0 st + nFramesLostN st \<le> nFrames st"
  shows "nFrames (fold account fs st) = nFrames st + (if fs = [] then 0 else fid_of (last fs) - k)
    \<and> 0 \<le> nFramesLost0 (fold account fs st) \<and> 0 \<le> nFramesLostN (fold account fs st)
    \<and> nFramesLost0 (fold account fs st) + nFramesLostN (fold account fs st) \<le> nFrames (fold account fs st)"
  using assms
proof (induction fs arbitrary: st k)
  case (Cons f fs)
  have inc: "increasing k [f]" "increasing (fid_of f) fs" "0 \<le> fid_of f"
    using Cons.prems(3) by (cases f, simp add: Let_def fid_of_def)+
  note step = account_step [OF Cons.prems(1,2) inc(1)]
  show ?case
    using Cons.IH [of "account f st" "fid_of f"] Cons.prems step inc by auto
qed simp

lemma events_account_all:
  "nEventsNoLost (fold account fs st) = nEventsNoLost st
     + int (length (concat (map frame_events (filter (\<lambda>f. \<not> lost_of_header (fst (snd f))) fs))))"
  "nEventsSomeLost (fold account fs st) = nEventsSomeLost st
     + int (length (concat (map frame_events (filter (\<lambda>f. lost_of_header (fst (snd f))) fs))))"
  by (induction fs arbitrary: st) (auto simp: account_frame_def Let_def)

lemma processStep_result:
  assumes "stepEnd r < ULLONG_MAX" "all_data (answers r)"
    and "pending (answers r) = concat (map frame_bytes fs) @ rest"
    and "unat (stepBegin r) + length (concat (map frame_bytes fs)) = unat (stepEnd r)"
    and "\<forall>f \<in> set fs. wf_raw_frame f"
  obtains st where "processStep r = Inr st" "outBuffer st = None" "blocks st = queued st"
    "concat (map block_events (queued st)) = concat (map frame_events fs)" "list_all wf_block (queued st)"
    "map bufferSeqN (queued st) = map (\<lambda>k. ucast (of_nat k :: u32)) [0..<length (queued st)]"
    "counters st = counters (fold account fs (step_init r))"
proof -
  have "block_inv [] (step_init r)" by (simp add: block_inv_def blocks_def step_init_def)
  moreover have "stream (reader (step_init r)) = concat (map frame_bytes fs) @ rest"
    using assms(3) by (simp add: step_init_def stream_def)
  ultimately obtain st where "processLoop (step_init r) = Inr st" "block_inv (concat (map frame_events fs)) st"
    "counters st = counters (fold account fs (step_init r))"
    using processLoop_frames [of "step_init r" fs rest "[]"] assms
    by (auto simp: step_init_def getStepBegin_def)
  then show thesis
    using that [of "case outBuffer st of None \<Rightarrow> st | Some b \<Rightarrow> st\<lparr>queued := queued st @ [b], outBuffer := None\<rparr>"]
    by (auto simp: processStep_def block_inv_def blocks_def counters_def split: option.splits)
qed

text \<open>
  C7: A step of a complete data file, that is one whose byte range holds well-formed frames, is processed to
  its end, whatever the sizes of the pieces that the operating system returns are. The blocks
  handed to the thread pool contain exactly the events of the frames, in file order and with their
  absolute frame numbers; every write of an event was inside its block; and the blocks are numbered
  consecutively from zero (in 32 bits).
\<close>

theorem processStep_delivers:
  assumes "stepEnd r < ULLONG_MAX" "all_data (answers r)"
    and "pending (answers r) = concat (map frame_bytes fs) @ rest"
    and "unat (stepBegin r) + length (concat (map frame_bytes fs)) = unat (stepEnd r)"
    and "\<forall>f \<in> set fs. wf_raw_frame f"
  shows "\<exists>st. processStep r = Inr st \<and> outBuffer st = None
    \<and> concat (map block_events (queued st)) = concat (map frame_events fs)
    \<and> (\<forall>b \<in> set (queued st). wf_buffer b)
    \<and> map bufferSeqN (queued st) = map (\<lambda>k. ucast (of_nat k :: u32)) [0..<length (queued st)]"
  using processStep_result [OF assms] by (metis (no_types, lifting) list_all_iff wf_block_def)

definition example_frames :: "raw_frame list" where
  "example_frames = [(5, 0x8002, [7, 8]), (9, 0, [])]"

definition example_reader :: RawReader where
  "example_reader = (let bytes = concat (map frame_bytes example_frames) in
     \<lparr>indexIsTemp = False, stepValue1 = 0, stepValue2 = 0, stepBegin = 64, stepEnd = 112, dataFileBuffer = [],
      frequency = 0, qdcMode = header_qdcMode 0, triggerID = -1, answers = [Some (take 10 bytes), Some (drop 10 bytes)],
      indexAnswers = []\<rparr>)"

lemma example_reader_facts:
  "stepEnd example_reader < ULLONG_MAX" "all_data (answers example_reader)"
  "pending (answers example_reader) = concat (map frame_bytes example_frames) @ []"
  "unat (stepBegin example_reader) + length (concat (map frame_bytes example_frames)) = unat (stepEnd example_reader)"
  "\<forall>f \<in> set example_frames. wf_raw_frame f" "stepBegin example_reader = 64"
  by (simp_all add: example_reader_def example_frames_def ULLONG_MAX_def all_data_def Let_def bytes64_def
      nevents_of_header_def MaxRawDataFrameSize_def upt_rec)

theorem processStep_delivers_witness:
  "\<exists>st. processStep example_reader = Inr st \<and> concat (map block_events (queued st)) = [(5, 7), (5, 8)]"
  using processStep_delivers [OF example_reader_facts(1-5)]
  by (auto simp: example_frames_def id_of_header_def)

text \<open>
  The report of a step: when the frame numbers of the file increase, in steps of at most 2147483648, the
  number of frames counts every frame from the first to the last one, also those that the
  file skips; the frames counted as missing all or some data are at most that many; and the events are
  counted separately for frames with and without losses.
\<close>

theorem processStep_accounts:
  assumes "stepEnd r < ULLONG_MAX" "all_data (answers r)"
    and "pending (answers r) = concat (map frame_bytes (f # fs)) @ rest"
    and "unat (stepBegin r) + length (concat (map frame_bytes (f # fs))) = unat (stepEnd r)"
    and "\<forall>f \<in> set (f # fs). wf_raw_frame f"
    and "increasing (fid_of f) fs"
  shows "\<exists>st. processStep r = Inr st \<and> nFrames st = fid_of (last (f # fs)) - fid_of f + 1
    \<and> 0 \<le> nFramesLost0 st \<and> 0 \<le> nFramesLostN st \<and> nFramesLost0 st + nFramesLostN st \<le> nFrames st
    \<and> nEventsNoLost st = int (length (concat (map frame_events (filter (\<lambda>f. \<not> lost_of_header (fst (snd f))) (f # fs)))))
    \<and> nEventsSomeLost st = int (length (concat (map frame_events (filter (\<lambda>f. lost_of_header (fst (snd f))) (f # fs)))))"
proof -
  obtain st where st: "processStep r = Inr st" "counters st = counters (fold account (f # fs) (step_init r))"
    using processStep_result [OF assms(1-5)] by metis
  let ?s1 = "account f (step_init r)"
  have s1: "lastFrameID ?s1 = fid_of f" "nFrames ?s1 = 1" "0 \<le> nFramesLost0 ?s1" "0 \<le> nFramesLostN ?s1"
    "nFramesLost0 ?s1 + nFramesLostN ?s1 \<le> 1" "0 \<le> fid_of f"
    by (cases f; simp add: account_frame_def step_init_def Let_def fid_of_def)+
  note all = account_all [OF s1(1,6) assms(6) s1(3,4)] events_account_all [of "f # fs" "step_init r"]
  have "nFrames st = nFrames (fold account fs ?s1)" "nFramesLost0 st = nFramesLost0 (fold account fs ?s1)"
    "nFramesLostN st = nFramesLostN (fold account fs ?s1)"
    "nEventsNoLost st = nEventsNoLost (fold account (f # fs) (step_init r))"
    "nEventsSomeLost st = nEventsSomeLost (fold account (f # fs) (step_init r))"
    using st(2) by (simp_all add: counters_def)
  moreover have "nEventsNoLost (step_init r) = 0" "nEventsSomeLost (step_init r) = 0"
    by (simp_all add: step_init_def)
  ultimately show ?thesis using st(1) all s1 by (cases fs) auto
qed

theorem processStep_accounts_witness:
  "\<exists>st. processStep example_reader = Inr st \<and> nFrames st = 5 \<and> nEventsSomeLost st = 2"
  using processStep_accounts [of example_reader "(5, 0x8002, [7, 8])" "[(9, 0, [])]" "[]"] example_reader_facts
  by (auto simp: example_frames_def id_of_header_def fid_of_def lost_of_header_def Let_def)

section \<open>Channel modes and decoding\<close>

text \<open>Every channel number that an event word can carry has a mode.\<close>

definition modes_known :: "RawReader \<Rightarrow> bool" where
  "modes_known r = (\<forall>g < MAX_NUMBER_CHANNELS. qdcMode r g \<noteq> None)"

lemma isQDC_event: "modes_known r \<Longrightarrow> \<exists>q. isQDC r (getChannelID w) = Some q"
  using getChannelID_bound [of w] by (auto simp: modes_known_def isQDC_def MAX_NUMBER_CHANNELS_def)

lemma openFile_header_modes:
  assumes "openFile tmpf idxf rawf got header modf = Some (Inr r)" "header ! 3 = 0"
  shows "qdcMode r = header_qdcMode (header ! 0)"
  using assms by (auto simp: openFile_def bind_eq_Some_conv rd_Some_iff Let_def split: if_splits)

lemma modes_known_header: "qdcMode r = header_qdcMode h \<Longrightarrow> modes_known r"
  by (simp add: modes_known_def header_qdcMode_def)

lemma unat_u16_of_u32: "unat (w :: u32) < 65536 \<Longrightarrow> unat (ucast w :: u16) = unat w"
  by (simp add: unsigned_ucast_eq take_bit_nat_eq_self)

lemma coarse_bounds: "unat (getTCoarse w) < 1024" "unat (getECoarse w) < 1024"
  by (simp_all add: unat_getters)

lemma coarse_int_bounds: "uint (getTCoarse w) < 1024" "uint (getECoarse w) < 1024"
proof -
  have "int (unat (getTCoarse w)) < 1024" "int (unat (getECoarse w)) < 1024"
    using coarse_bounds [of w] by linarith+
  then show "uint (getTCoarse w) < 1024" "uint (getECoarse w) < 1024" by simp_all
qed

lemma coarse_time:
  assumes "- (2 ^ 52) \<le> sint k" "sint k < 2 ^ 52 - 1" "unat (c :: u16) < 1024"
  shows "long_long (k * 1024 + ucast c) = sint k * 1024 + int (unat c)"
proof -
  have "k * 1024 + ucast c = word_of_int (sint k * 1024 + int (unat c))"
    by simp
  moreover have "signed_take_bit 63 (sint k * 1024 + int (unat c)) = sint k * 1024 + int (unat c)"
  proof (rule signed_take_bit_int_eq_self)
    define u where "u = int (unat c)"
    have "0 \<le> u" "u < 1024" using assms(3) unfolding u_def by linarith+
    then have "- (2 ^ 63) \<le> sint k * 1024 + u" "sint k * 1024 + u < 2 ^ 63" using assms(1,2) by simp_all
    then show "- (2 ^ 63) \<le> sint k * 1024 + int (unat c)" "sint k * 1024 + int (unat c) < 2 ^ 63"
      unfolding u_def .
  qed
  ultimately show ?thesis
    unfolding long_long_def by (simp only: signed_of_int) simp
qed

text \<open>The times of a decoded hit, relative to the start of its block.\<close>

definition decoded :: "UndecodedHit \<Rightarrow> RawHit \<Rightarrow> bool" where
  "decoded h p =
     (let t = int (unat (getTCoarse (eventWord h))); e = int (unat (getECoarse (eventWord h))) in
      valid p \<and> channelID p = getChannelID (eventWord h)
      \<and> time p = sint (frameID h) * 1024 + t
      \<and> timeEnd p = time p + (if e - t < -256 then e - t + 1024 else e - t)
      \<and> -256 \<le> timeEnd p - time p \<and> timeEnd p - time p < 1024)"

lemma decode_hit_decoded:
  assumes "modes_known r" "- (2 ^ 52) \<le> sint (frameID h)" "sint (frameID h) < 2 ^ 52 - 1"
  shows "\<exists>p. decode_hit r h = Some p \<and> decoded h p"
proof -
  obtain q where q: "isQDC r (getChannelID (eventWord h)) = Some q" using isQDC_event [OF assms(1)] by blast
  let ?tc = "ucast (getTCoarse (eventWord h)) :: u16" and ?ec = "ucast (getECoarse (eventWord h)) :: u16"
  have c: "unat ?tc = unat (getTCoarse (eventWord h))" "unat ?ec = unat (getECoarse (eventWord h))"
    using coarse_bounds [of "eventWord h"] by (simp_all add: unat_u16_of_u32)
  have "long_long (frameID h * 1024 + ucast ?tc) = sint (frameID h) * 1024 + int (unat (getTCoarse (eventWord h)))"
    "long_long (frameID h * 1024 + ucast ?ec) = sint (frameID h) * 1024 + int (unat (getECoarse (eventWord h)))"
    using coarse_time [OF assms(2,3), of ?tc] coarse_time [OF assms(2,3), of ?ec] coarse_bounds [of "eventWord h"]
    by (simp_all only: c)
  moreover have "uint (getECoarse (eventWord h)) - uint (getTCoarse (eventWord h)) < 1024"
    "-1024 < uint (getECoarse (eventWord h)) - uint (getTCoarse (eventWord h))"
    using coarse_int_bounds [of "eventWord h"]
      unsigned_greater_eq [where ?'a = int, of "getTCoarse (eventWord h)"]
      unsigned_greater_eq [where ?'a = int, of "getECoarse (eventWord h)"] by linarith+
  ultimately show ?thesis
    using q by (simp add: decode_hit_def decoded_def Let_def)
qed

lemma those_map_get: "holds b es \<Longrightarrow> map (\<lambda>i. get b i \<bind> g) [0..<length es] = map g es"
  by (rule nth_equalityI) (simp_all add: holds_get)

lemma those_list_all2:
  "(\<And>h. h \<in> set hs \<Longrightarrow> \<exists>p. g h = Some p \<and> P h p) \<Longrightarrow> \<exists>ps. those (map g hs) = Some ps \<and> list_all2 P hs ps"
  by (induction hs) force+

lemma decoder_works:
  assumes "wf_buffer b" "getSize b < 4294966272" "\<And>h. h \<in> set (contents b) \<Longrightarrow> \<exists>p. decode_hit r h = Some p \<and> P h p"
  shows "\<exists>out. Decoder_handleEvents r b = Some out \<and> wf_buffer out \<and> list_all2 P (contents b) (contents out)
    \<and> getSeqN out = getSeqN b \<and> getTMin out = getTMin b"
proof -
  let ?es = "contents b" and ?c = "EventBuffer_child (of_nat (getSize b)) b :: RawHit EventBuffer"
  have h: "holds b ?es" using assms(1) by (simp add: holds_iff)
  have size: "getSize b = length ?es" using holds_getSize [OF h] .
  obtain ps where ps: "those (map (decode_hit r) ?es) = Some ps" "list_all2 P ?es ps"
    using those_list_all2 [of ?es "decode_hit r" P] assms(3) by blast
  have len: "length ps = length ?es" using list_all2_lengthD [OF ps(2)] by simp
  have "unat (of_nat (getSize b) :: u32) = getSize b"
    using assms(2) by (intro unat_of_nat_lt) simp
  then have "getSize b < capacity ?c"
    using initial_capacity_ge [of "of_nat (getSize b)"] assms(2) by (simp add: EventBuffer_child_def)
  then obtain ss where ss: "write_from 0 ps ?c = Some (?c\<lparr>slots := ss\<rparr>)"
    "holds (setUsed (length ps) (?c\<lparr>slots := ss\<rparr>)) ps"
    using holds_write_from [OF holds_child, of ps "of_nat (getSize b)" b] len size by auto
  have "Decoder_handleEvents r b = Some (setUsed (length ps) (?c\<lparr>slots := ss\<rparr>))"
    using ps(1) ss(1) len size those_map_get [OF h, of "decode_hit r"] by (simp add: Decoder_handleEvents_def Let_def)
  then show ?thesis
    using ss(2) ps(2)
    by (simp add: holds_iff getSeqN_def getTMin_def setUsed_def EventBuffer_child_def)
qed

text \<open>
  The decoder turns a block into a buffer of as many hits, in the same order, without reading or
  writing outside of the buffers and of the table of channel modes (which the file header fills for
  every channel an event word can name). The time of a hit is its frame and coarse time, and the end
  time is the one closest to it: the difference, known modulo 1024, is taken between -256 and 1023.
\<close>

theorem decoder_times:
  assumes "openFile tmpf idxf rawf got header modf = Some (Inr r)" "header ! 3 = 0"
    and "wf_buffer b" "getSize b < 4294966272"
    and "\<forall>h \<in> set (contents b). - (2 ^ 52) \<le> sint (frameID h) \<and> sint (frameID h) < 2 ^ 52 - 1"
  shows "\<exists>out. Decoder_handleEvents r b = Some out \<and> wf_buffer out
    \<and> list_all2 decoded (contents b) (contents out)
    \<and> getSeqN out = getSeqN b \<and> getTMin out = getTMin b"
  using assms(5) modes_known_header [OF openFile_header_modes [OF assms(1,2)]]
  by (intro decoder_works [OF assms(3,4)] decode_hit_decoded) auto

definition example_header :: "u64 list" where
  "example_header = [0x100000000, 0, 0, 0, 0, 0, 0, 0]"

definition example_block :: "UndecodedHit EventBuffer" where
  "example_block = \<lparr>bufferSeqN = 0, bufferTMin = 5120, bufferTMax = Some 6144,
     slots = [Some \<lparr>frameID = 0, eventWord = push_bit 30 1000 OR push_bit 20 3\<rparr>], capacity = 1, used = 1\<rparr>"

theorem decoder_times_witness:
  "\<exists>r out. openFile False True True 64 example_header None = Some (Inr r)
     \<and> Decoder_handleEvents r example_block = Some out
     \<and> list_all2 decoded (contents example_block) (contents out)"
proof -
  have "\<exists>r. openFile False True True 64 example_header None = Some (Inr r)"
    by (simp add: openFile_def example_header_def)
  then obtain r where r: "openFile False True True 64 example_header None = Some (Inr r)" ..
  show ?thesis
    using decoder_times [OF r, of example_block] r
    by (auto simp: example_header_def example_block_def wf_buffer_def getSize_def contents_def)
qed

lemma isTOT_from_all:
  "\<forall>g < MAX_NUMBER_CHANNELS. qdcMode r g = Some b \<Longrightarrow> n \<le> MAX_NUMBER_CHANNELS \<Longrightarrow>
     isTOT_from r n = Some (n = MAX_NUMBER_CHANNELS \<or> \<not> b)"
proof (induction r n rule: isTOT_from.induct)
  case (1 r g)
  have "unat (of_nat g :: u32) = g" if "g < MAX_NUMBER_CHANNELS"
    using that by (intro unat_of_nat_lt) (simp add: MAX_NUMBER_CHANNELS_def)
  then have "isQDC r (of_nat g) = Some b" if "g < MAX_NUMBER_CHANNELS"
    using that 1(2) by (simp add: isQDC_def)
  then show ?case
    using 1 by (cases b) (auto simp: isTOT_from.simps [of r g] le_less)
qed

declare isTOT_from.simps [simp del]

text \<open>
  A data file without a mode table has one mode for all channels, bit 32 of its first header word:
  \<open>isQDC\<close> returns it for every event word without leaving the table, \<open>isTOT\<close> returns its negation, and
  the trigger number and the clock frequency are the low bits of their header words.
\<close>

theorem header_modes:
  assumes "openFile tmpf idxf rawf got header modf = Some (Inr r)" "header ! 3 = 0"
  shows "isQDC r (getChannelID w) = Some (bit (header ! 0) 32)
    \<and> isTOT r = Some (\<not> bit (header ! 0) 32)
    \<and> getFrequency r = ucast (header ! 0)
    \<and> getTriggerID r = (if bit (header ! 2) 15 then uint (take_bit 15 (header ! 2)) else -1)"
proof -
  have b32: "(h AND 0x100000000 \<noteq> 0) = bit h 32" and b15: "(h AND 0x8000 \<noteq> 0) = bit h 15" for h :: u64
    using and_exp_eq_0_iff_not_bit [of h 32] and_exp_eq_0_iff_not_bit [of h 15] by simp_all
  have mode: "qdcMode r = (\<lambda>g. if g < MAX_NUMBER_CHANNELS then Some (bit (header ! 0) 32) else None)"
    using openFile_header_modes [OF assms] by (auto simp: header_qdcMode_def b32 fun_eq_iff)
  have "ucast (header ! 0 AND 0xFFFFFFFF) = (ucast (header ! 0) :: u32)"
    by (rule bit_word_eqI) (auto simp: bit_simps mask_simps)
  moreover have "(header ! 2 AND 0x7FFF) = take_bit 15 (header ! 2)"
    by (simp add: take_bit_eq_mask mask_eq_exp_minus_1)
  ultimately have "getFrequency r = ucast (header ! 0)"
    "getTriggerID r = (if bit (header ! 2) 15 then uint (take_bit 15 (header ! 2)) else -1)"
    using assms
    by (auto simp: openFile_def bind_eq_Some_conv rd_Some_iff Let_def getFrequency_def getTriggerID_def b15
        split: if_splits)
  then show ?thesis
    using mode getChannelID_bound [of w] isTOT_from_all [of r "bit (header ! 0) 32" 0]
    by (simp add: isQDC_def isTOT_def MAX_NUMBER_CHANNELS_def)
qed

theorem header_modes_witness:
  "\<exists>r. openFile False True True 64 example_header None = Some (Inr r) \<and> isTOT r = Some False \<and> getTriggerID r = -1"
proof -
  have "\<exists>r. openFile False True True 64 example_header None = Some (Inr r)"
    by (simp add: openFile_def example_header_def)
  then obtain r where r: "openFile False True True 64 example_header None = Some (Inr r)" ..
  show ?thesis
    using header_modes [OF r] r by (auto simp: example_header_def bit_simps)
qed

end
