(* ===== verification/RawToRaw.thy ===== *)
theory RawToRaw
  imports RawReaderSpec "HOL-Library.Signed_Division"
begin

text \<open>
  The conversion of raw data to a table of events (\<open>external/scripts_c/src/convert_raw_to_raw_impl.cpp\<close>): the writer,
  the pipeline of decoder and writer, and the loop over the steps of a data file.

  The trees of a ROOT file are the lists of their rows, a text file the list of the values of its lines. Single-precision step values are
  their bit patterns. The blocks of a step go through decoder and writer in the order of their numbers, which is what the
  ordered handler guarantees (theory \<open>ThreadPool\<close>).
\<close>

section \<open>The writer\<close>

datatype FILE_TYPE = FILE_TEXT | FILE_ROOT

record raw_row =
  brStep1 :: u32
  brStep2 :: u32
  brFrameID :: int
  brChannelID :: u32
  brTacID :: u16
  brTCoarse :: u16
  brECoarse :: u16
  brTFine :: u16
  brEFine :: u16

record index_row =
  ixStep1 :: u32
  ixStep2 :: u32
  brStepBegin :: nat
  brStepEnd :: nat

type_synonym text_row = "u64 \<times> u32 \<times> u16 \<times> u16 \<times> u16 \<times> u16 \<times> u16"

record raw_writer =
  fileType :: FILE_TYPE
  writerBegin :: nat
  eventFractionToWrite :: int
  eventCounter :: int
  hData :: "raw_row list"
  hIndex :: "index_row list"
  dataFile :: "text_row list"

definition DataFileWriter :: "FILE_TYPE \<Rightarrow> int \<Rightarrow> raw_writer" where
  "DataFileWriter ft fraction = \<lparr>fileType = ft, writerBegin = 0, eventFractionToWrite = fraction, eventCounter = 0,
     hData = [], hIndex = [], dataFile = []\<rparr>"

definition closeStep :: "u32 \<Rightarrow> u32 \<Rightarrow> raw_writer \<Rightarrow> raw_writer" where
  "closeStep step1 step2 w =
     (if fileType w = FILE_ROOT
      then w\<lparr>hIndex := hIndex w @ [\<lparr>ixStep1 = step1, ixStep2 = step2, brStepBegin = writerBegin w, brStepEnd = length (hData w)\<rparr>],
             writerBegin := length (hData w)\<rparr>
      else w)"

text \<open>
  The frame number is a sum of an \<open>unsigned long\<close> and a \<open>long long\<close> that is stored as a \<open>long long\<close>; the text
  format writes the frame number relative to the block.
\<close>

definition write_hit :: "u32 \<Rightarrow> u32 \<Rightarrow> int \<Rightarrow> RawHit \<Rightarrow> raw_writer \<Rightarrow> raw_writer" where
  "write_hit step1 step2 bufferMinFrameID hit w =
     (if fileType w = FILE_ROOT
      then w\<lparr>hData := hData w @ [\<lparr>brStep1 = step1, brStep2 = step2,
          brFrameID = long_long (hitFrameID hit + word_of_int bufferMinFrameID), brChannelID = channelID hit, brTacID = tacID hit,
          brTCoarse = tcoarse hit, brECoarse = ecoarse hit, brTFine = tfine hit, brEFine = efine hit\<rparr>]\<rparr>
      else w\<lparr>dataFile := dataFile w @ [(hitFrameID hit, channelID hit, tacID hit, tcoarse hit, ecoarse hit, tfine hit, efine hit)]\<rparr>)"

fun add_from :: "u32 \<Rightarrow> u32 \<Rightarrow> int \<Rightarrow> RawHit EventBuffer \<Rightarrow> nat list \<Rightarrow> raw_writer \<Rightarrow> raw_writer checked" where
  "add_from step1 step2 m b [] w = Some w"
| "add_from step1 step2 m b (i # is) w =
     (let tmpCounter = eventCounter w; w1 = w\<lparr>eventCounter := eventCounter w + 1\<rparr> in
      if tmpCounter mod 1024 \<ge> eventFractionToWrite w then add_from step1 step2 m b is w1
      else get b i \<bind> (\<lambda>hit. add_from step1 step2 m b is (write_hit step1 step2 m hit w1)))"

definition addEvents :: "u32 \<Rightarrow> u32 \<Rightarrow> RawHit EventBuffer \<Rightarrow> raw_writer \<Rightarrow> raw_writer checked" where
  "addEvents step1 step2 b w = add_from step1 step2 (getTMin b sdiv 1024) b [0..<getSize b] w"

section \<open>The conversion\<close>

text \<open>A block passes the decoder and the writer.\<close>

fun push_blocks :: "RawReader \<Rightarrow> u32 \<Rightarrow> u32 \<Rightarrow> UndecodedHit EventBuffer list \<Rightarrow> raw_writer \<Rightarrow> raw_writer checked" where
  "push_blocks r step1 step2 [] w = Some w"
| "push_blocks r step1 step2 (b # bs) w =
     Decoder_handleEvents r b \<bind> (\<lambda>hits. addEvents step1 step2 hits w \<bind> push_blocks r step1 step2 bs)"

text \<open>
  What a step finds: a line of the index file, or the fields of a temporary one, and the answers of the operating system to
  the reads that follow the seek to the beginning of the step.
\<close>

type_synonym index_input = "(nat \<times> u64 \<times> u64 \<times> u32 \<times> u32) + (u32 option \<times> u32 option \<times> u64 option)"

definition getNextStep :: "RawReader \<Rightarrow> index_input \<Rightarrow> bool \<times> RawReader" where
  "getNextStep r inp = (case inp of Inl l \<Rightarrow> getNextStep_index r l | Inr (f1, f2, f3) \<Rightarrow> getNextStep_temp r f1 f2 f3)"

datatype convert_error = MissingArgument | OpenError open_error | StepError step_error

fun convert_steps ::
  "RawReader \<Rightarrow> (index_input \<times> u8 list option list) list \<Rightarrow> raw_writer \<Rightarrow> (convert_error + raw_writer) checked" where
  "convert_steps r [] w = Some (Inr w)"
| "convert_steps r ((inp, as) # steps) w =
     (let (more, r1) = getNextStep r inp; (step1, step2) = getStepValue r1 in
      if \<not> more then Some (Inr w)
      else case processStep (r1\<lparr>answers := as\<rparr>) of
        Inl e \<Rightarrow> Some (Inl (StepError e))
      | Inr st \<Rightarrow> push_blocks r1 step1 step2 (queued st) w \<bind> (\<lambda>w1. convert_steps (reader st) steps (closeStep step1 step2 w1)))"

text \<open>
  The result of \<open>openFile\<close> is an argument; the fraction is narrowed to an \<open>int\<close>. The comparisons of the (non-empty)
  names with \<open>NULL\<close> are left out.
\<close>

definition runConvertRawToRaw ::
  "string \<Rightarrow> string \<Rightarrow> string \<Rightarrow> int \<Rightarrow> (open_error + RawReader) checked \<Rightarrow> (index_input \<times> u8 list option list) list
     \<Rightarrow> (convert_error + raw_writer) checked" where
  "runConvertRawToRaw configFileName inputFilePrefix outputFileName fraction opened steps =
     (if configFileName = [] \<or> inputFilePrefix = [] \<or> outputFileName = [] then Some (Inl MissingArgument)
      else opened \<bind> (\<lambda>res. case res of
        Inl e \<Rightarrow> Some (Inl (OpenError e))
      | Inr r \<Rightarrow> convert_steps r steps (DataFileWriter FILE_ROOT (signed_take_bit 31 fraction))))"

section \<open>The table of a file\<close>

text \<open>
  The reference: the row of an event, the sampling of one in 1024 positions per unit of the fraction, and the index.
\<close>

definition event_row :: "u32 \<Rightarrow> u32 \<Rightarrow> int \<times> u64 \<Rightarrow> raw_row" where
  "event_row step1 step2 = (\<lambda>(fid, w). \<lparr>brStep1 = step1, brStep2 = step2, brFrameID = fid, brChannelID = getChannelID w,
     brTacID = ucast (getTacID w), brTCoarse = ucast (getTCoarse w), brECoarse = ucast (getECoarse w),
     brTFine = ucast (getTFine w), brEFine = ucast (getEFine w)\<rparr>)"

definition sampled :: "int \<Rightarrow> nat \<Rightarrow> 'a list \<Rightarrow> 'a list" where
  "sampled fraction n xs = map snd (filter (\<lambda>(i, _). int (i mod 1024) < fraction) (enumerate n xs))"

record step_data =
  sdBegin :: u64
  sdEnd :: u64
  sdValue1 :: u32
  sdValue2 :: u32
  sdAnswers :: "u8 list option list"
  sdFrames :: "raw_frame list"

definition step_rows :: "step_data \<Rightarrow> raw_row list" where
  "step_rows d = map (event_row (sdValue1 d) (sdValue2 d)) (concat (map frame_events (sdFrames d)))"

definition step_input :: "step_data \<Rightarrow> index_input \<times> u8 list option list" where
  "step_input d = (Inl (6, sdBegin d, sdEnd d, sdValue1 d, sdValue2 d), sdAnswers d)"

text \<open>A complete step: its byte range holds whole, well-formed frames, in pieces of any size.\<close>

definition complete_step :: "step_data \<Rightarrow> bool" where
  "complete_step d = (sdEnd d < ULLONG_MAX \<and> all_data (sdAnswers d)
     \<and> (\<exists>rest. pending (sdAnswers d) = concat (map frame_bytes (sdFrames d)) @ rest)
     \<and> unat (sdBegin d) + length (concat (map frame_bytes (sdFrames d))) = unat (sdEnd d)
     \<and> (\<forall>f \<in> set (sdFrames d). wf_raw_frame f))"

fun index_rows :: "int \<Rightarrow> nat \<Rightarrow> nat \<Rightarrow> step_data list \<Rightarrow> index_row list" where
  "index_rows fraction n k [] = []"
| "index_rows fraction n k (d # ds) =
     (let k' = k + length (sampled fraction n (step_rows d)) in
      \<lparr>ixStep1 = sdValue1 d, ixStep2 = sdValue2 d, brStepBegin = k, brStepEnd = k'\<rparr>
        # index_rows fraction (n + length (step_rows d)) k' ds)"

lemma sampled_simps [simp]:
  "sampled fraction n [] = []"
  "sampled fraction n (x # xs) = (if int (n mod 1024) < fraction then [x] else []) @ sampled fraction (Suc n) xs"
  by (simp_all add: sampled_def)

lemma sampled_append: "sampled fraction n (xs @ ys) = sampled fraction n xs @ sampled fraction (n + length xs) ys"
  by (simp add: sampled_def enumerate_append_eq)

lemma sampled_all: "1024 \<le> fraction \<Longrightarrow> sampled fraction n xs = xs"
proof (induction xs arbitrary: n)
  case (Cons x xs)
  have "n mod 1024 < 1024" by simp
  then have "int (n mod 1024) < fraction" using Cons.prems by linarith
  then show ?case using Cons by simp
qed simp

section \<open>Writing\<close>

definition hit_row :: "u32 \<Rightarrow> u32 \<Rightarrow> int \<Rightarrow> RawHit \<Rightarrow> raw_row" where
  "hit_row step1 step2 m hit = \<lparr>brStep1 = step1, brStep2 = step2, brFrameID = long_long (hitFrameID hit + word_of_int m),
     brChannelID = channelID hit, brTacID = tacID hit, brTCoarse = tcoarse hit, brECoarse = ecoarse hit, brTFine = tfine hit,
     brEFine = efine hit\<rparr>"

text \<open>What the writer of ROOT files holds after \<open>n\<close> events.\<close>

definition written :: "int \<Rightarrow> nat \<Rightarrow> raw_row list \<Rightarrow> raw_writer \<Rightarrow> bool" where
  "written fraction n rows w = (fileType w = FILE_ROOT \<and> eventFractionToWrite w = fraction \<and> eventCounter w = int n \<and> hData w = rows)"

lemma add_from_rows:
  assumes "holds b hs" "\<And>i. i \<in> set is \<Longrightarrow> i < length hs" "written fraction n rows w"
  shows "\<exists>w'. add_from step1 step2 m b is w = Some w'
    \<and> written fraction (n + length is) (rows @ sampled fraction n (map (\<lambda>i. hit_row step1 step2 m (hs ! i)) is)) w'
    \<and> hIndex w' = hIndex w \<and> writerBegin w' = writerBegin w"
  using assms(2,3)
proof (induction "is" arbitrary: n rows w)
  case (Cons i "is")
  let ?w1 = "w\<lparr>eventCounter := eventCounter w + 1\<rparr>"
  have m: "eventCounter w mod 1024 = int (n mod 1024)" using Cons.prems(2) by (simp add: written_def zmod_int)
  show ?case
  proof (cases "int (n mod 1024) < fraction")
    case True
    have "written fraction (Suc n) (rows @ [hit_row step1 step2 m (hs ! i)]) (write_hit step1 step2 m (hs ! i) ?w1)"
      using Cons.prems(2) by (simp add: written_def write_hit_def hit_row_def)
    from Cons.IH [OF _ this] Cons.prems True m holds_get [OF assms(1), of i] show ?thesis
      by (auto simp: written_def write_hit_def)
  next
    case False
    have "written fraction (Suc n) rows ?w1" using Cons.prems(2) by (simp add: written_def)
    from Cons.IH [OF _ this] Cons.prems False m show ?thesis by (auto simp: written_def)
  qed
qed simp

lemma addEvents_rows:
  assumes "holds b hs" "written fraction n rows w"
  shows "\<exists>w'. addEvents step1 step2 b w = Some w'
    \<and> written fraction (n + length hs) (rows @ sampled fraction n (map (hit_row step1 step2 (getTMin b sdiv 1024)) hs)) w'
    \<and> hIndex w' = hIndex w \<and> writerBegin w' = writerBegin w"
proof -
  have "map (\<lambda>i. hit_row step1 step2 m (hs ! i)) [0..<length hs] = map (hit_row step1 step2 m) hs" for m
    by (rule nth_equalityI) simp_all
  then show ?thesis
    using add_from_rows [OF assms(1) _ assms(2), of "[0..<length hs]" step1 step2 "getTMin b sdiv 1024"]
    by (simp add: addEvents_def holds_getSize [OF assms(1)])
qed

section \<open>Decoding and writing a block\<close>

lemma sdiv_dvd: "1024 dvd x \<Longrightarrow> x sdiv 1024 = x div 1024" for x :: int
  by (auto simp: signed_divide_int_def sgn_if elim!: dvdE)

text \<open>The row of a decoded hit is that of its event, when the frame number is in the range of a \<open>long long\<close>.\<close>

lemma decode_hit_row:
  assumes "modes_known r" "- (2 ^ 63) \<le> m + sint (frameID h)" "m + sint (frameID h) < 2 ^ 63"
  shows "\<exists>p. decode_hit r h = Some p \<and> hit_row step1 step2 m p = event_row step1 step2 (m + sint (frameID h), eventWord h)"
proof -
  obtain q where q: "isQDC r (getChannelID (eventWord h)) = Some q" using isQDC_event [OF assms(1)] by blast
  have "frameID h + word_of_int m = word_of_int (m + sint (frameID h))" by simp
  then have "long_long (frameID h + word_of_int m) = m + sint (frameID h)"
    unfolding long_long_def by (simp only: signed_of_int) (use assms(2,3) in \<open>simp add: signed_take_bit_int_eq_self\<close>)
  then show ?thesis using q by (simp add: decode_hit_def hit_row_def event_row_def Let_def)
qed

lemma block_size: "wf_block b \<Longrightarrow> getSize b < 65536"
  using holds_used [of b "contents b"] by (auto simp: wf_block_def wf_buffer_def getSize_def)

lemma push_block_rows:
  assumes "modes_known r" "wf_block b" "\<forall>(fid, w) \<in> set (block_events b). 0 \<le> fid \<and> fid < 2 ^ 36" "written fraction n rows w"
  shows "\<exists>hits w'. Decoder_handleEvents r b = Some hits \<and> addEvents step1 step2 hits w = Some w'
    \<and> written fraction (n + length (block_events b)) (rows @ sampled fraction n (map (event_row step1 step2) (block_events b))) w'
    \<and> hIndex w' = hIndex w \<and> writerBegin w' = writerBegin w"
proof -
  let ?m = "bufferTMin b div 1024"
  let ?P = "\<lambda>h p. hit_row step1 step2 ?m p = event_row step1 step2 (?m + sint (frameID h), eventWord h)"
  have d: "\<exists>p. decode_hit r h = Some p \<and> ?P h p" if "h \<in> set (contents b)" for h
    using assms(3) that by (intro decode_hit_row [OF assms(1)]) (auto simp: block_events_def)
  have b: "wf_buffer b" "getSize b < 4294966272" using assms(2) block_size [OF assms(2)] by (auto simp: wf_block_def)
  obtain hits where hits: "Decoder_handleEvents r b = Some hits" "wf_buffer hits" "list_all2 ?P (contents b) (contents hits)"
      "getTMin hits = getTMin b"
    using decoder_works [OF b, of r ?P] d by blast
  have rows: "map (hit_row step1 step2 ?m) (contents hits) = map (event_row step1 step2) (block_events b)"
    using hits(3) by (auto simp: block_events_def list_all2_conv_all_nth intro!: nth_equalityI)
  have "getTMin hits sdiv 1024 = ?m"
    using assms(2) hits(4) by (simp add: wf_block_def getTMin_def sdiv_dvd)
  moreover have "length (contents hits) = length (block_events b)" using arg_cong [OF rows, of length] by simp
  moreover have "holds hits (contents hits)" using hits(2) by (simp add: holds_iff)
  ultimately show ?thesis using addEvents_rows [OF _ assms(4), of hits "contents hits" step1 step2] hits(1) rows by auto
qed

lemma push_blocks_rows:
  assumes "modes_known r" "list_all wf_block bs" "\<forall>(fid, w) \<in> set (concat (map block_events bs)). 0 \<le> fid \<and> fid < 2 ^ 36"
    "written fraction n rows w"
  shows "\<exists>w'. push_blocks r step1 step2 bs w = Some w'
    \<and> written fraction (n + length (concat (map block_events bs)))
        (rows @ sampled fraction n (map (event_row step1 step2) (concat (map block_events bs)))) w'
    \<and> hIndex w' = hIndex w \<and> writerBegin w' = writerBegin w"
  using assms(2-)
proof (induction bs arbitrary: n rows w)
  case (Cons b bs)
  obtain hits w1 where w1: "Decoder_handleEvents r b = Some hits" "addEvents step1 step2 hits w = Some w1"
    "written fraction (n + length (block_events b)) (rows @ sampled fraction n (map (event_row step1 step2) (block_events b))) w1"
    "hIndex w1 = hIndex w" "writerBegin w1 = writerBegin w"
    using push_block_rows [OF assms(1), of b fraction n rows w step1 step2] Cons.prems by auto
  show ?case using Cons.IH [OF _ _ w1(3)] Cons.prems w1 by (auto simp: sampled_append add.assoc)
qed simp

section \<open>The steps of a file\<close>

text \<open>Reading keeps what the header of the file says.\<close>

definition header_part :: "RawReader \<Rightarrow> (nat \<rightharpoonup> bool) \<times> u32 \<times> int" where
  "header_part r = (qdcMode r, frequency r, triggerID r)"

lemma header_part_updates [simp]:
  "header_part (r\<lparr>answers := a\<rparr>) = header_part r" "header_part (r\<lparr>dataFileBuffer := d\<rparr>) = header_part r"
  "header_part (r\<lparr>stepEnd := e\<rparr>) = header_part r" "header_part (r\<lparr>indexAnswers := i\<rparr>) = header_part r"
  by (simp_all add: header_part_def)

lemma getStepEnd_keeps_header: "getStepEnd r = (e, r') \<Longrightarrow> header_part r' = header_part r"
  by (auto simp: getStepEnd_def split: if_splits list.splits option.splits)

lemma refill_keeps_header:
  "refill r = Filled r' \<Longrightarrow> header_part r' = header_part r" "refill r = Retry r' \<Longrightarrow> header_part r' = header_part r"
  "refill r = ReadError r' \<Longrightarrow> header_part r' = header_part r"
  by (auto simp: refill_def split: list.splits option.splits prod.splits if_splits dest!: getStepEnd_keeps_header)

lemma readLoop_keeps_header: "readLoop wanted buf r = Some (c, buf', r') \<Longrightarrow> header_part r' = header_part r"
proof (induction wanted buf r rule: readLoop.induct)
  case (1 wanted buf r)
  show ?case using 1(3) 1(1,2)
    by (subst (asm) (1) readLoop.simps)
      (auto simp: Let_def split: if_splits refill.splits dest!: refill_keeps_header)
qed

lemma read_words_keeps_header: "read_words e n r = Inr (ws, r') \<Longrightarrow> header_part r' = header_part r"
  by (auto simp: read_words_def readFromDataFile_def split: option.splits if_splits prod.splits dest!: readLoop_keeps_header)

lemma processFrame_keeps_header: "processFrame st = Inr st' \<Longrightarrow> header_part (reader st') = header_part (reader st)"
  by (auto simp: processFrame_def Let_def split: sum.splits prod.splits if_splits dest!: read_words_keeps_header reader_store_events)

lemma processLoop_keeps_header: "processLoop st = Inr st' \<Longrightarrow> header_part (reader st') = header_part (reader st)"
proof (induction st rule: processLoop.induct)
  case (1 st)
  obtain e r where e: "getStepEnd (reader st) = (e, r)" by force
  then show ?case using 1 getStepEnd_keeps_header [OF e]
    by (subst (asm) (2) processLoop.simps) (auto simp: Let_def split: if_splits sum.splits dest!: processFrame_keeps_header)
qed

lemma processStep_keeps_header: "processStep r = Inr st \<Longrightarrow> header_part (reader st) = header_part r"
  by (auto simp: processStep_def step_init_def split: sum.splits option.splits dest!: processLoop_keeps_header)

lemma frame_events_bounds: "(fid, w) \<in> set (concat (map frame_events fs)) \<Longrightarrow> 0 \<le> fid \<and> fid < 2 ^ 36"
  using frame_id_bounds by fastforce

definition step_reader :: "RawReader \<Rightarrow> step_data \<Rightarrow> RawReader" where
  "step_reader r d = snd (getNextStep_index r (6, sdBegin d, sdEnd d, sdValue1 d, sdValue2 d))"

lemma getNextStep_step:
  "getNextStep r (fst (step_input d)) = (True, step_reader r d)" "getStepValue (step_reader r d) = (sdValue1 d, sdValue2 d)"
  "snd (step_input d) = sdAnswers d" "header_part (step_reader r d) = header_part r"
  by (simp_all add: step_input_def getNextStep_def step_reader_def getNextStep_index_def getStepValue_def header_part_def)

lemma complete_step_processed:
  assumes "complete_step d"
  obtains st where "processStep ((step_reader r d)\<lparr>answers := sdAnswers d\<rparr>) = Inr st" "list_all wf_block (queued st)"
    "concat (map block_events (queued st)) = concat (map frame_events (sdFrames d))" "header_part (reader st) = header_part r"
proof -
  let ?r = "(step_reader r d)\<lparr>answers := sdAnswers d\<rparr>"
  obtain rest where "stepEnd ?r < ULLONG_MAX" "all_data (answers ?r)"
    "pending (answers ?r) = concat (map frame_bytes (sdFrames d)) @ rest"
    "unat (stepBegin ?r) + length (concat (map frame_bytes (sdFrames d))) = unat (stepEnd ?r)" "\<forall>f \<in> set (sdFrames d). wf_raw_frame f"
    using assms by (auto simp: complete_step_def step_reader_def getNextStep_index_def)
  from processStep_result [OF this] obtain st where st: "processStep ?r = Inr st"
    "concat (map block_events (queued st)) = concat (map frame_events (sdFrames d))" "list_all wf_block (queued st)" by metis
  then show thesis using that processStep_keeps_header [OF st(1)] getNextStep_step(4) [of r d] by simp
qed

lemma modes_known_header_part: "header_part r = header_part r' \<Longrightarrow> modes_known r = modes_known r'"
  by (simp add: header_part_def modes_known_def)

lemma convert_steps_rows:
  assumes "\<forall>d \<in> set ds. complete_step d" "modes_known r" "written fraction n rows w" "writerBegin w = length rows"
  shows "\<exists>w'. convert_steps r (map step_input ds) w = Some (Inr w')
    \<and> hData w' = rows @ sampled fraction n (concat (map step_rows ds))
    \<and> hIndex w' = hIndex w @ index_rows fraction n (length rows) ds"
  using assms
proof (induction ds arbitrary: r n rows w)
  case (Cons d ds)
  let ?r1 = "step_reader r d"
  obtain st where st: "processStep (?r1\<lparr>answers := sdAnswers d\<rparr>) = Inr st" "list_all wf_block (queued st)"
    "concat (map block_events (queued st)) = concat (map frame_events (sdFrames d))" "header_part (reader st) = header_part r"
    using complete_step_processed [of d r] Cons.prems(1) by auto
  have m: "modes_known ?r1" "modes_known (reader st)"
    using Cons.prems(2) modes_known_header_part [OF getNextStep_step(4)] modes_known_header_part [OF st(4)] by auto
  have "\<forall>(fid, w) \<in> set (concat (map block_events (queued st))). 0 \<le> fid \<and> fid < 2 ^ 36"
    unfolding st(3) using frame_events_bounds by blast
  from push_blocks_rows [OF m(1) st(2) this Cons.prems(3), of "sdValue1 d" "sdValue2 d"] obtain w1
    where w1: "push_blocks ?r1 (sdValue1 d) (sdValue2 d) (queued st) w = Some w1"
      "written fraction (n + length (step_rows d)) (rows @ sampled fraction n (step_rows d)) w1"
      "hIndex w1 = hIndex w" "writerBegin w1 = length rows"
    using Cons.prems(4) by (auto simp: st(3) step_rows_def)
  let ?rows = "rows @ sampled fraction n (step_rows d)"
  let ?w2 = "closeStep (sdValue1 d) (sdValue2 d) w1"
  have w2: "written fraction (n + length (step_rows d)) ?rows ?w2" "writerBegin ?w2 = length ?rows"
    "hIndex ?w2 = hIndex w @ [\<lparr>ixStep1 = sdValue1 d, ixStep2 = sdValue2 d, brStepBegin = length rows, brStepEnd = length ?rows\<rparr>]"
    using w1 by (simp_all add: closeStep_def written_def)
  obtain w' where w': "convert_steps (reader st) (map step_input ds) ?w2 = Some (Inr w')"
    "hData w' = ?rows @ sampled fraction (n + length (step_rows d)) (concat (map step_rows ds))"
    "hIndex w' = hIndex ?w2 @ index_rows fraction (n + length (step_rows d)) (length ?rows) ds"
    using Cons.IH [OF _ m(2) w2(1,2)] Cons.prems(1) by auto
  have "convert_steps r (map step_input (d # ds)) w = Some (Inr w')"
    using st(1) w1(1) w'(1) getNextStep_step(1,2) [of r d] getNextStep_step(3) [of d] by (cases "step_input d") simp
  then show ?case using w'(2,3) w2(3) by (simp add: sampled_append Let_def)
qed (simp add: written_def)

text \<open>
  C5: The conversion of a data file with complete steps writes exactly the table of its events: one row for each sampled event
  of each frame, in file order, with the step values, the absolute frame number of the frame and the fields of the
  event word; and the index gives the range of rows of each step. This holds however the reader cuts the data into blocks and however the
  operating system splits the reads. With the default fraction of 1024 every event is sampled.
\<close>

theorem raw_to_raw_writes_table:
  assumes "openFile tmpf idxf rawf got header modf = Some (Inr r)" "header ! 3 = 0"
    and "configFileName \<noteq> []" "inputFilePrefix \<noteq> []" "outputFileName \<noteq> []"
    and "0 \<le> fraction" "fraction < 2 ^ 31" "\<forall>d \<in> set ds. complete_step d"
  shows "\<exists>w. runConvertRawToRaw configFileName inputFilePrefix outputFileName fraction
      (openFile tmpf idxf rawf got header modf) (map step_input ds) = Some (Inr w)
    \<and> hData w = sampled fraction 0 (concat (map step_rows ds))
    \<and> hIndex w = index_rows fraction 0 0 ds
    \<and> (1024 \<le> fraction \<longrightarrow> hData w = concat (map step_rows ds))"
proof -
  let ?w = "DataFileWriter FILE_ROOT fraction"
  have m: "modes_known r" using modes_known_header [OF openFile_header_modes [OF assms(1,2)]] .
  have f: "signed_take_bit 31 fraction = fraction" using assms(6,7) by (intro signed_take_bit_int_eq_self) auto
  have "written fraction 0 [] ?w" "writerBegin ?w = length []" "hIndex ?w = []"
    by (simp_all add: written_def DataFileWriter_def)
  with convert_steps_rows [OF assms(8) m this(1,2)] show ?thesis
    using assms(1,3-5) f sampled_all [of fraction 0 "concat (map step_rows ds)"] by (auto simp: runConvertRawToRaw_def)
qed

definition example_step :: step_data where
  "example_step = \<lparr>sdBegin = 64, sdEnd = 112, sdValue1 = 0, sdValue2 = 0, sdAnswers = answers example_reader, sdFrames = example_frames\<rparr>"

theorem raw_to_raw_writes_table_witness:
  "\<exists>w. runConvertRawToRaw ''c'' ''i'' ''o'' 1024 (openFile False True True 64 example_header None) [step_input example_step] = Some (Inr w)
    \<and> map brFrameID (hData w) = [5, 5] \<and> hIndex w = [\<lparr>ixStep1 = 0, ixStep2 = 0, brStepBegin = 0, brStepEnd = 2\<rparr>]"
proof -
  have "\<exists>r. openFile False True True 64 example_header None = Some (Inr r)"
    by (simp add: openFile_def example_header_def)
  then obtain r where r: "openFile False True True 64 example_header None = Some (Inr r)" ..
  have c: "complete_step example_step"
    using example_reader_facts(2-5) by (auto simp: complete_step_def example_step_def ULLONG_MAX_def example_reader_def Let_def)
  have rows: "step_rows example_step = [event_row 0 0 (5, 7), event_row 0 0 (5, 8)]"
    by (simp add: step_rows_def example_step_def example_frames_def id_of_header_def)
  have "example_header ! 3 = 0" "sdValue1 example_step = 0" "sdValue2 example_step = 0"
    by (simp_all add: example_header_def example_step_def)
  then show ?thesis
    using raw_to_raw_writes_table [OF r, of "''c''" "''i''" "''o''" 1024 "[example_step]"] c
    by (auto simp: rows event_row_def Let_def)
qed

end
