(* ===== verification/ProcessHit.thy ===== *)
theory ProcessHit
  imports Complex_Main Grouping
begin

text \<open>
  \<open>ProcessHit::handleEvents\<close> (\<open>external/base/src/ProcessHit.cpp\<close>): the calibration of raw hits.

  The arithmetic on \<open>float\<close> and \<open>double\<close> is that of the types \<open>'f\<close> and \<open>'d\<close>; the conversions between them and the
  functions of the mathematical library are a record of functions. The theorems are about which hits are passed on and how they are
  counted, for any arithmetic.
\<close>

record ('d, 'f) mathlib =
  d_of_int :: "int \<Rightarrow> 'd"
  f_of_int :: "int \<Rightarrow> 'f"
  d_of_f :: "'f \<Rightarrow> 'd"
  f_of_d :: "'d \<Rightarrow> 'f"
  sqrtf :: "'f \<Rightarrow> 'f"
  pow :: "'f \<Rightarrow> 'f \<Rightarrow> 'f"

definition to_short :: "int \<Rightarrow> int" where
  "to_short n = signed_take_bit 15 n"

text \<open>The time that a fine counter stands for: the root of the quadratic calibration.\<close>

definition tac_time :: "('d, 'f::{numeral,plus,minus,times,inverse,uminus}) mathlib \<Rightarrow> 'f TacConfig \<Rightarrow> u16 \<Rightarrow> 'f" where
  "tac_time m ct fine =
     (- tac_a1 ct + sqrtf m (tac_a1 ct * tac_a1 ct - 4 * (tac_a0 ct - f_of_int m (uint fine)) * tac_a2 ct)) / (2 * tac_a2 ct)"

text \<open>The polynomial of the charge calibration and its derivative, with the operations in the order of the code.\<close>

fun mulpow :: "'f::times \<Rightarrow> 'f \<Rightarrow> nat \<Rightarrow> 'f" where
  "mulpow p t 0 = p"
| "mulpow p t (Suc n) = mulpow p t n * t"

definition qac_value :: "('d, 'f::{plus,minus,times}) mathlib \<Rightarrow> 'f QacConfig \<Rightarrow> u16 \<Rightarrow> 'f \<Rightarrow> 'f" where
  "qac_value m cq fine t = foldl (+) (cq ! 0 - f_of_int m (uint fine)) (map (\<lambda>i. mulpow (cq ! i) t i) [1..<10])"

definition qac_slope :: "('d, 'f::{plus,times}) mathlib \<Rightarrow> 'f QacConfig \<Rightarrow> 'f \<Rightarrow> 'f" where
  "qac_slope m cq t = foldl (+) (cq ! 1) (map (\<lambda>i. mulpow (cq ! i) t (i - 1) * f_of_int m (int i)) [2..<10])"

definition clamp_step :: "'f::{numeral,ord,uminus} \<Rightarrow> 'f" where
  "clamp_step delta = (let d1 = (if delta < - 10 then - 10 else delta) in if d1 > 10 then 10 else d1)"

text \<open>The Newton iteration, at most as many rounds as given: the loop ends when the step is small or after 100 rounds.\<close>

fun newton ::
  "('d::{numeral,inverse,ord,abs}, 'f::{numeral,ord,plus,minus,times,inverse,uminus}) mathlib \<Rightarrow> 'f QacConfig \<Rightarrow> u16 \<Rightarrow> nat \<Rightarrow> 'f \<Rightarrow> 'f" where
  "newton m cq fine 0 t_eq = t_eq"
| "newton m cq fine (Suc n) t_eq =
     (let delta = clamp_step (- qac_value m cq fine t_eq / qac_slope m cq t_eq);
          t1 = t_eq + delta
      in if \<bar>d_of_f m delta\<bar> > 5 / 100 then newton m cq fine n t1 else t1)"

definition max_iterations :: nat where
  "max_iterations = 100"

text \<open>The flags: 1 invalid, 2 no TDC, 4 no QDC, 8 no position; the one of a missing energy calibration is \<open>0x16\<close>.\<close>

definition flag :: "bool \<Rightarrow> u8 \<Rightarrow> u8" where
  "flag b f = (if b then f else 0)"

definition trigger_hit :: "('d::{numeral,minus,times,inverse}, 'f::{zero,one,uminus}) mathlib \<Rightarrow> RawHit \<Rightarrow> ('d, 'f) Hit" where
  "trigger_hit m h = (let t = d_of_int m (time h) - d_of_int m (uint (tfine h) - 27) * (1 / 4) in
     \<lparr>h_valid = False, h_raw = h, h_time = t, h_timeEnd = t, h_energy = (if efine h = 28 then 1 else - 1), h_region = - 1,
      h_xi = 0, h_yi = 0, h_x = 0, h_y = 0, h_z = 0\<rparr>)"

text \<open>Times and energy of a hit from a channel: the hit time, its end, the energy and the calibration flags.\<close>

definition hit_time ::
  "('d::{minus,inverse}, 'f::{numeral,zero,plus,minus,times,inverse,uminus}) mathlib \<Rightarrow> ('f, 'd) SystemConfig \<Rightarrow> 'f
     \<Rightarrow> 'f ChannelConfig \<Rightarrow> 'f TacConfig \<Rightarrow> RawHit \<Rightarrow> 'd \<times> u8" where
  "hit_time m c clockPeriod cc ct h =
     (if hasTDCCalibration c then
        let t = d_of_int m (time h) - d_of_f m (tac_time m ct (tfine h)) - d_of_f m (tac_t0 ct);
            t1 = (if hasTimeOffsetCalibration c then t - d_of_f m (cc_t0 cc) / d_of_f m clockPeriod else t)
        in (t1, flag (tac_a1 ct = 0) 0x2)
      else (d_of_int m (time h), 0))"

definition tot_energy ::
  "('d::minus, 'f::{numeral,zero,plus,minus,times,inverse,uminus}) mathlib \<Rightarrow> ('f, 'd) SystemConfig \<Rightarrow> 'f TacConfig \<Rightarrow> RawHit \<Rightarrow> 'd \<Rightarrow> 'd \<times> 'f \<times> u8" where
  "tot_energy m c ce h t =
     (let te = (if hasTDCCalibration c
                then d_of_int m (timeEnd h) - d_of_f m (tac_time m ce (efine h)) - d_of_f m (tac_t0 ce)
                else d_of_int m (timeEnd h))
      in (te, f_of_d m (te - t), flag (hasTDCCalibration c \<and> tac_a1 ce = 0) 0x2))"

definition qdc_energy ::
  "('d::{numeral,minus,inverse,ord,abs}, 'f::{numeral,zero,ord,plus,minus,times,inverse,uminus}) mathlib \<Rightarrow> ('f, 'd) SystemConfig \<Rightarrow> 'f QacConfig \<Rightarrow> 'f EnergyConfig
     \<Rightarrow> RawHit \<Rightarrow> 'd \<Rightarrow> 'd \<times> 'f \<times> u8" where
  "qdc_energy m c cq cen h t =
     (let te = d_of_int m (timeEnd h) in
      if hasQDCCalibration c then
        let ti = f_of_d m (te - t);
            e = newton m cq (efine h) max_iterations ti - ti
        in if hasEnergyCalibration c
           then (te, cen ! 0 * pow m (cen ! 1) (pow m e (cen ! 2)) + cen ! 3 * e - cen ! 0,
                 flag (cq ! 1 = 0) 0x4 OR flag (cen ! 0 = 0) 0x16)
           else (te, e, flag (cq ! 1 = 0) 0x4)
      else (te, f_of_int m (uint (efine h)), 0))"

definition channel_hit ::
  "('d::{numeral,minus,inverse,ord,abs}, 'f::{numeral,zero,ord,plus,minus,times,inverse,uminus}) mathlib \<Rightarrow> ('f, 'd) SystemConfig \<Rightarrow> 'f \<Rightarrow> RawHit
     \<Rightarrow> (('d, 'f) Hit \<times> u8) checked" where
  "channel_hit m c clockPeriod h = do {
     cc \<leftarrow> getChannelConfig c (channelID h);
     ct \<leftarrow> rd (tac_T cc) (unat (tacID h));
     ce \<leftarrow> rd (tac_E cc) (unat (tacID h));
     cq \<leftarrow> rd (qac_Q cc) (unat (tacID h));
     cen \<leftarrow> rd (eCal cc) (unat (tacID h));
     let (t, f1) = hit_time m c clockPeriod cc ct h;
     let (te, e, f2) = (if \<not> qdc h then tot_energy m c ce h t else qdc_energy m c cq cen h t);
     let xyz = hasXYZ c;
     Some (\<lparr>h_valid = False, h_raw = h, h_time = t, h_timeEnd = te, h_energy = e,
        h_region = (if xyz then to_short (triggerRegion cc) else - 1),
        h_xi = (if xyz then to_short (cc_xi cc) else 0), h_yi = (if xyz then to_short (cc_yi cc) else 0),
        h_x = (if xyz then cc_x cc else 0), h_y = (if xyz then cc_y cc else 0), h_z = (if xyz then cc_z cc else 0)\<rparr>,
        f1 OR f2 OR flag (xyz \<and> triggerRegion cc = - 1) 0x8)
   }"

definition process_hit ::
  "('d::{numeral,minus,times,inverse,ord,abs}, 'f::{numeral,zero,ord,plus,minus,times,inverse,uminus}) mathlib \<Rightarrow> ('f, 'd) SystemConfig \<Rightarrow> int \<Rightarrow> 'f \<Rightarrow> RawHit
     \<Rightarrow> (('d, 'f) Hit \<times> u8) checked" where
  "process_hit m c trigID clockPeriod h = do {
     (out, f) \<leftarrow> (if drop_bit 12 (channelID h) = word_of_int trigID then Some (trigger_hit m h, 0)
                  else channel_hit m c clockPeriod h);
     Some (out, flag (\<not> valid h) 0x1 OR f)
   }"

record hit_counts =
  nReceived :: u64
  nReceivedInvalid :: u64
  nTDCCalibrationMissing :: u64
  nQDCCalibrationMissing :: u64
  nEnergyCalibrationMissing :: u64
  nXYZMissing :: u64
  nSent :: u64

definition add_if :: "bool \<Rightarrow> u64 \<Rightarrow> u64" where
  "add_if b n = (if b then n + 1 else n)"

definition count_hit :: "u8 \<Rightarrow> hit_counts \<Rightarrow> hit_counts" where
  "count_hit f k = \<lparr>nReceived = nReceived k + 1, nReceivedInvalid = add_if (f AND 0x1 \<noteq> 0) (nReceivedInvalid k),
     nTDCCalibrationMissing = add_if (f AND 0x2 \<noteq> 0) (nTDCCalibrationMissing k),
     nQDCCalibrationMissing = add_if (f AND 0x4 \<noteq> 0) (nQDCCalibrationMissing k),
     nEnergyCalibrationMissing = add_if (f AND 0x16 \<noteq> 0) (nEnergyCalibrationMissing k),
     nXYZMissing = add_if (f AND 0x8 \<noteq> 0) (nXYZMissing k), nSent = add_if (f = 0) (nSent k)\<rparr>"

text \<open>
  The loop over the hits: the local counters start at the totals, which gives the same sums. The field \<open>valid\<close> of a
  slot is set last, and only in a slot that is passed on.
\<close>

fun process_hits ::
  "('d::{numeral,minus,times,inverse,ord,abs}, 'f::{numeral,zero,ord,plus,minus,times,inverse,uminus}) mathlib \<Rightarrow> ('f, 'd) SystemConfig \<Rightarrow> int \<Rightarrow> 'f
     \<Rightarrow> RawHit list \<Rightarrow> ('d, 'f) Hit EventBuffer \<Rightarrow> hit_counts \<Rightarrow> (('d, 'f) Hit EventBuffer \<times> hit_counts) checked" where
  "process_hits m c trigID clockPeriod [] b k = Some (b, k)"
| "process_hits m c trigID clockPeriod (h # hs) b k = do {
     (out, f) \<leftarrow> process_hit m c trigID clockPeriod h;
     let (slot, b1) = getWriteSlot b;
     b2 \<leftarrow> assign slot (out\<lparr>h_valid := (f = 0)\<rparr>) b1;
     process_hits m c trigID clockPeriod hs (if f = 0 then pushWriteSlot b2 else b2) (count_hit f k)
   }"

definition ProcessHit_handleEvents ::
  "('d::{numeral,one,minus,times,inverse,ord,abs}, 'f::{numeral,zero,ord,plus,minus,times,inverse,uminus}) mathlib \<Rightarrow> ('f, 'd) SystemConfig \<Rightarrow> int \<Rightarrow> 'd
     \<Rightarrow> RawHit EventBuffer \<Rightarrow> hit_counts \<Rightarrow> (('d, 'f) Hit EventBuffer \<times> hit_counts) checked" where
  "ProcessHit_handleEvents m c trigID freq inBuffer k = do {
     let clockPeriod = f_of_d m (1 / freq * 1000000000000);
     hits \<leftarrow> read_all inBuffer;
     process_hits m c trigID clockPeriod hits (EventBuffer_child (of_nat (getSize inBuffer)) inBuffer) k
   }"

section \<open>Which hits are passed on\<close>

definition is_trigger :: "int \<Rightarrow> RawHit \<Rightarrow> bool" where
  "is_trigger trigID h = (drop_bit 12 (channelID h) = (word_of_int trigID :: u32))"

text \<open>A hit that needs no access outside of the tables.\<close>

definition hit_in_tables :: "('f, 'd) SystemConfig \<Rightarrow> RawHit \<Rightarrow> bool" where
  "hit_in_tables c h = (gid_ok (channelID h) \<and> unat (tacID h) < 4 \<and>
     (let cc = channel c (channelID h) in length (tac_T cc) = 4 \<and> length (tac_E cc) = 4 \<and> length (qac_Q cc) = 4 \<and> length (eCal cc) = 4))"

definition tdc_missing :: "('f::zero, 'd) SystemConfig \<Rightarrow> RawHit \<Rightarrow> bool" where
  "tdc_missing c h = (let cc = channel c (channelID h); i = unat (tacID h) in
     hasTDCCalibration c \<and> (tac_a1 (tac_T cc ! i) = 0 \<or> \<not> qdc h \<and> tac_a1 (tac_E cc ! i) = 0))"

definition qdc_missing :: "('f::zero, 'd) SystemConfig \<Rightarrow> RawHit \<Rightarrow> bool" where
  "qdc_missing c h = (qdc h \<and> hasQDCCalibration c \<and> qac_Q (channel c (channelID h)) ! unat (tacID h) ! 1 = 0)"

definition energy_missing :: "('f::zero, 'd) SystemConfig \<Rightarrow> RawHit \<Rightarrow> bool" where
  "energy_missing c h = (qdc h \<and> hasQDCCalibration c \<and> hasEnergyCalibration c \<and> eCal (channel c (channelID h)) ! unat (tacID h) ! 0 = 0)"

definition xyz_missing :: "('f, 'd) SystemConfig \<Rightarrow> RawHit \<Rightarrow> bool" where
  "xyz_missing c h = (hasXYZ c \<and> triggerRegion (channel c (channelID h)) = - 1)"

definition hit_flags :: "('f::zero, 'd) SystemConfig \<Rightarrow> int \<Rightarrow> RawHit \<Rightarrow> u8" where
  "hit_flags c trigID h = flag (\<not> valid h) 0x1 OR
     (if is_trigger trigID h then 0
      else flag (tdc_missing c h) 0x2 OR flag (qdc_missing c h) 0x4 OR flag (energy_missing c h) 0x16 OR flag (xyz_missing c h) 0x8)"

lemma process_hit_flags:
  assumes "is_trigger trigID h \<or> hit_in_tables c h"
  shows "\<exists>out. process_hit m c trigID clockPeriod h = Some (out, hit_flags c trigID h) \<and> h_raw out = h"
proof (cases "is_trigger trigID h")
  case True
  then show ?thesis by (simp add: process_hit_def is_trigger_def hit_flags_def trigger_hit_def Let_def)
next
  case False
  then have t: "hit_in_tables c h" using assms by simp
  then have "\<exists>out. channel_hit m c clockPeriod h = Some (out, flag (tdc_missing c h) 0x2 OR flag (qdc_missing c h) 0x4
      OR flag (energy_missing c h) 0x16 OR flag (xyz_missing c h) 0x8) \<and> h_raw out = h"
    by (cases "hasTDCCalibration c"; cases "qdc h")
      (auto simp: channel_hit_def hit_in_tables_def Let_def getChannelConfig_channel hit_time_def tot_energy_def qdc_energy_def
        tdc_missing_def qdc_missing_def energy_missing_def xyz_missing_def flag_def)
  then show ?thesis using False by (auto simp: process_hit_def is_trigger_def hit_flags_def)
qed

text \<open>The calibrated hit, as it is passed on.\<close>

definition calibrated ::
  "('d::{numeral,minus,times,inverse,ord,abs}, 'f::{numeral,zero,ord,plus,minus,times,inverse,uminus}) mathlib \<Rightarrow> ('f, 'd) SystemConfig \<Rightarrow> int \<Rightarrow> 'f
     \<Rightarrow> RawHit \<Rightarrow> ('d, 'f) Hit" where
  "calibrated m c trigID clockPeriod h = (fst (the (process_hit m c trigID clockPeriod h)))\<lparr>h_valid := True\<rparr>"

lemma write_slot_identity:
  "getWriteSlot b = (slot, b1) \<Longrightarrow> assign slot e b1 = Some b2 \<Longrightarrow> bufferSeqN b2 = bufferSeqN b \<and> bufferTMin b2 = bufferTMin b"
  by (auto simp: getWriteSlot_def assign_def Let_def split: if_splits)

lemma process_hits_passes:
  assumes "\<forall>h \<in> set hs. is_trigger trigID h \<or> hit_in_tables c h" "holds b es"
  shows "\<exists>b'. process_hits m c trigID clockPeriod hs b k = Some (b', fold count_hit (map (hit_flags c trigID) hs) k)
    \<and> holds b' (es @ map (calibrated m c trigID clockPeriod) (filter (\<lambda>h. hit_flags c trigID h = 0) hs))
    \<and> bufferSeqN b' = bufferSeqN b \<and> bufferTMin b' = bufferTMin b"
  using assms
proof (induction hs arbitrary: b es k)
  case (Cons h hs)
  let ?f = "hit_flags c trigID h" and ?cal = "calibrated m c trigID clockPeriod"
  obtain o0 where o0: "process_hit m c trigID clockPeriod h = Some (o0, ?f)"
    using process_hit_flags [of trigID h c m clockPeriod] Cons.prems(1) by auto
  define o1 where "o1 = o0\<lparr>h_valid := (?f = 0)\<rparr>"
  have o1: "?f = 0 \<Longrightarrow> o1 = ?cal h" by (simp add: o1_def calibrated_def o0)
  obtain slot b1 where slot: "getWriteSlot b = (slot, b1)" by force
  obtain b2 where b2: "assign slot o1 b1 = Some b2" "holds b2 es" "holds (pushWriteSlot b2) (es @ [o1])"
    using write_slot_works [OF Cons.prems(2) slot] by blast
  let ?b = "if ?f = 0 then pushWriteSlot b2 else b2" and ?es = "es @ (if ?f = 0 then [?cal h] else [])"
  have "holds ?b ?es" using b2 o1 by auto
  from Cons.IH [OF _ this, of "count_hit ?f k"] Cons.prems(1) obtain b'
    where *: "process_hits m c trigID clockPeriod hs ?b (count_hit ?f k)
        = Some (b', fold count_hit (map (hit_flags c trigID) hs) (count_hit ?f k))"
      "holds b' (?es @ map ?cal (filter (\<lambda>h. hit_flags c trigID h = 0) hs))" "bufferSeqN b' = bufferSeqN ?b" "bufferTMin b' = bufferTMin ?b"
    by auto
  have "process_hits m c trigID clockPeriod (h # hs) b k = Some (b', fold count_hit (map (hit_flags c trigID) (h # hs)) k)"
    using o0 slot b2(1) *(1) by (simp add: o1_def)
  then show ?case using *(2-4) write_slot_identity [OF slot b2(1)]
    by (intro exI [of _ b']) (simp add: pushWriteSlot_def split: if_splits)
qed simp

lemma count_hits_totals:
  "nReceived (fold count_hit fs k) = nReceived k + of_nat (length fs)
    \<and> nSent (fold count_hit fs k) = nSent k + of_nat (length (filter (\<lambda>f. f = 0) fs))"
  by (induction fs arbitrary: k) (auto simp: count_hit_def add_if_def)

lemma hit_flags_zero:
  "hit_flags c trigID h = 0 \<longleftrightarrow> valid h \<and> (is_trigger trigID h
     \<or> \<not> tdc_missing c h \<and> \<not> qdc_missing c h \<and> \<not> energy_missing c h \<and> \<not> xyz_missing c h)"
  by (auto simp: hit_flags_def flag_def)

definition passes :: "('f::zero, 'd) SystemConfig \<Rightarrow> int \<Rightarrow> RawHit \<Rightarrow> bool" where
  "passes c trigID h = (valid h \<and> (is_trigger trigID h
     \<or> \<not> tdc_missing c h \<and> \<not> qdc_missing c h \<and> \<not> energy_missing c h \<and> \<not> xyz_missing c h))"

definition clock_period :: "('d::{numeral,times,inverse}, 'f) mathlib \<Rightarrow> 'd \<Rightarrow> 'f" where
  "clock_period m freq = f_of_d m (1 / freq * 1000000000000)"

lemma process_hit_works:
  assumes "holds inBuffer hs" "\<forall>h \<in> set hs. is_trigger trigID h \<or> hit_in_tables c h"
  shows "\<exists>b k'. ProcessHit_handleEvents m c trigID freq inBuffer k = Some (b, k')
    \<and> holds b (map (calibrated m c trigID (clock_period m freq)) (filter (passes c trigID) hs))
    \<and> nReceived k' = nReceived k + of_nat (length hs) \<and> nSent k' = nSent k + of_nat (length (filter (passes c trigID) hs))
    \<and> getSeqN b = getSeqN inBuffer \<and> getTMin b = getTMin inBuffer"
proof -
  let ?b = "EventBuffer_child (of_nat (length hs)) inBuffer :: ('b, 'a) Hit EventBuffer"
  let ?k = "fold count_hit (map (hit_flags c trigID) hs) k"
  have p: "(\<lambda>h. hit_flags c trigID h = 0) = passes c trigID" by (simp add: passes_def hit_flags_zero fun_eq_iff)
  obtain b' where "process_hits m c trigID (clock_period m freq) hs ?b k = Some (b', ?k)"
    "holds b' (map (calibrated m c trigID (clock_period m freq)) (filter (passes c trigID) hs))"
    "bufferSeqN b' = bufferSeqN ?b" "bufferTMin b' = bufferTMin ?b"
    using process_hits_passes [OF assms(2) holds_child, of m "clock_period m freq" "of_nat (length hs)" inBuffer k] unfolding p by auto
  moreover have "length (filter (\<lambda>f. f = 0) (map (hit_flags c trigID) hs)) = length (filter (passes c trigID) hs)"
    by (simp add: filter_map comp_def p)
  ultimately show ?thesis using count_hits_totals [of "map (hit_flags c trigID) hs" k]
    by (intro exI [of _ b'] exI [of _ ?k])
      (simp add: ProcessHit_handleEvents_def clock_period_def Let_def read_all_holds [OF assms(1)] holds_getSize [OF assms(1)]
        EventBuffer_child_def getSeqN_def getTMin_def)
qed

text \<open>The calibration as a stage, behind the sorter.\<close>

interpretation calibration: event_stage "ProcessHit_handleEvents m c trigID freq"
  "\<lambda>hs. \<forall>h \<in> set hs. is_trigger trigID h \<or> hit_in_tables c h"
  "\<lambda>hs out. out = map (calibrated m c trigID (clock_period m freq)) (filter (passes c trigID) hs)" for m c trigID freq
  by unfold_locales (use process_hit_works in blast)

interpretation calibrated_sorted: stage_chain "CoarseSorter_handleEvents srt"
  "\<lambda>hits. sorts_entries srt \<and> length hits < 4294966272 \<and> (\<forall>h \<in> set hits. is_trigger trigID h \<or> hit_in_tables c h)"
  "\<lambda>hits out. mset out = mset hits \<and> sorted (map time out)"
  "ProcessHit_handleEvents m c trigID freq" "\<lambda>hs. \<forall>h \<in> set hs. is_trigger trigID h \<or> hit_in_tables c h"
  "\<lambda>hs out. out = map (calibrated m c trigID (clock_period m freq)) (filter (passes c trigID) hs)" for srt m c trigID freq
  by unfold_locales (use sorter.handles in blast, metis mset_eq_setD)

text \<open>
  C33: The calibration passes on exactly the valid hits that come from the trigger or have every calibration in use and a position,
  calibrated, in order and each with its raw hit, and counts what it received and sent, for any
  floating-point arithmetic: no access leaves the tables, and the Newton iteration ends in every case.
\<close>

theorem process_hit_passes:
  assumes "holds inBuffer hs" "\<forall>h \<in> set hs. is_trigger trigID h \<or> hit_in_tables c h"
  shows "\<exists>b k' out. ProcessHit_handleEvents m c trigID freq inBuffer k = Some (b, k') \<and> holds b out
    \<and> nReceived k' = nReceived k + of_nat (length hs) \<and> nSent k' = nSent k + of_nat (length out)
    \<and> map h_raw out = filter (\<lambda>h. valid h \<and> (is_trigger trigID h \<or>
        \<not> tdc_missing c h \<and> \<not> qdc_missing c h \<and> \<not> energy_missing c h \<and> \<not> xyz_missing c h)) hs
    \<and> (\<forall>h \<in> set out. h_valid h)"
proof -
  have "h_raw (calibrated m c trigID cp h) = h" if "is_trigger trigID h \<or> hit_in_tables c h" for cp h
    using process_hit_flags [OF that, of m cp] by (auto simp: calibrated_def)
  then have "map (\<lambda>h. h_raw (calibrated m c trigID (clock_period m freq) h)) (filter (passes c trigID) hs) = filter (passes c trigID) hs"
    using assms(2) by (intro map_idI) auto
  moreover have "\<forall>h. h_valid (calibrated m c trigID (clock_period m freq) h)" by (simp add: calibrated_def)
  ultimately show ?thesis using process_hit_works [OF assms, of m freq k]
    by (fastforce simp: comp_def passes_def [abs_def])
qed

text \<open>
  A missing energy calibration is miscounted: its flag \<open>0x16\<close> shares bits with the flags of the TDC and QDC
  calibrations, so that a hit without energy calibration also counts as one without TDC and without QDC calibration, and
  a hit without one of these also counts as one without energy calibration.
\<close>

theorem energy_flag_overlaps:
  assumes "\<not> is_trigger trigID h" "hit_in_tables c h"
  shows "\<exists>out f. process_hit m c trigID clockPeriod h = Some (out, f)
    \<and> nTDCCalibrationMissing (count_hit f k) = add_if (tdc_missing c h \<or> energy_missing c h) (nTDCCalibrationMissing k)
    \<and> nQDCCalibrationMissing (count_hit f k) = add_if (qdc_missing c h \<or> energy_missing c h) (nQDCCalibrationMissing k)
    \<and> nEnergyCalibrationMissing (count_hit f k)
      = add_if (tdc_missing c h \<or> qdc_missing c h \<or> energy_missing c h) (nEnergyCalibrationMissing k)"
proof -
  obtain out where "process_hit m c trigID clockPeriod h = Some (out, hit_flags c trigID h)"
    using process_hit_flags [of trigID h c m clockPeriod] assms(2) by auto
  then show ?thesis using assms(1)
    by (intro exI [of _ out] exI [of _ "hit_flags c trigID h"]) (auto simp: count_hit_def hit_flags_def flag_def add_if_def)
qed

definition example_math :: "(rat, rat) mathlib" where
  "example_math = \<lparr>d_of_int = of_int, f_of_int = of_int, d_of_f = id, f_of_d = id, sqrtf = id, pow = (\<lambda>x y. x)\<rparr>"

definition example_config1 :: "(rat, rat) SystemConfig" where
  "example_config1 = \<lparr>sw_trigger_group_max_hits = 64, sw_trigger_group_min_hits = 1, sw_trigger_group_min_energy = - 1000000,
     sw_trigger_group_max_energy = 1000000, sw_trigger_group_max_distance = 100, sw_trigger_group_time_window = 20,
     sw_trigger_coincidence_time_window = 2, hasTDCCalibration = True, hasQDCCalibration = True,
     hasEnergyCalibration = False, hasTimeOffsetCalibration = False, hasXYZ = False, channelConfig = \<lambda>_. None,
     nullChannelConfig = null_channel, coincidenceTriggerMap = \<lambda>_. False, multihitTriggerMap = \<lambda>_. False\<rparr>"

definition no_counts :: hit_counts where
  "no_counts = \<lparr>nReceived = 0, nReceivedInvalid = 0, nTDCCalibrationMissing = 0, nQDCCalibrationMissing = 0,
     nEnergyCalibrationMissing = 0, nXYZMissing = 0, nSent = 0\<rparr>"

definition example_hits :: "RawHit list" where
  "example_hits = [(example_hit 7)\<lparr>valid := False\<rparr>, example_hit 4]"

definition raw_buffer :: "RawHit EventBuffer" where
  "raw_buffer = \<lparr>bufferSeqN = 3, bufferTMin = 0, bufferTMax = None, slots = map Some example_hits, capacity = 2, used = 2\<rparr>"

theorem process_hit_passes_witness:
  "\<exists>b k' out. ProcessHit_handleEvents example_math (example_config1\<lparr>hasTDCCalibration := False, hasQDCCalibration := False\<rparr>) (- 1) 200000000
     raw_buffer no_counts = Some (b, k') \<and> holds b out \<and> nReceived k' = 2 \<and> nSent k' = 1 \<and> map h_raw out = [example_hit 4]"
proof -
  let ?c = "example_config1\<lparr>hasTDCCalibration := False, hasQDCCalibration := False\<rparr>"
  have hs: "holds raw_buffer example_hits" by (simp add: holds_def raw_buffer_def example_hits_def)
  have tabs: "\<forall>h \<in> set example_hits. is_trigger (- 1) h \<or> hit_in_tables ?c h"
    by (simp add: example_hits_def hit_in_tables_def gid_ok_def PATH_MAX_def example_hit_def channel_def example_config1_def null_channel_def Let_def)
  have "\<not> tdc_missing ?c h" "\<not> qdc_missing ?c h" "\<not> energy_missing ?c h" "\<not> xyz_missing ?c h" for h
    by (simp_all add: tdc_missing_def qdc_missing_def energy_missing_def xyz_missing_def example_config1_def Let_def)
  moreover have "filter valid example_hits = [example_hit 4]" "length example_hits = 2"
    by (simp_all add: example_hits_def example_hit_def)
  ultimately obtain b k' out where r: "ProcessHit_handleEvents example_math ?c (- 1) 200000000 raw_buffer no_counts = Some (b, k')" "holds b out"
      "nReceived k' = nReceived no_counts + of_nat 2" "nSent k' = nSent no_counts + of_nat (length out)" "map h_raw out = [example_hit 4]"
    using process_hit_passes [OF hs tabs, of example_math 200000000 no_counts] by auto
  moreover have "length out = 1" using arg_cong [OF r(5), of length] by simp
  ultimately show ?thesis by (auto simp: no_counts_def)
qed

theorem energy_flag_overlaps_witness:
  "\<exists>out f. process_hit example_math example_config1 (- 1) 5000 (example_hit 5) = Some (out, f)
    \<and> nEnergyCalibrationMissing (count_hit f no_counts) = 1"
proof -
  have "tdc_missing example_config1 (example_hit 5)" "\<not> is_trigger (- 1) (example_hit 5)" "hit_in_tables example_config1 (example_hit 5)"
    by (simp_all add: tdc_missing_def example_hit_def channel_def example_config1_def null_channel_def is_trigger_def hit_in_tables_def
      gid_ok_def PATH_MAX_def Let_def)
  then show ?thesis using energy_flag_overlaps [of "- 1" "example_hit 5" example_config1 example_math 5000 no_counts]
    by (auto simp: add_if_def no_counts_def)
qed

end
