(* ===== verification/RawToSingles.thy ===== *)
theory RawToSingles
  imports RawToRaw ProcessHit
begin

text \<open>
  The conversion of raw data to calibrated single hits
  (\<open>external/scripts_c/src/convert_raw_to_singles_impl.cpp\<close>): the writer, which may split its output in time, the pipeline of decoder,
  sorter, calibration and writer, and the loop over the steps.

  As in the calibration, the floating-point types are parameters and the conversions are a record of functions. The rows
  of a data file are a list in all formats; the part of the output that is being written is apart from the ones that
  have been closed and renamed. Opening and renaming files is taken to succeed.
\<close>

section \<open>The writer\<close>

record ('d, 'f) conversions = "('d, 'f) mathlib" +
  ll_of_d :: "'d \<Rightarrow> int"
  floor_d :: "'d \<Rightarrow> int"

datatype singles_type = TextFile | BinaryFile | RootFile | NullFile

record ('d, 'f) root_row =
  rr_step1 :: u32
  rr_step2 :: u32
  rr_time :: int
  rr_channelID :: u32
  rr_tot :: 'f
  rr_energy :: 'f
  rr_tacID :: u16
  rr_xi :: int
  rr_yi :: int
  rr_x :: 'f
  rr_y :: 'f
  rr_z :: 'f
  rr_tqT :: 'f
  rr_tqE :: 'f

text \<open>A row of a ROOT tree, or time, energy and channel in the other formats.\<close>

datatype ('d, 'f) single = RootRow "('d, 'f) root_row" | Single int 'f int

record ('d, 'f) part =
  singles :: "('d, 'f) single list"
  sIndex :: "index_row list"

record ('d, 'f) singles_writer =
  sFrequency :: 'd
  sFileType :: singles_type
  sFraction :: int
  sCounter :: int
  fileSplitTime :: 'd
  currentFilePartIndex :: int
  sStepBegin :: nat
  current :: "('d, 'f) part"
  renamed :: "(int \<times> ('d, 'f) part) list"

definition openFile_part :: "('d, 'f) singles_writer \<Rightarrow> ('d, 'f) singles_writer" where
  "openFile_part w = w\<lparr>sStepBegin := 0, current := \<lparr>singles = [], sIndex = []\<rparr>\<rparr>"

text \<open>The split time is given as a \<open>float\<close> in seconds, which is widened to a \<open>double\<close> and converted to clock cycles.\<close>

definition SinglesWriter :: "('d::times, 'f, 'm) conversions_scheme \<Rightarrow> bool \<Rightarrow> 'd \<Rightarrow> singles_type \<Rightarrow> int \<Rightarrow> 'f \<Rightarrow> ('d, 'f) singles_writer" where
  "SinglesWriter m devNull freq ft fraction splitTime =
     openFile_part \<lparr>sFrequency = freq, sFileType = (if devNull then NullFile else ft), sFraction = fraction, sCounter = 0,
       fileSplitTime = d_of_f m splitTime * freq, currentFilePartIndex = 0, sStepBegin = 0,
       current = \<lparr>singles = [], sIndex = []\<rparr>, renamed = []\<rparr>"

text \<open>In a binary file an event has 16 bytes, and the index counts bytes.\<close>

definition position :: "('d, 'f) singles_writer \<Rightarrow> nat" where
  "position w = (case sFileType w of BinaryFile \<Rightarrow> 16 * length (singles (current w)) | _ \<Rightarrow> length (singles (current w)))"

definition singles_closeStep :: "u32 \<Rightarrow> u32 \<Rightarrow> ('d, 'f) singles_writer \<Rightarrow> ('d, 'f) singles_writer" where
  "singles_closeStep step1 step2 w =
     (if sFileType w \<in> {RootFile, BinaryFile}
      then w\<lparr>current := (current w)\<lparr>sIndex := sIndex (current w) @
               [\<lparr>ixStep1 = step1, ixStep2 = step2, brStepBegin = sStepBegin w, brStepEnd = position w\<rparr>]\<rparr>,
             sStepBegin := position w\<rparr>
      else w)"

text \<open>Closing the part and renaming it, under its number.\<close>

definition renameFile :: "('d, 'f) singles_writer \<Rightarrow> ('d, 'f) singles_writer" where
  "renameFile w = w\<lparr>renamed := renamed w @ [(currentFilePartIndex w, current w)]\<rparr>"

definition single_row ::
  "('d::{numeral,minus,times,inverse}, 'f::{one,times}, 'm) conversions_scheme \<Rightarrow> singles_type \<Rightarrow> 'd \<Rightarrow> u32 \<Rightarrow> u32 \<Rightarrow> int \<Rightarrow> ('d, 'f) Hit
     \<Rightarrow> ('d, 'f) single" where
  "single_row m ft freq step1 step2 t0 hit =
     (let Tps = 1000000000000 / freq;
          Tns = f_of_d m (Tps / 1000);
          tMin = t0 * ll_of_d m Tps;
          Eunit = (if qdc (h_raw hit) then 1 else Tns);
          t = ll_of_d m (h_time hit * Tps) + tMin
      in if ft = RootFile
         then RootRow \<lparr>rr_step1 = step1, rr_step2 = step2, rr_time = t, rr_channelID = channelID (h_raw hit),
           rr_tot = f_of_d m ((h_timeEnd hit - h_time hit) * Tps), rr_energy = h_energy hit * Eunit, rr_tacID = tacID (h_raw hit),
           rr_xi = h_xi hit, rr_yi = h_yi hit, rr_x = h_x hit, rr_y = h_y hit, rr_z = h_z hit,
           rr_tqT = f_of_d m (d_of_int m (time (h_raw hit)) - h_time hit),
           rr_tqE = f_of_d m (d_of_int m (timeEnd (h_raw hit)) - h_timeEnd hit)\<rparr>
         else Single t (h_energy hit * Eunit) (sint (channelID (h_raw hit))))"

definition write_single :: "('d, 'f) single \<Rightarrow> ('d, 'f) singles_writer \<Rightarrow> ('d, 'f) singles_writer" where
  "write_single row w = (if sFileType w = NullFile then w
     else w\<lparr>current := (current w)\<lparr>singles := singles (current w) @ [row]\<rparr>\<rparr>)"

fun singles_from ::
  "('d::{numeral,minus,times,inverse}, 'f::{one,times}, 'm) conversions_scheme \<Rightarrow> u32 \<Rightarrow> u32 \<Rightarrow> ('d, 'f) Hit EventBuffer \<Rightarrow> nat list
     \<Rightarrow> ('d, 'f) singles_writer \<Rightarrow> ('d, 'f) singles_writer checked" where
  "singles_from m step1 step2 b [] w = Some w"
| "singles_from m step1 step2 b (i # is) w =
     (let tmpCounter = sCounter w; w1 = w\<lparr>sCounter := sCounter w + 1\<rparr> in
      if tmpCounter mod 1024 \<ge> sFraction w then singles_from m step1 step2 b is w1
      else get b i \<bind> (\<lambda>hit.
        if \<not> h_valid hit then singles_from m step1 step2 b is w1
        else singles_from m step1 step2 b is
          (write_single (single_row m (sFileType w1) (sFrequency w1) step1 step2 (getTMin b) hit) w1)))"

text \<open>The number of the part is only looked at when the output is split.\<close>

definition next_part ::
  "('d::{zero,ord,inverse}, 'f, 'm) conversions_scheme \<Rightarrow> u32 \<Rightarrow> u32 \<Rightarrow> int \<Rightarrow> ('d, 'f) singles_writer \<Rightarrow> ('d, 'f) singles_writer" where
  "next_part m step1 step2 tMin w =
     (let filePartIndex = floor_d m (d_of_int m tMin / fileSplitTime w) in
      if fileSplitTime w > 0 \<and> filePartIndex > currentFilePartIndex w
      then (openFile_part (renameFile (singles_closeStep step1 step2 w)))\<lparr>currentFilePartIndex := filePartIndex\<rparr>
      else w)"

definition singles_addEvents ::
  "('d::{numeral,zero,ord,minus,times,inverse}, 'f::{one,times}, 'm) conversions_scheme \<Rightarrow> u32 \<Rightarrow> u32 \<Rightarrow> ('d, 'f) Hit EventBuffer
     \<Rightarrow> ('d, 'f) singles_writer \<Rightarrow> ('d, 'f) singles_writer checked" where
  "singles_addEvents m step1 step2 b w =
     singles_from m step1 step2 b [0..<getSize b] (next_part m step1 step2 (getTMin b) w)"

text \<open>The destructor.\<close>

definition singles_finish :: "('d::{zero,ord}, 'f) singles_writer \<Rightarrow> ('d, 'f) singles_writer" where
  "singles_finish w = (if fileSplitTime w > 0 then renameFile w else w)"

section \<open>The conversion\<close>

definition no_hits :: hit_counts where
  "no_hits = \<lparr>nReceived = 0, nReceivedInvalid = 0, nTDCCalibrationMissing = 0, nQDCCalibrationMissing = 0,
     nEnergyCalibrationMissing = 0, nXYZMissing = 0, nSent = 0\<rparr>"

fun push_singles ::
  "('d::{numeral,zero,minus,times,inverse,ord,abs}, 'f::{numeral,zero,ord,plus,minus,times,inverse,uminus}) conversions
     \<Rightarrow> ((int \<times> RawHit) list \<Rightarrow> (int \<times> RawHit) list) \<Rightarrow> ('f, 'd) SystemConfig \<Rightarrow> RawReader \<Rightarrow> u32 \<Rightarrow> u32
     \<Rightarrow> UndecodedHit EventBuffer list \<Rightarrow> u64 \<times> hit_counts \<Rightarrow> ('d, 'f) singles_writer \<Rightarrow> ('d, 'f) singles_writer checked" where
  "push_singles m srt c r step1 step2 [] s w = Some w"
| "push_singles m srt c r step1 step2 (b # bs) s w = do {
     raw \<leftarrow> Decoder_handleEvents r b;
     (hits, s1) \<leftarrow> chain (CoarseSorter_handleEvents srt)
       (ProcessHit_handleEvents (mathlib.truncate m) c (getTriggerID r) (d_of_int m (uint (getFrequency r)))) raw s;
     w1 \<leftarrow> singles_addEvents m step1 step2 hits w;
     push_singles m srt c r step1 step2 bs s1 w1
   }"

datatype singles_error = NoArgument | NotOpened open_error | BadConfig config_error | BadStep step_error

fun singles_steps ::
  "('d::{numeral,zero,minus,times,inverse,ord,abs}, 'f::{numeral,zero,ord,plus,minus,times,inverse,uminus}) conversions
     \<Rightarrow> ((int \<times> RawHit) list \<Rightarrow> (int \<times> RawHit) list) \<Rightarrow> ('f, 'd) SystemConfig \<Rightarrow> RawReader
     \<Rightarrow> (index_input \<times> u8 list option list) list \<Rightarrow> ('d, 'f) singles_writer \<Rightarrow> (singles_error + ('d, 'f) singles_writer) checked" where
  "singles_steps m srt c r [] w = Some (Inr (singles_finish w))"
| "singles_steps m srt c r ((inp, as) # steps) w =
     (let (more, r1) = getNextStep r inp; (step1, step2) = getStepValue r1 in
      if \<not> more then Some (Inr (singles_finish w))
      else case processStep (r1\<lparr>answers := as\<rparr>) of
        Inl e \<Rightarrow> Some (Inl (BadStep e))
      | Inr st \<Rightarrow> push_singles m srt c r1 step1 step2 (queued st) (0, no_hits) w
          \<bind> (\<lambda>w1. singles_steps m srt c (reader st) steps (singles_closeStep step1 step2 w1)))"

definition load_mask :: "bool \<Rightarrow> u64" where
  "load_mask tot = (let all = 0xFFFFFFFFFFFFFFFF in if tot then all XOR (LOAD_QDC_CALIBRATION OR 0x8) else all)"

text \<open>
  The results of \<open>openFile\<close> and the sources of the configuration are arguments. The comparisons of the names with
  \<open>NULL\<close> are left out.
\<close>

definition runConvertRawToSingles ::
  "('d::{numeral,zero,minus,times,inverse,ord,abs}, 'f::{numeral,zero,ord,plus,minus,times,inverse,uminus}) conversions
     \<Rightarrow> ((int \<times> RawHit) list \<Rightarrow> (int \<times> RawHit) list) \<Rightarrow> string \<Rightarrow> string \<Rightarrow> string \<Rightarrow> singles_type \<Rightarrow> int \<Rightarrow> 'd
     \<Rightarrow> (open_error + RawReader) checked \<Rightarrow> ('f, 'd) sources \<Rightarrow> ('f, 'd) SystemConfig \<Rightarrow> (index_input \<times> u8 list option list) list
     \<Rightarrow> (singles_error + ('d, 'f) singles_writer) checked" where
  "runConvertRawToSingles m srt configFileName inputFilePrefix outputFileName ft fraction splitTime opened src unset steps =
     (if configFileName = [] \<or> inputFilePrefix = [] \<or> outputFileName = [] then Some (Inl NoArgument)
      else opened \<bind> (\<lambda>res. case res of
        Inl e \<Rightarrow> Some (Inl (NotOpened e))
      | Inr r \<Rightarrow> isTOT r \<bind> (\<lambda>tot. fromFile src (load_mask tot) unset \<bind> (\<lambda>config. case config of
          Inl e \<Rightarrow> Some (Inl (BadConfig e))
        | Inr c \<Rightarrow> singles_steps m srt c r steps
            (SinglesWriter m (outputFileName = ''/dev/null'') (d_of_int m (uint (getFrequency r))) ft
              (signed_take_bit 31 fraction) (f_of_d m splitTime))))))"

section \<open>What the writer has written\<close>

text \<open>The rows of all parts, in the order of writing.\<close>

definition all_rows :: "('d, 'f) singles_writer \<Rightarrow> ('d, 'f) single list" where
  "all_rows w = concat (map (\<lambda>(_, p). singles p) (renamed w)) @ singles (current w)"

definition outputs :: "singles_type \<Rightarrow> 'd \<Rightarrow> int \<Rightarrow> nat \<Rightarrow> ('d, 'f) single list \<Rightarrow> ('d, 'f) singles_writer \<Rightarrow> bool" where
  "outputs ft freq fraction n rows w = (ft \<noteq> NullFile \<and> sFileType w = ft \<and> sFrequency w = freq \<and> sFraction w = fraction
     \<and> sCounter w = int n \<and> all_rows w = rows)"

lemma outputs_closeStep: "outputs ft freq fraction n rows w \<Longrightarrow> outputs ft freq fraction n rows (singles_closeStep step1 step2 w)"
  by (simp add: outputs_def singles_closeStep_def all_rows_def)

lemma outputs_next_part: "outputs ft freq fraction n rows w \<Longrightarrow> outputs ft freq fraction n rows (next_part m step1 step2 t w)"
  using outputs_closeStep [of ft freq fraction n rows w step1 step2]
  by (simp add: outputs_def next_part_def openFile_part_def renameFile_def all_rows_def Let_def)

lemma singles_from_rows:
  assumes "holds b hs" "\<And>i. i \<in> set is \<Longrightarrow> i < length hs \<and> h_valid (hs ! i)" "outputs ft freq fraction n rows w"
  shows "\<exists>w'. singles_from m step1 step2 b is w = Some w' \<and> outputs ft freq fraction (n + length is)
    (rows @ sampled fraction n (map (\<lambda>i. single_row m ft freq step1 step2 (getTMin b) (hs ! i)) is)) w'"
  using assms(2,3)
proof (induction "is" arbitrary: n rows w)
  case (Cons i "is")
  let ?w1 = "w\<lparr>sCounter := sCounter w + 1\<rparr>" and ?row = "single_row m ft freq step1 step2 (getTMin b) (hs ! i)"
  have m: "sCounter w mod 1024 = int (n mod 1024)" using Cons.prems(2) by (simp add: outputs_def zmod_int)
  have ids: "\<And>i. i \<in> set is \<Longrightarrow> i < length hs \<and> h_valid (hs ! i)" using Cons.prems(1) by simp
  show ?case
  proof (cases "int (n mod 1024) < fraction")
    case True
    have "outputs ft freq fraction (Suc n) (rows @ [?row]) (write_single ?row ?w1)"
      using Cons.prems(2) by (auto simp: outputs_def write_single_def all_rows_def)
    from Cons.IH [OF ids this] Cons.prems True m holds_get [OF assms(1), of i] show ?thesis
      by (auto simp: outputs_def)
  next
    case False
    have "outputs ft freq fraction (Suc n) rows ?w1" using Cons.prems(2) by (simp add: outputs_def all_rows_def)
    from Cons.IH [OF ids this] Cons.prems False m show ?thesis by (auto simp: outputs_def)
  qed
qed simp

lemma singles_addEvents_rows:
  assumes "holds b hs" "\<forall>h \<in> set hs. h_valid h" "outputs ft freq fraction n rows w"
  shows "\<exists>w'. singles_addEvents m step1 step2 b w = Some w' \<and> outputs ft freq fraction (n + length hs)
    (rows @ sampled fraction n (map (single_row m ft freq step1 step2 (getTMin b)) hs)) w'"
proof -
  have "map (\<lambda>i. single_row m ft freq step1 step2 t (hs ! i)) [0..<length hs] = map (single_row m ft freq step1 step2 t) hs" for t
    by (rule nth_equalityI) simp_all
  then show ?thesis
    using singles_from_rows [OF assms(1) _ outputs_next_part [OF assms(3)], of "[0..<length hs]" m step1 step2] assms(2)
    by (simp add: singles_addEvents_def holds_getSize [OF assms(1)])
qed

section \<open>The pipeline\<close>

lemma decode_hit_in_tables:
  assumes "modes_known r" "full_config c"
  shows "\<exists>p. decode_hit r h = Some p \<and> p = the (decode_hit r h) \<and> hit_in_tables c p"
proof -
  let ?w = "eventWord h"
  obtain q where q: "isQDC r (getChannelID ?w) = Some q" using isQDC_event [OF assms(1)] by blast
  have tac: "unat (ucast (getTacID ?w) :: u16) < 4" by (subst unat_u16_of_u32) (simp_all add: unat_getTacID)
  have gid: "gid_ok (getChannelID ?w)"
    using getChannelID_bound [of ?w] by (simp add: gid_ok_def PATH_MAX_def less_mult_imp_div_less)
  show ?thesis using q tac gid full_configD [OF assms(2), of "getChannelID ?w"]
    by (simp add: decode_hit_def hit_in_tables_def full_channel_def Let_def)
qed

text \<open>
  The reference: the hits of a block in the order of time, with the start time of the block, and the rows for them.
\<close>

definition block_group :: "RawReader \<Rightarrow> UndecodedHit EventBuffer \<Rightarrow> int \<times> RawHit list \<Rightarrow> bool" where
  "block_group r b = (\<lambda>(t, rs). t = bufferTMin b \<and> sorted (map time rs) \<and> mset rs = mset (map (\<lambda>h. the (decode_hit r h)) (contents b)))"

definition group_rows ::
  "('d::{numeral,zero,minus,times,inverse,ord,abs}, 'f::{numeral,zero,ord,plus,minus,times,inverse,uminus}) conversions \<Rightarrow> ('f, 'd) SystemConfig
     \<Rightarrow> int \<Rightarrow> 'd \<Rightarrow> singles_type \<Rightarrow> u32 \<Rightarrow> u32 \<Rightarrow> int \<times> RawHit list \<Rightarrow> ('d, 'f) single list" where
  "group_rows m c trigID freq ft step1 step2 = (\<lambda>(t, rs). let lib = mathlib.truncate m in
     map (\<lambda>h. single_row m ft freq step1 step2 t (calibrated lib c trigID (clock_period lib freq) h)) (filter (passes c trigID) rs))"

lemma push_single_block:
  fixes m :: "('d::{numeral,zero,minus,times,inverse,ord,abs}, 'f::{numeral,zero,ord,plus,minus,times,inverse,uminus}) conversions"
  defines "freq \<equiv> \<lambda>r. d_of_int m (uint (getFrequency r))"
  assumes "modes_known r" "full_config c" "sorts_entries srt" "wf_block b" "outputs ft (freq r) fraction n rows w"
  obtains g raw hits s1 w1 where "block_group r b g" "Decoder_handleEvents r b = Some raw"
    "chain (CoarseSorter_handleEvents srt) (ProcessHit_handleEvents (mathlib.truncate m) c (getTriggerID r) (freq r)) raw s = Some (hits, s1)"
    "singles_addEvents m step1 step2 hits w = Some w1"
    "outputs ft (freq r) fraction (n + length (group_rows m c (getTriggerID r) (freq r) ft step1 step2 g))
      (rows @ sampled fraction n (group_rows m c (getTriggerID r) (freq r) ft step1 step2 g)) w1"
proof -
  let ?P = "\<lambda>h p. p = the (decode_hit r h) \<and> hit_in_tables c p" and ?lib = "mathlib.truncate m" and ?trig = "getTriggerID r"
  let ?cal = "calibrated ?lib c ?trig (clock_period ?lib (freq r))"
  have b: "wf_buffer b" "getSize b < 4294966272" using assms(5) block_size [OF assms(5)] by (auto simp: wf_block_def)
  obtain raw where raw: "Decoder_handleEvents r b = Some raw" "wf_buffer raw" "list_all2 ?P (contents b) (contents raw)"
      "getTMin raw = getTMin b"
    using decoder_works [OF b, of r ?P] decode_hit_in_tables [OF assms(2,3)] by blast
  have dec: "contents raw = map (\<lambda>h. the (decode_hit r h)) (contents b)" and tabs: "\<forall>h \<in> set (contents raw). hit_in_tables c h"
    using raw(3) by (auto simp: list_all2_conv_all_nth in_set_conv_nth intro!: nth_equalityI)
  have "length (contents raw) < 4294966272"
    using b(2) holds_getSize [of b "contents b"] b(1) by (simp add: dec holds_iff)
  with assms(4) tabs have ok: "sorts_entries srt \<and> length (contents raw) < 4294966272
      \<and> (\<forall>h \<in> set (contents raw). is_trigger ?trig h \<or> hit_in_tables c h)" by blast
  have "holds raw (contents raw)" using raw(2) by (simp add: holds_iff)
  from calibrated_sorted.chain_handles [OF this ok, of ?lib "freq r" s] obtain hits s1 rs where
    ch: "chain (CoarseSorter_handleEvents srt) (ProcessHit_handleEvents ?lib c ?trig (freq r)) raw s = Some (hits, s1)"
      "holds hits (map ?cal (filter (passes c ?trig) rs))" "mset rs = mset (contents raw)" "sorted (map time rs)" "getTMin hits = getTMin raw"
    by blast
  let ?g = "(bufferTMin b, rs)"
  have g: "block_group r b ?g" using ch(3,4) by (simp add: block_group_def dec)
  have "\<forall>h \<in> set (map ?cal (filter (passes c ?trig) rs)). h_valid h" by (simp add: calibrated_def)
  from singles_addEvents_rows [OF ch(2) this assms(6), of m step1 step2] obtain w1 where
    "singles_addEvents m step1 step2 hits w = Some w1"
    "outputs ft (freq r) fraction (n + length (group_rows m c ?trig (freq r) ft step1 step2 ?g))
      (rows @ sampled fraction n (group_rows m c ?trig (freq r) ft step1 step2 ?g)) w1"
    using ch(5) raw(4) by (auto simp: group_rows_def Let_def comp_def getTMin_def)
  then show thesis by (rule that [OF g raw(1) ch(1)])
qed

lemma push_singles_rows:
  fixes m :: "('d::{numeral,zero,minus,times,inverse,ord,abs}, 'f::{numeral,zero,ord,plus,minus,times,inverse,uminus}) conversions"
  assumes "modes_known r" "full_config c" "sorts_entries srt" "list_all wf_block bs"
    "outputs ft (d_of_int m (uint (getFrequency r))) fraction n rows w"
  shows "\<exists>gs w'. list_all2 (block_group r) bs gs \<and> push_singles m srt c r step1 step2 bs s w = Some w' \<and>
    (let new = concat (map (group_rows m c (getTriggerID r) (d_of_int m (uint (getFrequency r))) ft step1 step2) gs) in
     outputs ft (d_of_int m (uint (getFrequency r))) fraction (n + length new) (rows @ sampled fraction n new) w')"
  using assms(4,5)
proof (induction bs arbitrary: n rows w s)
  case (Cons b bs)
  let ?rows = "group_rows m c (getTriggerID r) (d_of_int m (uint (getFrequency r))) ft step1 step2"
  have wf: "wf_block b" "list_all wf_block bs" using Cons.prems(1) by simp_all
  obtain g raw hits s1 w1 where g: "block_group r b g" "Decoder_handleEvents r b = Some raw"
    "chain (CoarseSorter_handleEvents srt) (ProcessHit_handleEvents (mathlib.truncate m) c (getTriggerID r)
       (d_of_int m (uint (getFrequency r)))) raw s = Some (hits, s1)"
    "singles_addEvents m step1 step2 hits w = Some w1"
    "outputs ft (d_of_int m (uint (getFrequency r))) fraction (n + length (?rows g)) (rows @ sampled fraction n (?rows g)) w1"
    by (rule push_single_block [OF assms(1-3) wf(1) Cons.prems(2), of s step1 step2])
  obtain gs w' where "list_all2 (block_group r) bs gs" "push_singles m srt c r step1 step2 bs s1 w1 = Some w'"
    "outputs ft (d_of_int m (uint (getFrequency r))) fraction (n + length (?rows g) + length (concat (map ?rows gs)))
       ((rows @ sampled fraction n (?rows g)) @ sampled fraction (n + length (?rows g)) (concat (map ?rows gs))) w'"
    using Cons.IH [OF wf(2) g(5), of s1] by (auto simp: Let_def)
  then show ?case using g(1-4)
    by (intro exI [of _ "g # gs"] exI [of _ w']) (simp add: Let_def sampled_append add.assoc)
qed simp

section \<open>The whole conversion\<close>

text \<open>
  The groups of hits of a step: the events of its frames, cut into consecutive blocks, decoded, and sorted block by block.
\<close>

definition step_groups :: "RawReader \<Rightarrow> step_data \<Rightarrow> (int \<times> RawHit list) list \<Rightarrow> bool" where
  "step_groups r d gs = (\<exists>bs. concat (map block_events bs) = concat (map frame_events (sdFrames d)) \<and> list_all2 (block_group r) bs gs)"

definition singles_rows ::
  "('d::{numeral,zero,minus,times,inverse,ord,abs}, 'f::{numeral,zero,ord,plus,minus,times,inverse,uminus}) conversions \<Rightarrow> ('f, 'd) SystemConfig
     \<Rightarrow> RawReader \<Rightarrow> singles_type \<Rightarrow> step_data \<Rightarrow> (int \<times> RawHit list) list \<Rightarrow> ('d, 'f) single list" where
  "singles_rows m c r ft d gs =
     concat (map (group_rows m c (getTriggerID r) (d_of_int m (uint (getFrequency r))) ft (sdValue1 d) (sdValue2 d)) gs)"

lemma header_part_cong:
  assumes "header_part r' = header_part r"
  shows "getTriggerID r' = getTriggerID r" "getFrequency r' = getFrequency r" "block_group r' = block_group r"
    "step_groups r' = step_groups r" "singles_rows m c r' = singles_rows m c r"
proof -
  show hd: "getTriggerID r' = getTriggerID r" "getFrequency r' = getFrequency r"
    using assms by (simp_all add: header_part_def getTriggerID_def getFrequency_def)
  have "isQDC r' = isQDC r" using assms by (simp add: isQDC_def header_part_def fun_eq_iff)
  then have "decode_hit r' = decode_hit r" by (simp add: decode_hit_def fun_eq_iff)
  then show bg: "block_group r' = block_group r" by (simp add: block_group_def fun_eq_iff)
  show "step_groups r' = step_groups r" by (simp add: step_groups_def bg fun_eq_iff)
  show "singles_rows m c r' = singles_rows m c r" by (simp add: singles_rows_def hd fun_eq_iff)
qed

text \<open>The rows of all files when the writer has been destroyed.\<close>

definition final_rows :: "('d::{zero,ord}, 'f) singles_writer \<Rightarrow> ('d, 'f) single list" where
  "final_rows w = (if fileSplitTime w > 0 then concat (map (\<lambda>(_, p). singles p) (renamed w)) else all_rows w)"

lemma final_rows_finish: "final_rows (singles_finish w) = all_rows w"
  by (simp add: final_rows_def singles_finish_def renameFile_def all_rows_def)

lemma singles_steps_rows:
  fixes m :: "('d::{numeral,zero,minus,times,inverse,ord,abs}, 'f::{numeral,zero,ord,plus,minus,times,inverse,uminus}) conversions"
  assumes "full_config c" "sorts_entries srt" "\<forall>d \<in> set ds. complete_step d" "modes_known r"
    "outputs ft (d_of_int m (uint (getFrequency r))) fraction n rows w"
  shows "\<exists>w' gss. singles_steps m srt c r (map step_input ds) w = Some (Inr w') \<and> list_all2 (step_groups r) ds gss
    \<and> final_rows w' = rows @ sampled fraction n (concat (map2 (singles_rows m c r ft) ds gss))"
  using assms(3-)
proof (induction ds arbitrary: r n rows w)
  case Nil
  then show ?case by (simp add: final_rows_finish outputs_def)
next
  case (Cons d ds)
  let ?r1 = "step_reader r d" and ?freq = "d_of_int m (uint (getFrequency r))"
  obtain st where st: "processStep (?r1\<lparr>answers := sdAnswers d\<rparr>) = Inr st" "list_all wf_block (queued st)"
    "concat (map block_events (queued st)) = concat (map frame_events (sdFrames d))" "header_part (reader st) = header_part r"
    using complete_step_processed [of d r] Cons.prems(1) by auto
  note cong = header_part_cong [OF getNextStep_step(4) [of r d]] header_part_cong [OF st(4)]
  have m: "modes_known ?r1" "modes_known (reader st)"
    using Cons.prems(2) modes_known_header_part [OF getNextStep_step(4)] modes_known_header_part [OF st(4)] by auto
  have w: "outputs ft (d_of_int m (uint (getFrequency ?r1))) fraction n rows w" using Cons.prems(3) by (simp add: cong)
  obtain gs w1 where gs: "list_all2 (block_group r) (queued st) gs"
    "push_singles m srt c ?r1 (sdValue1 d) (sdValue2 d) (queued st) (0, no_hits) w = Some w1"
    "outputs ft ?freq fraction (n + length (singles_rows m c r ft d gs)) (rows @ sampled fraction n (singles_rows m c r ft d gs)) w1"
    using push_singles_rows [OF m(1) assms(1,2) st(2) w, of "sdValue1 d" "sdValue2 d" "(0, no_hits)"]
    by (auto simp: cong singles_rows_def Let_def)
  have g: "step_groups r d gs" using gs(1) st(3) by (auto simp: step_groups_def)
  have c1: "outputs ft (d_of_int m (uint (getFrequency (reader st)))) fraction (n + length (singles_rows m c r ft d gs))
      (rows @ sampled fraction n (singles_rows m c r ft d gs)) (singles_closeStep (sdValue1 d) (sdValue2 d) w1)"
    using outputs_closeStep [OF gs(3)] by (simp add: cong)
  obtain w' gss where "singles_steps m srt c (reader st) (map step_input ds) (singles_closeStep (sdValue1 d) (sdValue2 d) w1) = Some (Inr w')"
    "list_all2 (step_groups r) ds gss"
    "final_rows w' = (rows @ sampled fraction n (singles_rows m c r ft d gs))
      @ sampled fraction (n + length (singles_rows m c r ft d gs)) (concat (map2 (singles_rows m c r ft) ds gss))"
    using Cons.IH [OF _ m(2) c1] Cons.prems(1) by (auto simp: cong)
  moreover from this(1) have "singles_steps m srt c r (map step_input (d # ds)) w = Some (Inr w')"
    using st(1) gs(2) getNextStep_step(1,2) [of r d] getNextStep_step(3) [of d] by (cases "step_input d") simp
  ultimately show ?case using g
    by (intro exI [of _ w'] exI [of _ "gs # gss"]) (simp add: sampled_append)
qed

text \<open>
  C6: The conversion to single hits writes exactly one row for each sampled hit that passes the calibration: the events of the
  frames of each step are decoded, sorted by time within consecutive blocks, calibrated, and the hits that pass are written in this order, whatever the
  floating-point arithmetic, the sorting algorithm, the sizes of blocks and reads, the format and the splitting of the output in time: the parts together hold
  all rows, in order.
\<close>

theorem raw_to_singles_writes_hits:
  fixes m :: "('d::{numeral,zero,minus,times,inverse,ord,abs}, 'f::{numeral,zero,ord,plus,minus,times,inverse,uminus}) conversions"
  assumes "openFile tmpf idxf rawf got header modf = Some (Inr r)" "header ! 3 = 0" "isTOT r = Some tot"
    and "coefficients_read src" "fromFile src (load_mask tot) unset = Some (Inr c)" "sorts_entries srt"
    and "configFileName \<noteq> []" "inputFilePrefix \<noteq> []" "outputFileName \<notin> {[], ''/dev/null''}" "ft \<noteq> NullFile"
    and "0 \<le> fraction" "fraction < 2 ^ 31" "\<forall>d \<in> set ds. complete_step d"
  shows "\<exists>w gss. runConvertRawToSingles m srt configFileName inputFilePrefix outputFileName ft fraction splitTime
      (openFile tmpf idxf rawf got header modf) src unset (map step_input ds) = Some (Inr w)
    \<and> list_all2 (step_groups r) ds gss
    \<and> final_rows w = sampled fraction 0 (concat (map2 (singles_rows m c r ft) ds gss))"
proof -
  let ?w = "SinglesWriter m False (d_of_int m (uint (getFrequency r))) ft fraction (f_of_d m splitTime)"
  have f: "signed_take_bit 31 fraction = fraction" using assms(11,12) by (intro signed_take_bit_int_eq_self) auto
  have "outputs ft (d_of_int m (uint (getFrequency r))) fraction 0 [] ?w"
    using assms(10) by (simp add: outputs_def SinglesWriter_def openFile_part_def all_rows_def)
  from singles_steps_rows [OF _ assms(6,13) modes_known_header [OF openFile_header_modes [OF assms(1,2)]] this]
  show ?thesis using assms(1,3,5,7-9) fromFile_full [OF assms(4,5)] f by (auto simp: runConvertRawToSingles_def)
qed

definition example_conversions :: "(rat, rat) conversions" where
  "example_conversions = \<lparr>d_of_int = of_int, f_of_int = of_int, d_of_f = id, f_of_d = id, sqrtf = id, pow = (\<lambda>x y. x),
     ll_of_d = floor, floor_d = floor\<rparr>"

definition example_sources :: "(rat, rat) sources" where
  "example_sources = \<lparr>ini_string = \<lambda>_. Some ''t'', ini_int = \<lambda>_. None, ini_float = \<lambda>_. None, ini_double = \<lambda>_. None, replace_variables = id,
     tdc_tables = \<lambda>_. Some [], qdc_tables = \<lambda>_. Some [], energy_tables = \<lambda>_. Some [], offset_tables = \<lambda>_. Some [],
     map_tables = \<lambda>_. Some [], trigger_tables = \<lambda>_. Some []\<rparr>"

theorem raw_to_singles_writes_hits_witness:
  "\<exists>w r gss. openFile False True True 64 example_header None = Some (Inr r)
    \<and> runConvertRawToSingles example_conversions (sort_key fst) ''c'' ''i'' ''o'' RootFile 1024 0
      (openFile False True True 64 example_header None) example_sources example_config1 [step_input example_step] = Some (Inr w)
    \<and> list_all2 (step_groups r) [example_step] gss"
proof -
  have "\<exists>r. openFile False True True 64 example_header None = Some (Inr r)"
    by (simp add: openFile_def example_header_def)
  then obtain r where r: "openFile False True True 64 example_header None = Some (Inr r)" ..
  have h: "example_header ! 3 = 0" by (simp add: example_header_def)
  obtain tot where tot: "isTOT r = Some tot" using header_modes [OF r h] by auto
  have "\<exists>c. fromFile example_sources (load_mask tot) example_config1 = Some (Inr c)"
    by (auto simp: fromFile_def from_tdc_def from_qdc_def from_map_def from_offset_def and_then_def required_def optional_def example_sources_def
      loadTDCCalibration_def loadQDCCalibration_def loadEnergyCalibration_def loadChannelMap_def loadTimeOffsetCalibration_def loadTriggerMap_def
      load_table_def Let_def)
  then obtain c where c: "fromFile example_sources (load_mask tot) example_config1 = Some (Inr c)" ..
  have s: "coefficients_read example_sources" by (simp add: coefficients_read_def example_sources_def)
  have "complete_step example_step"
    using example_reader_facts(2-5) by (auto simp: complete_step_def example_step_def ULLONG_MAX_def example_reader_def Let_def)
  then show ?thesis
    using raw_to_singles_writes_hits [OF r h tot s c sorts_sort_key, of "''c''" "''i''" "''o''" RootFile 1024 "[example_step]"
      example_conversions 0] r by auto
qed

end
