(* ===== verification/RootConverter.thy ===== *)
theory RootConverter
  imports MonitorCodec
begin

text \<open>
  From the objects of a ROOT file to the monitoring stream and back
  (FlightOps/src/GRAMS\_TOF\_RootConverter.cpp). ROOT itself is not part of the program: an object is given
  by what the methods that are called return, with numbers already converted to \<open>float\<close>, as bit
  patterns; an object that is made is given by the calls that fill it. A character string is the list of
  its characters before the terminating zero.

  The lemmas follow a histogram from the file over the link into the object made at the other end.
\<close>

section \<open>Objects\<close>

datatype hist_class = RTH1 | RTH2 | RTProfile

record root_hist =
  rname :: "u8 list"
  rclass :: hist_class
  GetNbinsX :: nat
  GetNbinsY :: nat
  x_range :: "u32 \<times> u32"
  y_range :: "u32 \<times> u32"
  GetBinContent :: "nat \<Rightarrow> u32"
  profile_bin :: "nat \<Rightarrow> u32 \<times> u32 \<times> u32"

record root_graph =
  rg_name :: "u8 list"
  rg_points :: "(u64 \<times> u64) list"

record root_param =
  rp_name :: "u8 list"
  rp_value :: u64

datatype root_object = OHist root_hist | OGraph root_graph | OParam root_param | OOther

section \<open>From ROOT\<close>

text \<open>\<open>strncpy\<close> of at most 15 characters into 16 zeros.\<close>

definition copy_name16 :: "u8 list \<Rightarrow> u8 list" where
  "copy_name16 name = take 15 name @ replicate (16 - length (take 15 name)) 0"

definition class_type :: "hist_class \<Rightarrow> DataType" where
  "class_type c = (case c of RTProfile \<Rightarrow> TProfile | RTH2 \<Rightarrow> TH2F | RTH1 \<Rightarrow> TH1F)"

definition packBins :: "root_hist \<Rightarrow> u32 \<Rightarrow> u32 list" where
  "packBins h ty =
     (if ty = data_type_u32 TProfile
      then concat (map (\<lambda>i. case profile_bin h i of (m, r, e) \<Rightarrow> [m, r, e]) [1..<GetNbinsX h + 1])
      else map (GetBinContent h) [0..<(GetNbinsX h + 2) * (GetNbinsY h + 2)])"

text \<open>The range in y is not written for a histogram of one dimension: \<open>stack\<close> is what it holds.\<close>

definition fromRootHist :: "u32 \<times> u32 \<Rightarrow> root_hist \<Rightarrow> u32 \<Rightarrow> MonitorData" where
  "fromRootHist stack h runNum =
     (let ty = data_type_u32 (class_type (rclass h)) in
      \<lparr>m_run_number = runNum, hname = copy_name16 (rname h), hist_type = ty, n_bins_x = of_nat (GetNbinsX h),
       x_min = fst (x_range h), x_max = snd (x_range h),
       n_bins_y = (if rclass h = RTH2 then of_nat (GetNbinsY h) else 1),
       y_min = fst (if rclass h = RTH2 then y_range h else stack),
       y_max = snd (if rclass h = RTH2 then y_range h else stack),
       bins = packBins h ty\<rparr>)"

definition fromRootGraph :: "root_graph \<Rightarrow> u32 \<Rightarrow> GraphData" where
  "fromRootGraph g runNum =
     \<lparr>g_run_number = runNum, gname = copy_name16 (rg_name g), n_points = of_nat (length (rg_points g)),
      gx = map fst (rg_points g), gy = map snd (rg_points g)\<rparr>"

definition fromRootParam :: "root_param \<Rightarrow> u32 \<Rightarrow> ParameterData" where
  "fromRootParam p runNum = \<lparr>p_run_number = runNum, pname = copy_name16 (rp_name p), pvalue = rp_value p\<rparr>"

record scan_result =
  found_hists :: "MonitorData list"
  found_graphs :: "GraphData list"
  found_params :: "ParameterData list"

text \<open>All objects of a file that can be opened, in one pass.\<close>

definition scan_object :: "u32 \<times> u32 \<Rightarrow> u32 \<Rightarrow> root_object \<Rightarrow> scan_result \<Rightarrow> scan_result" where
  "scan_object stack runNum obj r = (case obj of
     OHist h \<Rightarrow> r\<lparr>found_hists := found_hists r @ [fromRootHist stack h runNum]\<rparr>
   | OGraph g \<Rightarrow> r\<lparr>found_graphs := found_graphs r @ [fromRootGraph g runNum]\<rparr>
   | OParam p \<Rightarrow> r\<lparr>found_params := found_params r @ [fromRootParam p runNum]\<rparr>
   | OOther \<Rightarrow> r)"

definition scanFile :: "u32 \<times> u32 \<Rightarrow> root_object list option \<Rightarrow> u32 \<Rightarrow> scan_result" where
  "scanFile stack keys runNum = (case keys of
     None \<Rightarrow> \<lparr>found_hists = [], found_graphs = [], found_params = []\<rparr>
   | Some objs \<Rightarrow> fold (scan_object stack runNum) objs \<lparr>found_hists = [], found_graphs = [], found_params = []\<rparr>)"

section \<open>To ROOT\<close>

text \<open>The name that is used: the one of the data, or another one when it is empty. Without a terminating
  zero the characters behind the name are read.\<close>

definition used_name :: "u8 list \<Rightarrow> u8 list \<Rightarrow> u8 list checked" where
  "used_name name fallback =
     (if 0 \<notin> set name then None
      else Some (if takeWhile (\<lambda>b. b \<noteq> 0) name = [] then fallback else takeWhile (\<lambda>b. b \<noteq> 0) name))"

text \<open>Floating-point arithmetic is a parameter: whether a number is positive, the product, and the sum of
  the squared weights from mean, spread and number of entries.\<close>

record float_ops =
  positive :: "u32 \<Rightarrow> bool"
  times :: "u32 \<Rightarrow> u32 \<Rightarrow> u32"
  squares :: "u32 \<Rightarrow> u32 \<Rightarrow> u32 \<Rightarrow> u64"

datatype fill = SetBinContent nat u32 | SetBinEntries nat u32 | SetSumw2 nat u64

record made_hist =
  made_name :: "u8 list"
  made_class :: hist_class
  made_x :: "int \<times> u32 \<times> u32"
  made_y :: "(int \<times> u32 \<times> u32) option"
  fills :: "fill list"

datatype convert_error = UnsupportedHistType u32

definition fill_profile :: "float_ops \<Rightarrow> u32 list \<Rightarrow> nat \<Rightarrow> fill list checked" where
  "fill_profile ops ws i = do {
     f_m \<leftarrow> rd ws ((i - 1) * 3);
     f_r \<leftarrow> rd ws ((i - 1) * 3 + 1);
     f_e \<leftarrow> rd ws ((i - 1) * 3 + 2);
     Some (if positive ops f_e
           then [SetBinContent i (times ops f_m f_e), SetBinEntries i f_e, SetSumw2 i (squares ops f_m f_r f_e)]
           else []) }"

definition int_of_u32 :: "u32 \<Rightarrow> int" where
  "int_of_u32 w = sint w"

text \<open>The number of cells of a plane is computed in \<open>int\<close>, where an overflow has no defined result.\<close>

definition cells2 :: "MonitorData \<Rightarrow> int checked" where
  "cells2 d =
     (let nx = int_of_u32 (n_bins_x d + 2); ny = int_of_u32 (n_bins_y d + 2)
      in if - (2 ^ 31) \<le> nx * ny \<and> nx * ny < 2 ^ 31 then Some (nx * ny) else None)"

definition toRootHist :: "float_ops \<Rightarrow> MonitorData \<Rightarrow> u8 list \<Rightarrow> (convert_error + made_hist) checked" where
  "toRootHist ops d fallbackName = do {
     hName \<leftarrow> used_name (hname d) fallbackName;
     let nx = int_of_u32 (n_bins_x d);
     let ny = int_of_u32 (n_bins_y d);
     if hist_type d = data_type_u32 TProfile then do {
       fs \<leftarrow> those (map (fill_profile ops (bins d)) [1..<nat nx + 1]);
       Some (Inr \<lparr>made_name = hName, made_class = RTProfile, made_x = (nx, x_min d, x_max d), made_y = None,
                  fills = concat fs\<rparr>) }
     else if hist_type d = data_type_u32 TH2F then do {
       n \<leftarrow> cells2 d;
       vals \<leftarrow> those (map (rd (bins d)) [0..<nat n]);
       Some (Inr \<lparr>made_name = hName, made_class = RTH2, made_x = (nx, x_min d, x_max d), made_y = Some (ny, y_min d, y_max d),
                  fills = map2 SetBinContent [0..<nat n] vals\<rparr>) }
     else if hist_type d = data_type_u32 TH1F then
       Some (Inr \<lparr>made_name = hName, made_class = RTH1, made_x = (nx, x_min d, x_max d), made_y = None,
                  fills = map2 SetBinContent [0..<length (bins d)] (bins d)\<rparr>)
     else Some (Inl (UnsupportedHistType (hist_type d))) }"

record made_graph =
  mg_name :: "u8 list"
  mg_points :: "(u64 \<times> u64) list"

definition toRootGraph :: "GraphData \<Rightarrow> u8 list \<Rightarrow> made_graph checked" where
  "toRootGraph d fallbackName = do {
     gName \<leftarrow> used_name (gname d) fallbackName;
     points \<leftarrow> those (map (\<lambda>i. do { px \<leftarrow> rd (gx d) i; py \<leftarrow> rd (gy d) i; Some (px, py) }) [0..<nat (int_of_u32 (n_points d))]);
     Some \<lparr>mg_name = gName, mg_points = points\<rparr> }"

text \<open>A hash of a name, whose characters are signed.\<close>

definition hash_step :: "u8 \<Rightarrow> u32 \<Rightarrow> u32" where
  "hash_step b hash =
     (let h1 = hash + scast b; h2 = h1 + push_bit 10 h1 in h2 XOR drop_bit 6 h2)"

definition generateHistID :: "u8 list \<Rightarrow> u32" where
  "generateHistID name =
     (let h = fold hash_step name 0; h1 = h + push_bit 3 h; h2 = h1 XOR drop_bit 11 h1 in h2 + push_bit 15 h2)"

section \<open>Over the link\<close>

lemma length_copy_name: "length (copy_name16 name) = 16"
  by (simp add: copy_name16_def)

lemma takeWhile_name: "0 \<notin> set name \<Longrightarrow> takeWhile (\<lambda>b. b \<noteq> 0) (name @ 0 # rest) = name"
  by (induction name) auto

lemma used_copy_name:
  assumes "0 \<notin> set name" "name \<noteq> []"
  shows "used_name (copy_name16 name) fallback = Some (take 15 name)"
proof -
  let ?n = "take 15 name"
  have n: "0 \<notin> set ?n" "?n \<noteq> []" "length ?n \<le> 15"
    using assms by (auto dest: in_set_takeD)
  then obtain k where k: "16 - length ?n = Suc k"
    by (cases "16 - length ?n") simp_all
  have copy: "copy_name16 name = ?n @ 0 # replicate k 0"
    unfolding copy_name16_def k by simp
  have "takeWhile (\<lambda>b. b \<noteq> 0) (copy_name16 name) = ?n"
    unfolding copy by (rule takeWhile_name [OF n(1)])
  moreover have "0 \<in> set (copy_name16 name)"
    unfolding copy by simp
  ultimately show ?thesis
    using n(2) by (simp add: used_name_def)
qed

text \<open>The calls that make the object at the other end equal to the original.\<close>

definition expected_fills :: "float_ops \<Rightarrow> root_hist \<Rightarrow> fill list" where
  "expected_fills ops h = (case rclass h of
     RTProfile \<Rightarrow> concat (map (\<lambda>i. case profile_bin h i of (m, r, e) \<Rightarrow>
       if positive ops e then [SetBinContent i (times ops m e), SetBinEntries i e, SetSumw2 i (squares ops m r e)] else [])
       [1..<GetNbinsX h + 1])
   | _ \<Rightarrow> map (\<lambda>i. SetBinContent i (GetBinContent h i)) [0..<(GetNbinsX h + 2) * (GetNbinsY h + 2)])"

definition packed_size :: "root_hist \<Rightarrow> nat" where
  "packed_size h = (if rclass h = RTProfile then 3 * GetNbinsX h else (GetNbinsX h + 2) * (GetNbinsY h + 2))"

lemma class_type_eq [simp]:
  "data_type_u32 (class_type c) = 3 \<longleftrightarrow> c = RTProfile"
  "data_type_u32 (class_type c) = 2 \<longleftrightarrow> c = RTH2"
  "data_type_u32 (class_type c) = 1 \<longleftrightarrow> c = RTH1"
  by (cases c; simp add: class_type_def)+

lemma length_profile: "length (concat (map (\<lambda>i. case f i of (m, r, e) \<Rightarrow> [m, r, e]) is)) = 3 * length is"
  by (induction "is") (simp_all split: prod.splits)

lemma length_bins: "length (bins (fromRootHist stack h runNum)) = packed_size h"
  by (simp add: fromRootHist_def packBins_def packed_size_def Let_def length_profile)

lemma map2_upt: "map2 f [0..<length l] l = map (\<lambda>i. f i (l ! i)) [0..<length l]"
  by (intro nth_equalityI) simp_all

lemma map2_map_upt: "map2 f [0..<n] (map g [0..<n]) = map (\<lambda>i. f i (g i)) [0..<n]"
  by (intro nth_equalityI) simp_all

lemma those_rd_all: "those (map (rd l) [0..<length l]) = Some l"
  using those_map_rd_upt [of "length l" l] by simp

lemma profile_read:
  assumes "i \<in> set [1..<n + 1]"
  shows "fill_profile ops (concat (map (\<lambda>i. case f i of (m, r, e) \<Rightarrow> [m, r, e]) [1..<n + 1])) i =
    Some (case f i of (m, r, e) \<Rightarrow>
      if positive ops e then [SetBinContent i (times ops m e), SetBinEntries i e, SetSumw2 i (squares ops m r e)] else [])"
proof -
  let ?g = "\<lambda>i. case f i of (m, r, e) \<Rightarrow> [m, r, e]"
  let ?l = "concat (map ?g [1..<n + 1])"
  have i: "1 \<le> i" "i - 1 < length [1..<n + 1]" "[1..<n + 1] ! (i - 1) = i" "i - 1 < n"
    using assms by (auto simp: nth_upt simp del: upt_Suc)
  have "?l ! ((i - 1) * 3 + k) = ?g i ! k" if "k < 3" for k
    using nth_concat_chunks [of ?g 3 "i - 1" "[1..<n + 1]" k] i that by (simp split: prod.splits del: upt_Suc)
  moreover have "length ?l = 3 * n"
    using length_profile [of f "[1..<n + 1]"] by simp
  then have "(i - 1) * 3 + k < length ?l" if "k < 3" for k
    using i(4) that by simp
  ultimately have "rd ?l ((i - 1) * 3 + k) = Some (?g i ! k)" if "k < 3" for k
    using that by (simp add: rd_def del: upt_Suc)
  from this [of 0] this [of 1] this [of 2] show ?thesis
    by (auto simp: fill_profile_def simp del: upt_Suc split: prod.splits)
qed

lemma int_of_nat_u32: "n < 2 ^ 31 \<Longrightarrow> int_of_u32 (of_nat n) = int n"
  by (simp add: int_of_u32_def signed_of_nat signed_take_bit_int_eq_self)

definition link_of :: "MonitorData \<Rightarrow> u8 list checked" where
  "link_of d = serialize (hist_encode d) None"

lemma class_cells:
  assumes "bins d = map f [0..<(nx + 2) * (ny + 2)]" "n_bins_x d = of_nat nx" "n_bins_y d = of_nat ny"
    and "(nx + 2) * (ny + 2) < 2 ^ 31"
  shows "cells2 d = Some (int ((nx + 2) * (ny + 2)))"
proof -
  have "nx + 2 \<le> (nx + 2) * (ny + 2)" "ny + 2 \<le> (nx + 2) * (ny + 2)"
    by simp_all
  moreover have "n_bins_x d + 2 = of_nat (nx + 2)" "n_bins_y d + 2 = of_nat (ny + 2)"
    using assms(2,3) by simp_all
  ultimately have "int_of_u32 (n_bins_x d + 2) = int (nx + 2)" "int_of_u32 (n_bins_y d + 2) = int (ny + 2)"
    using int_of_nat_u32 [of "nx + 2"] int_of_nat_u32 [of "ny + 2"] assms(4) by (simp_all only: order.strict_trans1)
  moreover have "int (nx + 2) * int (ny + 2) = int ((nx + 2) * (ny + 2))"
    by (rule of_nat_mult [symmetric])
  moreover have "int ((nx + 2) * (ny + 2)) < 2 ^ 31"
    using assms(4) [folded of_nat_less_iff [where 'a = int]] unfolding of_nat_power of_nat_numeral .
  ultimately show ?thesis
    by (simp add: cells2_def Let_def del: of_nat_mult of_nat_add)
qed

text \<open>What the receiver makes of the data as they were packed.\<close>

lemma toRoot_fromRoot:
  assumes "0 \<notin> set (rname h)" "rname h \<noteq> []" "packed_size h < 2 ^ 31"
  shows "toRootHist ops (fromRootHist stack h runNum) fallback = Some (Inr
    \<lparr>made_name = take 15 (rname h), made_class = rclass h, made_x = (int (GetNbinsX h), fst (x_range h), snd (x_range h)),
     made_y = (if rclass h = RTH2 then Some (int (GetNbinsY h), fst (y_range h), snd (y_range h)) else None),
     fills = expected_fills ops h\<rparr>)"
proof -
  let ?d = "fromRootHist stack h runNum" and ?n = "(GetNbinsX h + 2) * (GetNbinsY h + 2)"
  note name = used_copy_name [OF assms(1,2)]
  have "GetNbinsX h \<le> packed_size h" "rclass h = RTH2 \<Longrightarrow> GetNbinsY h \<le> packed_size h"
    by (simp_all add: packed_size_def)
  then have x: "int_of_u32 (of_nat (GetNbinsX h)) = int (GetNbinsX h)"
    and y: "rclass h = RTH2 \<Longrightarrow> int_of_u32 (of_nat (GetNbinsY h)) = int (GetNbinsY h)"
    using assms(3) int_of_nat_u32 by simp_all
  show ?thesis
  proof (cases "rclass h")
    case RTH1
    then show ?thesis
      using x name
      by (simp add: toRootHist_def fromRootHist_def packBins_def Let_def expected_fills_def map2_upt map2_map_upt class_type_def del: upt_Suc)
  next
    case RTH2
    define n where "n = ?n"
    have bins: "bins ?d = map (GetBinContent h) [0..<n]" "length (bins ?d) = n"
      using RTH2 by (simp_all add: fromRootHist_def packBins_def Let_def class_type_def n_def del: upt_Suc)
    have "cells2 ?d = Some (int n)"
      using RTH2 assms(3) unfolding n_def
      by (intro class_cells [OF bins(1) [unfolded n_def]]) (simp_all add: fromRootHist_def Let_def packed_size_def)
    moreover have "those (map (rd (bins ?d)) [0..<n]) = Some (bins ?d)"
      using those_rd_all [of "bins ?d"] unfolding bins(2) .
    ultimately have "toRootHist ops ?d fallback = Some (Inr
        \<lparr>made_name = take 15 (rname h), made_class = RTH2, made_x = (int (GetNbinsX h), fst (x_range h), snd (x_range h)),
         made_y = Some (int (GetNbinsY h), fst (y_range h), snd (y_range h)), fills = map2 SetBinContent [0..<n] (bins ?d)\<rparr>)"
      using x y RTH2 name
      by (simp add: toRootHist_def fromRootHist_def Let_def class_type_def)
    moreover have "map2 SetBinContent [0..<n] (bins ?d) = expected_fills ops h"
      unfolding bins(1) map2_map_upt using RTH2 by (simp add: expected_fills_def n_def del: upt_Suc)
    ultimately show ?thesis
      using RTH2 by simp
  next
    case RTProfile
    let ?n = "GetNbinsX h"
    have bins: "bins ?d = concat (map (\<lambda>i. case profile_bin h i of (m, r, e) \<Rightarrow> [m, r, e]) [1..<?n + 1])"
      using RTProfile by (simp add: fromRootHist_def packBins_def Let_def class_type_def del: upt_Suc)
    have "those (map (fill_profile ops (bins ?d)) [1..<?n + 1]) =
        Some (map (\<lambda>i. case profile_bin h i of (m, r, e) \<Rightarrow>
          if positive ops e then [SetBinContent i (times ops m e), SetBinEntries i e, SetSumw2 i (squares ops m r e)] else [])
          [1..<?n + 1])"
      unfolding bins by (rule those_map_Some) (rule profile_read)
    then show ?thesis
      using x RTProfile name by (simp add: toRootHist_def fromRootHist_def Let_def class_type_def expected_fills_def del: upt_Suc)
  qed
qed

text \<open>C36: From the file to the other end of the link. A histogram, plane or profile whose cells fit into a packet (at most
  65523 words) and whose name is not empty and has no null character arrives as an object with the first 15 characters of its name, its class and its axes.
  A histogram or plane arrives with every cell as packed, underflow and overflow included. Of a profile
  the bins 1 to n that have entries arrive, with their contents, entries and sums of squares; its underflow, overflow and empty bins are not transferred.\<close>

theorem hist_survives_link:
  assumes "0 \<notin> set (rname h)" "rname h \<noteq> []" "packed_size h \<le> 65523"
  shows "\<exists>bs. serialize (hist_encode (fromRootHist stack h runNum)) None = Some bs \<and>
    (\<forall>junk. \<exists>p d m. parse (bs @ junk) = Some (Inr p) \<and> hist_decode p = Some (Some d) \<and> toRootHist ops d fallback = Some (Inr m) \<and>
      made_name m = take 15 (rname h) \<and> made_class m = rclass h \<and>
      made_x m = (int (GetNbinsX h), fst (x_range h), snd (x_range h)) \<and>
      (rclass h = RTH2 \<longrightarrow> made_y m = Some (int (GetNbinsY h), fst (y_range h), snd (y_range h))) \<and>
      fills m = expected_fills ops h)"
proof -
  let ?d = "fromRootHist stack h runNum"
  have "wf_hist ?d"
    using assms(3) length_bins [of stack h runNum] by (simp add: wf_hist_def fromRootHist_def Let_def length_copy_name)
  then obtain bs where bs: "serialize (hist_encode ?d) None = Some bs"
    "\<forall>junk. \<exists>p. parse (bs @ junk) = Some (Inr p) \<and> hist_decode p = Some (Some ?d)"
    using hists.delivery by blast
  then show ?thesis
    using toRoot_fromRoot [OF assms(1,2), of ops stack runNum fallback] assms(3) by fastforce
qed

definition demo_hist :: root_hist where
  "demo_hist = \<lparr>rname = [104, 49], rclass = RTH1, GetNbinsX = 2, GetNbinsY = 1, x_range = (0, 0x3F800000), y_range = (0, 0),
     GetBinContent = of_nat, profile_bin = (\<lambda>_. (0, 0, 0))\<rparr>"

definition demo_ops :: float_ops where
  "demo_ops = \<lparr>positive = (\<lambda>w. 0 <s w), times = (\<lambda>_ _. 0), squares = (\<lambda>_ _ _. 0)\<rparr>"

theorem hist_survives_link_witness:
  "\<exists>bs p d m. serialize (hist_encode (fromRootHist (0, 0) demo_hist 7)) None = Some bs \<and> parse (bs @ [1]) = Some (Inr p) \<and>
    hist_decode p = Some (Some d) \<and> toRootHist demo_ops d [] = Some (Inr m) \<and>
    fills m = map (\<lambda>i. SetBinContent i (of_nat i)) [0..<12]"
proof -
  have "0 \<notin> set (rname demo_hist)" "rname demo_hist \<noteq> []" "packed_size demo_hist \<le> 65523"
    by (simp_all add: demo_hist_def packed_size_def)
  from hist_survives_link [OF this, of "(0, 0)" 7 demo_ops "[]"]
  obtain bs where bs: "serialize (hist_encode (fromRootHist (0, 0) demo_hist 7)) None = Some bs"
    "\<exists>p d m. parse (bs @ [1]) = Some (Inr p) \<and> hist_decode p = Some (Some d) \<and> toRootHist demo_ops d [] = Some (Inr m) \<and>
      fills m = expected_fills demo_ops demo_hist"
    by blast
  moreover have "expected_fills demo_ops demo_hist = map (\<lambda>i. SetBinContent i (of_nat i)) [0..<12]"
    by (simp add: expected_fills_def demo_hist_def del: upt_rec_numeral)
  ultimately show ?thesis
    by auto
qed

text \<open>C38: A plane whose cells do not fit into a packet is sent all the same, with as many cells as the 16-bit
  count is left with, and the receiver, which takes the number of cells from the axes, reads behind
  them.\<close>

theorem large_plane_overruns:
  assumes "rclass h = RTH2" "0 \<notin> set (rname h)" "rname h \<noteq> []"
    and "65523 < packed_size h" "packed_size h < 2 ^ 31" "12 \<le> (12 + packed_size h) mod 65536"
  shows "\<exists>bs p d. serialize (hist_encode (fromRootHist stack h runNum)) None = Some bs \<and> parse bs = Some (Inr p) \<and>
    hist_decode p = Some (Some d) \<and> toRootHist ops d fallback = None"
proof -
  let ?d = "fromRootHist stack h runNum"
  define n where "n = packed_size h"
  define k where "k = (12 + n) mod 65536"
  have n: "n = (GetNbinsX h + 2) * (GetNbinsY h + 2)"
    using assms(1) by (simp add: packed_size_def n_def)
  have k: "12 \<le> k" "k < 65536" "k - 12 \<le> n"
    using assms(6) mod_less_eq_dividend [of "12 + n" 65536] by (simp_all add: k_def n_def)
  have name: "length (hname ?d) = 16"
    by (simp add: fromRootHist_def Let_def length_copy_name)
  obtain bs q where q: "serialize (hist_encode ?d) None = Some bs" "parse bs = Some (Inr q)"
    "argv q = take k (argv (hist_encode ?d))"
    using hist_oversize [OF name] unfolding length_bins k_def n_def by blast
  let ?d' = "?d\<lparr>bins := take (k - 12) (bins ?d)\<rparr>"
  let ?A = "argv (hist_encode (?d\<lparr>bins := []\<rparr>))"
  have "argv (hist_encode ?d) = ?A @ bins ?d" "argv (hist_encode ?d') = ?A @ take (k - 12) (bins ?d)"
    by (simp_all add: hist_encode_def stream_packet_def)
  moreover have "length ?A = 12"
    using hist_encode_fields(1) [of "?d\<lparr>bins := []\<rparr>"] name by simp
  ultimately have "argv q = argv (hist_encode ?d')"
    using k(1) unfolding q(3) by (simp only: take_append take_all)
  then have "hist_decode q = hist_decode (hist_encode ?d')"
    by (simp add: hist_decode_def)
  then have decoded: "hist_decode q = Some (Some ?d')"
    using hist_decode_encode [of ?d'] name by simp
  have len: "length (bins ?d') = k - 12"
    using k(3) length_bins [of stack h runNum] by (simp add: n_def)
  have short: "k - 12 < n"
    using k(2) assms(4) unfolding n_def by linarith
  have "cells2 ?d = Some (int n)"
    using assms(1,5) unfolding n
    by (intro class_cells [of _ "GetBinContent h"]) (simp_all add: fromRootHist_def packBins_def Let_def class_type_def packed_size_def)
  then have cells: "cells2 ?d' = Some (int n)"
    by (simp add: cells2_def)
  have "rd (bins ?d') (k - 12) = None"
    using len by simp
  moreover have "rd (bins ?d') (k - 12) \<in> set (map (rd (bins ?d')) [0..<n])"
    using short by (simp del: rd_eq_None)
  ultimately have "those (map (rd (bins ?d')) [0..<n]) = None"
    by (simp only: those_eq_None_iff)
  moreover have "hist_type ?d' = data_type_u32 TH2F" "used_name (hname ?d') fallback = Some (take 15 (rname h))"
    using used_copy_name [OF assms(2,3)] assms(1) by (simp_all add: fromRootHist_def Let_def class_type_def)
  ultimately have "toRootHist ops ?d' fallback = None"
    using cells unfolding toRootHist_def by simp
  then show ?thesis
    using q(1,2) decoded by blast
qed

theorem large_plane_overruns_witness:
  "\<exists>bs p d. serialize (hist_encode (fromRootHist (0, 0) (demo_hist\<lparr>rclass := RTH2, GetNbinsX := 254, GetNbinsY := 254\<rparr>) 7)) None =
      Some bs \<and> parse bs = Some (Inr p) \<and> hist_decode p = Some (Some d) \<and> toRootHist demo_ops d [] = None"
  by (rule large_plane_overruns) (simp_all add: demo_hist_def packed_size_def)

section \<open>Graphs and files\<close>

lemma graph_restored:
  assumes "0 \<notin> set (rg_name g)" "rg_name g \<noteq> []" "length (rg_points g) < 2 ^ 31"
  shows "toRootGraph (fromRootGraph g runNum) fallback = Some \<lparr>mg_name = take 15 (rg_name g), mg_points = rg_points g\<rparr>"
proof -
  let ?l = "rg_points g"
  have "those (map (\<lambda>i. do { px \<leftarrow> rd (map fst ?l) i; py \<leftarrow> rd (map snd ?l) i; Some (px, py) }) [0..<length ?l]) =
      Some (map ((!) ?l) [0..<length ?l])"
    by (rule those_map_Some) simp
  then show ?thesis
    using used_copy_name [OF assms(1,2)] int_of_nat_u32 [OF assms(3)]
    by (simp add: toRootGraph_def fromRootGraph_def map_nth)
qed

fun hists_of :: "root_object list \<Rightarrow> root_hist list" where
  "hists_of [] = []"
| "hists_of (OHist h # objs) = h # hists_of objs"
| "hists_of (_ # objs) = hists_of objs"

text \<open>The scan finds every histogram of the file once, in the order of the file.\<close>

lemma scan_fold:
  "found_hists (fold (scan_object stack runNum) objs r) = found_hists r @ map (\<lambda>h. fromRootHist stack h runNum) (hists_of objs)"
  by (induction objs arbitrary: r rule: hists_of.induct) (simp_all add: scan_object_def)

lemma scan_hists:
  "found_hists (scanFile stack (Some objs) runNum) = map (\<lambda>h. fromRootHist stack h runNum) (hists_of objs)"
  by (simp add: scanFile_def scan_fold)

end
