(* ===== verification/RingPointer.thy ===== *)
theory RingPointer
  imports Prelude
begin

text \<open>
  Circular buffers whose two pointers run modulo twice the number of slots, so that a full and an
  empty buffer differ. The queue of frames in shared memory (FrameServer.cpp), the pair of buffers
  of a card (PFP\_KX7.cpp) and the partitions of the driver (psdaq.c) are all of this form. The
  locale fixes the number of slots; its lemmas say how many slots are occupied, which ones they
  are, and what advancing a pointer does to them.
\<close>

definition ring_count :: "nat \<Rightarrow> nat \<Rightarrow> nat \<Rightarrow> nat" where
  "ring_count n w r = (w + 2 * n - r) mod (2 * n)"

definition ring_slots :: "nat \<Rightarrow> nat \<Rightarrow> nat \<Rightarrow> nat list" where
  "ring_slots n w r = map (\<lambda>k. (r + k) mod n) [0..<ring_count n w r]"

definition ring_ok :: "nat \<Rightarrow> nat \<Rightarrow> nat \<Rightarrow> bool" where
  "ring_ok n w r = (w < 2 * n \<and> r < 2 * n \<and> ring_count n w r \<le> n)"

locale ring_pointers =
  fixes n :: nat
  assumes slots: "0 < n"
begin

lemma count_cases:
  assumes "w < 2 * n" "r < 2 * n"
  shows "ring_count n w r = (if r \<le> w then w - r else w + 2 * n - r)"
  using assms by (auto simp: ring_count_def mod_if)

lemma empty_iff: "w < 2 * n \<Longrightarrow> r < 2 * n \<Longrightarrow> ring_count n w r = 0 \<longleftrightarrow> w = r"
  by (auto simp: count_cases)

lemma mod_slot: "p < 2 * n \<Longrightarrow> p mod n = (if p < n then p else p - n)"
  by (auto simp: mod_if)

lemma full_iff:
  assumes "w < 2 * n" "r < 2 * n"
  shows "w \<noteq> r \<and> w mod n = r mod n \<longleftrightarrow> ring_count n w r = n"
  using assms slots by (auto simp: count_cases mod_slot)

lemma not_full_room:
  "ring_ok n w r \<Longrightarrow> \<not> (w \<noteq> r \<and> w mod n = r mod n) \<longleftrightarrow> ring_count n w r < n"
  using full_iff [of w r] by (auto simp: ring_ok_def)

lemma ok_start [simp, intro]: "ring_ok n 0 0"
  using slots by (simp add: ring_ok_def ring_count_def)

lemma slots_start [simp]: "ring_slots n p p = []"
  by (simp add: ring_slots_def ring_count_def)

lemma next_bound: "(p + 1) mod (2 * n) < 2 * n"
  using slots by simp

lemma count_write:
  assumes "ring_ok n w r" "ring_count n w r < n"
  shows "ring_count n ((w + 1) mod (2 * n)) r = ring_count n w r + 1"
  using assms slots by (auto simp: ring_ok_def count_cases mod_if split: if_splits)

lemma ok_write:
  assumes "ring_ok n w r" "ring_count n w r < n"
  shows "ring_ok n ((w + 1) mod (2 * n)) r"
  using assms count_write [OF assms] next_bound [of w] by (simp add: ring_ok_def)

lemma write_slot:
  assumes "w < 2 * n" "r < 2 * n"
  shows "(r + ring_count n w r) mod n = w mod n"
  using assms slots by (auto simp: count_cases mod_slot mod_if)

lemma slots_write:
  assumes "ring_ok n w r" "ring_count n w r < n"
  shows "ring_slots n ((w + 1) mod (2 * n)) r = ring_slots n w r @ [w mod n]"
  using assms(1) write_slot [of w r]
  unfolding ring_slots_def count_write [OF assms] by (simp add: ring_ok_def)

lemma slot_inj:
  assumes "i < n" "j < n" "(r + i) mod n = (r + j) mod n"
  shows "i = j"
proof -
  have "(int r + int i - int r) mod int n = (int r + int j - int r) mod int n"
    using assms(3) by (intro mod_diff_cong) (simp_all flip: zmod_int of_nat_add)
  then have "i mod n = j mod n"
    by (simp flip: zmod_int)
  then show ?thesis
    using assms by simp
qed

lemma slots_distinct: "ring_ok n w r \<Longrightarrow> distinct (ring_slots n w r)"
  by (auto simp: ring_slots_def ring_ok_def distinct_map intro!: inj_onI slot_inj [of _ _ r])

lemma slots_bound: "i \<in> set (ring_slots n w r) \<Longrightarrow> i < n"
  using slots by (auto simp: ring_slots_def)

lemma free_slot:
  assumes "ring_ok n w r" "ring_count n w r < n"
  shows "w mod n \<notin> set (ring_slots n w r)"
proof -
  have "ring_slots n ((w + 1) mod (2 * n)) r = ring_slots n w r @ [w mod n]"
    using assms by (rule slots_write)
  moreover have "distinct (ring_slots n ((w + 1) mod (2 * n)) r)"
    using assms by (intro slots_distinct ok_write)
  ultimately show ?thesis
    by simp
qed

lemma length_slots: "length (ring_slots n w r) = ring_count n w r"
  by (simp add: ring_slots_def)

lemma wrap: "p < 4 * n \<Longrightarrow> p mod (2 * n) = (if p < 2 * n then p else p - 2 * n)"
  by (simp add: mod_if)

lemma count_read:
  assumes "ring_ok n w r" "k \<le> ring_count n w r"
  shows "ring_count n w ((r + k) mod (2 * n)) = ring_count n w r - k"
proof -
  have *: "w < 2 * n" "r < 2 * n" "k \<le> (if r \<le> w then w - r else w + 2 * n - r)"
    using assms by (simp_all add: ring_ok_def count_cases)
  have "k \<le> n"
    using assms unfolding ring_ok_def by linarith
  have step: "(r + k) mod (2 * n) = (if r + k < 2 * n then r + k else r + k - 2 * n)"
    using * \<open>k \<le> n\<close> by (intro wrap) simp
  have bound: "(r + k) mod (2 * n) < 2 * n"
    using slots by simp
  show ?thesis
    unfolding count_cases [OF *(1,2)] count_cases [OF *(1) bound]
    using * unfolding step by (auto split: if_splits)
qed

lemma ok_read:
  assumes "ring_ok n w r" "k \<le> ring_count n w r"
  shows "ring_ok n w ((r + k) mod (2 * n))"
proof -
  have "ring_count n w r - k \<le> n"
    using assms(1) unfolding ring_ok_def by linarith
  then show ?thesis
    using assms slots unfolding ring_ok_def count_read [OF assms] by simp
qed

lemma mod_double: "((p mod (2 * n)) + i) mod n = (p + i) mod n"
  by (metis dvd_triv_right mod_add_left_eq mod_mod_cancel)

lemma slots_read:
  assumes "ring_ok n w r" "k \<le> ring_count n w r"
  shows "ring_slots n w ((r + k) mod (2 * n)) = drop k (ring_slots n w r)"
  using assms by (intro nth_equalityI)
    (auto simp: ring_slots_def count_read mod_double add.assoc nth_append)

lemma slots_read_one:
  assumes "ring_ok n w r" "w \<noteq> r"
  shows "ring_slots n w r = r mod n # ring_slots n w ((r + 1) mod (2 * n))"
proof -
  have "0 < ring_count n w r"
    using assms empty_iff [of w r] by (auto simp: ring_ok_def)
  then show ?thesis
    using slots_read [of w r 1] assms
    by (cases "ring_slots n w r") (auto simp: ring_slots_def upt_conv_Cons)
qed

end

end
