(* ===== verification/FrameServer.thy ===== *)
theory FrameServer
  imports EventWord RingPointer
begin

text \<open>
  The frame server of the acquisition daemon (daqd/src/FrameServer.cpp) and the loop of its worker
  thread (\<open>DAQFrameServer::doWork\<close>): a queue of frames in shared memory that the worker fills and
  that a reader in another process empties by moving the read pointer.

  The worker, the reader and the thread that starts and stops acquisitions run interleaved. A step
  is what one of them does between two points where another one can intervene: a section under
  the lock, the copy of a frame into its slot, the test of the copied frame, one access to a
  volatile flag. The words a step copies come from the cards; which ones they are is the subject of
  the theory \<open>DAQFrameServer\<close>. Here they are any frame of a consistent size.
\<close>

section \<open>State\<close>

abbreviation NFrames :: nat where
  "NFrames \<equiv> MaxRawDataFrameQueueSize"

record FrameServer =
  shmPtr :: "RawDataFrame list"
  dataFrameWritePointer :: nat
  dataFrameReadPointer :: nat
  acquisitionMode :: int
  minimumFrameID :: u64
  idleTimeMode :: u32
  hasWorker :: bool
  die :: bool

text \<open>
  Where the worker stands in an iteration of \<open>doWork\<close>: at the loop condition, at the test of the
  acquisition mode, before the section that chooses a slot, with the slot it may
  fill (none when the queue is full), with a frame copied to its slot, or with a frame that passed
  the tests and is not published yet.
\<close>

datatype worker_pc = WNone | WTop | WMode | WLock | WGet "nat option" | WCheck nat | WPublish nat | WExit

text \<open>What remains to be done of a start or a stop of the acquisition.\<close>

datatype control = AReset | ADie | AJoin | ACards bool | AArm int | ASpawn

record server = FrameServer +
  pc :: worker_pc
  ctl :: "control list"
  cardsOn :: bool

section \<open>Operations\<close>

definition FrameServer_init :: "RawDataFrame list \<Rightarrow> u32 \<Rightarrow> server" where
  "FrameServer_init frames idle =
     \<lparr>shmPtr = frames, dataFrameWritePointer = 0, dataFrameReadPointer = 0, acquisitionMode = 0,
      minimumFrameID = 0, idleTimeMode = idle, hasWorker = False, die = True,
      pc = WNone, ctl = [], cardsOn = False\<rparr>"

definition isFull :: "nat \<Rightarrow> nat \<Rightarrow> bool" where
  "isFull writePointer readPointer =
     (writePointer \<noteq> readPointer \<and> writePointer mod NFrames = readPointer mod NFrames)"

definition getDataFrameWritePointer :: "server \<Rightarrow> nat" where
  "getDataFrameWritePointer s = dataFrameWritePointer s mod (2 * NFrames)"

definition getDataFrameReadPointer :: "server \<Rightarrow> nat" where
  "getDataFrameReadPointer s = dataFrameReadPointer s mod (2 * NFrames)"

definition setDataFrameReadPointer :: "nat \<Rightarrow> server \<Rightarrow> server" where
  "setDataFrameReadPointer ptr s = s\<lparr>dataFrameReadPointer := ptr mod (2 * NFrames)\<rparr>"

definition amAcquiring :: "server \<Rightarrow> bool" where
  "amAcquiring s = hasWorker s"

definition setMinimumFrameID :: "u64 \<Rightarrow> server \<Rightarrow> int \<times> server" where
  "setMinimumFrameID frameID s = (0, s\<lparr>minimumFrameID := frameID\<rparr>)"

definition setIdleTimeCalculation :: "u32 \<Rightarrow> server \<Rightarrow> int \<times> server" where
  "setIdleTimeCalculation mode s = (0, s\<lparr>idleTimeMode := mode\<rparr>)"

definition parseDataFrame :: "RawDataFrame \<Rightarrow> bool checked" where
  "parseDataFrame dataFrame = do {
     w0 \<leftarrow> rd dataFrame 0;
     w1 \<leftarrow> rd dataFrame 1;
     Some ((drop_bit 36 w0) AND 0x7FFF = 2 + (w1 AND 0xFFFF)) }"

text \<open>Starting and stopping, as the sequence of steps of the thread that serves the clients.\<close>

definition stopAcquisition :: "control list" where
  "stopAcquisition = [AReset, ADie, AJoin]"

definition startAcquisition :: "int \<Rightarrow> control list" where
  "startAcquisition mode = [AReset, ADie, AJoin, AArm mode, ASpawn]"

definition DAQ_stopAcquisition :: "control list" where
  "DAQ_stopAcquisition = stopAcquisition @ [ACards False]"

definition DAQ_startAcquisition :: "int \<Rightarrow> control list" where
  "DAQ_startAcquisition mode = DAQ_stopAcquisition @ [ACards True] @ startAcquisition mode"

text \<open>
  One step of it. \<open>ADie\<close> and \<open>AJoin\<close> are the two halves of \<open>stopWorker\<close>, \<open>ASpawn\<close> is
  \<open>startWorker\<close>. The join waits (no step) until the worker has left its loop.
\<close>

definition control_step :: "control \<Rightarrow> server \<Rightarrow> server option" where
  "control_step a s = (case a of
     AReset \<Rightarrow> Some (s\<lparr>acquisitionMode := 0, dataFrameWritePointer := 0, dataFrameReadPointer := 0\<rparr>)
   | ADie \<Rightarrow> Some (if hasWorker s then s\<lparr>die := True\<rparr> else s)
   | AJoin \<Rightarrow> (if \<not> hasWorker s then Some s
              else if pc s = WExit then Some (s\<lparr>hasWorker := False, pc := WNone\<rparr>)
              else None)
   | ACards on \<Rightarrow> Some (s\<lparr>cardsOn := on\<rparr>)
   | AArm mode \<Rightarrow> Some (s\<lparr>dataFrameWritePointer := 0, dataFrameReadPointer := 0,
                        acquisitionMode := mode, minimumFrameID := 0\<rparr>)
   | ASpawn \<Rightarrow> Some (if hasWorker s then s else s\<lparr>die := False, pc := WTop, hasWorker := True\<rparr>))"

text \<open>The worker: the head of the loop and the test of the mode, which read without the lock, the
  section that chooses a slot, \<dots>\<close>

definition work_begin :: "server \<Rightarrow> server" where
  "work_begin s = s\<lparr>pc := (if die s then WExit else WMode)\<rparr>"

definition work_mode :: "server \<Rightarrow> server" where
  "work_mode s = s\<lparr>pc := (if acquisitionMode s = 0 then WTop else WLock)\<rparr>"

definition work_choose :: "server \<Rightarrow> server" where
  "work_choose s =
     s\<lparr>pc := WGet (if isFull (dataFrameWritePointer s) (dataFrameReadPointer s) then None
                     else Some (dataFrameWritePointer s mod NFrames))\<rparr>"

text \<open>\<dots> the copy of a frame (or the next iteration, without a frame or without a slot), \<dots>\<close>

definition copy_to :: "RawDataFrame \<Rightarrow> u64 list \<Rightarrow> RawDataFrame checked" where
  "copy_to slot ws = (if length ws \<le> length slot then Some (ws @ drop (length ws) slot) else None)"

definition work_frame :: "nat option \<Rightarrow> u64 list option \<Rightarrow> server \<Rightarrow> server checked" where
  "work_frame dst frame s = (case frame of
     None \<Rightarrow> Some (s\<lparr>pc := WTop\<rparr>)
   | Some ws \<Rightarrow> (case dst of
       None \<Rightarrow> Some (s\<lparr>pc := WTop\<rparr>)
     | Some i \<Rightarrow> do {
         slot \<leftarrow> rd (shmPtr s) i;
         slot' \<leftarrow> copy_to slot ws;
         Some (s\<lparr>shmPtr := (shmPtr s)[i := slot'], pc := WCheck i\<rparr>) }))"

text \<open>\<dots> the tests of the frame in its slot, \<dots>\<close>

definition keep_frame :: "u64 \<Rightarrow> RawDataFrame \<Rightarrow> bool checked" where
  "keep_frame minimum dst = do {
     frameID \<leftarrow> frame_getFrameID dst;
     lost \<leftarrow> frame_getFrameLost dst;
     Some (\<not> frameID < minimum \<and> \<not> (lost \<and> frameID mod 128 \<noteq> 0)) }"

definition work_check :: "nat \<Rightarrow> server \<Rightarrow> server checked" where
  "work_check i s = do {
     dst \<leftarrow> rd (shmPtr s) i;
     keep \<leftarrow> keep_frame (minimumFrameID s) dst;
     Some (s\<lparr>pc := (if keep then WPublish i else WTop)\<rparr>) }"

text \<open>\<dots> and the section that publishes it.\<close>

definition work_publish :: "server \<Rightarrow> server" where
  "work_publish s =
     s\<lparr>dataFrameWritePointer := (dataFrameWritePointer s + 1) mod (2 * NFrames), pc := WTop\<rparr>"

end
