(* ===== verification/FrameQueue.thy ===== *)
theory FrameQueue
  imports FrameServer "HOL-Library.Sublist"
begin

text \<open>
  The interleavings of worker, reader and control thread of the frame server as a transition
  system, and what they do to the queue of frames in shared memory: every step is a step of a
  bounded first-in first-out queue, the worker never writes a slot that the reader may still read,
  and in an acquisition the reader gets exactly the frames that passed the tests, in their order.
\<close>

interpretation fq: ring_pointers NFrames
  by unfold_locales (simp add: MaxRawDataFrameQueueSize_def)

section \<open>Steps\<close>

text \<open>
  A frame as a card delivers it has the size its first word declares; it is what a reader takes
  out of a slot, whose remaining words are those of earlier frames.
\<close>

definition frame_of :: "RawDataFrame \<Rightarrow> u64 list" where
  "frame_of slot = take (unat (size_of_header (slot ! 0))) slot"

definition consistent_frame :: "u64 list \<Rightarrow> bool" where
  "consistent_frame f =
     (2 \<le> length f \<and> length f \<le> MaxRawDataFrameSize \<and> unat (size_of_header (f ! 0)) = length f)"

definition queue :: "server \<Rightarrow> u64 list list" where
  "queue s = map (\<lambda>i. frame_of (shmPtr s ! i))
     (ring_slots NFrames (dataFrameWritePointer s) (dataFrameReadPointer s))"

abbreviation occupied :: "server \<Rightarrow> nat" where
  "occupied s \<equiv> ring_count NFrames (dataFrameWritePointer s) (dataFrameReadPointer s)"

datatype fs_label =
    LWorker
  | LDropped "u64 list"
  | LStored "u64 list"
  | LChecked u64 "u64 list" bool
  | LPublish
  | LTaken "u64 list list"
  | LClient
  | LRequest
  | LControl

inductive fs_step :: "server \<Rightarrow> fs_label \<Rightarrow> server \<Rightarrow> bool" where
  fs_begin: "pc s = WTop \<Longrightarrow> fs_step s LWorker (work_begin s)"
| fs_mode: "pc s = WMode \<Longrightarrow> fs_step s LWorker (work_mode s)"
| fs_choose: "pc s = WLock \<Longrightarrow> fs_step s LWorker (work_choose s)"
| fs_no_frame: "pc s = WGet dst \<Longrightarrow> work_frame dst None s = Some s' \<Longrightarrow> fs_step s LWorker s'"
| fs_dropped: "pc s = WGet None \<Longrightarrow> consistent_frame f \<Longrightarrow> work_frame None (Some f) s = Some s'
    \<Longrightarrow> fs_step s (LDropped f) s'"
| fs_stored: "pc s = WGet (Some i) \<Longrightarrow> consistent_frame f \<Longrightarrow> work_frame (Some i) (Some f) s = Some s'
    \<Longrightarrow> fs_step s (LStored f) s'"
| fs_checked: "pc s = WCheck i \<Longrightarrow> rd (shmPtr s) i = Some slot \<Longrightarrow>
    keep_frame (minimumFrameID s) slot = Some b \<Longrightarrow> work_check i s = Some s'
    \<Longrightarrow> fs_step s (LChecked (minimumFrameID s) (frame_of slot) b) s'"
| fs_publish: "pc s = WPublish i \<Longrightarrow> fs_step s LPublish (work_publish s)"
| fs_read: "ctl s = [] \<Longrightarrow> k \<le> occupied s \<Longrightarrow>
    fs_step s (LTaken (take k (queue s))) (setDataFrameReadPointer (dataFrameReadPointer s + k) s)"
| fs_minimum: "ctl s = [] \<Longrightarrow> fs_step s LClient (snd (setMinimumFrameID m s))"
| fs_start: "ctl s = [] \<Longrightarrow> fs_step s LRequest (s\<lparr>ctl := DAQ_startAcquisition mode\<rparr>)"
| fs_stop: "ctl s = [] \<Longrightarrow> fs_step s LRequest (s\<lparr>ctl := DAQ_stopAcquisition\<rparr>)"
| fs_control: "ctl s = a # rest \<Longrightarrow> control_step a s = Some s' \<Longrightarrow> fs_step s LControl (s'\<lparr>ctl := rest\<rparr>)"

inductive fs_run :: "server \<Rightarrow> fs_label list \<Rightarrow> server \<Rightarrow> bool" where
  fs_nil: "fs_run s [] s"
| fs_snoc: "fs_run s tr s' \<Longrightarrow> fs_step s' l s'' \<Longrightarrow> fs_run s (tr @ [l]) s''"

inductive_cases fs_stepE: "fs_step s l s'"
inductive_simps fs_run_Nil [simp]: "fs_run s [] s'"

text \<open>The specification: a queue of at most \<open>n\<close> frames that is extended at its end, shortened at its
  front, and emptied when an acquisition starts or stops.\<close>

inductive fifo_step :: "nat \<Rightarrow> 'a list \<Rightarrow> 'a list \<Rightarrow> bool" where
  fifo_idle: "fifo_step n q q"
| fifo_put: "length q < n \<Longrightarrow> fifo_step n q (q @ [f])"
| fifo_get: "k \<le> length q \<Longrightarrow> fifo_step n q (drop k q)"
| fifo_reset: "fifo_step n q []"

section \<open>The invariant\<close>

definition slot_of_pc :: "worker_pc \<Rightarrow> nat option" where
  "slot_of_pc p = (case p of WGet dst \<Rightarrow> dst | WCheck i \<Rightarrow> Some i | WPublish i \<Rightarrow> Some i | _ \<Rightarrow> None)"

definition aligned :: "server \<Rightarrow> bool" where
  "aligned s = (\<forall>i. slot_of_pc (pc s) = Some i \<longrightarrow> i = dataFrameWritePointer s mod NFrames)"

definition slot_free :: "server \<Rightarrow> bool" where
  "slot_free s = (\<forall>i. slot_of_pc (pc s) = Some i \<longrightarrow> i < NFrames \<and> occupied s < NFrames)"

definition wf_shm :: "RawDataFrame list \<Rightarrow> bool" where
  "wf_shm frames = (length frames = NFrames \<and> (\<forall>slot \<in> set frames. length slot = MaxRawDataFrameSize))"

definition empty_pointers :: "server \<Rightarrow> bool" where
  "empty_pointers s = (dataFrameWritePointer s = 0 \<and> dataFrameReadPointer s = 0)"

definition control_ok :: "server \<Rightarrow> bool" where
  "control_ok s =
     (((\<exists>mode. suffix (ctl s) (DAQ_startAcquisition mode)) \<or> suffix (ctl s) DAQ_stopAcquisition) \<and>
      (case ctl s of
         AArm m # r \<Rightarrow> \<not> hasWorker s
       | ASpawn # r \<Rightarrow> \<not> hasWorker s \<and> empty_pointers s
       | _ \<Rightarrow> True))"

definition fs_inv :: "server \<Rightarrow> bool" where
  "fs_inv s =
     (wf_shm (shmPtr s) \<and> ring_ok NFrames (dataFrameWritePointer s) (dataFrameReadPointer s) \<and>
      slot_free s \<and> (aligned s \<or> (acquisitionMode s = 0 \<and> empty_pointers s)) \<and>
      (hasWorker s \<longleftrightarrow> pc s \<noteq> WNone) \<and> control_ok s)"

lemma NFrames_pos [simp]: "0 < NFrames"
  by (simp add: MaxRawDataFrameQueueSize_def)

lemma MaxRawDataFrameSize_ge: "2 \<le> MaxRawDataFrameSize"
  by (simp add: MaxRawDataFrameSize_def)

lemma wf_shm_update:
  "wf_shm frames \<Longrightarrow> length slot = MaxRawDataFrameSize \<Longrightarrow> wf_shm (frames[i := slot])"
  by (auto simp: wf_shm_def dest: set_update_subset_insert [THEN subsetD])

lemma wf_shm_nth: "wf_shm frames \<Longrightarrow> i < NFrames \<Longrightarrow> length (frames ! i) = MaxRawDataFrameSize"
  by (simp add: wf_shm_def)

lemma occupied_length: "length (queue s) = occupied s"
  by (simp add: queue_def fq.length_slots)

text \<open>What a stored frame looks like to the tests and to a reader.\<close>

lemma two_words: "2 \<le> length f \<Longrightarrow> \<exists>a b r. f = a # b # r"
  by (cases f; cases "tl f") auto

lemma frame_of_stored:
  assumes "consistent_frame f"
  shows "frame_of (f @ xs) = f"
proof -
  obtain a b r where f: "f = a # b # r"
    using assms two_words unfolding consistent_frame_def by blast
  then have "unat (size_of_header a) = length f"
    using assms by (simp add: consistent_frame_def)
  then have "frame_of (f @ xs) = take (length f) (f @ xs)"
    by (simp add: frame_of_def f)
  then show ?thesis
    by simp
qed

lemma keep_frame_two:
  "keep_frame m (a # b # r) =
    Some (\<not> id_of_header a < m \<and> \<not> (lost_of_header b \<and> id_of_header a mod 128 \<noteq> 0))"
  by (simp add: keep_frame_def frame_getFrameID_def frame_getFrameLost_def rd_def)

lemma keep_frame_stored: "2 \<le> length f \<Longrightarrow> keep_frame m (f @ xs) = keep_frame m f"
  by (auto dest!: two_words simp: keep_frame_two)

lemma keep_frame_total: "2 \<le> length slot \<Longrightarrow> \<exists>b. keep_frame m slot = Some b"
  by (auto dest!: two_words simp: keep_frame_two)

lemma work_frame_stored:
  assumes "wf_shm (shmPtr s)" "i < NFrames" "consistent_frame f"
  shows "work_frame (Some i) (Some f) s =
    Some (s\<lparr>shmPtr := (shmPtr s)[i := f @ drop (length f) (shmPtr s ! i)], pc := WCheck i\<rparr>)"
  using assms wf_shm_nth [OF assms(1,2)]
  by (simp add: work_frame_def copy_to_def consistent_frame_def wf_shm_def)

lemma work_frame_no_slot: "work_frame None f s = Some (s\<lparr>pc := WTop\<rparr>)"
  by (simp add: work_frame_def split: option.splits)

lemma work_frame_no_frame: "work_frame dst None s = Some (s\<lparr>pc := WTop\<rparr>)"
  by (simp add: work_frame_def)

lemma work_check_result:
  assumes "rd (shmPtr s) i = Some slot" "keep_frame (minimumFrameID s) slot = Some b"
  shows "work_check i s = Some (s\<lparr>pc := (if b then WPublish i else WTop)\<rparr>)"
  using assms by (simp add: work_check_def)

lemmas pc_slot_defs = slot_of_pc_def aligned_def slot_free_def

text \<open>Every step keeps the invariant: first the worker, \<dots>\<close>

lemma control_ok_worker:
  assumes "fs_inv s" "pc s \<noteq> WNone" "hasWorker s' = hasWorker s" "ctl s' = ctl s"
  shows "control_ok s'"
proof -
  have "control_ok s" "hasWorker s"
    using assms(1,2) by (simp_all add: fs_inv_def)
  then show ?thesis
    using assms(3,4) unfolding control_ok_def by (simp split: list.splits control.splits)
qed

lemma pc_inv:
  assumes "fs_inv s" "pc s \<noteq> WNone" "p \<noteq> WNone" "slot_of_pc p = None"
  shows "fs_inv (s\<lparr>pc := p\<rparr>)"
proof -
  have "control_ok (s\<lparr>pc := p\<rparr>)"
    using assms(2) by (intro control_ok_worker [OF assms(1)]) simp_all
  then show ?thesis
    using assms by (simp add: fs_inv_def aligned_def slot_free_def)
qed

lemma slot_of_pc_simps [simp]:
  "slot_of_pc WNone = None" "slot_of_pc WTop = None" "slot_of_pc WMode = None" "slot_of_pc WLock = None"
  "slot_of_pc (WGet dst) = dst" "slot_of_pc (WCheck i) = Some i" "slot_of_pc (WPublish i) = Some i" "slot_of_pc WExit = None"
  by (simp_all add: slot_of_pc_def)

lemma begin_inv: "fs_inv s \<Longrightarrow> pc s = WTop \<Longrightarrow> fs_inv (work_begin s)"
  unfolding work_begin_def by (rule pc_inv) simp_all

lemma mode_inv: "fs_inv s \<Longrightarrow> pc s = WMode \<Longrightarrow> fs_inv (work_mode s)"
  unfolding work_mode_def by (rule pc_inv) simp_all

lemma to_top_inv: "fs_inv s \<Longrightarrow> pc s \<noteq> WNone \<Longrightarrow> fs_inv (s\<lparr>pc := WTop\<rparr>)"
  by (rule pc_inv) simp_all

lemma choose_inv:
  assumes "fs_inv s" "pc s = WLock"
  shows "fs_inv (work_choose s)"
proof -
  have room: "\<not> isFull (dataFrameWritePointer s) (dataFrameReadPointer s) \<Longrightarrow> occupied s < NFrames"
    using assms(1) fq.not_full_room [of "dataFrameWritePointer s" "dataFrameReadPointer s"]
    by (simp add: fs_inv_def isFull_def)
  have "slot_free (work_choose s) \<and> aligned (work_choose s)"
    using room by (simp add: work_choose_def slot_free_def aligned_def)
  moreover have "control_ok (work_choose s)"
    using assms(2) by (intro control_ok_worker [OF assms(1)]) (simp_all add: work_choose_def)
  ultimately show ?thesis
    using assms by (simp add: fs_inv_def work_choose_def)
qed

lemma stored_inv:
  assumes "fs_inv s" "pc s = WGet (Some i)" "consistent_frame f"
    and "work_frame (Some i) (Some f) s = Some s'"
  shows "fs_inv s'"
proof -
  have i: "i < NFrames" "wf_shm (shmPtr s)"
    using assms(1,2) by (auto simp: fs_inv_def pc_slot_defs)
  have "length (f @ drop (length f) (shmPtr s ! i)) = MaxRawDataFrameSize"
    using assms(3) wf_shm_nth [OF i(2,1)] by (simp add: consistent_frame_def)
  then have "wf_shm ((shmPtr s)[i := f @ drop (length f) (shmPtr s ! i)])"
    using i by (intro wf_shm_update) auto
  moreover have s': "s' = s\<lparr>shmPtr := (shmPtr s)[i := f @ drop (length f) (shmPtr s ! i)], pc := WCheck i\<rparr>"
    using assms(3,4) i by (simp add: work_frame_stored)
  moreover have "control_ok s'"
    using assms(2) by (intro control_ok_worker [OF assms(1)]) (simp_all add: s')
  ultimately show ?thesis
    using assms(1,2) by (simp add: fs_inv_def pc_slot_defs empty_pointers_def)
qed

lemma checked_inv:
  assumes "fs_inv s" "pc s = WCheck i" "work_check i s = Some s'"
  shows "fs_inv s'"
proof -
  obtain b where s': "s' = s\<lparr>pc := (if b then WPublish i else WTop)\<rparr>"
    using assms(3) by (auto simp: work_check_def bind_eq_Some_conv)
  moreover have "control_ok s'"
    using assms(2) by (intro control_ok_worker [OF assms(1)]) (simp_all add: s')
  ultimately show ?thesis
    using assms(1,2) by (simp add: fs_inv_def pc_slot_defs empty_pointers_def)
qed

lemma publish_inv:
  assumes "fs_inv s" "pc s = WPublish i"
  shows "fs_inv (work_publish s)"
proof -
  have "ring_ok NFrames ((dataFrameWritePointer s + 1) mod (2 * NFrames)) (dataFrameReadPointer s)"
    using assms by (intro fq.ok_write) (auto simp: fs_inv_def pc_slot_defs)
  moreover have "control_ok (work_publish s)"
    using assms(2) by (intro control_ok_worker [OF assms(1)]) (simp_all add: work_publish_def)
  ultimately show ?thesis
    using assms by (simp add: fs_inv_def work_publish_def pc_slot_defs)
qed

text \<open>\<dots> then the reader, \<dots>\<close>

lemma control_ok_client: "ctl s = [] \<Longrightarrow> control_ok s"
  by (simp add: control_ok_def)

lemma read_empty:
  assumes "empty_pointers s" "k \<le> occupied s"
  shows "k = 0"
  using assms by (simp add: empty_pointers_def ring_count_def)

lemma read_inv:
  assumes "fs_inv s" "ctl s = []" "k \<le> occupied s"
  shows "fs_inv (setDataFrameReadPointer (dataFrameReadPointer s + k) s)"
proof -
  have ok: "ring_ok NFrames (dataFrameWritePointer s) (dataFrameReadPointer s)"
    using assms(1) by (simp add: fs_inv_def)
  have le: "occupied s - k < NFrames" if "occupied s < NFrames"
    using that by linarith
  show ?thesis
  proof (cases "aligned s")
    case True
    then show ?thesis
      using assms(1,2) fq.ok_read [OF ok assms(3)] le
      by (simp add: fs_inv_def setDataFrameReadPointer_def aligned_def slot_free_def control_ok_client
        fq.count_read [OF ok assms(3)] split: option.splits)
  next
    case False
    then have empty: "empty_pointers s"
      using assms(1) by (simp add: fs_inv_def)
    then have "k = 0" "dataFrameReadPointer s = 0"
      using read_empty [OF empty assms(3)] by (simp_all add: empty_pointers_def)
    then have "setDataFrameReadPointer (dataFrameReadPointer s + k) s = s"
      by (simp add: setDataFrameReadPointer_def)
    then show ?thesis
      using assms(1) by simp
  qed
qed

text \<open>\<dots> and last the start and stop of an acquisition, whose steps come in a fixed order.\<close>

definition control_program :: "control list \<Rightarrow> bool" where
  "control_program xs = ((\<exists>mode. suffix xs (DAQ_startAcquisition mode)) \<or> suffix xs DAQ_stopAcquisition)"

lemmas control_program_defs = control_program_def DAQ_startAcquisition_def DAQ_stopAcquisition_def
  startAcquisition_def stopAcquisition_def

lemma control_program_tl: "control_program (a # rest) \<Longrightarrow> control_program rest"
  by (auto simp: control_program_def dest: suffix_ConsD)

lemma control_before_arm: "control_program (a # AArm m # r) \<Longrightarrow> a = AJoin"
  by (auto simp: control_program_defs suffix_Cons)

lemma control_before_spawn: "control_program (a # ASpawn # r) \<Longrightarrow> \<exists>m. a = AArm m"
  by (auto simp: control_program_defs suffix_Cons)

lemma control_ok_alt:
  "control_ok s = (control_program (ctl s) \<and>
     (\<forall>m r. ctl s = AArm m # r \<longrightarrow> \<not> hasWorker s) \<and>
     (\<forall>r. ctl s = ASpawn # r \<longrightarrow> \<not> hasWorker s \<and> empty_pointers s))"
  by (auto simp: control_ok_def control_program_def split: list.splits control.splits)

lemma control_step_join: "control_step AJoin s = Some s' \<Longrightarrow> \<not> hasWorker s'"
  by (auto simp: control_step_def split: if_splits)

lemma control_step_arm:
  "control_step (AArm m) s = Some s' \<Longrightarrow> hasWorker s' = hasWorker s \<and> empty_pointers s'"
  by (auto simp: control_step_def empty_pointers_def)

lemma control_next_ok:
  assumes "control_ok s" "ctl s = a # rest" "control_step a s = Some s'"
  shows "control_ok (s'\<lparr>ctl := rest\<rparr>)"
proof -
  have program: "control_program (a # rest)"
    using assms by (simp add: control_ok_alt)
  have "\<not> hasWorker s'" if "rest = AArm m # r" for m r
    using program assms(3) that by (auto dest!: control_before_arm control_step_join)
  moreover have "\<not> hasWorker s' \<and> empty_pointers s'" if r: "rest = ASpawn # r" for r
  proof -
    obtain m where "a = AArm m"
      using program r control_before_spawn by blast
    then show ?thesis
      using assms control_step_arm [of m s s'] by (simp add: control_ok_alt)
  qed
  ultimately show ?thesis
    using control_program_tl [OF program] by (simp add: control_ok_alt empty_pointers_def)
qed

lemma fs_inv_same:
  assumes "fs_inv s" "shmPtr s' = shmPtr s" "dataFrameWritePointer s' = dataFrameWritePointer s"
    "dataFrameReadPointer s' = dataFrameReadPointer s" "pc s' = pc s" "hasWorker s' = hasWorker s"
    "acquisitionMode s' = acquisitionMode s" "control_ok s'"
  shows "fs_inv s'"
  using assms by (simp add: fs_inv_def aligned_def slot_free_def empty_pointers_def)

lemma control_inv:
  assumes "fs_inv s" "ctl s = a # rest" "control_step a s = Some s'"
  shows "fs_inv (s'\<lparr>ctl := rest\<rparr>)"
proof -
  have ok: "control_ok (s'\<lparr>ctl := rest\<rparr>)"
    using assms by (intro control_next_ok) (simp_all add: fs_inv_def)
  show ?thesis
  proof (cases a)
    case AReset
    then show ?thesis
      using assms ok
      by (auto simp: fs_inv_def control_step_def slot_free_def empty_pointers_def ring_count_def)
  next
    case (AArm m)
    then have "pc s = WNone"
      using assms(1,2) by (auto simp: fs_inv_def control_ok_alt)
    then show ?thesis
      using assms ok AArm by (auto simp: fs_inv_def control_step_def pc_slot_defs)
  next
    case ASpawn
    then have "pc s = WNone"
      using assms(1,2) by (auto simp: fs_inv_def control_ok_alt)
    then show ?thesis
      using assms ok ASpawn by (auto simp: fs_inv_def control_step_def pc_slot_defs)
  next
    case AJoin
    then show ?thesis
      using assms ok by (auto simp: fs_inv_def control_step_def pc_slot_defs split: if_splits)
  next
    case ADie
    then show ?thesis
      using assms(3) ok by (intro fs_inv_same [OF assms(1)]) (auto simp: control_step_def split: if_splits)
  next
    case (ACards on)
    then show ?thesis
      using assms(3) ok by (intro fs_inv_same [OF assms(1)]) (auto simp: control_step_def)
  qed
qed

lemma request_inv:
  assumes "fs_inv s" "ctl s = []" "program = DAQ_startAcquisition mode \<or> program = DAQ_stopAcquisition"
  shows "fs_inv (s\<lparr>ctl := program\<rparr>)"
proof -
  have "control_program program"
    using assms(3) by (auto simp: control_program_def)
  moreover have "\<forall>r. program \<noteq> ASpawn # r" "\<forall>m r. program \<noteq> AArm m # r"
    using assms(3) by (auto simp: control_program_defs)
  ultimately show ?thesis
    by (intro fs_inv_same [OF assms(1)]) (simp_all add: control_ok_alt)
qed

lemma minimum_inv: "fs_inv s \<Longrightarrow> ctl s = [] \<Longrightarrow> fs_inv (snd (setMinimumFrameID m s))"
  by (rule fs_inv_same [of s]) (simp_all add: setMinimumFrameID_def control_ok_client)

lemma step_inv: "fs_step s l s' \<Longrightarrow> fs_inv s \<Longrightarrow> fs_inv s'"
  by (induction rule: fs_step.induct)
    (auto simp: work_frame_no_frame work_frame_no_slot
      intro: begin_inv mode_inv choose_inv to_top_inv stored_inv checked_inv publish_inv read_inv minimum_inv request_inv
        control_inv)

lemma run_inv: "fs_run s tr s' \<Longrightarrow> fs_inv s \<Longrightarrow> fs_inv s'"
  by (induction rule: fs_run.induct) (auto intro: step_inv)

lemma init_inv: "wf_shm frames \<Longrightarrow> fs_inv (FrameServer_init frames idle)"
  by (simp add: fs_inv_def FrameServer_init_def pc_slot_defs control_ok_client)

section \<open>The queue is a bounded FIFO\<close>

text \<open>The slot the worker may write is never one the reader may read, even while the pointers are
  being reset under a running worker.\<close>

lemma worker_slot_unread:
  assumes "fs_inv s" "slot_of_pc (pc s) = Some i"
  shows "i \<notin> set (ring_slots NFrames (dataFrameWritePointer s) (dataFrameReadPointer s))"
proof (cases "aligned s")
  case True
  then show ?thesis
    using assms fq.free_slot [of "dataFrameWritePointer s" "dataFrameReadPointer s"]
    by (simp add: fs_inv_def aligned_def slot_free_def)
next
  case False
  then show ?thesis
    using assms(1) by (simp add: fs_inv_def empty_pointers_def)
qed

lemma queue_same:
  assumes "shmPtr s' = shmPtr s" "dataFrameWritePointer s' = dataFrameWritePointer s"
    "dataFrameReadPointer s' = dataFrameReadPointer s"
  shows "queue s' = queue s"
  using assms by (simp add: queue_def)

lemma queue_stored:
  assumes "fs_inv s" "pc s = WGet (Some i)" "consistent_frame f"
    and "work_frame (Some i) (Some f) s = Some s'"
  shows "queue s' = queue s" "shmPtr s' ! i = f @ drop (length f) (shmPtr s ! i)" "pc s' = WCheck i"
    "dataFrameWritePointer s' = dataFrameWritePointer s" "hasWorker s' = hasWorker s" "ctl s' = ctl s"
    "die s' = die s"
proof -
  have i: "i < NFrames" "wf_shm (shmPtr s)" and slot: "slot_of_pc (pc s) = Some i"
    using assms(1,2) by (auto simp: fs_inv_def pc_slot_defs)
  have s': "s' = s\<lparr>shmPtr := (shmPtr s)[i := f @ drop (length f) (shmPtr s ! i)], pc := WCheck i\<rparr>"
    using assms(3,4) i by (simp add: work_frame_stored)
  show "queue s' = queue s"
    unfolding queue_def s' using worker_slot_unread [OF assms(1) slot]
    by (auto intro!: arg_cong [of _ _ frame_of] nth_list_update_neq)
  show "shmPtr s' ! i = f @ drop (length f) (shmPtr s ! i)"
    using i by (simp add: s' wf_shm_def)
qed (use assms in \<open>auto simp: work_frame_def bind_eq_Some_conv\<close>)

lemma queue_publish:
  assumes "fs_inv s" "pc s = WPublish i"
  shows "queue (work_publish s) =
    queue s @ [frame_of (shmPtr s ! (dataFrameWritePointer s mod NFrames))]" "occupied s < NFrames"
proof -
  show *: "occupied s < NFrames"
    using assms by (simp add: fs_inv_def pc_slot_defs)
  have "ring_ok NFrames (dataFrameWritePointer s) (dataFrameReadPointer s)"
    using assms(1) by (simp add: fs_inv_def)
  from fq.slots_write [OF this *]
  show "queue (work_publish s) =
    queue s @ [frame_of (shmPtr s ! (dataFrameWritePointer s mod NFrames))]"
    by (simp add: queue_def work_publish_def)
qed

lemma queue_read:
  assumes "fs_inv s" "k \<le> occupied s"
  shows "queue (setDataFrameReadPointer (dataFrameReadPointer s + k) s) = drop k (queue s)"
proof -
  have "ring_ok NFrames (dataFrameWritePointer s) (dataFrameReadPointer s)"
    using assms(1) by (simp add: fs_inv_def)
  from fq.slots_read [OF this assms(2)] show ?thesis
    by (simp add: queue_def setDataFrameReadPointer_def drop_map)
qed

lemma queue_control:
  assumes "control_step a s = Some s'"
  shows "queue (s'\<lparr>ctl := rest\<rparr>) = queue s \<or> queue (s'\<lparr>ctl := rest\<rparr>) = []"
  using assms by (cases a) (auto simp: control_step_def queue_def split: if_splits)

lemma queue_step:
  assumes "fs_step s l s'" "fs_inv s"
  shows "fifo_step NFrames (queue s) (queue s')"
  using assms
proof (induction rule: fs_step.induct)
  case (fs_no_frame s dst s')
  then show ?case
    by (auto simp: work_frame_no_frame queue_same [of "_\<lparr>pc := WTop\<rparr>"] fifo_idle)
next
  case (fs_dropped s f s')
  then show ?case
    by (auto simp: work_frame_no_slot queue_same [of "_\<lparr>pc := WTop\<rparr>"] fifo_idle)
next
  case (fs_stored s i f s')
  then show ?case
    using queue_stored(1) [of s i f s'] by (simp add: fifo_idle)
next
  case (fs_checked s i slot b s')
  then have "queue s' = queue s"
    by (auto simp: work_check_result intro!: queue_same)
  then show ?case
    by (simp add: fifo_idle)
next
  case (fs_publish s i)
  then show ?case
    using queue_publish [of s i] by (simp add: fifo_put occupied_length)
next
  case (fs_read s k)
  then show ?case
    by (simp add: queue_read occupied_length fifo_get)
next
  case (fs_control s a rest s')
  then show ?case
    using queue_control [of a s s' rest] fifo_idle fifo_reset by metis
qed (simp_all add: setMinimumFrameID_def work_begin_def work_mode_def work_choose_def queue_same [of "_\<lparr>pc := _\<rparr>"]
  queue_same [of "_\<lparr>ctl := _\<rparr>"] queue_same [of "_\<lparr>minimumFrameID := _\<rparr>"] fifo_idle)

text \<open>C14: Every step that worker, reader and control thread can make in a state that is reachable after
  the server is created, in any interleaving, is a step of a first-in first-out queue of at most
  \<open>MaxRawDataFrameQueueSize\<close> frames: it leaves the queued frames alone, appends one when there is
  room, removes some from the front when the reader moves its pointer, or empties the queue. And
  the state before the step and the state after it keep the invariant: the memory keeps its size, the pointers
  are those of a ring, a slot the worker holds is free, and starting and stopping come in their order.\<close>

theorem queue_refines_fifo:
  assumes "wf_shm frames" "fs_run (FrameServer_init frames idle) tr s" "fs_step s l s'"
  shows "fifo_step NFrames (queue s) (queue s') \<and> fs_inv s \<and> fs_inv s'"
  using queue_step [OF assms(3)] step_inv [OF assms(3)] run_inv [OF assms(2)] init_inv [OF assms(1)] by blast

section \<open>An acquisition\<close>

definition acquiring :: "fs_label \<Rightarrow> bool" where
  "acquiring l = (l \<noteq> LRequest \<and> l \<noteq> LControl)"

definition stored :: "fs_label list \<Rightarrow> u64 list list" where
  "stored tr = concat (map (\<lambda>l. case l of LStored f \<Rightarrow> [f] | _ \<Rightarrow> []) tr)"

definition verdicts :: "fs_label list \<Rightarrow> (u64 \<times> u64 list \<times> bool) list" where
  "verdicts tr = concat (map (\<lambda>l. case l of LChecked m f b \<Rightarrow> [(m, f, b)] | _ \<Rightarrow> []) tr)"

definition accepted :: "fs_label list \<Rightarrow> u64 list list" where
  "accepted tr = map (fst \<circ> snd) (filter (snd \<circ> snd) (verdicts tr))"

definition taken :: "fs_label list \<Rightarrow> u64 list list" where
  "taken tr = concat (map (\<lambda>l. case l of LTaken fs \<Rightarrow> fs | _ \<Rightarrow> []) tr)"

definition untested :: "server \<Rightarrow> u64 list list" where
  "untested s = (case pc s of WCheck i \<Rightarrow> [frame_of (shmPtr s ! i)] | _ \<Rightarrow> [])"

definition unpublished :: "server \<Rightarrow> u64 list list" where
  "unpublished s = (case pc s of WPublish i \<Rightarrow> [frame_of (shmPtr s ! i)] | _ \<Rightarrow> [])"

lemma trace_simps [simp]:
  "stored [] = []" "verdicts [] = []" "taken [] = []" "accepted [] = []"
  "stored (tr @ [LStored f]) = stored tr @ [f]"
  "verdicts (tr @ [LChecked m f b]) = verdicts tr @ [(m, f, b)]"
  "accepted (tr @ [LChecked m f b]) = accepted tr @ (if b then [f] else [])"
  "taken (tr @ [LTaken fs]) = taken tr @ fs"
  by (simp_all add: stored_def verdicts_def taken_def accepted_def)

lemma trace_other [simp]:
  "\<forall>f. l \<noteq> LStored f \<Longrightarrow> stored (tr @ [l]) = stored tr"
  "\<forall>m f b. l \<noteq> LChecked m f b \<Longrightarrow> verdicts (tr @ [l]) = verdicts tr"
  "\<forall>m f b. l \<noteq> LChecked m f b \<Longrightarrow> accepted (tr @ [l]) = accepted tr"
  "\<forall>fs. l \<noteq> LTaken fs \<Longrightarrow> taken (tr @ [l]) = taken tr"
  by (simp_all add: stored_def verdicts_def taken_def accepted_def split: fs_label.splits)

text \<open>What a run without starts and stops keeps: the frames read, those in the queue and the one
  about to be published are the accepted frames, and each stored frame has been tested, but for the
  one the worker stands at.\<close>

definition fifo_inv :: "fs_label list \<Rightarrow> server \<Rightarrow> bool" where
  "fifo_inv tr s =
     (fs_inv s \<and> aligned s \<and> ctl s = [] \<and>
      taken tr @ queue s @ unpublished s = accepted tr \<and>
      stored tr = map (fst \<circ> snd) (verdicts tr) @ untested s \<and>
      (\<forall>i. pc s = WCheck i \<longrightarrow> (\<exists>f xs. consistent_frame f \<and> shmPtr s ! i = f @ xs)) \<and>
      (\<forall>(m, f, b) \<in> set (verdicts tr). keep_frame m f = Some b))"

lemma fifo_pc:
  assumes "fifo_inv tr s" "untested s = []" "unpublished s = []" "\<forall>i. p \<noteq> WCheck i \<and> p \<noteq> WPublish i"
    and "fs_inv (s\<lparr>pc := p\<rparr>)" "aligned (s\<lparr>pc := p\<rparr>)"
  shows "fifo_inv (tr @ [LWorker]) (s\<lparr>pc := p\<rparr>)"
proof -
  have "queue (s\<lparr>pc := p\<rparr>) = queue s"
    by (rule queue_same) simp_all
  moreover have "untested (s\<lparr>pc := p\<rparr>) = []" "unpublished (s\<lparr>pc := p\<rparr>) = []"
    using assms(4) by (simp_all add: untested_def unpublished_def split: worker_pc.splits)
  ultimately show ?thesis
    using assms by (simp add: fifo_inv_def)
qed

lemma fifo_begin: "fifo_inv tr s \<Longrightarrow> pc s = WTop \<Longrightarrow> fifo_inv (tr @ [LWorker]) (work_begin s)"
  using begin_inv [of s] unfolding work_begin_def
  by (intro fifo_pc) (simp_all add: fifo_inv_def untested_def unpublished_def aligned_def)

lemma fifo_mode: "fifo_inv tr s \<Longrightarrow> pc s = WMode \<Longrightarrow> fifo_inv (tr @ [LWorker]) (work_mode s)"
  using mode_inv [of s] unfolding work_mode_def
  by (intro fifo_pc) (simp_all add: fifo_inv_def untested_def unpublished_def aligned_def)

lemma fifo_choose: "fifo_inv tr s \<Longrightarrow> pc s = WLock \<Longrightarrow> fifo_inv (tr @ [LWorker]) (work_choose s)"
  using choose_inv [of s] unfolding work_choose_def
  by (intro fifo_pc) (simp_all add: fifo_inv_def untested_def unpublished_def aligned_def)

lemma fifo_to_top:
  assumes "fifo_inv tr s" "pc s = WGet dst" "l = LWorker \<or> l = LDropped f"
  shows "fifo_inv (tr @ [l]) (s\<lparr>pc := WTop\<rparr>)"
proof -
  have "queue (s\<lparr>pc := WTop\<rparr>) = queue s"
    by (rule queue_same) simp_all
  then show ?thesis
    using assms to_top_inv [of s]
    by (auto simp: fifo_inv_def untested_def unpublished_def pc_slot_defs)
qed

lemma fifo_stored:
  assumes "fifo_inv tr s" "pc s = WGet (Some i)" "consistent_frame f"
    and "work_frame (Some i) (Some f) s = Some s'"
  shows "fifo_inv (tr @ [LStored f]) s'"
proof -
  have inv: "fs_inv s" "aligned s"
    using assms(1) by (simp_all add: fifo_inv_def)
  note after = queue_stored [OF inv(1) assms(2-4)]
  have "frame_of (shmPtr s' ! i) = f"
    using after(2) frame_of_stored [OF assms(3)] by simp
  then have "untested s' = [f]" "unpublished s' = []" "untested s = []" "unpublished s = []" "aligned s'"
    using after assms(2) inv(2) by (simp_all add: untested_def unpublished_def pc_slot_defs)
  moreover have "fs_inv s'"
    by (rule stored_inv [OF inv(1) assms(2-4)])
  ultimately show ?thesis
    using assms(1,3) after by (auto simp: fifo_inv_def)
qed

lemma fifo_checked:
  assumes "fifo_inv tr s" "pc s = WCheck i" "rd (shmPtr s) i = Some slot"
    and "keep_frame (minimumFrameID s) slot = Some b" "work_check i s = Some s'"
  shows "fifo_inv (tr @ [LChecked (minimumFrameID s) (frame_of slot) b]) s'"
proof -
  have inv: "fs_inv s"
    using assms(1) by (simp add: fifo_inv_def)
  obtain f xs where f: "consistent_frame f" "shmPtr s ! i = f @ xs"
    using assms(1,2) by (auto simp: fifo_inv_def)
  have slot: "slot = shmPtr s ! i"
    using assms(3) by (simp add: rd_Some_iff)
  then have "keep_frame (minimumFrameID s) (frame_of slot) = Some b"
    using assms(4) f frame_of_stored [OF f(1), of xs] keep_frame_stored [of f _ xs]
    by (simp add: consistent_frame_def)
  moreover have s': "s' = s\<lparr>pc := (if b then WPublish i else WTop)\<rparr>"
    using assms(5) work_check_result [OF assms(3,4)] by simp
  then have "queue s' = queue s" "untested s' = []" "unpublished s' = (if b then [frame_of slot] else [])"
    using slot by (auto simp: untested_def unpublished_def intro!: queue_same)
  moreover have "untested s = [frame_of slot]" "unpublished s = []"
    using assms(2) slot by (simp_all add: untested_def unpublished_def)
  moreover have "aligned s'" "ctl s' = ctl s" "\<forall>i. pc s' \<noteq> WCheck i"
    using assms(1,2) by (simp_all add: s' fifo_inv_def pc_slot_defs)
  moreover have "fs_inv s'"
    by (rule checked_inv [OF inv assms(2,5)])
  ultimately show ?thesis
    using assms(1) by (auto simp: fifo_inv_def)
qed

lemma fifo_publish:
  assumes "fifo_inv tr s" "pc s = WPublish i"
  shows "fifo_inv (tr @ [LPublish]) (work_publish s)"
proof -
  have inv: "fs_inv s" and i: "i = dataFrameWritePointer s mod NFrames"
    using assms by (simp_all add: fifo_inv_def pc_slot_defs)
  have "fs_inv (work_publish s)"
    using inv assms(2) by (rule publish_inv)
  then show ?thesis
    using assms queue_publish(1) [OF inv assms(2)] i
    by (simp add: fifo_inv_def untested_def unpublished_def pc_slot_defs)
      (simp add: work_publish_def)
qed

lemma fifo_read:
  assumes "fifo_inv tr s" "k \<le> occupied s"
  shows "fifo_inv (tr @ [LTaken (take k (queue s))])
    (setDataFrameReadPointer (dataFrameReadPointer s + k) s)"
proof -
  let ?s = "setDataFrameReadPointer (dataFrameReadPointer s + k) s"
  have inv: "fs_inv s" "ctl s = []"
    using assms(1) by (simp_all add: fifo_inv_def)
  have "untested ?s = untested s" "unpublished ?s = unpublished s" "aligned ?s = aligned s"
    "ctl ?s = ctl s" "pc ?s = pc s" "shmPtr ?s = shmPtr s"
    by (simp_all add: setDataFrameReadPointer_def untested_def unpublished_def aligned_def
      split: worker_pc.splits)
  moreover have split: "take k (queue s) @ drop k (queue s) @ xs = queue s @ xs" for xs
    by (metis append_assoc append_take_drop_id)
  ultimately show ?thesis
    using assms(1) queue_read [OF inv(1) assms(2)] read_inv [OF inv assms(2)]
    by (simp add: fifo_inv_def split)
qed

lemma fifo_minimum:
  assumes "fifo_inv tr s"
  shows "fifo_inv (tr @ [LClient]) (snd (setMinimumFrameID m s))"
proof -
  let ?s = "snd (setMinimumFrameID m s)"
  have "untested ?s = untested s" "unpublished ?s = unpublished s" "aligned ?s = aligned s"
    "ctl ?s = ctl s" "pc ?s = pc s" "shmPtr ?s = shmPtr s" "queue ?s = queue s"
    by (simp_all add: setMinimumFrameID_def untested_def unpublished_def aligned_def queue_def
      split: worker_pc.splits)
  then show ?thesis
    using assms minimum_inv [of s m] by (simp add: fifo_inv_def)
qed

lemma fifo_step_inv:
  assumes "fs_step s l s'" "fifo_inv tr s" "acquiring l"
  shows "fifo_inv (tr @ [l]) s'"
  using assms
  by (induction rule: fs_step.induct)
    (auto simp: work_frame_no_frame work_frame_no_slot acquiring_def
      intro: fifo_begin fifo_mode fifo_choose fifo_to_top fifo_stored fifo_checked fifo_publish fifo_read fifo_minimum)

lemma fifo_run_inv:
  assumes "fs_run s tr s'" "list_all acquiring tr" "fifo_inv [] s"
  shows "fifo_inv tr s'"
  using assms by (induction rule: fs_run.induct) (auto intro: fifo_step_inv)

text \<open>A started acquisition starts with an empty queue and a worker at the head of its loop.\<close>

lemma started_fifo:
  assumes "fs_inv s" "ctl s = [ASpawn]" "control_step ASpawn s = Some s'"
  shows "fifo_inv [] (s'\<lparr>ctl := []\<rparr>)"
proof -
  have "fs_inv (s'\<lparr>ctl := []\<rparr>)"
    using assms by (rule control_inv)
  moreover have "\<not> hasWorker s" "empty_pointers s"
    using assms(1,2) by (auto simp: fs_inv_def control_ok_alt)
  ultimately show ?thesis
    using assms(3) by (auto simp: fifo_inv_def control_step_def pc_slot_defs untested_def unpublished_def
      queue_def empty_pointers_def)
qed

text \<open>C11: From the moment an acquisition has been started, whatever happened before and however the
  worker, the reader and changes of the minimum frame number interleave, the frames the reader has
  taken followed by those still queued (and the one being published) are exactly the frames that
  passed the test of the worker, each once and in the order the card delivered them; every frame
  stored in a slot is tested, and it passes iff it is not older than the minimum and not a lost
  frame whose number is no multiple of 128.\<close>

theorem acquisition_is_fifo:
  assumes "wf_shm frames" "fs_run (FrameServer_init frames idle) before s0"
    and "ctl s0 = [ASpawn]" "control_step ASpawn s0 = Some s1"
    and "fs_run (s1\<lparr>ctl := []\<rparr>) tr s" "list_all acquiring tr"
  shows "taken tr @ queue s @ unpublished s = accepted tr \<and>
    stored tr = map (fst \<circ> snd) (verdicts tr) @ untested s \<and>
    (\<forall>(m, f, b) \<in> set (verdicts tr). keep_frame m f = Some b)"
proof -
  have "fs_inv s0"
    using assms(1,2) by (intro run_inv [OF assms(2)] init_inv)
  then have "fifo_inv tr s"
    using assms by (intro fifo_run_inv [OF assms(5,6)] started_fifo)
  then show ?thesis
    by (simp add: fifo_inv_def)
qed

section \<open>Concrete runs\<close>

text \<open>Consecutive steps of the control thread, and the state of a running acquisition.\<close>

fun control_steps :: "control list \<Rightarrow> server \<Rightarrow> server option" where
  "control_steps [] s = Some s"
| "control_steps (a # as) s =
     (case control_step a s of None \<Rightarrow> None | Some s' \<Rightarrow> control_steps as (s'\<lparr>ctl := tl (ctl s)\<rparr>))"

lemma control_steps_run:
  assumes "fs_run s0 tr s" "ctl s = as @ rest" "control_steps as s = Some s'"
  shows "fs_run s0 (tr @ replicate (length as) LControl) s'"
  using assms
proof (induction as arbitrary: tr s)
  case (Cons a as)
  obtain t where t: "control_step a s = Some t" "control_steps as (t\<lparr>ctl := tl (ctl s)\<rparr>) = Some s'"
    using Cons.prems(3) by (auto split: option.splits)
  have "fs_run s0 (tr @ [LControl]) (t\<lparr>ctl := as @ rest\<rparr>)"
    using Cons.prems(1,2) t(1) by (auto intro: fs_snoc fs_control)
  then show ?case
    using Cons.IH [of "tr @ [LControl]" "t\<lparr>ctl := as @ rest\<rparr>"] Cons.prems(2) t(2) by simp
qed simp

definition acquisition :: "RawDataFrame list \<Rightarrow> u32 \<Rightarrow> nat \<Rightarrow> nat \<Rightarrow> worker_pc \<Rightarrow> server" where
  "acquisition frames idle w r p =
     \<lparr>shmPtr = frames, dataFrameWritePointer = w, dataFrameReadPointer = r, acquisitionMode = 1,
      minimumFrameID = 0, idleTimeMode = idle, hasWorker = True, die = False,
      pc = p, ctl = [], cardsOn = True\<rparr>"

lemma start_run:
  "\<exists>tr s0 s1. fs_run (FrameServer_init frames idle) tr s0 \<and> ctl s0 = [ASpawn] \<and> taken tr = [] \<and>
     control_step ASpawn s0 = Some s1 \<and> s1\<lparr>ctl := []\<rparr> = acquisition frames idle 0 0 WTop"
proof -
  let ?i = "FrameServer_init frames idle"
  let ?r = "?i\<lparr>ctl := DAQ_startAcquisition 1\<rparr>"
  let ?cs = "[AReset, ADie, AJoin, ACards False, ACards True, AReset, ADie, AJoin, AArm 1]"
  let ?s = "?i\<lparr>acquisitionMode := 1, cardsOn := True, ctl := [ASpawn]\<rparr>"
  have "fs_run ?i ([] @ [LRequest]) ?r"
    by (rule fs_snoc [OF fs_nil fs_start]) (simp add: FrameServer_init_def)
  moreover have "control_steps ?cs ?r = Some ?s"
    by (simp add: FrameServer_init_def control_step_def control_program_defs)
  ultimately have "fs_run ?i ([LRequest] @ replicate (length ?cs) LControl) ?s"
    by (intro control_steps_run [where rest = "[ASpawn]"]) (simp_all add: control_program_defs)
  moreover have "taken ([LRequest] @ replicate (length ?cs) LControl) = []"
    by (simp add: taken_def)
  ultimately show ?thesis
    by (intro exI [of _ "[LRequest] @ replicate (length ?cs) LControl"] exI [of _ ?s]
      exI [of _ "?s\<lparr>die := False, pc := WTop, hasWorker := True\<rparr>"])
      (simp add: FrameServer_init_def control_step_def acquisition_def)
qed

text \<open>The three steps of a worker that chooses a slot.\<close>

lemma choose_run:
  "dataFrameWritePointer s = dataFrameReadPointer s \<Longrightarrow> pc s = WTop \<Longrightarrow> \<not> die s \<Longrightarrow> acquisitionMode s \<noteq> 0 \<Longrightarrow>
   fs_run s [LWorker, LWorker, LWorker] (s\<lparr>pc := WGet (Some (dataFrameWritePointer s mod NFrames))\<rparr>)"
  using fs_snoc [OF fs_snoc [OF fs_snoc [OF fs_nil fs_begin [of s]] fs_mode [of "work_begin s"]] fs_choose [of "work_mode (work_begin s)"]]
  by (simp add: work_begin_def work_mode_def work_choose_def isFull_def)

text \<open>The worker fetches, stores, tests and publishes a frame.\<close>

lemma deliver_run:
  assumes "wf_shm frames" "consistent_frame f" "keep_frame 0 f = Some True"
  shows "\<exists>frames'. fs_run (acquisition frames idle 0 0 WTop)
      [LWorker, LWorker, LWorker, LStored f, LChecked 0 f True, LPublish] (acquisition frames' idle 1 0 WTop) \<and>
    wf_shm frames' \<and> frame_of (frames' ! 0) = f"
proof -
  let ?f = "f @ drop (length f) (frames ! 0)"
  let ?fs = "frames[0 := ?f]"
  have len: "length frames = NFrames" and two: "2 \<le> length f"
    using assms by (auto simp: wf_shm_def consistent_frame_def)
  have frame: "frame_of ?f = f"
    using frame_of_stored [OF assms(2)] .
  have nth: "?fs ! 0 = ?f"
    using len by simp
  have "length ?f = MaxRawDataFrameSize"
    using assms(2) wf_shm_nth [OF assms(1), of 0] by (simp add: consistent_frame_def)
  then have wf: "wf_shm ?fs"
    using assms(1) by (intro wf_shm_update) auto
  have 1: "fs_run (acquisition frames idle 0 0 WTop) [LWorker, LWorker, LWorker] (acquisition frames idle 0 0 (WGet (Some 0)))"
    using choose_run [of "acquisition frames idle 0 0 WTop"] by (simp add: acquisition_def)
  have 2: "fs_step (acquisition frames idle 0 0 (WGet (Some 0))) (LStored f)
      (acquisition ?fs idle 0 0 (WCheck 0))"
    using fs_stored [of "acquisition frames idle 0 0 (WGet (Some 0))" 0 f] assms(1,2)
      work_frame_stored [of "acquisition frames idle 0 0 (WGet (Some 0))" 0 f]
    by (simp add: acquisition_def)
  have 3: "fs_step (acquisition ?fs idle 0 0 (WCheck 0)) (LChecked 0 f True)
      (acquisition ?fs idle 0 0 (WPublish 0))"
  proof -
    have "keep_frame 0 ?f = Some True"
      using assms(3) keep_frame_stored [OF two] by simp
    then show ?thesis
      using fs_checked [of "acquisition ?fs idle 0 0 (WCheck 0)" 0 ?f True] frame nth len
      by (simp add: acquisition_def work_check_def)
  qed
  have 4: "fs_step (acquisition ?fs idle 0 0 (WPublish 0)) LPublish (acquisition ?fs idle 1 0 WTop)"
    using fs_publish [of "acquisition ?fs idle 0 0 (WPublish 0)" 0]
    by (simp add: acquisition_def work_publish_def MaxRawDataFrameQueueSize_def)
  show ?thesis
    using fs_snoc [OF fs_snoc [OF fs_snoc [OF 1 2] 3] 4] wf frame nth by auto
qed

text \<open>A stop that meets the worker after it has chosen a slot.\<close>

definition stopping :: "RawDataFrame list \<Rightarrow> u32 \<Rightarrow> nat \<Rightarrow> bool \<Rightarrow> worker_pc \<Rightarrow> control list \<Rightarrow> server" where
  "stopping frames idle w d p cs =
     \<lparr>shmPtr = frames, dataFrameWritePointer = w, dataFrameReadPointer = 0, acquisitionMode = 0,
      minimumFrameID = 0, idleTimeMode = idle, hasWorker = True, die = d,
      pc = p, ctl = cs, cardsOn = True\<rparr>"

abbreviation stop_rest :: "control list" where
  "stop_rest \<equiv> [ADie, AJoin, ACards False]"

lemma interrupted_store:
  assumes "wf_shm frames" "consistent_frame f"
  shows "fs_run (acquisition frames idle 1 1 WTop) [LWorker, LWorker, LWorker, LRequest, LControl, LStored f]
    (stopping (frames[1 := f @ drop (length f) (frames ! 1)]) idle 0 False (WCheck 1) stop_rest)"
proof -
  let ?fs = "frames[1 := f @ drop (length f) (frames ! 1)]"
  let ?a = "acquisition frames idle 1 1"
  have one: "1 < NFrames"
    by (simp add: MaxRawDataFrameQueueSize_def)
  have 1: "fs_run (?a WTop) [LWorker, LWorker, LWorker] (?a (WGet (Some 1)))"
    using choose_run [of "?a WTop"] one by (simp add: acquisition_def)
  have 2: "fs_step (?a (WGet (Some 1))) LRequest ((?a (WGet (Some 1)))\<lparr>ctl := DAQ_stopAcquisition\<rparr>)"
    by (rule fs_stop) (simp add: acquisition_def)
  have 3: "fs_step ((?a (WGet (Some 1)))\<lparr>ctl := DAQ_stopAcquisition\<rparr>) LControl
      (stopping frames idle 0 False (WGet (Some 1)) stop_rest)"
    using fs_control [of "(?a (WGet (Some 1)))\<lparr>ctl := DAQ_stopAcquisition\<rparr>" AReset stop_rest]
    by (simp add: acquisition_def stopping_def control_step_def control_program_defs)
  have 4: "fs_step (stopping frames idle 0 False (WGet (Some 1)) stop_rest) (LStored f)
      (stopping ?fs idle 0 False (WCheck 1) stop_rest)"
    using fs_stored [of "stopping frames idle 0 False (WGet (Some 1)) stop_rest" 1 f] assms(1,2) one
      work_frame_stored [of "stopping frames idle 0 False (WGet (Some 1)) stop_rest" 1 f]
    by (simp add: stopping_def)
  show ?thesis
    using fs_snoc [OF fs_snoc [OF fs_snoc [OF 1 2] 3] 4] by simp
qed

lemma interrupted_publish:
  assumes "length frames = NFrames" "keep_frame 0 (frames ! 1) = Some True"
  shows "fs_run (stopping frames idle 0 False (WCheck 1) stop_rest)
    [LChecked 0 (frame_of (frames ! 1)) True, LPublish, LControl, LWorker, LControl, LControl]
    ((stopping frames idle 1 True WNone [])\<lparr>hasWorker := False, cardsOn := False\<rparr>)"
proof -
  have one: "1 < NFrames"
    by (simp add: MaxRawDataFrameQueueSize_def)
  have 5: "fs_step (stopping frames idle 0 False (WCheck 1) stop_rest) (LChecked 0 (frame_of (frames ! 1)) True)
      (stopping frames idle 0 False (WPublish 1) stop_rest)"
    using fs_checked [of "stopping frames idle 0 False (WCheck 1) stop_rest" 1 "frames ! 1" True] assms one
    by (simp add: stopping_def work_check_def)
  have 6: "fs_step (stopping frames idle 0 False (WPublish 1) stop_rest) LPublish
      (stopping frames idle 1 False WTop stop_rest)"
    using fs_publish [of "stopping frames idle 0 False (WPublish 1) stop_rest" 1]
    by (simp add: stopping_def work_publish_def MaxRawDataFrameQueueSize_def)
  have 7: "fs_step (stopping frames idle 1 False WTop stop_rest) LControl
      (stopping frames idle 1 True WTop [AJoin, ACards False])"
    using fs_control [of "stopping frames idle 1 False WTop stop_rest" ADie "[AJoin, ACards False]"]
    by (simp add: stopping_def control_step_def)
  have 8: "fs_step (stopping frames idle 1 True WTop [AJoin, ACards False]) LWorker
      (stopping frames idle 1 True WExit [AJoin, ACards False])"
    using fs_begin [of "stopping frames idle 1 True WTop [AJoin, ACards False]"]
    by (simp add: stopping_def work_begin_def)
  have "fs_run (stopping frames idle 0 False (WCheck 1) stop_rest)
      [LChecked 0 (frame_of (frames ! 1)) True, LPublish, LControl, LWorker]
      (stopping frames idle 1 True WExit [AJoin, ACards False])"
    using fs_snoc [OF fs_snoc [OF fs_snoc [OF fs_snoc [OF fs_nil 5] 6] 7] 8] by simp
  from control_steps_run [OF this, of "[AJoin, ACards False]" "[]"] show ?thesis
    by (simp add: stopping_def control_step_def)
qed

lemma fs_run_trans: "fs_run t tr' u \<Longrightarrow> fs_run s tr t \<Longrightarrow> fs_run s (tr @ tr') u"
  by (induction rule: fs_run.induct) (auto simp flip: append_assoc intro: fs_snoc)

lemma interrupted_run:
  assumes "wf_shm frames" "consistent_frame f" "keep_frame 0 f = Some True"
  shows "\<exists>tr s. fs_run (acquisition frames idle 1 1 WTop) tr s \<and> ctl s = [] \<and> \<not> hasWorker s \<and>
    taken tr = [] \<and> queue s = [frame_of (frames ! 0)]"
proof -
  let ?f = "f @ drop (length f) (frames ! 1)"
  let ?fs = "frames[1 := ?f]"
  let ?final = "(stopping ?fs idle 1 True WNone [])\<lparr>hasWorker := False, cardsOn := False\<rparr>"
  have len: "length frames = NFrames" and two: "2 \<le> length f" and one: "1 < NFrames"
    using assms by (auto simp: wf_shm_def consistent_frame_def MaxRawDataFrameQueueSize_def)
  have nth: "?fs ! 1 = ?f" "?fs ! 0 = frames ! 0"
    using len one by simp_all
  have "keep_frame 0 (?fs ! 1) = Some True"
    using assms(3) keep_frame_stored [OF two] nth(1) by simp
  then have "fs_run (acquisition frames idle 1 1 WTop)
      ([LWorker, LWorker, LWorker, LRequest, LControl, LStored f] @
       [LChecked 0 (frame_of (?fs ! 1)) True, LPublish, LControl, LWorker, LControl, LControl]) ?final"
    using assms(1,2) len by (intro fs_run_trans [OF interrupted_publish interrupted_store]) simp_all
  moreover have "queue ?final = [frame_of (frames ! 0)]"
    using nth(2) by (simp add: queue_def stopping_def ring_slots_def ring_count_def
      MaxRawDataFrameQueueSize_def)
  moreover have "ctl ?final = []" "\<not> hasWorker ?final"
    by (simp_all add: stopping_def)
  moreover have "taken ([LWorker, LWorker, LWorker, LRequest, LControl, LStored f] @
       [LChecked 0 (frame_of (?fs ! 1)) True, LPublish, LControl, LWorker, LControl, LControl]) = []"
    by (simp add: taken_def)
  ultimately show ?thesis
    by blast
qed

lemma taken_append: "taken (xs @ ys) = taken xs @ taken ys"
  by (simp add: taken_def)

lemma read_run:
  assumes "wf_shm frames" "frame_of (frames ! 0) = f"
  shows "fs_run (acquisition frames idle 1 0 WTop) [LTaken [f]] (acquisition frames idle 1 1 WTop)"
proof -
  have "queue (acquisition frames idle 1 0 WTop) = [f]" "occupied (acquisition frames idle 1 0 WTop) = 1"
    using assms(2) by (simp_all add: queue_def acquisition_def ring_slots_def ring_count_def
      MaxRawDataFrameQueueSize_def)
  then have "fs_step (acquisition frames idle 1 0 WTop) (LTaken [f]) (acquisition frames idle 1 1 WTop)"
    using fs_read [of "acquisition frames idle 1 0 WTop" 1]
    by (simp add: acquisition_def setDataFrameReadPointer_def MaxRawDataFrameQueueSize_def)
  then show ?thesis
    using fs_snoc [OF fs_nil] by fastforce
qed

text \<open>A stop does not leave an empty queue behind: \<open>stopAcquisition\<close> resets the pointers before
  it joins the worker, and a worker that has already chosen its slot publishes afterwards. The
  server is then not acquiring and shows one queued frame, which is whatever slot 0 holds: here the
  frame the reader has taken before.\<close>

theorem stopped_queue_replays_frame:
  assumes "wf_shm frames" "consistent_frame f" "keep_frame 0 f = Some True"
  shows "\<exists>tr s. fs_run (FrameServer_init frames idle) tr s \<and> ctl s = [] \<and> \<not> amAcquiring s \<and>
    taken tr = [f] \<and> queue s = [f]"
proof -
  obtain tr1 s0 s1 where start: "fs_run (FrameServer_init frames idle) tr1 s0" "ctl s0 = [ASpawn]"
    "taken tr1 = []" "control_step ASpawn s0 = Some s1" "s1\<lparr>ctl := []\<rparr> = acquisition frames idle 0 0 WTop"
    using start_run by blast
  obtain frames' where deliver: "fs_run (acquisition frames idle 0 0 WTop)
      [LWorker, LWorker, LWorker, LStored f, LChecked 0 f True, LPublish] (acquisition frames' idle 1 0 WTop)"
    "wf_shm frames'" "frame_of (frames' ! 0) = f"
    using deliver_run [OF assms] by blast
  obtain tr2 s where stop: "fs_run (acquisition frames' idle 1 1 WTop) tr2 s" "ctl s = []"
    "\<not> hasWorker s" "taken tr2 = []" "queue s = [f]"
    using interrupted_run [OF deliver(2) assms(2,3)] deliver(3) by metis
  have "fs_run (FrameServer_init frames idle) (tr1 @ [LControl]) (acquisition frames idle 0 0 WTop)"
    using fs_snoc [OF start(1) fs_control [OF start(2,4)]] start(5) by simp
  note run = fs_run_trans [OF stop(1) fs_run_trans [OF read_run [OF deliver(2,3)]
    fs_run_trans [OF deliver(1) this]]]
  have "taken ((((tr1 @ [LControl]) @ [LWorker, LWorker, LWorker, LStored f, LChecked 0 f True, LPublish]) @ [LTaken [f]]) @ tr2) = [f]"
    using start(3) stop(4) by (simp only: taken_append) (simp add: taken_def)
  then show ?thesis
    using run stop(2,3,5) unfolding amAcquiring_def by blast
qed

section \<open>The properties at a concrete input\<close>

definition blank_frames :: "RawDataFrame list" where
  "blank_frames = replicate NFrames (replicate MaxRawDataFrameSize 0)"

definition empty_frame :: "u64 list" where
  "empty_frame = [0x2000000000, 0]"

lemma blank_frames_wf: "wf_shm blank_frames"
  by (simp add: wf_shm_def blank_frames_def)

lemma empty_frame_ok: "consistent_frame empty_frame" "keep_frame 0 empty_frame = Some True"
  by (simp_all add: consistent_frame_def empty_frame_def size_of_header_def MaxRawDataFrameSize_def
    keep_frame_two id_of_header_def lost_of_header_def)

theorem stopped_queue_replays_frame_witness:
  "\<exists>tr s. fs_run (FrameServer_init blank_frames 0) tr s \<and> ctl s = [] \<and> \<not> amAcquiring s \<and>
    taken tr = [empty_frame] \<and> queue s = [empty_frame]"
  by (rule stopped_queue_replays_frame [OF blank_frames_wf empty_frame_ok])

lemma queue_delivered:
  "frame_of (frames ! 0) = f \<Longrightarrow> queue (acquisition frames idle 1 0 WTop) = [f]"
  by (simp add: queue_def acquisition_def ring_slots_def ring_count_def MaxRawDataFrameQueueSize_def)

lemma fs_run_last: "fs_run s (tr @ [l]) s'' \<Longrightarrow> \<exists>s'. fs_run s tr s' \<and> fs_step s' l s''"
  by (erule fs_run.cases) auto

theorem queue_refines_fifo_witness:
  "\<exists>s s'. fs_step s LPublish s' \<and> queue s' = [empty_frame] \<and> fifo_step NFrames (queue s) (queue s')"
proof -
  obtain tr1 s0 s1 where start: "fs_run (FrameServer_init blank_frames 0) tr1 s0" "ctl s0 = [ASpawn]"
    "control_step ASpawn s0 = Some s1" "s1\<lparr>ctl := []\<rparr> = acquisition blank_frames 0 0 0 WTop"
    using start_run by blast
  obtain frames' where deliver: "fs_run (acquisition blank_frames 0 0 0 WTop)
      ([LWorker, LWorker, LWorker, LStored empty_frame, LChecked 0 empty_frame True] @ [LPublish]) (acquisition frames' 0 1 0 WTop)"
    "frame_of (frames' ! 0) = empty_frame"
    using deliver_run [OF blank_frames_wf empty_frame_ok] by auto
  obtain s where s: "fs_run (acquisition blank_frames 0 0 0 WTop)
      [LWorker, LWorker, LWorker, LStored empty_frame, LChecked 0 empty_frame True] s"
    "fs_step s LPublish (acquisition frames' 0 1 0 WTop)"
    using fs_run_last [OF deliver(1)] by blast
  have "fs_run (FrameServer_init blank_frames 0) (tr1 @ [LControl]) (acquisition blank_frames 0 0 0 WTop)"
    using fs_snoc [OF start(1) fs_control [OF start(2,3)]] start(4) by simp
  from queue_refines_fifo [OF blank_frames_wf fs_run_trans [OF s(1) this] s(2)] show ?thesis
    using s(2) queue_delivered [OF deliver(2), of 0] by metis
qed

theorem acquisition_is_fifo_witness:
  "\<exists>s. queue s = [empty_frame] \<and>
     taken [LWorker, LWorker, LWorker, LStored empty_frame, LChecked 0 empty_frame True, LPublish] @ queue s @ unpublished s =
     accepted [LWorker, LWorker, LWorker, LStored empty_frame, LChecked 0 empty_frame True, LPublish]"
proof -
  obtain tr1 s0 s1 where start: "fs_run (FrameServer_init blank_frames 0) tr1 s0" "ctl s0 = [ASpawn]"
    "control_step ASpawn s0 = Some s1" "s1\<lparr>ctl := []\<rparr> = acquisition blank_frames 0 0 0 WTop"
    using start_run by blast
  obtain frames' where deliver: "fs_run (acquisition blank_frames 0 0 0 WTop)
      [LWorker, LWorker, LWorker, LStored empty_frame, LChecked 0 empty_frame True, LPublish] (acquisition frames' 0 1 0 WTop)"
    "frame_of (frames' ! 0) = empty_frame"
    using deliver_run [OF blank_frames_wf empty_frame_ok] by blast
  have "queue (acquisition frames' 0 1 0 WTop) = [empty_frame]"
    by (rule queue_delivered [OF deliver(2)])
  moreover have "list_all acquiring [LWorker, LWorker, LWorker, LStored empty_frame, LChecked 0 empty_frame True, LPublish]"
    by (simp add: acquiring_def)
  ultimately show ?thesis
    using acquisition_is_fifo [OF blank_frames_wf start(1-3), unfolded start(4), OF deliver(1)] by blast
qed

end
