(* ===== verification/DAQFrameServer.thy ===== *)
theory DAQFrameServer
  imports FrameQueue
begin

text \<open>
  The frame server for one or two acquisition cards (daqd/src/DAQFrameServer.cpp): how \<open>doWork\<close>
  builds the frame it stores from those of the cards.

  A card is seen through what its successive calls of \<open>getNextFrame\<close> return, a null pointer or the
  words of a frame; a card whose list is used up returns null pointers. The flag \<open>die\<close>, which another
  thread sets, is read at several places of a loop: the number of reads that still find it unset is
  an argument, so that every moment at which the stop can come is covered and every loop ends.
\<close>

section \<open>Frames of the cards\<close>

type_synonym card_frames = "u64 list option list"

definition getNextFrame_of :: "nat \<Rightarrow> card_frames list \<Rightarrow> u64 list option \<times> card_frames list" where
  "getNextFrame_of i cards = (case cards ! i of
     [] \<Rightarrow> (None, cards)
   | r # rs \<Rightarrow> (r, cards[i := rs]))"

definition frameID_of :: "u64 list \<Rightarrow> u64 checked" where
  "frameID_of tmp = map_option id_of_header (rd tmp 0)"

definition events_of :: "u64 list \<Rightarrow> u64 list checked" where
  "events_of tmp = do {
     w1 \<leftarrow> rd tmp 1;
     rd_range tmp 2 (unat (w1 AND 0xFFFF)) }"

text \<open>The three ways of filling the slot: one card, one active card, two active cards.\<close>

definition copy_frame :: "u64 list \<Rightarrow> u64 list checked" where
  "copy_frame tmp = do {
     w0 \<leftarrow> rd tmp 0;
     rd_range tmp 0 (unat ((drop_bit 36 w0) AND 0x7FFF)) }"

definition prefix_frame :: "u64 \<Rightarrow> u64 list \<Rightarrow> u64 list checked" where
  "prefix_frame pre tmp = do {
     w0 \<leftarrow> rd tmp 0;
     w1 \<leftarrow> rd tmp 1;
     events \<leftarrow> events_of tmp;
     Some ([w0, w1] @ map (\<lambda>e. e OR pre) events) }"

definition merge_frames :: "u64 \<Rightarrow> u64 \<Rightarrow> u64 \<Rightarrow> u64 list \<Rightarrow> u64 list \<Rightarrow> u64 list checked" where
  "merge_frames pre0 pre1 frameID0 tmp0 tmp1 = do {
     w0 \<leftarrow> rd tmp0 1;
     w1 \<leftarrow> rd tmp1 1;
     let nEvents0 = unat (w0 AND 0xFFFF);
     let nEvents1 = unat (w1 AND 0xFFFF);
     let frameLost = ((w0 OR w1) AND 0x10000 \<noteq> 0 \<or> MaxRawDataFrameSize < nEvents0 + nEvents1 + 2);
     if frameLost then Some [push_bit 36 2 OR frameID0, 0x10000]
     else do {
       events0 \<leftarrow> rd_range tmp0 2 nEvents0;
       events1 \<leftarrow> rd_range tmp1 2 nEvents1;
       Some ([push_bit 36 (of_nat (nEvents0 + nEvents1 + 2)) OR frameID0, of_nat (nEvents0 + nEvents1)] @
             map (\<lambda>e. e OR pre0) events0 @ map (\<lambda>e. e OR pre1) events1) } }"

text \<open>The loops that bring the frames of two cards to the same number. \<open>d\<close> is the number of reads of
  \<open>die\<close> that find it unset.\<close>

fun wait_frame :: "nat \<Rightarrow> nat \<Rightarrow> card_frames list \<Rightarrow> u64 list option \<Rightarrow> nat \<times> card_frames list \<times> u64 list option" where
  "wait_frame 0 i cards tmp = (0, cards, tmp)"
| "wait_frame (Suc d) i cards tmp = (case tmp of
     Some f \<Rightarrow> (d, cards, Some f)
   | None \<Rightarrow> (let (tmp', cards') = getNextFrame_of i cards in wait_frame d i cards' tmp'))"

lemma wait_frame_le: "wait_frame d i cards tmp = (d', cards', tmp') \<Longrightarrow> d' \<le> d"
proof (induction d arbitrary: cards tmp)
  case (Suc d)
  show ?case
  proof (cases tmp)
    case None
    then show ?thesis
      using Suc.IH Suc.prems by (fastforce split: prod.splits)
  qed (use Suc.prems in simp)
qed simp

definition advance :: "nat \<Rightarrow> bool \<Rightarrow> card_frames list \<Rightarrow> u64 list \<Rightarrow> u64 list option \<times> card_frames list" where
  "advance i behind cards f = (if behind then getNextFrame_of i cards else (Some f, cards))"

function align :: "nat \<Rightarrow> card_frames list \<Rightarrow> u64 list option \<Rightarrow> u64 list option \<Rightarrow>
    (u64 \<times> u64 list option \<times> u64 list option \<times> card_frames list) checked" where
  "align d cards tmp0 tmp1 = do {
     f0 \<leftarrow> tmp0;
     f1 \<leftarrow> tmp1;
     frameID0 \<leftarrow> frameID_of f0;
     frameID1 \<leftarrow> frameID_of f1;
     let (t0, cards) = advance 0 (frameID0 < frameID1) cards f0;
     let (t1, cards) = advance 1 (frameID1 < frameID0) cards f1;
     let (d, cards, t0) = wait_frame d 0 cards t0;
     let (d, cards, t1) = wait_frame d 1 cards t1;
     if 0 < d \<and> frameID0 \<noteq> frameID1 then align (d - 1) cards t0 t1
     else Some (frameID0, t0, t1, cards) }"
  by pat_completeness auto
termination
  by (relation "measure (\<lambda>(d, cards, t0, t1). d)")
    (auto dest!: wait_frame_le [OF sym] split: option.splits)

declare align.simps [simp del]

text \<open>
  What an iteration of \<open>doWork\<close> has to store: nothing, so that the loop starts over, the words of a
  frame, or nothing while it goes on with the slot as it is, which happens when there is more than
  one card and none or more than two of them are active.
\<close>

datatype built = Retry | Words "u64 list" | Unwritten

definition activeCards :: "bool list \<Rightarrow> nat list" where
  "activeCards up = filter (\<lambda>i. up ! i) [0..<length up]"

definition cardsPrefix :: "nat \<Rightarrow> nat \<Rightarrow> u64" where
  "cardsPrefix daqCardPortBits i = push_bit (59 + daqCardPortBits) (of_nat i)"

definition build_two :: "nat \<Rightarrow> nat list \<Rightarrow> nat \<Rightarrow> card_frames list \<Rightarrow> u64 list option \<Rightarrow> u64 list option \<Rightarrow>
    (built \<times> card_frames list) checked" where
  "build_two daqCardPortBits active d cards tmp0 tmp1 = do {
     (frameID0, tmp0, tmp1, cards) \<leftarrow> align d cards tmp0 tmp1;
     f0 \<leftarrow> tmp0;
     f1 \<leftarrow> tmp1;
     ws \<leftarrow> merge_frames (cardsPrefix daqCardPortBits (active ! 0)) (cardsPrefix daqCardPortBits (active ! 1))
             frameID0 f0 f1;
     Some (Words ws, cards) }"

definition doWork_build :: "nat \<Rightarrow> bool list \<Rightarrow> nat \<Rightarrow> bool \<Rightarrow> card_frames list \<Rightarrow>
    (built \<times> card_frames list) checked" where
  "doWork_build daqCardPortBits up d slot cards =
     (let active = activeCards up in
      if length cards = 1 then
        (case getNextFrame_of 0 cards of
           (Some tmp, cards) \<Rightarrow> if slot then map_option (\<lambda>ws. (Words ws, cards)) (copy_frame tmp)
                               else Some (Retry, cards)
         | (None, cards) \<Rightarrow> Some (Retry, cards))
      else if length active = 1 then
        (case getNextFrame_of (active ! 0) cards of
           (Some tmp, cards) \<Rightarrow>
             if slot then map_option (\<lambda>ws. (Words ws, cards))
                            (prefix_frame (cardsPrefix daqCardPortBits (active ! 0)) tmp)
             else Some (Retry, cards)
         | (None, cards) \<Rightarrow> Some (Retry, cards))
      else if length active = 2 then
        (let (tmp0, cards) = getNextFrame_of (active ! 0) cards;
             (tmp1, cards) = getNextFrame_of (active ! 1) cards
         in if tmp0 = None \<or> tmp1 = None \<or> \<not> slot then Some (Retry, cards)
            else build_two daqCardPortBits active d cards tmp0 tmp1)
      else Some (Unwritten, cards))"

text \<open>The use of it by the worker; without a slot the test of the frame follows a null pointer.\<close>

definition work_store :: "nat option \<Rightarrow> built \<Rightarrow> server \<Rightarrow> server checked" where
  "work_store dst b s = (case b of
     Retry \<Rightarrow> work_frame dst None s
   | Words ws \<Rightarrow> work_frame dst (Some ws) s
   | Unwritten \<Rightarrow> map_option (\<lambda>i. s\<lparr>pc := WCheck i\<rparr>) dst)"

section \<open>Frames built from consistent frames are consistent\<close>

text \<open>A frame as \<open>getNextFrame\<close> of a card returns it: a pointer to a frame of a consistent size,
  followed by the rest of the buffer.\<close>

definition card_frame :: "u64 list \<Rightarrow> bool" where
  "card_frame f =
     (2 \<le> length f \<and> unat (size_of_header (f ! 0)) = unat (f ! 1 AND 0xFFFF) + 2 \<and>
      unat (size_of_header (f ! 0)) \<le> MaxRawDataFrameSize \<and> unat (size_of_header (f ! 0)) \<le> length f)"

definition card_ok :: "card_frames \<Rightarrow> bool" where
  "card_ok c = (\<forall>f. Some f \<in> set c \<longrightarrow> card_frame f)"

lemma unat_and_mask: "unat ((w :: 'a :: len word) AND mask n) = unat w mod 2 ^ n"
  unfolding take_bit_eq_mask [symmetric] unsigned_take_bit_eq by (simp add: take_bit_eq_mod)

lemma header_masks [mask_simps]:
  "(0x7FFF :: u64) = mask 15" "(0xFFFF :: u64) = mask 16" "(0xFFFFFFFFF :: u64) = mask 36"
  by (simp_all add: mask_eq_exp_minus_1)

lemma size_of_header_nat: "unat (size_of_header w) = unat (drop_bit 36 w AND 0x7FFF)"
proof -
  have "unat (drop_bit 36 w AND 0x7FFF) < 2 ^ 32"
    by (simp add: mask_simps unat_and_mask)
  then show ?thesis
    by (simp add: size_of_header_def unat_ucast_u64_u32)
qed

lemma id_of_header_idem: "id_of_header w AND 0xFFFFFFFFF = id_of_header w"
  by (simp add: id_of_header_def ac_simps)

lemma id_of_built:
  assumes "i AND 0xFFFFFFFFF = i"
  shows "id_of_header (push_bit 36 n OR i) = i"
proof -
  have "(push_bit 36 n OR i) AND mask 36 = i AND mask 36"
    by (rule bit_word_eqI) (auto simp: bit_simps)
  then show ?thesis
    using assms by (simp add: id_of_header_def mask_simps)
qed

lemma size_of_built:
  assumes "i AND 0xFFFFFFFFF = i" "n < 2 ^ 15"
  shows "unat (size_of_header (push_bit 36 (of_nat n) OR i)) = n"
proof -
  have small: "\<not> bit i (k + 36)" for k
    using arg_cong [OF assms(1), of "\<lambda>w. bit w (k + 36)"] by (simp add: bit_simps mask_simps)
  have "drop_bit 36 (push_bit 36 (of_nat n) OR i) AND mask 15 = (of_nat n AND mask 15 :: u64)"
    by (rule bit_word_eqI) (auto simp: bit_simps small add.commute)
  then show ?thesis
    unfolding size_of_header_nat using assms(2)
    by (simp add: mask_simps unat_and_mask unat_of_nat)
qed

text \<open>The number of events and the events of a card frame.\<close>

definition nEvents_of :: "u64 list \<Rightarrow> nat" where
  "nEvents_of f = unat (f ! 1 AND 0xFFFF)"

definition event_words :: "u64 list \<Rightarrow> u64 list" where
  "event_words f = take (nEvents_of f) (drop 2 f)"

lemma card_frame_two: "card_frame f \<Longrightarrow> \<exists>a b r. f = a # b # r"
  by (rule two_words) (simp add: card_frame_def)

lemma card_frame_length: "card_frame f \<Longrightarrow> 2 + nEvents_of f \<le> length f"
  by (simp add: card_frame_def nEvents_of_def)

lemma length_event_words: "card_frame f \<Longrightarrow> length (event_words f) = nEvents_of f"
  using card_frame_length [of f] by (simp add: event_words_def)

lemma rd_events: "card_frame f \<Longrightarrow> rd_range f 2 (nEvents_of f) = Some (event_words f)"
  using card_frame_length [of f] by (simp add: rd_range_def event_words_def)

lemma copy_frame_result:
  assumes "card_frame f"
  shows "copy_frame f = Some (take (nEvents_of f + 2) f)" "consistent_frame (take (nEvents_of f + 2) f)"
proof -
  obtain a b r where f: "f = a # b # r"
    using assms card_frame_two by blast
  have size: "unat (size_of_header a) = nEvents_of f + 2" "nEvents_of f + 2 \<le> length f"
    "nEvents_of f + 2 \<le> MaxRawDataFrameSize"
    using assms by (auto simp: card_frame_def nEvents_of_def f)
  show "copy_frame f = Some (take (nEvents_of f + 2) f)"
    using size by (simp add: copy_frame_def f rd_range_def flip: size_of_header_nat)
  show "consistent_frame (take (nEvents_of f + 2) f)"
    using size by (simp add: consistent_frame_def f)
qed

lemma prefix_frame_result:
  assumes "card_frame f"
  shows "prefix_frame p f = Some ([f ! 0, f ! 1] @ map (\<lambda>e. e OR p) (event_words f))"
    "consistent_frame ([f ! 0, f ! 1] @ map (\<lambda>e. e OR p) (event_words f))"
proof -
  have two: "2 \<le> length f"
    using assms by (simp add: card_frame_def)
  have "events_of f = Some (event_words f)"
    using rd_events [OF assms] two by (simp add: events_of_def nEvents_of_def)
  then show "prefix_frame p f = Some ([f ! 0, f ! 1] @ map (\<lambda>e. e OR p) (event_words f))"
    using card_frame_two [OF assms] by (auto simp: prefix_frame_def)
  show "consistent_frame ([f ! 0, f ! 1] @ map (\<lambda>e. e OR p) (event_words f))"
    using assms length_event_words [OF assms] by (simp add: consistent_frame_def card_frame_def nEvents_of_def)
qed

definition lost_flag :: "u64 list \<Rightarrow> bool" where
  "lost_flag f = (f ! 1 AND 0x10000 \<noteq> 0)"

definition merged :: "u64 \<Rightarrow> u64 \<Rightarrow> u64 \<Rightarrow> u64 list \<Rightarrow> u64 list \<Rightarrow> u64 list" where
  "merged pre0 pre1 i f0 f1 =
     (if lost_flag f0 \<or> lost_flag f1 \<or> MaxRawDataFrameSize < nEvents_of f0 + nEvents_of f1 + 2
      then [push_bit 36 2 OR i, 0x10000]
      else [push_bit 36 (of_nat (nEvents_of f0 + nEvents_of f1 + 2)) OR i,
            of_nat (nEvents_of f0 + nEvents_of f1)] @
           map (\<lambda>e. e OR pre0) (event_words f0) @ map (\<lambda>e. e OR pre1) (event_words f1))"

lemma lost_or: "((a :: u64) OR b) AND 0x10000 \<noteq> 0 \<longleftrightarrow> a AND 0x10000 \<noteq> 0 \<or> b AND 0x10000 \<noteq> 0"
proof -
  have "(0x10000 :: u64) = push_bit 16 1"
    by (simp add: push_bit_eq_mult)
  then have "(w AND 0x10000 \<noteq> 0) = bit w 16" for w :: u64
    by (simp add: bit_iff_and_push_bit_not_eq_0)
  then show ?thesis
    by (simp add: bit_simps)
qed

lemma merge_frames_result:
  assumes "card_frame f0" "card_frame f1"
  shows "merge_frames pre0 pre1 i f0 f1 = Some (merged pre0 pre1 i f0 f1)"
proof -
  have "rd f0 1 = Some (f0 ! 1)" "rd f1 1 = Some (f1 ! 1)"
    using assms by (simp_all add: card_frame_def rd_def)
  then show ?thesis
    using rd_events [OF assms(1)] rd_events [OF assms(2)]
    by (simp add: merge_frames_def merged_def lost_or lost_flag_def Let_def nEvents_of_def)
qed

text \<open>The header of a merged frame says what the frame holds.\<close>

lemma merged_header:
  assumes "card_frame f0" "card_frame f1" "i AND 0xFFFFFFFFF = i"
  shows "consistent_frame (merged p q i f0 f1)" "id_of_header (merged p q i f0 f1 ! 0) = i"
proof -
  let ?n = "nEvents_of f0 + nEvents_of f1"
  have two: "unat (size_of_header (push_bit 36 2 OR i)) = 2"
    using size_of_built [OF assms(3), of 2] by simp
  show "consistent_frame (merged p q i f0 f1)"
  proof (cases "lost_flag f0 \<or> lost_flag f1 \<or> MaxRawDataFrameSize < ?n + 2")
    case True
    then show ?thesis
      using two by (simp add: merged_def consistent_frame_def MaxRawDataFrameSize_def)
  next
    case False
    then have "?n + 2 < 2 ^ 15"
      by (simp add: MaxRawDataFrameSize_def)
    from size_of_built [OF assms(3) this] False show ?thesis
      using length_event_words [OF assms(1)] length_event_words [OF assms(2)]
      by (simp add: merged_def consistent_frame_def)
  qed
  show "id_of_header (merged p q i f0 f1 ! 0) = i"
    using id_of_built [OF assms(3), of 2] id_of_built [OF assms(3), of "of_nat (?n + 2)"]
    by (simp add: merged_def)
qed

section \<open>Two cards are brought to the same frame\<close>

abbreviation fid :: "u64 list \<Rightarrow> u64" where
  "fid f \<equiv> id_of_header (f ! 0)"

fun frames_in :: "card_frames \<Rightarrow> u64 list list" where
  "frames_in [] = []"
| "frames_in (None # c) = frames_in c"
| "frames_in (Some f # c) = f # frames_in c"

text \<open>The next frame of a card, after any number of null pointers; each call but the first costs a
  read of \<open>die\<close>, and so does leaving the loop.\<close>

lemma wait_next:
  assumes "frames_in c = f # fs" "length c \<le> d" "i < length cards" "cards ! i = c"
  shows "\<exists>rest. wait_frame d i (snd (getNextFrame_of i cards)) (fst (getNextFrame_of i cards)) =
      (d - (length c - length rest), cards[i := rest], Some f) \<and>
    frames_in rest = fs \<and> length rest < length c \<and> set rest \<subseteq> set c"
  using assms
proof (induction c arbitrary: d cards)
  case (Cons t c)
  obtain d' where d: "d = Suc d'"
    using Cons.prems(2) by (cases d) auto
  have call: "getNextFrame_of i cards = (t, cards[i := c])"
    using Cons.prems(4) by (simp add: getNextFrame_of_def)
  show ?case
  proof (cases t)
    case (Some g)
    then show ?thesis
      using Cons.prems d call by (intro exI [of _ c]) auto
  next
    case None
    let ?cards = "cards[i := c]"
    have "\<exists>rest. wait_frame d' i (snd (getNextFrame_of i ?cards)) (fst (getNextFrame_of i ?cards)) =
        (d' - (length c - length rest), ?cards[i := rest], Some f) \<and>
      frames_in rest = fs \<and> length rest < length c \<and> set rest \<subseteq> set c"
      using Cons.prems None d by (intro Cons.IH) auto
    then obtain rest where "wait_frame d' i (snd (getNextFrame_of i ?cards)) (fst (getNextFrame_of i ?cards)) =
        (d' - (length c - length rest), ?cards[i := rest], Some f)"
      "frames_in rest = fs" "length rest < length c" "set rest \<subseteq> set c"
      by blast
    then show ?thesis
      using None d call by (intro exI [of _ rest]) (auto simp: Suc_diff_le split: prod.splits)
  qed
qed simp

lemma wait_ready: "wait_frame d i cards (Some f) = (d - 1, cards, Some f)"
  by (cases d) auto

lemma align_found:
  assumes "f0 \<noteq> []" "f1 \<noteq> []" "fid f0 = fid f1"
  shows "align d cards (Some f0) (Some f1) = Some (fid f0, Some f0, Some f1, cards)"
  using assms by (subst align.simps) (simp add: frameID_of_def advance_def wait_ready)

lemma align_behind0:
  assumes "f0 \<noteq> []" "f1 \<noteq> []" "fid f0 < fid f1" "frames_in c0 = g # gs" "length c0 + 2 \<le> d"
  shows "\<exists>rest. align d [c0, c1] (Some f0) (Some f1) =
      align (d - (length c0 - length rest) - 2) [rest, c1] (Some g) (Some f1) \<and>
    frames_in rest = gs \<and> length rest < length c0 \<and> set rest \<subseteq> set c0"
proof -
  obtain rest where rest: "wait_frame d 0 (snd (getNextFrame_of 0 [c0, c1])) (fst (getNextFrame_of 0 [c0, c1])) =
      (d - (length c0 - length rest), [c0, c1][0 := rest], Some g)"
    "frames_in rest = gs" "length rest < length c0" "set rest \<subseteq> set c0"
    using wait_next [OF assms(4), of d 0 "[c0, c1]"] assms(5) by auto
  have "Suc (length c0 - length rest) < d"
    using assms(5) by linarith
  moreover have "\<not> fid f1 < fid f0" "fid f0 \<noteq> fid f1"
    using assms(3) by auto
  ultimately have "align d [c0, c1] (Some f0) (Some f1) =
      align (d - (length c0 - length rest) - 2) [rest, c1] (Some g) (Some f1)"
    using assms(1-3) rest(1)
    by (subst align.simps) (simp add: frameID_of_def advance_def wait_ready split_beta numeral_2_eq_2)
  then show ?thesis
    using rest by blast
qed

lemma align_behind1:
  assumes "f0 \<noteq> []" "f1 \<noteq> []" "fid f1 < fid f0" "frames_in c1 = g # gs" "length c1 + 2 \<le> d"
  shows "\<exists>rest. align d [c0, c1] (Some f0) (Some f1) =
      align (d - (length c1 - length rest) - 2) [c0, rest] (Some f0) (Some g) \<and>
    frames_in rest = gs \<and> length rest < length c1 \<and> set rest \<subseteq> set c1"
proof -
  have le: "length c1 \<le> d - 1" and card: "1 < length [c0, c1]" "[c0, c1] ! 1 = c1"
    using assms(5) by simp_all
  obtain rest where rest: "wait_frame (d - 1) 1 (snd (getNextFrame_of 1 [c0, c1])) (fst (getNextFrame_of 1 [c0, c1])) =
      (d - 1 - (length c1 - length rest), [c0, c1][1 := rest], Some g)"
    "frames_in rest = gs" "length rest < length c1" "set rest \<subseteq> set c1"
    using wait_next [OF assms(4) le card] by blast
  have "Suc (length c1 - length rest) < d"
    using assms(5) by linarith
  moreover have "\<not> fid f0 < fid f1" "fid f0 \<noteq> fid f1"
    using assms(3) by auto
  ultimately have "align d [c0, c1] (Some f0) (Some f1) =
      align (d - 1 - (length c1 - length rest) - 1) [c0, rest] (Some f0) (Some g)"
    using assms(1-3) rest(1)
    by (subst align.simps) (simp add: frameID_of_def advance_def wait_ready split_beta)
  moreover have "d - 1 - (length c1 - length rest) - 1 = d - (length c1 - length rest) - 2"
    by simp
  ultimately show ?thesis
    using rest by metis
qed

text \<open>With enough reads of \<open>die\<close> left, the loop stops at the least number that both cards have.\<close>

definition first_common :: "u64 list list \<Rightarrow> u64 list list \<Rightarrow> u64 list \<Rightarrow> u64 list \<Rightarrow> bool" where
  "first_common g0 g1 a b =
     (a \<in> set g0 \<and> b \<in> set g1 \<and> fid a = fid b \<and>
      (\<forall>x \<in> set g0. \<forall>y \<in> set g1. fid x = fid y \<longrightarrow> fid a \<le> fid x))"

abbreviation increasing_ids :: "u64 list list \<Rightarrow> bool" where
  "increasing_ids g \<equiv> sorted_wrt (\<lambda>x y. fid x < fid y) g"

lemma first_common_head:
  assumes "increasing_ids (f0 # g0)" "increasing_ids (f1 # g1)" "fid f0 = fid f1"
  shows "first_common (f0 # g0) (f1 # g1) f0 f1"
  using assms by (fastforce simp: first_common_def)

lemma below_all:
  assumes "increasing_ids (f # g)" "fid e < fid f" "x \<in> set (f # g)"
  shows "fid x \<noteq> fid e"
  using assms by auto

lemma first_common_skip0:
  assumes "first_common g0 (f1 # g1) a b" "fid f0 < fid f1" "increasing_ids (f1 # g1)"
  shows "first_common (f0 # g0) (f1 # g1) a b"
proof -
  have "\<forall>y \<in> set (f1 # g1). fid y \<noteq> fid f0"
    using below_all [OF assms(3,2)] by blast
  then show ?thesis
    using assms(1) unfolding first_common_def by (metis set_ConsD list.set_intros(2))
qed

lemma first_common_skip1:
  assumes "first_common (f0 # g0) g1 a b" "fid f1 < fid f0" "increasing_ids (f0 # g0)"
  shows "first_common (f0 # g0) (f1 # g1) a b"
proof -
  have "\<forall>x \<in> set (f0 # g0). fid x \<noteq> fid f1"
    using below_all [OF assms(3,2)] by blast
  then show ?thesis
    using assms(1) unfolding first_common_def by (metis set_ConsD list.set_intros(2))
qed

lemma align_finds:
  assumes "increasing_ids (f0 # frames_in c0)" "increasing_ids (f1 # frames_in c1)"
    and "\<exists>x \<in> set (f0 # frames_in c0). \<exists>y \<in> set (f1 # frames_in c1). fid x = fid y"
    and "[] \<notin> set (f0 # frames_in c0)" "[] \<notin> set (f1 # frames_in c1)"
    and "3 * (length c0 + length c1) \<le> d"
  shows "\<exists>a b cards'. align d [c0, c1] (Some f0) (Some f1) = Some (fid a, Some a, Some b, cards') \<and>
    first_common (f0 # frames_in c0) (f1 # frames_in c1) a b"
  using assms
proof (induction "length c0 + length c1" arbitrary: c0 c1 f0 f1 d rule: less_induct)
  case less
  have ne: "f0 \<noteq> []" "f1 \<noteq> []"
    using less.prems(4,5) by auto
  consider (found) "fid f0 = fid f1" | (behind0) "fid f0 < fid f1" | (behind1) "fid f1 < fid f0"
    by fastforce
  then show ?case
  proof cases
    case found
    then show ?thesis
      using align_found [OF ne] first_common_head [OF less.prems(1,2)] by blast
  next
    case behind0
    then obtain g gs where g: "frames_in c0 = g # gs"
      using less.prems(2,3) by (cases "frames_in c0") fastforce+
    then have "1 \<le> length c0"
      by (cases c0) auto
    then have enough: "length c0 + 2 \<le> d"
      using less.prems(6) by simp
    obtain rest where rest: "align d [c0, c1] (Some f0) (Some f1) =
        align (d - (length c0 - length rest) - 2) [rest, c1] (Some g) (Some f1)"
      "frames_in rest = gs" "length rest < length c0"
      using align_behind0 [OF ne behind0 g enough, of c1] by blast
    have "\<exists>a b cards'. align (d - (length c0 - length rest) - 2) [rest, c1] (Some g) (Some f1) =
        Some (fid a, Some a, Some b, cards') \<and> first_common (g # frames_in rest) (f1 # frames_in c1) a b"
      using less.prems rest(2,3) g behind0 by (intro less.hyps) auto
    then show ?thesis
      using rest(1,2) g first_common_skip0 [OF _ behind0 less.prems(2)] by metis
  next
    case behind1
    then obtain g gs where g: "frames_in c1 = g # gs"
      using less.prems(1,3) by (cases "frames_in c1") fastforce+
    then have "1 \<le> length c1"
      by (cases c1) auto
    then have enough: "length c1 + 2 \<le> d"
      using less.prems(6) by simp
    obtain rest where rest: "align d [c0, c1] (Some f0) (Some f1) =
        align (d - (length c1 - length rest) - 2) [c0, rest] (Some f0) (Some g)"
      "frames_in rest = gs" "length rest < length c1"
      using align_behind1 [OF ne behind1 g enough, of c0] by blast
    have "\<exists>a b cards'. align (d - (length c1 - length rest) - 2) [c0, rest] (Some f0) (Some g) =
        Some (fid a, Some a, Some b, cards') \<and> first_common (f0 # frames_in c0) (g # frames_in rest) a b"
      using less.prems rest(2,3) g behind1 by (intro less.hyps) auto
    then show ?thesis
      using rest(1,2) g first_common_skip1 [OF _ behind1 less.prems(1)] by metis
  qed
qed

lemma frames_in_card: "card_ok c \<Longrightarrow> f \<in> set (frames_in c) \<Longrightarrow> card_frame f"
  by (induction c rule: frames_in.induct) (auto simp: card_ok_def)

lemma card_frame_nonempty: "card_frame f \<Longrightarrow> f \<noteq> []"
  by (auto simp: card_frame_def)

lemma two_active: "activeCards [True, True] = [0, 1]"
  by (simp add: activeCards_def)

lemma doWork_build_two:
  "doWork_build bits [True, True] d True [Some f0 # c0, Some f1 # c1] =
    build_two bits [0, 1] d [c0, c1] (Some f0) (Some f1)"
  by (simp add: doWork_build_def two_active getNextFrame_of_def)

text \<open>What the tests of the worker see of a merged frame.\<close>

definition merged_lost :: "u64 list \<Rightarrow> u64 list \<Rightarrow> bool" where
  "merged_lost f0 f1 \<longleftrightarrow> lost_flag f0 \<or> lost_flag f1 \<or> MaxRawDataFrameSize < nEvents_of f0 + nEvents_of f1 + 2"

lemma small_not_lost:
  assumes "n < 2 ^ 15"
  shows "\<not> lost_of_header (of_nat n)"
proof -
  have "(of_nat n :: u64) = take_bit 15 (of_nat n)"
    using assms by (simp add: take_bit_of_nat take_bit_nat_eq_self)
  moreover have "take_bit 15 w AND push_bit 15 v = 0" for v w :: u64
    by (rule bit_word_eqI) (auto simp: bit_simps)
  ultimately have "(of_nat n :: u64) AND push_bit 15 3 = 0"
    by metis
  then show ?thesis
    by (simp add: lost_of_header_def push_bit_eq_mult)
qed

lemma merged_lost_flag: "lost_of_header (merged p q i f0 f1 ! 1) = merged_lost f0 f1"
proof (cases "merged_lost f0 f1")
  case True
  then show ?thesis
    by (simp add: merged_lost_def merged_def lost_of_header_def)
next
  case False
  then have "nEvents_of f0 + nEvents_of f1 < 2 ^ 15"
    by (simp add: merged_lost_def MaxRawDataFrameSize_def)
  from small_not_lost [OF this] show ?thesis
    using False by (simp add: merged_lost_def merged_def)
qed

text \<open>The worker stores the words of a frame, tests it, and publishes it if it passes.\<close>

lemma store_check_publish:
  assumes "fs_inv s" "aligned s" "pc s = WGet (Some i)" "consistent_frame ws"
    and "keep = (\<not> fid ws < minimumFrameID s \<and> \<not> (lost_of_header (ws ! 1) \<and> fid ws mod 128 \<noteq> 0))"
  shows "\<exists>s1 s2. work_store (Some i) (Words ws) s = Some s1 \<and> work_check i s1 = Some s2 \<and> queue s2 = queue s \<and>
    pc s2 = (if keep then WPublish i else WTop) \<and> (keep \<longrightarrow> queue (work_publish s2) = queue s @ [ws])"
proof -
  have i: "i < NFrames" "wf_shm (shmPtr s)" "i = dataFrameWritePointer s mod NFrames"
    using assms(1-3) by (auto simp: fs_inv_def slot_free_def aligned_def)
  let ?slot = "ws @ drop (length ws) (shmPtr s ! i)"
  let ?s1 = "s\<lparr>shmPtr := (shmPtr s)[i := ?slot], pc := WCheck i\<rparr>"
  let ?s2 = "?s1\<lparr>pc := (if keep then WPublish i else WTop)\<rparr>"
  have store: "work_frame (Some i) (Some ws) s = Some ?s1"
    using work_frame_stored [OF i(2,1) assms(4)] .
  have slot: "shmPtr ?s1 ! i = ?slot" "rd (shmPtr ?s1) i = Some ?slot"
    using i by (simp_all add: wf_shm_def rd_def)
  obtain a b r where ws: "ws = a # b # r"
    using assms(4) two_words unfolding consistent_frame_def by blast
  have "keep_frame (minimumFrameID ?s1) ?slot = Some keep"
    using assms(5) by (simp add: ws keep_frame_two)
  then have check: "work_check i ?s1 = Some ?s2"
    using work_check_result [OF slot(2)] by simp
  have inv1: "fs_inv ?s1"
    by (rule stored_inv [OF assms(1,3,4) store])
  have inv2: "fs_inv ?s2"
    by (rule checked_inv [OF inv1 _ check]) simp
  have same: "queue ?s2 = queue s"
    using queue_stored(1) [OF assms(1,3,4) store] queue_same [of ?s2 ?s1] by simp
  have "frame_of (shmPtr ?s2 ! (dataFrameWritePointer ?s2 mod NFrames)) = ws"
    using slot(1) i(3) frame_of_stored [OF assms(4)] by simp
  then have "queue (work_publish ?s2) = queue s @ [ws]" if keep
    using queue_publish(1) [OF inv2, of i] same that by simp
  then show ?thesis
    using store check same unfolding work_store_def by (intro exI [of _ ?s1] exI [of _ ?s2]) simp
qed

text \<open>C15: An iteration of \<open>doWork\<close> with two active cards that has a slot of the queue, when the first call
  of \<open>getNextFrame\<close> of each card returns a frame (otherwise the frame that one card did return is
  dropped, as the last conjunct says), when the numbers of each card increase, when some number is
  common to both, and unless the worker is told to stop meanwhile. The frames that only
  one card has are skipped, and one frame for the least number both have is built: its header carries that number, and
  either it is marked lost (when one of the two is, or when they do not fit into one frame) or it holds
  the events of card 0 followed by those of card 1, each with the index of its card in its port
  bits. It is put into the slot and tested: it is appended to the queue exactly if its number is not
  below the minimum and, when it is marked lost, is a multiple of 128; otherwise it is not published and the queue
  stays as it is (with no step of another thread in between; the interleavings are those of C11).\<close>

theorem two_cards_merged:
  assumes "card_ok (Some f0 # c0)" "card_ok (Some f1 # c1)"
    and "increasing_ids (f0 # frames_in c0)" "increasing_ids (f1 # frames_in c1)"
    and "\<exists>x \<in> set (f0 # frames_in c0). \<exists>y \<in> set (f1 # frames_in c1). fid x = fid y"
    and "3 * (length c0 + length c1) \<le> d"
    and "fs_inv s" "aligned s" "pc s = WGet (Some i)"
  shows "\<exists>a b cards' ws s1 s2. doWork_build bits [True, True] d True [Some f0 # c0, Some f1 # c1] =
      Some (Words ws, cards') \<and> first_common (f0 # frames_in c0) (f1 # frames_in c1) a b \<and>
    ws = merged (cardsPrefix bits 0) (cardsPrefix bits 1) (fid a) a b \<and>
    consistent_frame ws \<and> fid ws = fid a \<and>
    work_store (Some i) (Words ws) s = Some s1 \<and> work_check i s1 = Some s2 \<and> queue s2 = queue s \<and>
    (if \<not> fid a < minimumFrameID s \<and> (merged_lost a b \<longrightarrow> fid a mod 128 = 0)
     then pc s2 = WPublish i \<and> queue (work_publish s2) = queue s @ [ws] else pc s2 = WTop) \<and>
    doWork_build bits [True, True] d True [None # c0, Some f1 # c1] = Some (Retry, [c0, c1]) \<and>
    doWork_build bits [True, True] d True [Some f0 # c0, None # c1] = Some (Retry, [c0, c1])"
proof -
  have ok: "\<forall>f \<in> set (f0 # frames_in c0). card_frame f" "\<forall>f \<in> set (f1 # frames_in c1). card_frame f"
    using frames_in_card [OF assms(1)] frames_in_card [OF assms(2)] by simp_all
  then have ne: "[] \<notin> set (f0 # frames_in c0)" "[] \<notin> set (f1 # frames_in c1)"
    using card_frame_nonempty by blast+
  obtain a b cards' where ab: "align d [c0, c1] (Some f0) (Some f1) = Some (fid a, Some a, Some b, cards')"
    "first_common (f0 # frames_in c0) (f1 # frames_in c1) a b"
    using align_finds [OF assms(3-5) ne assms(6)] by blast
  then have cards: "card_frame a" "card_frame b"
    using ok unfolding first_common_def by blast+
  let ?ws = "merged (cardsPrefix bits 0) (cardsPrefix bits 1) (fid a) a b"
  have build: "doWork_build bits [True, True] d True [Some f0 # c0, Some f1 # c1] = Some (Words ?ws, cards')"
    using ab(1) merge_frames_result [OF cards] by (simp add: doWork_build_two build_two_def)
  note ws = merged_header [OF cards id_of_header_idem, of "cardsPrefix bits 0" "cardsPrefix bits 1" "a ! 0"]
  let ?keep = "\<not> fid a < minimumFrameID s \<and> (merged_lost a b \<longrightarrow> fid a mod 128 = 0)"
  have "?keep = (\<not> fid ?ws < minimumFrameID s \<and> \<not> (lost_of_header (?ws ! 1) \<and> fid ?ws mod 128 \<noteq> 0))"
    unfolding merged_lost_flag ws(2) by blast
  from store_check_publish [OF assms(7-9) ws(1) this]
  obtain s1 s2 where worker: "work_store (Some i) (Words ?ws) s = Some s1" "work_check i s1 = Some s2" "queue s2 = queue s"
    "pc s2 = (if ?keep then WPublish i else WTop)" "?keep \<longrightarrow> queue (work_publish s2) = queue s @ [?ws]"
    by blast
  have "doWork_build bits [True, True] d True [None # c0, Some f1 # c1] = Some (Retry, [c0, c1])"
    "doWork_build bits [True, True] d True [Some f0 # c0, None # c1] = Some (Retry, [c0, c1])"
    by (simp_all add: doWork_build_def two_active getNextFrame_of_def)
  then show ?thesis
    using build ab(2) ws worker
    by (intro exI [of _ a] exI [of _ b] exI [of _ cards'] exI [of _ ?ws] exI [of _ s1] exI [of _ s2]) (cases ?keep; simp)
qed

definition demo_frame :: "u64 \<Rightarrow> u64 list" where
  "demo_frame i = [push_bit 36 3 OR i, 1, 0x40]"

lemma demo_frames:
  "card_ok [Some (demo_frame 5), Some (demo_frame 6)]" "card_ok [Some (demo_frame 6), None]"
  "fid (demo_frame 5) = 5" "fid (demo_frame 6) = 6"
  by (auto simp: card_ok_def card_frame_def demo_frame_def size_of_header_def id_of_header_def
    MaxRawDataFrameSize_def)

lemma empty_server:
  "fs_inv (acquisition blank_frames 0 0 0 (WGet (Some 0)))" "aligned (acquisition blank_frames 0 0 0 (WGet (Some 0)))"
proof -
  obtain tr s0 s1 where start: "fs_run (FrameServer_init blank_frames 0) tr s0" "ctl s0 = [ASpawn]"
    "control_step ASpawn s0 = Some s1" "s1\<lparr>ctl := []\<rparr> = acquisition blank_frames 0 0 0 WTop"
    using start_run by blast
  then have "fs_inv (acquisition blank_frames 0 0 0 WTop)"
    using control_inv [OF run_inv [OF start(1) init_inv [OF blank_frames_wf]] start(2,3)] by simp
  then show "fs_inv (acquisition blank_frames 0 0 0 (WGet (Some 0)))"
    using run_inv [OF choose_run [of "acquisition blank_frames 0 0 0 WTop"]] by (simp add: acquisition_def)
qed (simp add: aligned_def acquisition_def)

theorem two_cards_merged_witness:
  "\<exists>a b cards' ws s1 s2. doWork_build 2 [True, True] 6 True
      [[Some (demo_frame 5), Some (demo_frame 6)], [Some (demo_frame 6), None]] = Some (Words ws, cards') \<and>
    first_common [demo_frame 5, demo_frame 6] [demo_frame 6] a b \<and>
    ws = merged (cardsPrefix 2 0) (cardsPrefix 2 1) (fid a) a b \<and> consistent_frame ws \<and> fid ws = fid a \<and>
    work_store (Some 0) (Words ws) (acquisition blank_frames 0 0 0 (WGet (Some 0))) = Some s1 \<and> work_check 0 s1 = Some s2"
  using two_cards_merged [of "demo_frame 5" "[Some (demo_frame 6)]" "demo_frame 6" "[None]" 6
      "acquisition blank_frames 0 0 0 (WGet (Some 0))" 0 2] empty_server
  by (simp add: demo_frames acquisition_def) blast

lemma frames_in_tl: "frames_in (t # c) = [] \<Longrightarrow> t = None \<and> frames_in c = []"
  by (cases t) auto

lemma getNextFrame_of_silent:
  assumes "i < length cards" "frames_in (cards ! i) = []"
  shows "\<exists>c. getNextFrame_of i cards = (None, cards[i := c]) \<and> frames_in c = []"
proof (cases "cards ! i")
  case Nil
  then have "getNextFrame_of i cards = (None, cards[i := []])"
    using list_update_id [of cards i] by (simp add: getNextFrame_of_def)
  then show ?thesis
    by (intro exI [of _ "[]"]) simp
next
  case (Cons t c)
  then show ?thesis
    using assms(2) frames_in_tl [of t c] by (intro exI [of _ c]) (simp add: getNextFrame_of_def)
qed

lemma wait_silent:
  assumes "i < length cards" "frames_in (cards ! i) = []"
  shows "\<exists>cards'. wait_frame d i cards None = (0, cards', None)"
  using assms
proof (induction d arbitrary: cards)
  case (Suc d)
  obtain c where c: "getNextFrame_of i cards = (None, cards[i := c])" "frames_in c = []"
    using getNextFrame_of_silent [OF Suc.prems] by blast
  then have "\<exists>cards'. wait_frame d i (cards[i := c]) None = (0, cards', None)"
    using Suc.prems(1) by (intro Suc.IH) simp_all
  then show ?case
    using c(1) by simp
qed simp

text \<open>When a stop comes while the worker waits for the card that is behind, the worker follows a
  null pointer: both waiting loops end with \<open>die\<close>, and the code after them reads the frame that
  has not arrived.\<close>

theorem stop_while_waiting_reads_null:
  assumes "card_frame f0" "card_frame f1" "fid f0 < fid f1" "frames_in c0 = []"
  shows "doWork_build bits [True, True] d True [Some f0 # c0, Some f1 # c1] = None"
proof -
  obtain c where c: "getNextFrame_of 0 [c0, c1] = (None, [c, c1])" "frames_in c = []"
    using getNextFrame_of_silent [of 0 "[c0, c1]"] assms(4) by auto
  obtain cards' where "wait_frame d 0 [c, c1] None = (0, cards', None)"
    using wait_silent [of 0 "[c, c1]" d] c(2) by auto
  then have "align d [c0, c1] (Some f0) (Some f1) = Some (fid f0, None, Some f1, cards')"
    using c(1) assms(3) card_frame_nonempty [OF assms(1)] card_frame_nonempty [OF assms(2)]
    by (subst align.simps) (auto simp: frameID_of_def advance_def)
  then show ?thesis
    by (simp add: doWork_build_two build_two_def)
qed

theorem stop_while_waiting_reads_null_witness:
  "doWork_build 2 [True, True] 4 True [[Some (demo_frame 5)], [Some (demo_frame 6), None]] = None"
  using stop_while_waiting_reads_null [of "demo_frame 5" "demo_frame 6" "[]" 2 4 "[None]"]
    demo_frames by (simp add: card_ok_def)

text \<open>Without an active card the slot is published as it is.\<close>

lemma no_active_card:
  "length cards \<noteq> 1 \<Longrightarrow> doWork_build bits [False, False] d slot cards = Some (Unwritten, cards)"
  by (simp add: doWork_build_def activeCards_def)

text \<open>The words that \<open>doWork\<close> stores are those of a consistent frame, so that every iteration is a
  step of the transition system of the queue.\<close>

lemma getNextFrame_of_ok:
  assumes "\<forall>c \<in> set cards. card_ok c" "i < length cards" "getNextFrame_of i cards = (t, cards')"
  shows "(\<forall>f. t = Some f \<longrightarrow> card_frame f) \<and> (\<forall>c \<in> set cards'. card_ok c) \<and> length cards' = length cards"
proof (cases "cards ! i")
  case Nil
  then show ?thesis
    using assms by (auto simp: getNextFrame_of_def)
next
  case (Cons r rs)
  then have "card_ok (r # rs)"
    using assms(1,2) nth_mem by metis
  then have "card_ok rs" "\<forall>f. r = Some f \<longrightarrow> card_frame f"
    by (auto simp: card_ok_def)
  then show ?thesis
    using assms Cons set_update_subset_insert [of cards i rs] by (auto simp: getNextFrame_of_def)
qed

definition cards_ok :: "card_frames list \<Rightarrow> bool" where
  "cards_ok cards = ((\<forall>c \<in> set cards. card_ok c) \<and> 2 \<le> length cards)"

definition frame_ok :: "u64 list option \<Rightarrow> bool" where
  "frame_ok t = (\<forall>f. t = Some f \<longrightarrow> card_frame f)"

lemma fetch_ok:
  assumes "cards_ok cards" "i < 2" "getNextFrame_of i cards = (t, cards')"
  shows "frame_ok t" "cards_ok cards'"
  using getNextFrame_of_ok [of cards i t cards'] assms by (auto simp: cards_ok_def frame_ok_def)

lemma wait_ok:
  assumes "wait_frame d i cards t = (d', cards', t')" "cards_ok cards" "frame_ok t" "i < 2"
  shows "cards_ok cards' \<and> frame_ok t'"
  using assms
proof (induction d arbitrary: cards t)
  case (Suc d)
  show ?case
  proof (cases t)
    case None
    obtain t2 cards2 where f: "getNextFrame_of i cards = (t2, cards2)"
      by fastforce
    then have "wait_frame d i cards2 t2 = (d', cards', t')"
      using Suc.prems(1) None by simp
    then show ?thesis
      using Suc.IH fetch_ok [OF Suc.prems(2,4) f] Suc.prems(4) by blast
  qed (use Suc.prems in auto)
qed simp

lemma advance_ok:
  assumes "advance i b cards f = (t, cards')" "cards_ok cards" "card_frame f" "i < 2"
  shows "cards_ok cards' \<and> frame_ok t"
  using assms fetch_ok [OF assms(2,4)] by (auto simp: advance_def frame_ok_def split: if_splits)

lemma align_ok:
  assumes "align d cards t0 t1 = Some (i, t0', t1', cards')" "cards_ok cards" "frame_ok t0" "frame_ok t1"
  shows "frame_ok t0' \<and> frame_ok t1' \<and> i AND 0xFFFFFFFFF = i"
  using assms
proof (induction d arbitrary: cards t0 t1 rule: less_induct)
  case (less d)
  obtain f0 f1 where f: "t0 = Some f0" "t1 = Some f1" and ok: "card_frame f0" "card_frame f1"
    using less.prems by (auto simp: align.simps [of d cards] bind_eq_Some_conv frame_ok_def)
  obtain u0 c1 where 1: "advance 0 (fid f0 < fid f1) cards f0 = (u0, c1)"
    by fastforce
  obtain u1 c2 where 2: "advance 1 (fid f1 < fid f0) c1 f1 = (u1, c2)"
    by fastforce
  obtain d3 c3 u3 where 3: "wait_frame d 0 c2 u0 = (d3, c3, u3)"
    by (cases "wait_frame d 0 c2 u0")
  obtain d4 c4 u4 where 4: "wait_frame d3 1 c3 u1 = (d4, c4, u4)"
    by (cases "wait_frame d3 1 c3 u1")
  have "cards_ok c1" "frame_ok u0" "cards_ok c2" "frame_ok u1"
    using advance_ok [OF 1 less.prems(2) ok(1)] advance_ok [OF 2 _ ok(2)] by auto
  then have ok4: "cards_ok c4" "frame_ok u3" "frame_ok u4"
    using wait_ok [OF 3] wait_ok [OF 4] by auto
  have step: "align d cards t0 t1 =
      (if 0 < d4 \<and> fid f0 \<noteq> fid f1 then align (d4 - 1) c4 u3 u4 else Some (fid f0, u3, u4, c4))"
    unfolding align.simps [of d cards t0 t1] using f 1 2 3 4
      card_frame_nonempty [OF ok(1)] card_frame_nonempty [OF ok(2)] by (simp add: frameID_of_def)
  show ?case
  proof (cases "0 < d4 \<and> fid f0 \<noteq> fid f1")
    case True
    then have "d4 - 1 < d"
      using wait_frame_le [OF 3] wait_frame_le [OF 4] by linarith
    moreover have "align (d4 - 1) c4 u3 u4 = Some (i, t0', t1', cards')"
      using less.prems(1) True unfolding step by argo
    ultimately show ?thesis
      using less.IH [OF _ _ ok4] by blast
  next
    case False
    then have "align d cards t0 t1 = Some (fid f0, u3, u4, c4)"
      unfolding step by (rule if_not_P)
    then have "fid f0 = i" "u3 = t0'" "u4 = t1'"
      using less.prems(1) by simp_all
    then show ?thesis
      using ok4 id_of_header_idem by auto
  qed
qed

lemma build_two_consistent:
  assumes "build_two bits active d cards t0 t1 = Some (Words ws, cards')" "cards_ok cards"
    "frame_ok t0" "frame_ok t1"
  shows "consistent_frame ws"
proof -
  obtain i a b c where al: "align d cards t0 t1 = Some (i, Some a, Some b, c)"
    and ws: "merge_frames (cardsPrefix bits (active ! 0)) (cardsPrefix bits (active ! 1)) i a b = Some ws"
    using assms(1) by (auto simp: build_two_def bind_eq_Some_conv)
  have "card_frame a" "card_frame b" "i AND 0xFFFFFFFFF = i"
    using align_ok [OF al assms(2-4)] by (simp_all add: frame_ok_def)
  then show ?thesis
    using ws merge_frames_result merged_header(1) by (metis option.inject)
qed

lemma build_single_consistent:
  assumes "getNextFrame_of i cards = (Some f, cards1)" "i < length cards" "\<forall>c \<in> set cards. card_ok c"
  shows "copy_frame f = Some ws \<Longrightarrow> consistent_frame ws" "prefix_frame p f = Some ws \<Longrightarrow> consistent_frame ws"
proof -
  have f: "card_frame f"
    using getNextFrame_of_ok [OF assms(3,2,1)] by blast
  show "copy_frame f = Some ws \<Longrightarrow> consistent_frame ws"
    using copy_frame_result [OF f] by auto
  show "prefix_frame p f = Some ws \<Longrightarrow> consistent_frame ws"
    using prefix_frame_result [OF f, of p] by auto
qed

lemma active_bound: "i < length (activeCards up) \<Longrightarrow> activeCards up ! i < length up"
  using nth_mem [of i "activeCards up"] by (simp add: activeCards_def)

lemma doWork_consistent:
  assumes "doWork_build bits up d slot cards = Some (Words ws, cards')"
    and "\<forall>c \<in> set cards. card_ok c" "length up = length cards" "length cards \<le> 2"
  shows "slot \<and> consistent_frame ws"
proof (cases "length cards = 1 \<or> length (activeCards up) = 1")
  case True
  have "length (activeCards up) = 1 \<Longrightarrow> activeCards up ! 0 < length cards"
    using active_bound [of 0 up] assms(3) by simp
  then show ?thesis
    using assms True
    by (auto simp: doWork_build_def Let_def split: if_splits option.splits prod.splits
      dest: build_single_consistent)
next
  case False
  then have two: "length (activeCards up) = 2"
    using assms(1) by (simp add: doWork_build_def Let_def split: if_splits)
  then have len: "length cards = 2"
    using assms(3,4) length_filter_le [of "\<lambda>i. up ! i" "[0..<length up]"] by (simp add: activeCards_def)
  obtain t0 c1 where 1: "getNextFrame_of (activeCards up ! 0) cards = (t0, c1)"
    by fastforce
  obtain t1 c2 where 2: "getNextFrame_of (activeCards up ! 1) c1 = (t1, c2)"
    by fastforce
  have i: "activeCards up ! 0 < 2" "activeCards up ! 1 < 2"
    using active_bound [of 0 up] active_bound [of 1 up] two assms(3) len by simp_all
  have ok: "cards_ok cards"
    using assms(2) len by (simp add: cards_ok_def)
  have ok2: "cards_ok c2" "frame_ok t0" "frame_ok t1"
    using fetch_ok [OF ok i(1) 1] fetch_ok [OF _ i(2) 2] by blast+
  have "slot \<and> build_two bits (activeCards up) d c2 t0 t1 = Some (Words ws, cards')"
    using assms(1) False two 1 2 by (auto simp: doWork_build_def Let_def split: if_splits)
  then show ?thesis
    using build_two_consistent [OF _ ok2] by blast
qed

lemma doWork_is_step:
  assumes "pc s = WGet dst" "doWork_build bits up d (dst \<noteq> None) cards = Some (b, cards')" "b \<noteq> Unwritten"
    and "\<forall>c \<in> set cards. card_ok c" "length up = length cards" "length cards \<le> 2"
    and "work_store dst b s = Some s'"
  shows "\<exists>l. fs_step s l s' \<and> acquiring l"
proof (cases b)
  case Retry
  then show ?thesis
    using assms(1,7) fs_no_frame [of s dst s'] by (intro exI [of _ LWorker]) (simp add: work_store_def acquiring_def)
next
  case (Words ws)
  then have "dst \<noteq> None" "consistent_frame ws"
    using doWork_consistent [OF _ assms(4-6)] assms(2) by blast+
  then show ?thesis
    using assms(1,7) Words fs_stored [of s _ ws s']
    by (intro exI [of _ "LStored ws"]) (auto simp: work_store_def acquiring_def)
qed (use assms(3) in simp)

end
