(* ===== verification/FrontEndCommand.thy ===== *)
theory FrontEndCommand
  imports DAQFrameServer
begin

text \<open>
  Commands to the front end (\<open>DAQFrameServer::sendCommand\<close>) and the status of the cards: the packet
  that is sent, the loop that waits for the answer, and how the results of several cards are put
  together.
\<close>

section \<open>Commands to the front end\<close>

text \<open>
  A command is sent in a packet of 64-bit words and answered by packets that \<open>recvReply\<close> of the card
  returns; the list of answers has one entry for each pass of the loop before the time limit, with
  \<^const>\<open>None\<close> for a call that timed out. Characters are signed, so a byte from 128 on is negative;
  the sequence number is computed modulo \<open>2 ^ 16\<close>.
\<close>

definition MAX_PACKET_WORDS :: nat where
  "MAX_PACKET_WORDS = 256"

definition sequence_number :: "u8 \<Rightarrow> u8 \<Rightarrow> u16" where
  "sequence_number b0 b1 = ucast (push_bit 8 (scast b0 :: u32) + scast b1)"

fun pack_bytes :: "u8 list \<Rightarrow> u64 list" where
  "pack_bytes [] = []"
| "pack_bytes bs = foldr (\<lambda>b w. push_bit 8 w OR ucast b) (take 8 bs) 0 # pack_bytes (drop 8 bs)"

definition unpack_word :: "u64 \<Rightarrow> u8 list" where
  "unpack_word w = map (\<lambda>i. ucast (drop_bit (8 * i) w)) [0..<8]"

definition unpack_words :: "u64 list \<Rightarrow> u8 list" where
  "unpack_words ws = concat (map unpack_word ws)"

text \<open>The packet buffer is a local array: \<open>stack\<close> is what it holds before the call, and what remains of
  it in the last word of a command whose length is no multiple of eight is sent along.\<close>

definition packet_pattern :: "u64 list \<Rightarrow> u64 list" where
  "packet_pattern stack = map (\<lambda>i. push_bit (4 * i) 0x0F) [0..<8] @ drop 8 stack"

definition command_packet :: "u64 list \<Rightarrow> u64 \<Rightarrow> u64 \<Rightarrow> u8 list \<Rightarrow> u64 list" where
  "command_packet stack sendPortID sendSlaveID command =
     take (2 + (length command + 7) div 8)
       ([push_bit 36 8 + push_bit 59 sendPortID + push_bit 54 sendSlaveID, of_nat (length command)] @
        pack_bytes (command @ drop (length command) (unpack_words (drop 2 (packet_pattern stack)))))"

text \<open>The tests of one answer. \<open>int replyLength = packetBuffer[1]\<close> keeps the low 32 bits, signed.\<close>

definition reply_length :: "u64 \<Rightarrow> int" where
  "reply_length w = sint (ucast w :: u32)"

definition reply_address :: "nat \<Rightarrow> u64 \<Rightarrow> u64 \<Rightarrow> u64 \<times> u64" where
  "reply_address daqCardPortBits cardID w =
     (push_bit daqCardPortBits cardID OR drop_bit 59 w, drop_bit 54 w AND 0x1F)"

fun sendCommand_loop :: "nat \<Rightarrow> u64 \<Rightarrow> u64 \<Rightarrow> u64 \<Rightarrow> u16 \<Rightarrow> int \<Rightarrow> u64 list option list \<Rightarrow> u8 list \<Rightarrow>
    (int \<times> u8 list) checked" where
  "sendCommand_loop bits cardID port slave sentSN bufferSize [] buffer = Some (0, buffer)"
| "sendCommand_loop bits cardID port slave sentSN bufferSize (None # replies) buffer =
     sendCommand_loop bits cardID port slave sentSN bufferSize replies buffer"
| "sendCommand_loop bits cardID port slave sentSN bufferSize (Some packet # replies) buffer = do {
     w0 \<leftarrow> rd packet 0;
     w1 \<leftarrow> rd packet 1;
     let replyLength = reply_length w1;
     if (push_bit bits cardID OR port, slave) \<noteq> reply_address bits cardID w0 \<or> replyLength < 2 \<or>
        8 * (int MAX_PACKET_WORDS - 2) < replyLength \<or> bufferSize < replyLength
     then sendCommand_loop bits cardID port slave sentSN bufferSize replies buffer
     else do {
       payload \<leftarrow> rd_range (unpack_words (drop 2 packet)) 0 (nat replyLength);
       buffer' \<leftarrow> (if length payload \<le> length buffer then Some (payload @ drop (length payload) buffer) else None);
       b0 \<leftarrow> rd buffer' 0;
       b1 \<leftarrow> rd buffer' 1;
       if sequence_number b0 b1 \<noteq> sentSN
       then sendCommand_loop bits cardID port slave sentSN bufferSize replies buffer'
       else Some (replyLength, buffer') } }"

text \<open>The result is what the call returns, the packet handed to the card, and the buffer afterwards.\<close>

definition sendCommand :: "nat \<Rightarrow> nat \<Rightarrow> u64 list \<Rightarrow> int \<Rightarrow> int \<Rightarrow> u8 list \<Rightarrow> int \<Rightarrow> int \<Rightarrow> u64 list option list \<Rightarrow>
    (int \<times> (nat \<times> u64 list) option \<times> u8 list) checked" where
  "sendCommand nCards bits stack portID slaveID buffer bufferSize commandLength replies =
     (let sendPortID = word_of_int portID :: u64;
          sendSlaveID = word_of_int slaveID :: u64;
          cardID = drop_bit bits sendPortID;
          port = take_bit bits sendPortID;
          packetLength = 2 + (commandLength + 7) div 8
      in if nCards \<le> unat cardID then Some (-1, None, buffer)
         else do {
           b0 \<leftarrow> rd buffer 0;
           b1 \<leftarrow> rd buffer 1;
           if int MAX_PACKET_WORDS < packetLength then Some (-1, None, buffer)
           else if commandLength < 0 then None
           else do {
             command \<leftarrow> rd_range buffer 0 (nat commandLength);
             (r, buffer') \<leftarrow> sendCommand_loop bits cardID port sendSlaveID (sequence_number b0 b1) bufferSize
                               replies buffer;
             Some (r, Some (unat cardID, command_packet stack port sendSlaveID command), buffer') } })"

text \<open>The sequence number tells any two pairs of bytes apart, although the second byte is added with
  its sign.\<close>

lemma scast_u8_u32: "(scast (b :: u8) :: u32) = word_of_int (sint b)"
  by (rule of_int_sint [symmetric])

lemma sequence_number_int: "uint (sequence_number b0 b1) = (256 * sint b0 + sint b1) mod 2 ^ 16"
proof -
  have "uint (sequence_number b0 b1) = (uint (push_bit 8 (scast b0 :: u32) + scast b1)) mod 2 ^ 16"
    by (simp add: sequence_number_def unsigned_ucast_eq take_bit_eq_mod)
  also have "push_bit 8 (scast b0 :: u32) + scast b1 = word_of_int (256 * sint b0 + sint b1)"
    unfolding scast_u8_u32 push_bit_eq_mult by simp
  also have "uint (word_of_int (256 * sint b0 + sint b1) :: u32) mod 2 ^ 16 = (256 * sint b0 + sint b1) mod 2 ^ 16"
    unfolding unsigned_of_int take_bit_eq_mod by (simp add: mod_mod_cancel)
  finally show ?thesis .
qed

lemma mod_diff_small:
  assumes "(x :: int) mod m = y mod m" "x - y < m" "y - x < m"
  shows "x = y"
proof (rule ccontr)
  assume "x \<noteq> y"
  then have "\<bar>m\<bar> \<le> \<bar>x - y\<bar>"
    using assms(1) by (intro dvd_imp_le_int) (simp_all add: mod_eq_dvd_iff)
  then show False
    using assms(2,3) by linarith
qed

lemma digit_pair_unique:
  assumes "256 * x + y = 256 * z + (w :: int)" "- 128 \<le> y" "y < 128" "- 128 \<le> w" "w < 128"
  shows "x = z \<and> y = w"
proof -
  have "x \<le> z" "z \<le> x"
    using assms by linarith+
  then show ?thesis
    using assms(1) by simp
qed

lemma sint_u8_range: "- 128 \<le> sint (b :: u8)" "sint (b :: u8) < 128"
  using sint_ge [of b] sint_lt [of b] by simp_all

lemma sequence_number_eq_iff: "sequence_number a b = sequence_number c d \<longleftrightarrow> a = c \<and> b = d"
proof
  assume "sequence_number a b = sequence_number c d"
  then have "(256 * sint a + sint b) mod 2 ^ 16 = (256 * sint c + sint d) mod 2 ^ 16"
    using sequence_number_int [of a b] sequence_number_int [of c d] by argo
  moreover have "256 * sint a + sint b - (256 * sint c + sint d) < 2 ^ 16"
    "256 * sint c + sint d - (256 * sint a + sint b) < 2 ^ 16"
    using sint_u8_range [of a] sint_u8_range [of b] sint_u8_range [of c] sint_u8_range [of d] by simp_all
  ultimately have "256 * sint a + sint b = 256 * sint c + sint d"
    by (rule mod_diff_small)
  then have "sint a = sint c \<and> sint b = sint d"
    using sint_u8_range [of b] sint_u8_range [of d] by (intro digit_pair_unique)
  then show "a = c \<and> b = d"
    using signed_word_eqI by blast
qed simp

text \<open>The answer to a command: right address, a length the packet and the buffer can hold, and the
  sequence number of the command.\<close>

definition payload_of :: "u64 list \<Rightarrow> u8 list" where
  "payload_of packet = take (nat (reply_length (packet ! 1))) (unpack_words (drop 2 packet))"

definition well_addressed :: "nat \<Rightarrow> u64 \<Rightarrow> u64 \<Rightarrow> u64 \<Rightarrow> int \<Rightarrow> u64 list \<Rightarrow> bool" where
  "well_addressed bits cardID port slave bufferSize packet =
     ((push_bit bits cardID OR port, slave) = reply_address bits cardID (packet ! 0) \<and>
      2 \<le> reply_length (packet ! 1) \<and> reply_length (packet ! 1) \<le> 8 * (int MAX_PACKET_WORDS - 2) \<and>
      reply_length (packet ! 1) \<le> bufferSize)"

definition is_answer :: "nat \<Rightarrow> u64 \<Rightarrow> u64 \<Rightarrow> u64 \<Rightarrow> u8 list \<Rightarrow> int \<Rightarrow> u64 list \<Rightarrow> bool" where
  "is_answer bits cardID port slave sn bufferSize packet =
     (well_addressed bits cardID port slave bufferSize packet \<and> take 2 (payload_of packet) = sn)"

lemma length_unpack: "length (unpack_words ws) = 8 * length ws"
  by (induction ws) (simp_all add: unpack_words_def unpack_word_def)

lemma length_answer:
  assumes "well_addressed bits cardID port slave bufferSize packet" "length packet = MAX_PACKET_WORDS"
  shows "length (payload_of packet) = nat (reply_length (packet ! 1))"
proof -
  have "reply_length (packet ! 1) \<le> 2032"
    using assms(1) by (simp add: well_addressed_def MAX_PACKET_WORDS_def)
  then have "nat (reply_length (packet ! 1)) \<le> 2032"
    by linarith
  then show ?thesis
    using assms(2) by (simp add: payload_of_def length_unpack MAX_PACKET_WORDS_def)
qed

lemma loop_pass:
  assumes "length packet = MAX_PACKET_WORDS"
    "\<not> well_addressed bits cardID port slave bufferSize packet"
  shows "sendCommand_loop bits cardID port slave sn bufferSize (Some packet # replies) buffer =
    sendCommand_loop bits cardID port slave sn bufferSize replies buffer"
  using assms by (auto simp: well_addressed_def MAX_PACKET_WORDS_def not_le rd_def)

lemma loop_copy:
  assumes "length packet = MAX_PACKET_WORDS" "well_addressed bits cardID port slave bufferSize packet"
    and "min bufferSize 2032 \<le> int (length buffer)"
  defines "buffer' \<equiv> payload_of packet @ drop (length (payload_of packet)) buffer"
  shows "sendCommand_loop bits cardID port slave (sequence_number s0 s1) bufferSize (Some packet # replies) buffer =
    (if take 2 (payload_of packet) = [s0, s1] then Some (reply_length (packet ! 1), buffer')
     else sendCommand_loop bits cardID port slave (sequence_number s0 s1) bufferSize replies buffer')"
    "length buffer' = length buffer"
proof -
  let ?n = "nat (reply_length (packet ! 1))"
  have n: "length (payload_of packet) = ?n" "2 \<le> ?n" "?n \<le> length buffer"
    using length_answer [OF assms(2,1)] assms(2,3) by (auto simp: well_addressed_def MAX_PACKET_WORDS_def)
  show "length buffer' = length buffer"
    using n by (simp add: buffer'_def)
  obtain p0 p1 ps where p: "payload_of packet = p0 # p1 # ps"
    using n by (cases "payload_of packet"; cases "tl (payload_of packet)") auto
  show "sendCommand_loop bits cardID port slave (sequence_number s0 s1) bufferSize (Some packet # replies) buffer =
    (if take 2 (payload_of packet) = [s0, s1] then Some (reply_length (packet ! 1), buffer')
     else sendCommand_loop bits cardID port slave (sequence_number s0 s1) bufferSize replies buffer')"
  proof -
    have rds: "rd packet 0 = Some (packet ! 0)" "rd packet 1 = Some (packet ! 1)"
      using assms(1) by (simp_all add: rd_def MAX_PACKET_WORDS_def)
    have addr: "\<not> ((push_bit bits cardID OR port, slave) \<noteq> reply_address bits cardID (packet ! 0) \<or>
        reply_length (packet ! 1) < 2 \<or> 8 * (int MAX_PACKET_WORDS - 2) < reply_length (packet ! 1) \<or>
        bufferSize < reply_length (packet ! 1))"
      using assms(2) unfolding well_addressed_def by linarith
    have range: "rd_range (unpack_words (drop 2 packet)) 0 ?n = Some (payload_of packet)"
      using n(1) by (auto simp: payload_of_def rd_range_def)
    have "rd buffer' 0 = Some p0" "rd buffer' 1 = Some p1"
      by (simp_all add: buffer'_def p)
    then show ?thesis
      unfolding sendCommand_loop.simps rds Let_def bind.bind_lunit if_not_P [OF addr] range
      using n p by (simp add: buffer'_def sequence_number_eq_iff)
  qed
qed

definition full_packets :: "u64 list option list \<Rightarrow> bool" where
  "full_packets replies = (\<forall>p. Some p \<in> set replies \<longrightarrow> length p = MAX_PACKET_WORDS)"

lemma loop_result:
  assumes "full_packets replies" "min bufferSize 2032 \<le> int (length buffer)"
  shows "\<exists>r buffer'. sendCommand_loop bits cardID port slave (sequence_number s0 s1) bufferSize replies buffer =
      Some (r, buffer') \<and> length buffer' = length buffer \<and>
    (case find (is_answer bits cardID port slave [s0, s1] bufferSize) (frames_in replies) of
       None \<Rightarrow> r = 0
     | Some packet \<Rightarrow> r = reply_length (packet ! 1) \<and> take (nat r) buffer' = payload_of packet)"
  using assms
proof (induction replies arbitrary: buffer)
  case (Cons reply replies)
  have full: "full_packets replies"
    using Cons.prems(1) by (auto simp: full_packets_def)
  show ?case
  proof (cases reply)
    case None
    then show ?thesis
      using Cons.IH [OF full Cons.prems(2)] by simp
  next
    case (Some packet)
    have len: "length packet = MAX_PACKET_WORDS"
      using Cons.prems(1) Some by (simp add: full_packets_def)
    show ?thesis
    proof (cases "well_addressed bits cardID port slave bufferSize packet")
      case False
      then show ?thesis
        using Cons.IH [OF full Cons.prems(2)] loop_pass [OF len False] Some by (simp add: is_answer_def)
    next
      case True
      note copy = loop_copy [OF len True Cons.prems(2)]
      show ?thesis
      proof (cases "take 2 (payload_of packet) = [s0, s1]")
        case match: True
        then show ?thesis
          using copy True Some length_answer [OF True len] by (simp add: is_answer_def)
      next
        case False
        then show ?thesis
          using copy Cons.IH [OF full, of "payload_of packet @ drop (length (payload_of packet)) buffer"]
            Cons.prems(2) Some by (simp add: is_answer_def)
      qed
    qed
  qed
qed simp

lemma sendCommand_works:
  assumes "full_packets replies" "min bufferSize 2032 \<le> int (length buffer)" "2 \<le> length buffer"
    and "0 \<le> commandLength" "commandLength \<le> int (length buffer)" "commandLength \<le> 8 * 254"
    and "unat (drop_bit bits (word_of_int portID :: u64)) < nCards"
  shows "\<exists>r packet buffer'.
    sendCommand nCards bits stack portID slaveID buffer bufferSize commandLength replies =
      Some (r, Some packet, buffer') \<and> length buffer' = length buffer \<and>
    (case find (is_answer bits (drop_bit bits (word_of_int portID)) (take_bit bits (word_of_int portID))
                  (word_of_int slaveID) (take 2 buffer) bufferSize) (frames_in replies) of
       None \<Rightarrow> r = 0
     | Some p \<Rightarrow> r = reply_length (p ! 1) \<and> take (nat r) buffer' = payload_of p)"
proof -
  obtain s0 s1 rest where buffer: "buffer = s0 # s1 # rest"
    using assms(3) by (cases buffer; cases "tl buffer") auto
  have "(commandLength + 7) div 8 \<le> 254"
    using assms(6) by simp
  then have fits: "\<not> int MAX_PACKET_WORDS < 2 + (commandLength + 7) div 8" "\<not> commandLength < 0"
    using assms(4) by (simp_all add: MAX_PACKET_WORDS_def)
  have range: "rd_range buffer 0 (nat commandLength) = Some (take (nat commandLength) buffer)"
    using assms(4,5) by (simp add: rd_range_def nat_le_iff)
  show ?thesis
    using loop_result [OF assms(1,2), of bits "drop_bit bits (word_of_int portID)"
        "take_bit bits (word_of_int portID)" "word_of_int slaveID" s0 s1] fits range assms(7)
    by (auto simp: sendCommand_def Let_def buffer)
qed

text \<open>C19: A command to an existing card with a length that fits into a packet never runs out of its
  buffers, and the call returns the first packet that answers it: from the port and slave the
  command went to, of a length that fits, and starting with the same two bytes, which identify the
  command. Packets that do not are skipped, and without such a packet before the time limit the
  call returns 0.\<close>

theorem sendCommand_first_answer:
  assumes "full_packets replies" "bufferSize \<le> int (length buffer)" "2 \<le> length buffer"
    and "0 \<le> commandLength" "commandLength \<le> int (length buffer)" "commandLength \<le> 8 * 254"
    and "unat (drop_bit bits (word_of_int portID :: u64)) < nCards"
  shows "\<exists>r packet buffer'.
    sendCommand nCards bits stack portID slaveID buffer bufferSize commandLength replies =
      Some (r, Some packet, buffer') \<and> length buffer' = length buffer \<and>
    (case find (is_answer bits (drop_bit bits (word_of_int portID)) (take_bit bits (word_of_int portID))
                  (word_of_int slaveID) (take 2 buffer) bufferSize) (frames_in replies) of
       None \<Rightarrow> r = 0
     | Some p \<Rightarrow> r = reply_length (p ! 1) \<and> take (nat r) buffer' = payload_of p)"
  using assms by (intro sendCommand_works) auto

text \<open>An answer from port 1, slave 2 of the only card, after a packet with another sequence number.\<close>

definition demo_packet :: "u64 \<Rightarrow> u64 list" where
  "demo_packet w = [push_bit 59 1 OR push_bit 54 2, 4, w] @ replicate 253 0"

theorem sendCommand_first_answer_witness:
  "\<exists>r packet buffer'.
    sendCommand 1 5 [] 1 2 (replicate 16 7) 16 8 [Some (demo_packet 0x0807), None, Some (demo_packet 0x0707)] =
      Some (r, Some packet, buffer') \<and> length buffer' = 16 \<and>
    (case find (is_answer 5 0 1 2 [7, 7] 16) [demo_packet 0x0807, demo_packet 0x0707] of
       None \<Rightarrow> r = 0
     | Some p \<Rightarrow> r = reply_length (p ! 1) \<and> take (nat r) buffer' = payload_of p)"
  using sendCommand_first_answer [of "[Some (demo_packet 0x0807), None, Some (demo_packet 0x0707)]" 16
      "replicate 16 7" 8 5 1 1 "[]" 2]
  by (auto simp: full_packets_def demo_packet_def MAX_PACKET_WORDS_def numeral_2_eq_2)

section \<open>Status of the cards\<close>

definition DAQ_getPortUp :: "nat \<Rightarrow> u64 list \<Rightarrow> u64" where
  "DAQ_getPortUp daqCardPortBits cards =
     fold (\<lambda>i retval. retval OR push_bit (i * 2 ^ daqCardPortBits) (cards ! i)) [0..<length cards] 0"

text \<open>The temperature of a card is promoted to \<open>int\<close> before it is shifted, so a bit 31 spreads to the
  upper half of the result.\<close>

definition DAQ_getDAQTemp :: "u16 list \<Rightarrow> u64" where
  "DAQ_getDAQTemp temps =
     fold (\<lambda>i retval. retval OR scast (push_bit (i * 16) (ucast (temps ! i) :: u32))) [0..<length temps] 0"

definition DAQ_getPortCounts :: "nat \<Rightarrow> nat \<Rightarrow> (nat \<Rightarrow> nat \<Rightarrow> nat \<Rightarrow> u64) \<Rightarrow> nat \<Rightarrow> nat \<Rightarrow> u64" where
  "DAQ_getPortCounts nCards daqCardPortBits counts port whichCount =
     (let cardID = port div 2 ^ daqCardPortBits
      in if nCards \<le> cardID then -1 else counts cardID (port mod 2 ^ daqCardPortBits) whichCount)"

lemma DAQ_getDAQTemp_one: "DAQ_getDAQTemp [t] = ucast t"
proof -
  have "(scast (ucast t :: u32) :: u64) = ucast t"
    by (rule bit_word_eqI) (auto simp: bit_simps min_def dest: bit_imp_le_length)
  then show ?thesis
    by (simp add: DAQ_getDAQTemp_def)
qed

lemma bit_fold_or: "bit (fold (\<lambda>i r. r OR f i) xs a) p \<longleftrightarrow> bit (a :: u64) p \<or> (\<exists>i \<in> set xs. bit (f i) p)"
  by (induction xs arbitrary: a) (auto simp: bit_simps)

lemma DAQ_getPortUp_bit:
  assumes "\<forall>up \<in> set cards. \<forall>p. bit up p \<longrightarrow> p < 2 ^ b"
  shows "bit (DAQ_getPortUp b cards) p \<longleftrightarrow>
    p < 64 \<and> p div 2 ^ b < length cards \<and> bit (cards ! (p div 2 ^ b)) (p mod 2 ^ b)"
proof -
  have *: "i * 2 ^ b \<le> p \<and> bit (cards ! i) (p - i * 2 ^ b) \<longleftrightarrow> i = p div 2 ^ b \<and> bit (cards ! i) (p mod 2 ^ b)"
    if i: "i < length cards" for i
  proof
    assume l: "i * 2 ^ b \<le> p \<and> bit (cards ! i) (p - i * 2 ^ b)"
    then have r: "p - i * 2 ^ b < 2 ^ b"
      using assms nth_mem [OF i] by blast
    have "p div 2 ^ b = i"
      using l r by (intro div_nat_eqI) (simp_all add: ac_simps)
    moreover from this have "p mod 2 ^ b = p - i * 2 ^ b"
      by (simp add: minus_div_mult_eq_mod [symmetric])
    ultimately show "i = p div 2 ^ b \<and> bit (cards ! i) (p mod 2 ^ b)"
      using l by simp
  qed (auto simp: minus_div_mult_eq_mod)
  have "bit (DAQ_getPortUp b cards) p \<longleftrightarrow>
      (\<exists>i < length cards. p < 64 \<and> i * 2 ^ b \<le> p \<and> bit (cards ! i) (p - i * 2 ^ b))"
    unfolding DAQ_getPortUp_def bit_fold_or by (auto simp: bit_simps)
  then show ?thesis
    using * by metis
qed

end
