(* ===== verification/DaqdClient.thy ===== *)
theory DaqdClient
  imports FrontEndCommand
begin

text \<open>
  The requests a client of the acquisition daemon makes over its socket (daqd/src/Client.cpp): the
  frame of a request, the dispatch on its type, and the handlers on the state of the frame server.

  A handler is given what \<open>send\<close> will return, and its result lists the messages it sends. A message is
  the value of the structure that is sent; the size of the structure, with its padding, decides
  what counts as a complete send. The processor is little-endian.
\<close>

section \<open>Messages\<close>

definition commandAcqOnOff :: nat where "commandAcqOnOff = 0x01"
definition commandGetDataFrameSharedMemoryName :: nat where "commandGetDataFrameSharedMemoryName = 0x02"
definition commandGetDataFrameWriteReadPointer :: nat where "commandGetDataFrameWriteReadPointer = 0x03"
definition commandSetDataFrameReadPointer :: nat where "commandSetDataFrameReadPointer = 0x04"
definition commandToFrontEnd :: nat where "commandToFrontEnd = 0x05"
definition commandGetPortUp :: nat where "commandGetPortUp = 0x06"
definition commandGetPortCounts :: nat where "commandGetPortCounts = 0x07"
definition commandSetSorter :: nat where "commandSetSorter = 0x09"
definition commandSetTrigger :: nat where "commandSetTrigger = 0x10"
definition commandSetIdleTimeCalculation :: nat where "commandSetIdleTimeCalculation = 0x11"
definition commandSetGateEnable :: nat where "commandSetGateEnable = 0x12"
definition commandSetMinimumFrameID :: nat where "commandSetMinimumFrameID = 0x13"
definition commandGetDAQTemp :: nat where "commandGetDAQTemp = 0x14"

lemmas command_types = commandAcqOnOff_def commandGetDataFrameSharedMemoryName_def
  commandGetDataFrameWriteReadPointer_def commandSetDataFrameReadPointer_def commandToFrontEnd_def
  commandGetPortUp_def commandGetPortCounts_def commandSetSorter_def commandSetTrigger_def
  commandSetIdleTimeCalculation_def commandSetGateEnable_def commandSetMinimumFrameID_def
  commandGetDAQTemp_def

datatype message =
    MLength u16
  | MPointers u16 u32 u32 u32
  | MWord u32
  | MStatus int
  | MNameHeader u16 u64
  | MName string
  | MValue u16 u64
  | MCounts u16 u64 u64 u64
  | MReply "u8 list"

text \<open>\<open>sizeof\<close> of the structure, or the length of the bytes.\<close>

definition message_size :: "message \<Rightarrow> nat" where
  "message_size m = (case m of
     MLength _ \<Rightarrow> 2
   | MPointers _ _ _ _ \<Rightarrow> 16
   | MWord _ \<Rightarrow> 4
   | MStatus _ \<Rightarrow> 4
   | MNameHeader _ _ \<Rightarrow> 32
   | MName name \<Rightarrow> length name
   | MValue _ _ \<Rightarrow> 16
   | MCounts _ _ _ _ \<Rightarrow> 32
   | MReply bs \<Rightarrow> length bs)"

text \<open>The test \<open>status < sizeof(...)\<close> compares a signed status with an unsigned size.\<close>

definition check_send :: "int \<Rightarrow> message \<Rightarrow> int" where
  "check_send status m = (if (word_of_int status :: u64) < of_nat (message_size m) then -1 else 0)"

fun le_nat :: "u8 list \<Rightarrow> nat" where
  "le_nat [] = 0"
| "le_nat (b # bs) = unat b + 256 * le_nat bs"

section \<open>Handlers\<close>

text \<open>The parts of the frame server that the requests reach besides the state of the queue: the name of
  the shared memory, the status of the cards, and the exchange of a command with the front end,
  given port, slave, buffer, size of the buffer and length of the command.\<close>

record daq_interface =
  shmName :: string
  portUp :: u64
  daqTemp :: u64
  portCounts :: "nat \<Rightarrow> nat \<Rightarrow> u64"
  frontEnd :: "int \<Rightarrow> int \<Rightarrow> u8 list \<Rightarrow> int \<Rightarrow> int \<Rightarrow> (int \<times> u8 list) checked"

type_synonym handled = "int \<times> message list \<times> server"

definition body :: "u8 list \<Rightarrow> nat \<Rightarrow> nat" where
  "body socketBuffer n = le_nat (take n (drop 4 socketBuffer))"

definition doAcqOnOff :: "u8 list \<Rightarrow> int \<Rightarrow> server \<Rightarrow> handled" where
  "doAcqOnOff sb status s =
     (let acqMode = body sb 2; reply = MLength 0
      in (check_send status reply, [reply],
          s\<lparr>ctl := (if acqMode \<noteq> 0 then DAQ_startAcquisition 1 else DAQ_stopAcquisition)\<rparr>))"

definition doGetDataFrameWriteReadPointer :: "int \<Rightarrow> server \<Rightarrow> handled" where
  "doGetDataFrameWriteReadPointer status s =
     (let reply = MPointers 16 (of_nat (getDataFrameWritePointer s)) (of_nat (getDataFrameReadPointer s))
                    (if amAcquiring s then 1 else 0)
      in (check_send status reply, [reply], s))"

definition doSetDataFrameReadPointer :: "u8 list \<Rightarrow> int \<Rightarrow> server \<Rightarrow> handled" where
  "doSetDataFrameReadPointer sb status s =
     (let readPointer = body sb 4; reply = MWord (of_nat readPointer)
      in (check_send status reply, [reply], setDataFrameReadPointer readPointer s))"

definition doGetDataFrameSharedMemoryName :: "daq_interface \<Rightarrow> int \<Rightarrow> int \<Rightarrow> server \<Rightarrow> handled" where
  "doGetDataFrameSharedMemoryName d status1 status2 s =
     (let header = MNameHeader (of_nat (32 + length (shmName d))) (of_nat sizeof_RawDataFrame);
          name = MName (shmName d)
      in if check_send status1 header = -1 then (-1, [header], s)
         else (check_send status2 name, [header, name], s))"

definition doGetPortUp :: "daq_interface \<Rightarrow> int \<Rightarrow> server \<Rightarrow> handled" where
  "doGetPortUp d status s = (let reply = MValue 16 (portUp d) in (check_send status reply, [reply], s))"

definition doGetDAQTemp :: "daq_interface \<Rightarrow> int \<Rightarrow> server \<Rightarrow> handled" where
  "doGetDAQTemp d status s = (let reply = MValue 16 (daqTemp d) in (check_send status reply, [reply], s))"

definition doGetPortCounts :: "daq_interface \<Rightarrow> u8 list \<Rightarrow> int \<Rightarrow> server \<Rightarrow> handled" where
  "doGetPortCounts d sb status s =
     (let portID = body sb 2;
          reply = MCounts 32 (portCounts d portID 0) (portCounts d portID 1) (portCounts d portID 2)
      in (check_send status reply, [reply], s))"

text \<open>The frame server for cards does not support these settings: its methods return -1 and leave the
  cards alone. The handler of the sorter reports success all the same.\<close>

definition DAQ_setSorter :: int where "DAQ_setSorter = -1"
definition DAQ_setCoincidenceTrigger :: int where "DAQ_setCoincidenceTrigger = -1"
definition DAQ_setGateEnable :: int where "DAQ_setGateEnable = -1"

definition doSetSorter :: "int \<Rightarrow> server \<Rightarrow> handled" where
  "doSetSorter status s = (let reply = MWord 0 in (check_send status reply, [reply], s))"

definition doSetTrigger :: "int \<Rightarrow> server \<Rightarrow> handled" where
  "doSetTrigger status s =
     (let reply = MStatus DAQ_setCoincidenceTrigger in (check_send status reply, [reply], s))"

definition doSetIdleTimeCalculation :: "u8 list \<Rightarrow> int \<Rightarrow> server \<Rightarrow> handled" where
  "doSetIdleTimeCalculation sb status s =
     (let mode = of_nat (body sb 4); reply = MWord 0
      in (check_send status reply, [reply], snd (setIdleTimeCalculation mode s)))"

definition doSetGateEnable :: "int \<Rightarrow> server \<Rightarrow> handled" where
  "doSetGateEnable status s = (let reply = MStatus DAQ_setGateEnable in (check_send status reply, [reply], s))"

definition doSetMinimumFrameID :: "u8 list \<Rightarrow> int \<Rightarrow> server \<Rightarrow> handled" where
  "doSetMinimumFrameID sb status s =
     (let (r, s') = setMinimumFrameID (of_nat (body sb 8)) s; reply = MStatus r
      in (check_send status reply, [reply], s'))"

text \<open>A command to the front end is copied to a buffer of 2048 bytes on the stack, whose earlier content
  is \<open>stack\<close>; the result of sending the answer is not tested. A negative length of the answer is
  converted to a size of almost \<open>2 ^ 64\<close> bytes, so the call reads behind the buffer.\<close>

definition doCommandToFrontEnd :: "daq_interface \<Rightarrow> u8 list \<Rightarrow> u8 list \<Rightarrow> int \<Rightarrow> server \<Rightarrow> handled checked" where
  "doCommandToFrontEnd d stack sb commandLength s =
     (if commandLength < 0 \<or> int (length stack) < commandLength then None
      else do {
        command \<leftarrow> rd_range sb 4 (nat commandLength);
        let buffer = command @ drop (length command) stack;
        b0 \<leftarrow> rd buffer 0;
        b1 \<leftarrow> rd buffer 1;
        (replyLength, reply) \<leftarrow> frontEnd d (sint b0) (sint b1) (drop 2 buffer) 2048 (commandLength - 2);
        if replyLength < 0 then None
        else do {
          answer \<leftarrow> rd_range reply 0 (nat replyLength);
          Some (0, [MLength (word_of_int replyLength), MReply answer], s) } })"

section \<open>The dispatch\<close>

text \<open>\<open>recv\<close> is what the two calls return; \<open>sb\<close> is the buffer of the client before the request. A
  request whose type is not known is answered by nothing and counts as handled.\<close>

definition dispatch_request :: "daq_interface \<Rightarrow> u8 list \<Rightarrow> nat \<Rightarrow> int \<Rightarrow> u8 list \<Rightarrow> int list \<Rightarrow> server \<Rightarrow>
    handled checked" where
  "dispatch_request d stack ty nBytesNext sb statuses s =
     (let status = statuses ! 0 in
      if ty = commandAcqOnOff then
        (case doAcqOnOff sb status s of (_, ms, s') \<Rightarrow> Some (0, ms, s'))
      else if ty = commandGetDataFrameSharedMemoryName then
        Some (doGetDataFrameSharedMemoryName d status (statuses ! 1) s)
      else if ty = commandGetDataFrameWriteReadPointer then Some (doGetDataFrameWriteReadPointer status s)
      else if ty = commandSetDataFrameReadPointer then Some (doSetDataFrameReadPointer sb status s)
      else if ty = commandToFrontEnd then doCommandToFrontEnd d stack sb nBytesNext s
      else if ty = commandGetPortUp then Some (doGetPortUp d status s)
      else if ty = commandGetPortCounts then Some (doGetPortCounts d sb status s)
      else if ty = commandSetSorter then Some (doSetSorter status s)
      else if ty = commandSetTrigger then Some (doSetTrigger status s)
      else if ty = commandSetIdleTimeCalculation then Some (doSetIdleTimeCalculation sb status s)
      else if ty = commandSetGateEnable then Some (doSetGateEnable status s)
      else if ty = commandSetMinimumFrameID then Some (doSetMinimumFrameID sb status s)
      else if ty = commandGetDAQTemp then Some (doGetDAQTemp d status s)
      else Some (0, [], s))"

definition socketBuffer_size :: nat where
  "socketBuffer_size = 16 * 1024"

definition request_buffer :: "u8 list \<Rightarrow> u8 list \<Rightarrow> u8 list \<Rightarrow> u8 list" where
  "request_buffer recv1 recv2 sb =
     (let len = le_nat (drop 2 recv1)
      in if 4 < len then recv1 @ recv2 @ drop len sb else recv1 @ drop 4 sb)"

definition handleRequest :: "daq_interface \<Rightarrow> u8 list \<Rightarrow> u8 list \<Rightarrow> u8 list \<Rightarrow> u8 list \<Rightarrow> int list \<Rightarrow> server \<Rightarrow>
    handled checked" where
  "handleRequest d stack recv1 recv2 sb statuses s =
     (if length recv1 \<noteq> 4 then Some (-1, [], s)
      else let ty = le_nat (take 2 recv1);
               len = le_nat (drop 2 recv1);
               nBytesNext = int len - 4
        in if socketBuffer_size < len then Some (-1, [], s)
           else if 0 < nBytesNext \<and> int (length recv2) \<noteq> nBytesNext then Some (-1, [], s)
           else dispatch_request d stack ty nBytesNext (request_buffer recv1 recv2 sb) statuses s)"

section \<open>Which requests are safe\<close>

lemma dispatch_defined:
  assumes "ty \<noteq> commandToFrontEnd"
  shows "dispatch_request d stack ty n sb statuses s \<noteq> None"
  using assms by (simp add: dispatch_request_def Let_def split_beta del: not_None_eq)

text \<open>The front end of the frame server for cards.\<close>

definition card_front_end :: "nat \<Rightarrow> nat \<Rightarrow> u64 list \<Rightarrow> u64 list option list \<Rightarrow>
    int \<Rightarrow> int \<Rightarrow> u8 list \<Rightarrow> int \<Rightarrow> int \<Rightarrow> (int \<times> u8 list) checked" where
  "card_front_end nCards bits pstack replies portID slaveID buffer bufferSize commandLength =
     map_option (\<lambda>(r, _, buffer'). (r, buffer'))
       (sendCommand nCards bits pstack portID slaveID buffer bufferSize commandLength replies)"

definition addressed_card :: "nat \<Rightarrow> u8 \<Rightarrow> nat" where
  "addressed_card bits b = unat (drop_bit bits (word_of_int (sint b) :: u64))"

lemma reply_length_nonneg:
  assumes "find (is_answer bits cardID port slave sn bufferSize) ps = Some p"
  shows "0 \<le> reply_length (p ! 1)" "reply_length (p ! 1) \<le> 2032"
  using assms by (auto simp: find_Some_iff is_answer_def well_addressed_def MAX_PACKET_WORDS_def)

lemma front_end_answers:
  assumes "full_packets replies" "length buffer = 2046" "0 \<le> n" "n \<le> 2032"
    and "unat (drop_bit bits (word_of_int portID :: u64)) < nCards"
  shows "\<exists>r buffer'. card_front_end nCards bits pstack replies portID slaveID buffer 2048 n = Some (r, buffer') \<and>
    0 \<le> r \<and> r \<le> int (length buffer')"
proof -
  have "\<exists>r packet buffer'. sendCommand nCards bits pstack portID slaveID buffer 2048 n replies =
      Some (r, Some packet, buffer') \<and> length buffer' = length buffer \<and>
    (case find (is_answer bits (drop_bit bits (word_of_int portID)) (take_bit bits (word_of_int portID))
                  (word_of_int slaveID) (take 2 buffer) 2048) (frames_in replies) of
       None \<Rightarrow> r = 0
     | Some p \<Rightarrow> r = reply_length (p ! 1) \<and> take (nat r) buffer' = payload_of p)"
    using assms by (intro sendCommand_works) auto
  then show ?thesis
    using assms(2) by (fastforce simp: card_front_end_def split: option.splits dest: reply_length_nonneg)
qed

lemma front_end_rejects:
  assumes "2 \<le> length buffer"
    and "nCards \<le> unat (drop_bit bits (word_of_int portID :: u64)) \<or> 2032 < n \<or> n < 0"
  shows "card_front_end nCards bits pstack replies portID slaveID buffer bufferSize n = None \<or>
    card_front_end nCards bits pstack replies portID slaveID buffer bufferSize n = Some (-1, buffer)"
proof -
  have "2032 < n \<Longrightarrow> int MAX_PACKET_WORDS < 2 + (n + 7) div 8"
    by (simp add: MAX_PACKET_WORDS_def)
  then show ?thesis
    using assms by (auto simp: card_front_end_def sendCommand_def Let_def rd_def)
qed

text \<open>What the handler does with the bytes it copied to its buffer.\<close>

lemma front_end_handler:
  assumes "length stack = 2048" "4 + nat n \<le> length sb" "0 \<le> n" "n \<le> 2048"
  obtains b0 b1 rest where "take (nat n) (drop 4 sb) @ drop (nat n) stack = b0 # b1 # rest" "length rest = 2046"
    "doCommandToFrontEnd d stack sb n s = frontEnd d (sint b0) (sint b1) rest 2048 (n - 2) \<bind> (\<lambda>(r, reply).
      if r < 0 then None
      else rd_range reply 0 (nat r) \<bind> (\<lambda>answer. Some (0, [MLength (word_of_int r), MReply answer], s)))"
proof -
  define command where "command = take (nat n) (drop 4 sb)"
  define buffer where "buffer = command @ drop (length command) stack"
  have n: "nat n \<le> 2048"
    using assms(4) by linarith
  have command: "rd_range sb 4 (nat n) = Some command" "length command = nat n"
    using assms(2) by (simp_all add: rd_range_def command_def)
  have len: "length buffer = 2048"
    using assms(1) n command(2) by (simp add: buffer_def)
  then obtain b0 b1 rest where b: "buffer = b0 # b1 # rest"
    by (cases buffer; cases "tl buffer") auto
  have "take (nat n) (drop 4 sb) @ drop (nat n) stack = b0 # b1 # rest"
    using command(2) b by (simp add: buffer_def command_def)
  moreover have "length rest = 2046"
    using len b by simp
  moreover have "doCommandToFrontEnd d stack sb n s = frontEnd d (sint b0) (sint b1) rest 2048 (n - 2) \<bind> (\<lambda>(r, reply).
      if r < 0 then None
      else rd_range reply 0 (nat r) \<bind> (\<lambda>answer. Some (0, [MLength (word_of_int r), MReply answer], s)))"
    using assms(1,3,4) command(1) b
    by (simp add: doCommandToFrontEnd_def Let_def buffer_def [symmetric] del: drop_append)
  ultimately show thesis
    by (rule that)
qed

lemma front_end_safe:
  assumes "full_packets replies" "length stack = 2048" "4 + nat n \<le> length sb"
    and "frontEnd d = card_front_end nCards bits pstack replies"
  shows "doCommandToFrontEnd d stack sb n s \<noteq> None \<longleftrightarrow>
    2 \<le> n \<and> n \<le> 2034 \<and>
    addressed_card bits ((take (nat n) (drop 4 sb) @ drop (nat n) stack) ! 0) < nCards"
proof (cases "n < 0 \<or> 2048 < n")
  case True
  then show ?thesis
    using assms(2) by (auto simp: doCommandToFrontEnd_def)
next
  case False
  obtain b0 b1 rest where b: "take (nat n) (drop 4 sb) @ drop (nat n) stack = b0 # b1 # rest" "length rest = 2046"
    and eq: "doCommandToFrontEnd d stack sb n s = frontEnd d (sint b0) (sint b1) rest 2048 (n - 2) \<bind> (\<lambda>(r, reply).
      if r < 0 then None
      else rd_range reply 0 (nat r) \<bind> (\<lambda>answer. Some (0, [MLength (word_of_int r), MReply answer], s)))"
    by (rule front_end_handler [OF assms(2,3), where d = d and s = s]) (use False in auto)
  let ?fe = "card_front_end nCards bits pstack replies (sint b0) (sint b1) rest 2048 (n - 2)"
  show ?thesis
  proof (cases "2 \<le> n \<and> n \<le> 2034 \<and> addressed_card bits b0 < nCards")
    case True
    then obtain r reply where "?fe = Some (r, reply)" "0 \<le> r" "r \<le> int (length reply)"
      using front_end_answers [OF assms(1) b(2), of "n - 2" bits "sint b0" nCards pstack "sint b1"]
      by (auto simp: addressed_card_def)
    then show ?thesis
      using eq True b(1) assms(4) by (simp add: rd_range_def)
  next
    case bad: False
    then have "?fe = None \<or> ?fe = Some (-1, rest)"
      using b(2) by (intro front_end_rejects) (auto simp: addressed_card_def)
    then show ?thesis
      using eq bad b(1) assms(4) by auto
  qed
qed


definition demo_interface :: daq_interface where
  "demo_interface = \<lparr>shmName = ''/daqd_shm'', portUp = 1, daqTemp = 0, portCounts = (\<lambda>_ _. 0),
     frontEnd = card_front_end 1 5 [] [None]\<rparr>"


text \<open>A send that fails is taken for a complete one: the status is compared as an unsigned number,
  so only a send of some but not all bytes makes a handler report an error.\<close>

theorem failed_send_unnoticed:
  assumes "- (2 ^ 31) \<le> status" "status < 2 ^ 31" "message_size m < 2 ^ 31"
  shows "check_send status m = -1 \<longleftrightarrow> 0 \<le> status \<and> status < int (message_size m)"
proof (cases "0 \<le> status")
  case True
  then have "uint (word_of_int status :: u64) = status"
    using assms(2) by (simp add: unsigned_of_int take_bit_int_eq_self)
  moreover have "uint (of_nat (message_size m) :: u64) = int (message_size m)"
    using assms(3) by (simp add: unsigned_of_nat take_bit_nat_eq_self)
  ultimately show ?thesis
    using True by (simp add: check_send_def word_less_def)
next
  case False
  have "(status + 2 ^ 64) mod 2 ^ 64 = status + 2 ^ 64"
    using False assms(1) by (intro mod_pos_pos_trivial) simp_all
  then have "uint (word_of_int status :: u64) = status + 2 ^ 64"
    by (simp add: unsigned_of_int take_bit_eq_mod)
  moreover have "uint (of_nat (message_size m) :: u64) = int (message_size m)"
    using assms(3) by (simp add: unsigned_of_nat take_bit_nat_eq_self)
  ultimately show ?thesis
    using False assms(1,3) by (simp add: check_send_def word_less_def)
qed

theorem failed_send_unnoticed_witness:
  "check_send (-1) (MLength 0) = -1 \<longleftrightarrow> 0 \<le> (-1 :: int) \<and> -1 < int (message_size (MLength 0))"
  by (rule failed_send_unnoticed) (simp_all add: message_size_def)

text \<open>What each request does to the server. A read pointer that the reader of the queue may set is one the
  write pointer has passed.\<close>

definition reader_moves :: "nat \<Rightarrow> server \<Rightarrow> bool" where
  "reader_moves p s = (\<exists>k \<le> occupied s. p mod (2 * NFrames) = (dataFrameReadPointer s + k) mod (2 * NFrames))"

lemma set_pointer_reads:
  assumes "ctl s = []" "reader_moves p s"
  shows "\<exists>k \<le> occupied s. fs_step s (LTaken (take k (queue s))) (setDataFrameReadPointer p s)"
proof -
  obtain k where k: "k \<le> occupied s" "p mod (2 * NFrames) = (dataFrameReadPointer s + k) mod (2 * NFrames)"
    using assms(2) by (auto simp: reader_moves_def)
  then have "setDataFrameReadPointer p s = setDataFrameReadPointer (dataFrameReadPointer s + k) s"
    by (simp add: setDataFrameReadPointer_def)
  then show ?thesis
    using fs_read [OF assms(1) k(1)] k(1) by (intro exI [of _ k]) simp
qed

lemma acquisition_requested: "ctl s = [] \<Longrightarrow>
  fs_step s LRequest (s\<lparr>ctl := (if on then DAQ_startAcquisition 1 else DAQ_stopAcquisition)\<rparr>)"
  using fs_start [of s 1] fs_stop [of s] by simp

lemma minimum_requested: "ctl s = [] \<Longrightarrow> fs_step s LClient (s\<lparr>minimumFrameID := m\<rparr>)"
  using fs_minimum [of s m] by (simp add: setMinimumFrameID_def)

lemma front_end_same: "pred_option (\<lambda>x. snd (snd x) = s) (doCommandToFrontEnd d stack sb n s)"
  by (cases "doCommandToFrontEnd d stack sb n s")
    (auto simp: doCommandToFrontEnd_def Let_def bind_eq_Some_conv split: if_splits)

lemma handlers_state:
  "snd (snd (doAcqOnOff sb st s)) = s\<lparr>ctl := (if body sb 2 \<noteq> 0 then DAQ_startAcquisition 1 else DAQ_stopAcquisition)\<rparr>"
  "snd (snd (doGetDataFrameSharedMemoryName d st1 st2 s)) = s"
  "snd (snd (doGetDataFrameWriteReadPointer st s)) = s"
  "snd (snd (doGetPortUp d st s)) = s" "snd (snd (doGetPortCounts d sb st s)) = s"
  "snd (snd (doSetSorter st s)) = s" "snd (snd (doSetTrigger st s)) = s"
  "snd (snd (doSetGateEnable st s)) = s" "snd (snd (doGetDAQTemp d st s)) = s"
  "snd (snd (doSetDataFrameReadPointer sb st s)) = setDataFrameReadPointer (body sb 4) s"
  "snd (snd (doSetIdleTimeCalculation sb st s)) = s\<lparr>idleTimeMode := of_nat (body sb 4)\<rparr>"
  "snd (snd (doSetMinimumFrameID sb st s)) = s\<lparr>minimumFrameID := of_nat (body sb 8)\<rparr>"
  by (simp_all add: doAcqOnOff_def doGetDataFrameSharedMemoryName_def doGetDataFrameWriteReadPointer_def doGetPortUp_def
    doGetPortCounts_def doSetSorter_def doSetTrigger_def doSetGateEnable_def doGetDAQTemp_def setMinimumFrameID_def
    doSetDataFrameReadPointer_def doSetIdleTimeCalculation_def setIdleTimeCalculation_def doSetMinimumFrameID_def Let_def)

text \<open>The state after a request, by its type and the bytes \<open>sb\<close> of the buffer.\<close>

definition after_request :: "nat \<Rightarrow> u8 list \<Rightarrow> server \<Rightarrow> server" where
  "after_request ty sb s =
     (if ty = commandAcqOnOff then
        s\<lparr>ctl := (if body sb 2 \<noteq> 0 then DAQ_startAcquisition 1 else DAQ_stopAcquisition)\<rparr>
      else if ty = commandSetDataFrameReadPointer then s\<lparr>dataFrameReadPointer := body sb 4 mod (2 * NFrames)\<rparr>
      else if ty = commandSetIdleTimeCalculation then s\<lparr>idleTimeMode := of_nat (body sb 4)\<rparr>
      else if ty = commandSetMinimumFrameID then s\<lparr>minimumFrameID := of_nat (body sb 8)\<rparr>
      else s)"

lemma dispatch_state:
  "pred_option (\<lambda>x. snd (snd x) = after_request ty sb s) (dispatch_request d stack ty n sb statuses s)"
proof -
  note effects = handlers_state setDataFrameReadPointer_def after_request_def command_types
  consider "ty = commandToFrontEnd" | "ty \<noteq> commandToFrontEnd"
    by blast
  then show ?thesis
  proof cases
    case 1
    then show ?thesis
      using front_end_same [of s d stack sb n] by (simp add: dispatch_request_def Let_def effects)
  next
    case 2
    then show ?thesis
      unfolding dispatch_request_def Let_def split_beta by (simp add: effects)
  qed
qed


definition pointer_request :: "u8 list" where
  "pointer_request = [4, 0, 8, 0]"


end
