(* ===== verification/SocketServers.thy ===== *)
theory SocketServers
  imports HubLink DaqdClient
begin

text \<open>
  The three servers of the program that wait for connections: the command server and the event server
  (FlightOps/src/GRAMS\_TOF\_CommandServer.cpp, GRAMS\_TOF\_EventServer.cpp), used by the test tools, and the
  manager of the acquisition (GRAMS\_TOF\_DAQManager.cpp), which gives its clients the requests of the
  daemon. Each has a loop that handles one event after the other, on a table of connections.

  A locale states what the three loops have in common: as long as each event keeps the connection
  between table and open descriptors, no descriptor is leaked and none of others is closed. What the
  system calls answer is an argument of the events.
\<close>

section \<open>Tables of connections\<close>

definition conn_put :: "fd \<Rightarrow> 'c \<Rightarrow> (fd \<times> 'c) list \<Rightarrow> (fd \<times> 'c) list" where
  "conn_put fd c l = (fd, c) # filter (\<lambda>x. fst x \<noteq> fd) l"

definition conn_erase :: "fd \<Rightarrow> (fd \<times> 'c) list \<Rightarrow> (fd \<times> 'c) list" where
  "conn_erase fd l = filter (\<lambda>x. fst x \<noteq> fd) l"

lemma conn_put_keys [simp]: "fst ` set (conn_put fd c l) = insert fd (fst ` set l)"
  by (auto simp: conn_put_def image_iff)

lemma conn_erase_keys [simp]: "fst ` set (conn_erase fd l) = fst ` set l - {fd}"
  by (auto simp: conn_erase_def image_iff)

lemma conn_put_in: "(x, y) \<in> set (conn_put fd c l) \<Longrightarrow> (x, y) = (fd, c) \<or> (x, y) \<in> set l"
  by (auto simp: conn_put_def)

lemma conn_erase_in: "(x, y) \<in> set (conn_erase fd l) \<Longrightarrow> (x, y) \<in> set l \<and> x \<noteq> fd"
  by (auto simp: conn_erase_def)

fun run_events :: "('e \<Rightarrow> 's \<Rightarrow> 's option) \<Rightarrow> 'e list \<Rightarrow> 's \<Rightarrow> 's option" where
  "run_events step [] s = Some s"
| "run_events step (e # es) s = do { s' \<leftarrow> step e s; run_events step es s' }"

text \<open>\<open>opened\<close> are the open descriptors, \<open>conns\<close> those in the table, \<open>inv base\<close> is what the server
  keeps, where \<open>base\<close> are the descriptors that are not connections.\<close>

locale connection_server =
  fixes step :: "'e \<Rightarrow> 's \<Rightarrow> 's option"
    and opened :: "'s \<Rightarrow> fd set"
    and conns :: "'s \<Rightarrow> fd set"
    and inv :: "fd set \<Rightarrow> 's \<Rightarrow> bool"
  assumes inv_step: "inv base s \<Longrightarrow> step e s = Some s' \<Longrightarrow> inv base s'"
    and inv_sound: "inv base s \<Longrightarrow> opened s = base \<union> conns s \<and> base \<inter> conns s = {}"
begin

lemma inv_run: "inv base s \<Longrightarrow> run_events step es s = Some s' \<Longrightarrow> inv base s'"
proof (induction es arbitrary: s)
  case (Cons e es)
  then show ?case
    using inv_step [of base s e] by (auto split: Option.bind_splits)
qed simp

lemma no_leak:
  assumes "inv base s" "run_events step es s = Some s'"
  shows "opened s' = base \<union> conns s'" "base \<inter> conns s' = {}"
  using inv_sound [OF inv_run [OF assms]] by simp_all

end

section \<open>Command and event server\<close>

record socket_server =
  clientList :: "(fd \<times> client) list"
  fds :: fd_state

text \<open>The start of \<open>run\<close>: the answers are those of \<open>socket\<close>, \<open>bind\<close>, \<open>listen\<close>, \<open>epoll_create1\<close> and
  \<open>epoll_ctl\<close>; the result is the descriptor of the event queue, if there is one.\<close>

record server_answers =
  socket_ok :: bool
  bind_ok :: bool
  listen_ok :: bool
  epoll_ok :: bool
  ctl_ok :: bool

definition server_open :: "ServerKind \<Rightarrow> server_answers \<Rightarrow> fd_state \<Rightarrow> fd option \<times> fd_state" where
  "server_open kind a s =
     (if \<not> socket_ok a then (None, s)
      else let (fd, s) = os_socket s; s = setServerFD kind fd s
        in if \<not> bind_ok a then (None, removeServerFD kind s)
           else if \<not> listen_ok a then (None, removeServerFD kind s)
           else if \<not> epoll_ok a then (None, removeServerFD kind s)
           else let (epoll_fd, s) = os_socket s
             in if \<not> ctl_ok a then (None, os_close epoll_fd (removeServerFD kind s)) else (Some epoll_fd, s))"

text \<open>A new connection: whether \<open>accept\<close> and watching the descriptor succeed. An entry that is replaced
  is destroyed, which closes its descriptor.\<close>

definition server_accept :: "bool \<Rightarrow> bool \<Rightarrow> socket_server \<Rightarrow> socket_server" where
  "server_accept acc_ok watched s =
     (if \<not> acc_ok then s
      else let (new_fd, fs) = os_socket (fds s)
        in if new_fd \<le> 2 then s\<lparr>fds := os_close new_fd fs\<rparr>
           else if \<not> watched then s\<lparr>fds := os_close new_fd fs\<rparr>
           else let (c, fs) = Client_new new_fd fs;
                    fs = (case map_of (clientList s) new_fd of None \<Rightarrow> fs | Some old \<Rightarrow> snd (Client_closeFD old fs))
             in s\<lparr>clientList := conn_put new_fd c (clientList s), fds := fs\<rparr>)"

definition server_drop :: "fd \<Rightarrow> client \<Rightarrow> socket_server \<Rightarrow> socket_server" where
  "server_drop fd c s = s\<lparr>clientList := conn_erase fd (clientList s), fds := snd (Client_closeFD c (fds s))\<rparr>"

definition server_ack :: packet where
  "server_ack = \<lparr>code = toCommCode ACK, argc = 1, argv = []\<rparr>"

text \<open>Something on a connection: the result is the packet that is handed on. The acknowledgement of the
  command server announces one argument and has none.\<close>

definition server_input :: "ServerKind \<Rightarrow> bool \<Rightarrow> recv_outcome \<Rightarrow> bool \<Rightarrow> send_outcome list \<Rightarrow> fd \<Rightarrow> socket_server \<Rightarrow>
    (packet option \<times> socket_server) checked" where
  "server_input kind hangup received again outcomes fd s = (case map_of (clientList s) fd of
     None \<Rightarrow> Some (None, s)
   | Some c \<Rightarrow>
       let (n, bytes, c) = Client_recvData c 1024 received again (fds s) in
       if n \<le> 0 \<or> hangup then Some (None, server_drop fd c s)
       else let s = s\<lparr>clientList := conn_put fd c (clientList s)\<rparr> in do {
         verdict \<leftarrow> parse bytes;
         (case verdict of
            Inl _ \<Rightarrow> Some (None, s)
          | Inr pkt \<Rightarrow>
              if kind = COMMAND then do {
                ack \<leftarrow> serialize server_ack None;
                _ \<leftarrow> Client_sendData c outcomes ack (fds s);
                Some (Some pkt, s) }
              else Some (Some pkt, s)) })"

text \<open>The event server sends a packet to all its connections and drops those that fail.\<close>

fun send_each :: "(fd \<Rightarrow> send_outcome list) \<Rightarrow> u8 list \<Rightarrow> (fd \<times> client) list \<Rightarrow> socket_server \<Rightarrow>
    (bool \<times> socket_server) option" where
  "send_each outcomes bytes [] s = Some (True, s)"
| "send_each outcomes bytes ((fd, c) # rest) s = do {
     (r, wire) \<leftarrow> Client_sendData c (outcomes fd) bytes (fds s);
     if r \<le> 0 then map_option (\<lambda>(ok, s). (False, s)) (send_each outcomes bytes rest (server_drop fd c s))
     else send_each outcomes bytes rest s }"

definition server_send :: "(fd \<Rightarrow> send_outcome list) \<Rightarrow> packet \<Rightarrow> socket_server \<Rightarrow> (bool \<times> socket_server) checked" where
  "server_send outcomes pkt s = do {
     serialized \<leftarrow> serialize pkt None;
     send_each outcomes serialized (clientList s) s }"

definition callback_packet :: "u32 list \<Rightarrow> packet" where
  "callback_packet args = \<lparr>code = toCommCode CALLBACK, argc = of_nat (length args), argv = args\<rparr>"

definition heartbeat_packet :: packet where
  "heartbeat_packet = \<lparr>code = toCommCode HEART_BEAT, argc = 0, argv = []\<rparr>"

definition EventServer_sendCallback :: "(fd \<Rightarrow> send_outcome list) \<Rightarrow> u32 list \<Rightarrow> socket_server \<Rightarrow> (bool \<times> socket_server) checked" where
  "EventServer_sendCallback outcomes args s = server_send outcomes (callback_packet args) s"

definition EventServer_sendHeartbeat :: "(fd \<Rightarrow> send_outcome list) \<Rightarrow> socket_server \<Rightarrow> (bool \<times> socket_server) checked" where
  "EventServer_sendHeartbeat outcomes s = server_send outcomes heartbeat_packet s"

text \<open>The end of \<open>run\<close>.\<close>

definition server_finish :: "ServerKind \<Rightarrow> fd \<Rightarrow> socket_server \<Rightarrow> socket_server" where
  "server_finish kind epoll_fd s =
     (let fs = fold (\<lambda>x fs. snd (Client_closeFD (snd x) fs)) (clientList s) (fds s)
      in \<lparr>clientList = [], fds = removeServerFD kind (os_close epoll_fd fs)\<rparr>)"

datatype server_event =
    EAccept bool bool
  | EInput bool recv_outcome bool "send_outcome list" fd
  | ESend "fd \<Rightarrow> send_outcome list" packet

definition server_event :: "ServerKind \<Rightarrow> server_event \<Rightarrow> socket_server \<Rightarrow> socket_server option" where
  "server_event kind e s = (case e of
     EAccept acc_ok watched \<Rightarrow> Some (server_accept acc_ok watched s)
   | EInput hangup received again outcomes fd \<Rightarrow> map_option snd (server_input kind hangup received again outcomes fd s)
   | ESend outcomes pkt \<Rightarrow> map_option snd (server_send outcomes pkt s))"

text \<open>The event server under its own names; its heartbeat thread does not look at the result.\<close>

definition EventServer_open :: "server_answers \<Rightarrow> fd_state \<Rightarrow> fd option \<times> fd_state" where
  "EventServer_open = server_open EVENT"

definition EventServer_event :: "server_event \<Rightarrow> socket_server \<Rightarrow> socket_server option" where
  "EventServer_event = server_event EVENT"

definition EventServer_finish :: "fd \<Rightarrow> socket_server \<Rightarrow> socket_server" where
  "EventServer_finish = server_finish EVENT"

definition EventServer_heartbeatLoop :: "(fd \<Rightarrow> send_outcome list) \<Rightarrow> socket_server \<Rightarrow> socket_server checked" where
  "EventServer_heartbeatLoop outcomes s = EventServer_event (ESend outcomes heartbeat_packet) s"

section \<open>The manager of the acquisition\<close>

record daq_manager =
  daqClients :: "(fd \<times> u8 list) list"
  daqFds :: fd_state
  daqServer :: server

text \<open>The listening socket. Only a socket that listens is noted.\<close>

definition createListeningSocket :: "server_answers \<Rightarrow> fd_state \<Rightarrow> fd \<times> fd_state" where
  "createListeningSocket a s =
     (if \<not> socket_ok a then (-1, s)
      else let (fd, s) = os_socket s
        in if \<not> bind_ok a then (-1, os_close fd s)
           else if \<not> listen_ok a then (-1, os_close fd s)
           else (fd, s))"

definition daq_open :: "server_answers \<Rightarrow> fd_state \<Rightarrow> bool \<times> fd_state" where
  "daq_open a s = (let (fd, s) = createListeningSocket a s in if fd < 0 then (False, s) else (True, setServerFD DAQ fd s))"

text \<open>The preparation: the cards given, the kind of hardware, whether the shared memory could be allocated,
  the frame server created, and which cards can be opened. The result is an exception or what the
  function returns, the descriptors, and the cards that are open.\<close>

datatype init_result = InitThrows string | InitReturns bool

definition daq_card_list :: "string list \<Rightarrow> string list" where
  "daq_card_list cards = (if cards = [] then [''/dev/psdaq0''] else cards)"

definition daq_card_port_bits :: "string list \<Rightarrow> nat" where
  "daq_card_port_bits cards = (if length (daq_card_list cards) = 2 then 2 else 5)"

fun open_cards :: "(string \<Rightarrow> bool) \<Rightarrow> string list \<Rightarrow> string option \<times> string list" where
  "open_cards opens [] = (None, [])"
| "open_cards opens (path # paths) =
     (if \<not> opens path then (Some path, [])
      else let (failed, opened) = open_cards opens paths in (failed, path # opened))"

definition daq_initialize :: "string list \<Rightarrow> string \<Rightarrow> server_answers \<Rightarrow> bool \<Rightarrow> bool \<Rightarrow> (string \<Rightarrow> bool) \<Rightarrow> fd_state \<Rightarrow>
    init_result \<times> fd_state \<times> string list" where
  "daq_initialize cards daqType a shm_ok created opens s =
     (if 2 < length cards then (InitThrows ''too many cards'', s, [])
      else let (listening, s) = daq_open a s
        in if \<not> listening then (InitReturns False, s, [])
           else if \<not> shm_ok then (InitThrows ''shared memory'', s, [])
           else if daqType = ''GBE'' then (InitReturns created, s, [])
           else if daqType = ''PFP_KX7'' then
             (case open_cards opens (daq_card_list cards) of
                (Some path, opened) \<Rightarrow> (InitThrows path, s, opened)
              | (None, opened) \<Rightarrow> (InitReturns created, s, opened))
           else (InitThrows daqType, s, []))"

definition daq_poll_open :: "server_answers \<Rightarrow> fd_state \<Rightarrow> fd option \<times> fd_state" where
  "daq_poll_open a s =
     (if \<not> epoll_ok a then (None, s)
      else let (epoll_fd, s) = os_socket s in if \<not> ctl_ok a then (None, os_close epoll_fd s) else (Some epoll_fd, s))"

definition daq_accept :: "bool \<Rightarrow> bool \<Rightarrow> u8 list \<Rightarrow> daq_manager \<Rightarrow> daq_manager" where
  "daq_accept acc_ok watched socketBuffer s =
     (if \<not> acc_ok then s
      else let (new_fd, fs) = os_socket (daqFds s)
        in if new_fd \<le> 2 \<or> \<not> watched then s\<lparr>daqFds := os_close new_fd fs\<rparr>
           else s\<lparr>daqClients := conn_put new_fd socketBuffer (daqClients s),
                  daqFds := (if new_fd \<in> fst ` set (daqClients s) then os_close new_fd fs else fs)\<rparr>)"

definition daq_drop :: "fd \<Rightarrow> daq_manager \<Rightarrow> daq_manager" where
  "daq_drop fd s = s\<lparr>daqClients := conn_erase fd (daqClients s), daqFds := os_close fd (daqFds s)\<rparr>"

text \<open>A request of a client, with what its two calls of \<open>recv\<close> and its sends return and what its stack
  holds. The result also has the messages it sent.\<close>

definition daq_input :: "daq_interface \<Rightarrow> bool \<Rightarrow> u8 list \<Rightarrow> u8 list \<Rightarrow> u8 list \<Rightarrow> int list \<Rightarrow> fd \<Rightarrow> daq_manager \<Rightarrow>
    (message list \<times> daq_manager) checked" where
  "daq_input d hangup stack recv1 recv2 statuses fd s = (case map_of (daqClients s) fd of
     None \<Rightarrow> Some ([], s)
   | Some sb \<Rightarrow>
       if hangup then Some ([], daq_drop fd s)
       else do {
         (actionStatus, ms, srv) \<leftarrow> handleRequest d stack recv1 recv2 sb statuses (daqServer s);
         let s = s\<lparr>daqServer := srv\<rparr>;
         Some (ms, if actionStatus = -1 then daq_drop fd s
                   else s\<lparr>daqClients := conn_put fd (request_buffer recv1 recv2 sb) (daqClients s)\<rparr>) })"

definition daq_poll_finish :: "fd \<Rightarrow> daq_manager \<Rightarrow> daq_manager" where
  "daq_poll_finish epoll_fd s =
     (let fs = os_close epoll_fd (fold (\<lambda>x fs. os_close (fst x) fs) (daqClients s) (daqFds s));
          server_fd = getServerFD DAQ fs
      in s\<lparr>daqClients := [],
           daqFds := (if server_fd \<ge> 0 then removeServerFD DAQ (os_close server_fd fs) else fs)\<rparr>)"

datatype daq_event =
    DAccept bool bool "u8 list"
  | DInput daq_interface bool "u8 list" "u8 list" "u8 list" "int list" fd

definition daq_event :: "daq_event \<Rightarrow> daq_manager \<Rightarrow> daq_manager option" where
  "daq_event e s = (case e of
     DAccept acc_ok watched sb \<Rightarrow> Some (daq_accept acc_ok watched sb s)
   | DInput d hangup stack recv1 recv2 statuses fd \<Rightarrow>
       map_option snd (daq_input d hangup stack recv1 recv2 statuses fd s))"

section \<open>No descriptor is leaked\<close>

lemma recvData_fd: "Client_recvData c limit received again s = (n, bytes, c') \<Longrightarrow> clientFD c' = clientFD c"
  by (auto simp: Client_recvData_def Let_def split: if_splits prod.splits)

definition server_inv :: "ServerKind \<Rightarrow> fd \<Rightarrow> fd set \<Rightarrow> socket_server \<Rightarrow> bool" where
  "server_inv kind listening base s =
     (set (openFDs (fds s)) = base \<union> fst ` set (clientList s) \<and> base \<inter> fst ` set (clientList s) = {} \<and>
      distinct (map fst (clientList s)) \<and> fst ` set (clientList s) \<subseteq> set (clientFDs (fds s)) \<and>
      (\<forall>fd c. (fd, c) \<in> set (clientList s) \<longrightarrow> clientFD c = fd \<and> 2 < fd) \<and> serverFDs (fds s) kind = listening)"

lemma distinct_put: "distinct (map fst l) \<Longrightarrow> distinct (map fst (conn_put fd c l))"
  by (auto simp: conn_put_def distinct_map_filter image_iff)

lemma distinct_erase: "distinct (map fst l) \<Longrightarrow> distinct (map fst (conn_erase fd l))"
  by (simp add: conn_erase_def distinct_map_filter)

lemma closeFD_known:
  assumes "clientFD c = fd" "2 < fd" "fd \<in> set (clientFDs s)"
  shows "snd (Client_closeFD c s) = os_close fd (s\<lparr>clientFDs := remove1 fd (clientFDs s)\<rparr>)"
  using assms by (simp add: Client_closeFD_def removeClientFD_def close_old_def)

lemma server_invI:
  assumes "set (openFDs (fds s)) = base \<union> fst ` set (clientList s)" "base \<inter> fst ` set (clientList s) = {}"
    and "distinct (map fst (clientList s))" "fst ` set (clientList s) \<subseteq> set (clientFDs (fds s))"
    and "\<And>fd c. (fd, c) \<in> set (clientList s) \<Longrightarrow> clientFD c = fd \<and> 2 < fd" "serverFDs (fds s) kind = listening"
  shows "server_inv kind listening base s"
  using assms unfolding server_inv_def by blast

lemma server_invD:
  assumes "server_inv kind listening base s"
  shows "set (openFDs (fds s)) = base \<union> fst ` set (clientList s)" "base \<inter> fst ` set (clientList s) = {}"
    "distinct (map fst (clientList s))" "fst ` set (clientList s) \<subseteq> set (clientFDs (fds s))"
    "\<And>fd c. (fd, c) \<in> set (clientList s) \<Longrightarrow> clientFD c = fd \<and> 2 < fd" "serverFDs (fds s) kind = listening"
  using assms unfolding server_inv_def by blast+

lemma server_drop_inv:
  assumes inv: "server_inv kind listening base s" and c: "(fd, c') \<in> set (clientList s)" "clientFD c = fd"
  shows "server_inv kind listening base (server_drop fd c s)"
proof (rule server_invI)
  note d = server_invD [OF inv]
  have fd: "2 < fd" "fd \<in> set (clientFDs (fds s))" "fd \<notin> base"
    using d(5) [OF c(1)] d(2,4) c(1) by force+
  note close = closeFD_known [OF c(2) fd(1,2)]
  show "set (openFDs (fds (server_drop fd c s))) = base \<union> fst ` set (clientList (server_drop fd c s))"
    using d(1) fd(3) by (auto simp: server_drop_def close)
  show "base \<inter> fst ` set (clientList (server_drop fd c s)) = {}"
    using d(2) by (auto simp: server_drop_def)
  show "distinct (map fst (clientList (server_drop fd c s)))"
    using d(3) by (simp add: server_drop_def distinct_erase)
  have "set l - {fd} \<subseteq> set (remove1 fd l)" for l
    by (rule subsetI) simp
  then show "fst ` set (clientList (server_drop fd c s)) \<subseteq> set (clientFDs (fds (server_drop fd c s)))"
    using d(4) by (auto simp: server_drop_def close)
  show "clientFD y = x \<and> 2 < x" if "(x, y) \<in> set (clientList (server_drop fd c s))" for x y
    using d(5) [of x y] that by (simp add: server_drop_def conn_erase_def)
  show "serverFDs (fds (server_drop fd c s)) kind = listening"
    using d(6) by (simp add: server_drop_def close)
qed

lemma server_put_inv:
  assumes inv: "server_inv kind listening base s" and c: "(fd, c) \<in> set (clientList s)" "clientFD c' = clientFD c"
  shows "server_inv kind listening base (s\<lparr>clientList := conn_put fd c' (clientList s)\<rparr>)"
proof (rule server_invI)
  note d = server_invD [OF inv]
  let ?s = "s\<lparr>clientList := conn_put fd c' (clientList s)\<rparr>"
  have keys: "fst ` set (clientList ?s) = fst ` set (clientList s)"
    using c(1) by (force simp: insert_absorb)
  show "set (openFDs (fds ?s)) = base \<union> fst ` set (clientList ?s)" "base \<inter> fst ` set (clientList ?s) = {}"
    "fst ` set (clientList ?s) \<subseteq> set (clientFDs (fds ?s))"
    unfolding keys using d(1,2,4) by simp_all
  show "distinct (map fst (clientList ?s))"
    using d(3) by (simp add: distinct_put)
  show "clientFD y = x \<and> 2 < x" if "(x, y) \<in> set (clientList ?s)" for x y
    using d(5) [of x y] d(5) [OF c(1)] c(2) that by (auto dest: conn_put_in)
  show "serverFDs (fds ?s) kind = listening"
    using d(6) by simp
qed

lemma filter_absent: "x \<notin> set l \<Longrightarrow> filter (\<lambda>y. y \<noteq> x) l = l"
  by (auto simp: filter_id_conv)

lemma server_accept_inv:
  assumes inv: "server_inv kind listening base s"
  shows "server_inv kind listening base (server_accept acc_ok watched s)"
proof -
  note d = server_invD [OF inv]
  let ?fd = "lowest_free (openFDs (fds s))"
  have new: "?fd \<notin> set (openFDs (fds s))"
    using lowest_free_result [of "openFDs (fds s)"] by simp
  then have key: "?fd \<notin> fst ` set (clientList s)" "?fd \<notin> base"
    unfolding d(1) by simp_all
  then have none: "map_of (clientList s) ?fd = None"
    by (simp add: map_of_eq_None_iff)
  have same: "os_close ?fd ((fds s)\<lparr>openFDs := ?fd # openFDs (fds s)\<rparr>) = fds s"
    using filter_absent [OF new] by (simp add: os_close_def)
  show ?thesis
  proof (cases "acc_ok \<and> 2 < ?fd \<and> watched")
    case False
    then have "server_accept acc_ok watched s = s"
      using same by (auto simp: server_accept_def os_socket_def Let_def)
    then show ?thesis
      using inv by simp
  next
    case True
    let ?s = "server_accept acc_ok watched s"
    have s': "?s = s\<lparr>clientList := conn_put ?fd \<lparr>clientFD = ?fd, readBuffer = []\<rparr> (clientList s),
        fds := addClientFD ?fd ((fds s)\<lparr>openFDs := ?fd # openFDs (fds s)\<rparr>)\<rparr>"
      using True none by (simp add: server_accept_def os_socket_def Let_def Client_new_def)
    have add: "openFDs (addClientFD x t) = openFDs t" "set (clientFDs (addClientFD x t)) = insert x (set (clientFDs t))"
      "serverFDs (addClientFD x t) = serverFDs t" for x t
      by (auto simp: addClientFD_def set_insort_key)
    show ?thesis
    proof (rule server_invI)
      show "set (openFDs (fds ?s)) = base \<union> fst ` set (clientList ?s)"
        using d(1) by (simp add: s' add)
      show "base \<inter> fst ` set (clientList ?s) = {}"
        using d(2) key(2) by (simp add: s')
      show "distinct (map fst (clientList ?s))"
        using d(3) by (simp add: s' distinct_put)
      show "fst ` set (clientList ?s) \<subseteq> set (clientFDs (fds ?s))"
        using d(4) by (auto simp: s' add)
      show "clientFD y = x \<and> 2 < x" if "(x, y) \<in> set (clientList ?s)" for x y
      proof -
        have "(x, y) \<in> set (conn_put ?fd \<lparr>clientFD = ?fd, readBuffer = []\<rparr> (clientList s))"
          using that unfolding s' by simp
        from conn_put_in [OF this] show ?thesis
          using d(5) [of x y] True by auto
      qed
      show "serverFDs (fds ?s) kind = listening"
        using d(6) by (simp add: s' add)
    qed
  qed
qed

lemma server_input_inv:
  assumes inv: "server_inv kind listening base s" and "server_input k hangup received again outcomes fd s = Some (p, s')"
  shows "server_inv kind listening base s'"
proof (cases "map_of (clientList s) fd")
  case None
  then show ?thesis
    using assms by (simp add: server_input_def)
next
  case (Some c)
  obtain n bytes c' where r: "Client_recvData c 1024 received again (fds s) = (n, bytes, c')"
    by (cases "Client_recvData c 1024 received again (fds s)") auto
  have c: "(fd, c) \<in> set (clientList s)"
    using Some by (rule map_of_SomeD)
  have fd: "clientFD c' = fd"
    using server_invD(5) [OF inv c] recvData_fd [OF r] by simp
  note drop = server_drop_inv [OF inv c fd] and put = server_put_inv [OF inv c recvData_fd [OF r]]
  have "s' = server_drop fd c' s \<or> s' = s\<lparr>clientList := conn_put fd c' (clientList s)\<rparr>"
    using assms(2) Some r unfolding server_input_def Let_def
    by (auto split: if_splits Option.bind_splits sum.splits)
  then show ?thesis
    using drop put by metis
qed

lemma send_each_inv:
  assumes "server_inv kind listening base s" "send_each outcomes bytes l s = Some (ok, s')"
    and "set l \<subseteq> set (clientList s)" "distinct (map fst l)"
  shows "server_inv kind listening base s'"
  using assms
proof (induction l arbitrary: s ok s')
  case (Cons x rest)
  obtain fd c where x: "x = (fd, c)"
    by (cases x)
  have c: "(fd, c) \<in> set (clientList s)"
    using Cons.prems(3) x by simp
  obtain r wire where r: "Client_sendData c (outcomes fd) bytes (fds s) = Some (r, wire)"
    using Cons.prems(2) x by (cases "Client_sendData c (outcomes fd) bytes (fds s)") auto
  show ?case
  proof (cases "r \<le> 0")
    case True
    have inv: "server_inv kind listening base (server_drop fd c s)"
      by (rule server_drop_inv [OF Cons.prems(1) c]) (use server_invD(5) [OF Cons.prems(1) c] in simp)
    moreover have "set rest \<subseteq> set (clientList (server_drop fd c s))"
      using Cons.prems(3,4) x by (force simp: server_drop_def conn_erase_def)
    moreover obtain ok' where "send_each outcomes bytes rest (server_drop fd c s) = Some (ok', s')"
      using Cons.prems(2) x r True by auto
    ultimately show ?thesis
      using Cons.IH Cons.prems(4) by simp
  next
    case False
    then show ?thesis
      using Cons.IH [OF Cons.prems(1)] Cons.prems(2-4) x r by simp
  qed
qed simp

lemma server_event_inv:
  assumes inv: "server_inv kind listening base s" and step: "server_event k e s = Some s'"
  shows "server_inv kind listening base s'"
proof (cases e)
  case (EAccept acc_ok watched)
  then show ?thesis
    using step server_accept_inv [OF inv, of acc_ok watched] by (simp add: server_event_def)
next
  case (EInput hangup received again outcomes fd)
  then obtain p where "server_input k hangup received again outcomes fd s = Some (p, s')"
    using step by (auto simp: server_event_def)
  then show ?thesis
    by (rule server_input_inv [OF inv])
next
  case (ESend outcomes pkt)
  then obtain bytes ok where "send_each outcomes bytes (clientList s) s = Some (ok, s')"
    using step by (auto simp: server_event_def server_send_def split: Option.bind_splits)
  then show ?thesis
    using send_each_inv [OF inv] server_invD(3) [OF inv] by blast
qed

interpretation socket: connection_server "server_event kind" "\<lambda>s. set (openFDs (fds s))" "\<lambda>s. fst ` set (clientList s)"
  "server_inv kind listening" for kind listening
proof
  show "server_inv kind listening base s \<Longrightarrow> server_event kind e s = Some s' \<Longrightarrow> server_inv kind listening base s'" for base s e s'
    by (rule server_event_inv)
  show "set (openFDs (fds s)) = base \<union> fst ` set (clientList s) \<and> base \<inter> fst ` set (clientList s) = {}"
    if "server_inv kind listening base s" for base s
    using server_invD(1,2) [OF that] by (rule conjI)
qed

lemma closing_all:
  assumes "distinct (map fst l)" "fst ` set l \<subseteq> set (clientFDs fs)" "\<And>fd c. (fd, c) \<in> set l \<Longrightarrow> clientFD c = fd \<and> 2 < fd"
  shows "set (openFDs (fold (\<lambda>x fs. snd (Client_closeFD (snd x) fs)) l fs)) = set (openFDs fs) - fst ` set l \<and>
    serverFDs (fold (\<lambda>x fs. snd (Client_closeFD (snd x) fs)) l fs) = serverFDs fs"
  using assms
proof (induction l arbitrary: fs)
  case (Cons x l)
  obtain fd c where x: "x = (fd, c)"
    by (cases x)
  have c: "clientFD c = fd" "2 < fd" "fd \<in> set (clientFDs fs)"
    using Cons.prems(2) Cons.prems(3) [of fd c] x by simp_all
  let ?fs = "snd (Client_closeFD c fs)"
  have fs: "?fs = os_close fd (fs\<lparr>clientFDs := remove1 fd (clientFDs fs)\<rparr>)"
    by (rule closeFD_known [OF c])
  have sub: "fst ` set l \<subseteq> set (clientFDs ?fs)"
  proof
    fix y
    assume y: "y \<in> fst ` set l"
    then have "y \<noteq> fd" "y \<in> set (clientFDs fs)"
      using Cons.prems(1,2) x by auto
    then show "y \<in> set (clientFDs ?fs)"
      by (simp add: fs)
  qed
  have "distinct (map fst l)"
    using Cons.prems(1) by simp
  from Cons.IH [OF this sub Cons.prems(3) [OF list.set_intros(2)]]
  have "set (openFDs (fold (\<lambda>x fs. snd (Client_closeFD (snd x) fs)) l ?fs)) = set (openFDs ?fs) - fst ` set l \<and>
      serverFDs (fold (\<lambda>x fs. snd (Client_closeFD (snd x) fs)) l ?fs) = serverFDs ?fs"
    by simp
  moreover have "set (openFDs ?fs) = set (openFDs fs) - {fd}" "serverFDs ?fs = serverFDs fs"
    by (auto simp: fs)
  ultimately show ?case
    by (simp add: x Diff_insert2 [of _ fd "fst ` set l"])
qed simp

text \<open>The start: the socket and the event queue get new descriptors.\<close>

lemma server_open_result:
  assumes "server_open kind a s = (Some epoll_fd, fs)" "{0, 1, 2} \<subseteq> set (openFDs s)" "serverFDs s kind = -1"
  obtains listening where "listening \<notin> set (openFDs s)" "2 < listening" "epoll_fd \<notin> set (openFDs s)" "epoll_fd \<noteq> listening"
    "2 < epoll_fd" "set (openFDs fs) = set (openFDs s) \<union> {listening, epoll_fd}" "serverFDs fs kind = listening" "clientFDs fs = clientFDs s"
proof -
  define l where "l = lowest_free (openFDs s)"
  define e where "e = lowest_free (l # openFDs s)"
  have l: "l \<notin> set (openFDs s)" "2 < l"
    using lowest_free_result [of "openFDs s"] not_standard [OF assms(2)] by (simp_all add: l_def)
  have e: "e \<notin> set (l # openFDs s)" "0 \<le> e"
    using lowest_free_result [of "l # openFDs s"] unfolding e_def by blast+
  moreover have "{0, 1, 2} \<subseteq> set (l # openFDs s)"
    using assms(2) unfolding list.set by (rule subset_insertI2)
  ultimately have "2 < e"
    using not_standard [of "set (l # openFDs s)" e] by simp
  have opened: "os_socket s = (l, s\<lparr>openFDs := l # openFDs s\<rparr>)"
    by (simp add: os_socket_def Let_def l_def)
  let ?s = "s\<lparr>openFDs := l # openFDs s, serverFDs := (serverFDs s)(kind := l)\<rparr>"
  have noted: "setServerFD kind l (s\<lparr>openFDs := l # openFDs s\<rparr>) = ?s"
    using assms(3) by (simp add: setServerFD_def close_old_def)
  have epoll: "os_socket ?s = (e, ?s\<lparr>openFDs := e # l # openFDs s\<rparr>)"
    by (simp add: os_socket_def Let_def e_def)
  have "epoll_fd = e" "fs = ?s\<lparr>openFDs := e # l # openFDs s\<rparr>"
    using assms(1) epoll by (auto simp: server_open_def opened noted Let_def split: if_splits)
  then show thesis
    using l e \<open>2 < e\<close> by (intro that [of l]) auto
qed

text \<open>Whatever clients connect, send or disconnect, and whatever the operating system answers, the command server
  and the event server keep open, besides what was open before,
  their socket, their event queue and one descriptor for each connection in their table; and
  when they end, exactly what was open before is open again. This is about runs in which no buffer is overrun and each
  send returns, and in which an event is handled as a whole: for the command server that excludes every client that sends
  a complete packet (\<open>command_server_ack_overruns\<close> below), and the heartbeat thread of the event server, which uses
  the connections without their lock, can run in the middle of an event.\<close>

theorem server_leaks_nothing:
  assumes "{0, 1, 2} \<subseteq> set before" "server_open kind a (FDManager_init before) = (Some epoll_fd, fs)"
    and "run_events (server_event kind) events \<lparr>clientList = [], fds = fs\<rparr> = Some s"
  shows "(\<exists>listening. set (openFDs (fds s)) = set before \<union> {listening, epoll_fd} \<union> fst ` set (clientList s)) \<and>
    set (openFDs (fds (server_finish kind epoll_fd s))) = set before"
proof -
  obtain listening where l: "listening \<notin> set before" "2 < listening" "epoll_fd \<notin> set before" "epoll_fd \<noteq> listening"
    "2 < epoll_fd" "set (openFDs fs) = set before \<union> {listening, epoll_fd}" "serverFDs fs kind = listening"
    by (rule server_open_result [OF assms(2)]) (use assms(1) in \<open>simp_all add: FDManager_init_def\<close>)
  let ?base = "set before \<union> {listening, epoll_fd}"
  have "server_inv kind listening ?base \<lparr>clientList = [], fds = fs\<rparr>"
    by (rule server_invI) (simp_all add: l)
  note inv = socket.inv_run [OF this assms(3)]
  note d = server_invD [OF inv]
  let ?fs = "fold (\<lambda>x fs. snd (Client_closeFD (snd x) fs)) (clientList s) (fds s)"
  have fs: "set (openFDs ?fs) = ?base" "serverFDs ?fs kind = listening"
    using closing_all [OF d(3,4,5)] d(1,2,6) by auto
  have "set (openFDs (fds (server_finish kind epoll_fd s))) = set (openFDs ?fs) - {epoll_fd} - {listening}"
    using l(2) fs(2) by (auto simp: server_finish_def Let_def removeServerFD_def)
  also have "\<dots> = set before"
    using l(1,3) unfolding fs(1) by blast
  finally have "set (openFDs (fds (server_finish kind epoll_fd s))) = set before" .
  then show ?thesis
    using d(1) by blast
qed

theorem server_leaks_nothing_witness:
  "\<exists>fs s. server_open EVENT \<lparr>socket_ok = True, bind_ok = True, listen_ok = True, epoll_ok = True, ctl_ok = True\<rparr>
      (FDManager_init [0, 1, 2]) = (Some 4, fs) \<and>
    run_events (server_event EVENT) [EAccept True True, EInput False (Received []) False [] 5, EAccept True False]
      \<lparr>clientList = [], fds = fs\<rparr> = Some s \<and>
    set (openFDs (fds (server_finish EVENT 4 s))) = {0, 1, 2}"
proof -
  let ?a = "\<lparr>socket_ok = True, bind_ok = True, listen_ok = True, epoll_ok = True, ctl_ok = True\<rparr>"
  have free: "lowest_free [0, 1, 2] = 3" "lowest_free [3, 0, 1, 2] = 4" "lowest_free [4, 3, 0, 1, 2] = 5"
    by (rule lowest_free_eq; auto)+
  obtain fs where fs: "server_open EVENT ?a (FDManager_init [0, 1, 2]) = (Some 4, fs)" "openFDs fs = [4, 3, 0, 1, 2]" "clientFDs fs = []"
    by (simp add: server_open_def os_socket_def Let_def free FDManager_init_def setServerFD_def close_old_def)
  obtain s where s: "run_events (server_event EVENT) [EAccept True True, EInput False (Received []) False [] 5, EAccept True False]
      \<lparr>clientList = [], fds = fs\<rparr> = Some s"
    using fs(2,3) by (simp add: server_event_def server_accept_def os_socket_def Let_def free Client_new_def server_input_def
        conn_put_def Client_recvData_def FDManager_recvData_def addClientFD_def)
  show ?thesis
    using server_leaks_nothing [OF _ fs(1) s] fs(1) s by auto
qed

text \<open>No client of the command server ever gets an answer. As soon as one read delivers a complete packet,
  the server, serializing its acknowledgement, reads the argument it announces and does not have.\<close>

theorem command_server_ack_overruns:
  assumes "map_of (clientList s) fd = Some c" "clientFD c = fd" "fd \<in> set (clientFDs (fds s))" "2 < fd" "readBuffer c = []"
    and "wf_packet p" "serialize p None = Some bytes" "length bytes \<le> 1024"
  shows "server_input COMMAND False (Received bytes) again outcomes fd s = None \<and>
    (\<exists>s'. server_input EVENT False (Received bytes) again outcomes fd s = Some (Some p, s'))"
proof -
  have "bytes = frame p (foldl crc8408_byte 0 (payload p))" "bytes \<noteq> []"
    using assms(6,7) by (auto simp: serialize_eq frame_def write16_def)
  then have parse: "parse bytes = Some (Inr p)" "0 < length bytes"
    using parse_frame [OF assms(6), of _ "[]"] by simp_all
  have ack: "serialize server_ack None = None"
    by (simp add: serialize_def server_ack_def Let_def rd_def)
  have recv: "Client_recvData c 1024 (Received bytes) again (fds s) = (int (length bytes), bytes, c\<lparr>readBuffer := []\<rparr>)"
    using assms(2-5,8) parse(2) by (simp add: Client_recvData_def FDManager_recvData_def Let_def min_def)
  show ?thesis
    using assms(1) recv parse ack by (simp add: server_input_def Let_def)
qed

theorem command_server_ack_overruns_witness:
  "\<exists>bytes. serialize \<lparr>code = 0x5000, argc = 0, argv = []\<rparr> None = Some bytes \<and>
    server_input COMMAND False (Received bytes) False [] 5
      \<lparr>clientList = [(5, \<lparr>clientFD = 5, readBuffer = []\<rparr>)], fds = addClientFD 5 (FDManager_init [0, 1, 2, 5])\<rparr> = None"
proof -
  let ?p = "\<lparr>code = 0x5000, argc = 0, argv = []\<rparr> :: packet"
  have wf: "wf_packet ?p"
    by (simp add: wf_packet_def)
  obtain bytes where bytes: "serialize ?p None = Some bytes" "length bytes = getPacketSize ?p"
    using wf by (auto simp: serialize_eq length_frame getPacketSize_def wf_packet_def)
  then have "length bytes \<le> 1024"
    by (simp add: getPacketSize_def)
  then show ?thesis
    using command_server_ack_overruns [OF _ _ _ _ _ wf bytes(1), of
        "\<lparr>clientList = [(5, \<lparr>clientFD = 5, readBuffer = []\<rparr>)], fds = addClientFD 5 (FDManager_init [0, 1, 2, 5])\<rparr>" 5
        "\<lparr>clientFD = 5, readBuffer = []\<rparr>"] bytes(1)
    by (simp add: addClientFD_def FDManager_init_def)
qed

section \<open>The manager's connections\<close>

lemma open_cards_all: "open_cards opens cards = (None, opened) \<Longrightarrow> opened = cards \<and> (\<forall>path \<in> set cards. opens path)"
  by (induction cards arbitrary: opened) (auto split: if_splits prod.splits)

text \<open>After a successful preparation the socket listens, and all cards are open when the hardware has cards.\<close>

lemma daq_initialized:
  assumes "daq_initialize cards daqType a shm_ok created opens s = (InitReturns True, s', opened)"
  shows "length cards \<le> 2 \<and> fst (daq_open a s) \<and> shm_ok \<and> created \<and>
    (daqType = ''GBE'' \<and> opened = [] \<or> daqType = ''PFP_KX7'' \<and> opened = daq_card_list cards)"
  using assms open_cards_all [of opens "daq_card_list cards"]
  by (auto simp: daq_initialize_def split: if_splits prod.splits option.splits)

definition daq_inv :: "fd \<Rightarrow> fd set \<Rightarrow> daq_manager \<Rightarrow> bool" where
  "daq_inv listening base s =
     (set (openFDs (daqFds s)) = base \<union> fst ` set (daqClients s) \<and> base \<inter> fst ` set (daqClients s) = {} \<and>
      serverFDs (daqFds s) DAQ = listening)"

lemma daq_drop_inv:
  assumes "daq_inv listening base s" "fd \<in> fst ` set (daqClients s)"
  shows "daq_inv listening base (daq_drop fd s)"
proof -
  have "fd \<notin> base"
    using assms by (auto simp: daq_inv_def)
  moreover have "set (openFDs (daqFds (daq_drop fd s))) = set (openFDs (daqFds s)) - {fd}"
    by (auto simp: daq_drop_def)
  moreover have "fst ` set (daqClients (daq_drop fd s)) = fst ` set (daqClients s) - {fd}"
    by (simp add: daq_drop_def)
  ultimately show ?thesis
    using assms(1) unfolding daq_inv_def by (auto simp: daq_drop_def)
qed

lemma daq_accept_inv:
  assumes inv: "daq_inv listening base s"
  shows "daq_inv listening base (daq_accept acc_ok watched sb s)"
proof -
  let ?fd = "lowest_free (openFDs (daqFds s))"
  have new: "?fd \<notin> set (openFDs (daqFds s))"
    using lowest_free_result [of "openFDs (daqFds s)"] by simp
  then have key: "?fd \<notin> fst ` set (daqClients s)" "?fd \<notin> base"
    using inv by (auto simp: daq_inv_def)
  have same: "os_close ?fd ((daqFds s)\<lparr>openFDs := ?fd # openFDs (daqFds s)\<rparr>) = daqFds s"
    using filter_absent [OF new] by (simp add: os_close_def)
  show ?thesis
  proof (cases "acc_ok \<and> 2 < ?fd \<and> watched")
    case False
    then have "daq_accept acc_ok watched sb s = s"
      using same by (auto simp: daq_accept_def os_socket_def Let_def)
    then show ?thesis
      using inv by simp
  next
    case True
    then have "daq_accept acc_ok watched sb s = s\<lparr>daqClients := conn_put ?fd sb (daqClients s),
        daqFds := (daqFds s)\<lparr>openFDs := ?fd # openFDs (daqFds s)\<rparr>\<rparr>"
      using key(1) by (simp add: daq_accept_def os_socket_def Let_def)
    then show ?thesis
      using inv key(2) by (simp add: daq_inv_def)
  qed
qed

lemma daq_input_inv:
  assumes inv: "daq_inv listening base s" and "daq_input d hangup stack recv1 recv2 statuses fd s = Some (ms, s')"
  shows "daq_inv listening base s'"
proof (cases "map_of (daqClients s) fd")
  case None
  then show ?thesis
    using assms by (simp add: daq_input_def)
next
  case (Some sb)
  then have fd: "fd \<in> fst ` set (daqClients s)"
    using map_of_SomeD by force
  have srv: "daq_inv listening base (s\<lparr>daqServer := srv\<rparr>)" for srv
    using inv by (simp add: daq_inv_def)
  have put: "daq_inv listening base (s\<lparr>daqServer := srv, daqClients := conn_put fd sb' (daqClients s)\<rparr>)" for srv sb'
    using inv fd by (simp add: daq_inv_def insert_absorb)
  have drop: "daq_inv listening base (daq_drop fd (s\<lparr>daqServer := srv\<rparr>))" for srv
    using fd by (intro daq_drop_inv srv) simp
  show ?thesis
    using assms(2) Some put drop daq_drop_inv [OF inv fd]
    by (auto simp: daq_input_def Let_def split: if_splits Option.bind_splits)
qed

lemma daq_event_inv:
  assumes "daq_inv listening base s" "daq_event e s = Some s'"
  shows "daq_inv listening base s'"
proof (cases e)
  case (DAccept acc_ok watched sb)
  then show ?thesis
    using assms daq_accept_inv [OF assms(1), of acc_ok watched sb] by (simp add: daq_event_def)
next
  case (DInput d hangup stack recv1 recv2 statuses fd)
  then show ?thesis
    using assms daq_input_inv [OF assms(1)] by (auto simp: daq_event_def)
qed

interpretation manager: connection_server daq_event "\<lambda>s. set (openFDs (daqFds s))" "\<lambda>s. fst ` set (daqClients s)"
  "daq_inv listening" for listening
proof
  show "daq_inv listening base s \<Longrightarrow> daq_event e s = Some s' \<Longrightarrow> daq_inv listening base s'" for base s e s'
    by (rule daq_event_inv)
qed (auto simp: daq_inv_def)

lemma os_close_all:
  "set (openFDs (fold (\<lambda>x fs. os_close (fst x) fs) l fs)) = set (openFDs fs) - fst ` set l \<and>
    serverFDs (fold (\<lambda>x fs. os_close (fst x) fs) l fs) = serverFDs fs"
proof (induction l arbitrary: fs)
  case (Cons x l)
  have "set (openFDs (os_close (fst x) fs)) = set (openFDs fs) - {fst x}"
    by auto
  then show ?case
    using Cons [of "os_close (fst x) fs"] by (simp add: Diff_insert2 [of _ "fst x" "fst ` set l"])
qed simp

text \<open>The events of the manager in which no buffer is overrun: a request to the front end has its two address
  bytes and at most 2034 bytes and names a card that exists (see \<open>front_end_request_safe_iff\<close>). Everything else is
  arbitrary.\<close>

definition daq_event_ok :: "nat \<Rightarrow> nat \<Rightarrow> daq_event \<Rightarrow> bool" where
  "daq_event_ok nCards bits e = (case e of
     DAccept acc_ok watched sb \<Rightarrow> length sb = socketBuffer_size
   | DInput d hangup stack recv1 recv2 statuses fd \<Rightarrow>
       length stack = 2048 \<and>
       (\<exists>pstack replies. full_packets replies \<and> frontEnd d = card_front_end nCards bits pstack replies) \<and>
       (length recv1 = 4 \<and> le_nat (take 2 recv1) = commandToFrontEnd \<longrightarrow>
         6 \<le> le_nat (drop 2 recv1) \<and> le_nat (drop 2 recv1) \<le> 2038 \<and> addressed_card bits (recv2 ! 0) < nCards))"

definition client_buffers :: "daq_manager \<Rightarrow> bool" where
  "client_buffers s = (\<forall>(fd, sb) \<in> set (daqClients s). length sb = socketBuffer_size)"

lemma client_buffersD: "client_buffers s \<Longrightarrow> map_of (daqClients s) fd = Some sb \<Longrightarrow> length sb = socketBuffer_size"
  using map_of_SomeD by (fastforce simp: client_buffers_def)

lemma request_defined:
  assumes "daq_event_ok nCards bits (DInput d hangup stack recv1 recv2 statuses fd)" "length sb = socketBuffer_size"
  shows "\<exists>r ms s'. handleRequest d stack recv1 recv2 sb statuses s = Some (r, ms, s') \<and>
    (r \<noteq> -1 \<longrightarrow> length (request_buffer recv1 recv2 sb) = socketBuffer_size)"
proof (cases "length recv1 \<noteq> 4 \<or> socketBuffer_size < le_nat (drop 2 recv1) \<or>
    4 < le_nat (drop 2 recv1) \<and> length recv2 \<noteq> le_nat (drop 2 recv1) - 4")
  case True
  then show ?thesis
    by (auto simp: handleRequest_def Let_def)
next
  case False
  define len ty buffer where "len = le_nat (drop 2 recv1)" and "ty = le_nat (take 2 recv1)" and "buffer = request_buffer recv1 recv2 sb"
  note request = False [folded len_def]
  have handled: "handleRequest d stack recv1 recv2 sb statuses s = dispatch_request d stack ty (int len - 4) buffer statuses s"
    using request unfolding handleRequest_def Let_def len_def [symmetric] ty_def [symmetric] buffer_def [symmetric] by auto
  have length: "length buffer = socketBuffer_size"
    using request assms(2) by (auto simp: buffer_def request_buffer_def socketBuffer_size_def len_def [symmetric])
  have "dispatch_request d stack ty (int len - 4) buffer statuses s \<noteq> None"
  proof (cases "ty = commandToFrontEnd")
    case False
    then show ?thesis
      by (rule dispatch_defined)
  next
    case True
    obtain pstack replies where front: "full_packets replies" "frontEnd d = card_front_end nCards bits pstack replies"
      using assms(1) by (auto simp: daq_event_ok_def)
    have bounds: "6 \<le> len" "len \<le> 2038" "addressed_card bits (recv2 ! 0) < nCards" "length stack = 2048"
      using assms(1) request True by (auto simp: daq_event_ok_def len_def ty_def)
    then have "(take (nat (int len - 4)) (drop 4 buffer) @ drop (nat (int len - 4)) stack) ! 0 = recv2 ! 0"
      using request by (simp add: buffer_def request_buffer_def len_def [symmetric] nth_append nat_diff_distrib)
    moreover have "4 + nat (int len - 4) \<le> length buffer"
      using bounds by (simp add: length socketBuffer_size_def)
    ultimately have "doCommandToFrontEnd d stack buffer (int len - 4) s \<noteq> None"
      using bounds by (subst front_end_safe [OF front(1) bounds(4) _ front(2)]) simp_all
    then show ?thesis
      using True by (simp add: dispatch_request_def Let_def command_types)
  qed
  then obtain r ms s' where "handleRequest d stack recv1 recv2 sb statuses s = Some (r, ms, s')"
    using handled by (cases "dispatch_request d stack ty (int len - 4) buffer statuses s") auto
  then show ?thesis
    using length buffer_def by simp
qed

lemma daq_event_defined:
  assumes "daq_event_ok nCards bits e" "client_buffers s"
  shows "\<exists>s'. daq_event e s = Some s' \<and> client_buffers s'"
proof (cases e)
  case (DAccept acc_ok watched sb)
  then have "client_buffers (daq_accept acc_ok watched sb s)"
    using assms by (auto simp: client_buffers_def daq_event_ok_def daq_accept_def Let_def split: prod.splits dest!: conn_put_in)
  then show ?thesis
    using DAccept by (simp add: daq_event_def)
next
  case (DInput d hangup stack recv1 recv2 statuses fd)
  have drop: "client_buffers (daq_drop fd (s\<lparr>daqServer := srv\<rparr>))" for srv
    using assms(2) by (auto simp: client_buffers_def daq_drop_def dest!: conn_erase_in)
  from drop [of "daqServer s"] have drop': "client_buffers (daq_drop fd s)"
    by simp
  show ?thesis
  proof (cases "map_of (daqClients s) fd")
    case None
    then show ?thesis
      using DInput assms(2) by (simp add: daq_event_def daq_input_def)
  next
    case (Some sb)
    obtain r ms srv where request: "handleRequest d stack recv1 recv2 sb statuses (daqServer s) = Some (r, ms, srv)"
      "r \<noteq> -1 \<longrightarrow> length (request_buffer recv1 recv2 sb) = socketBuffer_size"
      using request_defined [OF assms(1) [unfolded DInput] client_buffersD [OF assms(2) Some]] by blast
    then have "client_buffers (s\<lparr>daqServer := srv, daqClients := conn_put fd (request_buffer recv1 recv2 sb) (daqClients s)\<rparr>)"
      if "r \<noteq> -1"
      using assms(2) that by (auto simp: client_buffers_def dest!: conn_put_in)
    then show ?thesis
      using DInput Some request(1) drop drop' by (auto simp: daq_event_def daq_input_def Let_def)
  qed
qed

lemma daq_run_defined:
  "list_all (daq_event_ok nCards bits) es \<Longrightarrow> client_buffers s \<Longrightarrow> \<exists>s'. run_events daq_event es s = Some s'"
proof (induction es arbitrary: s)
  case (Cons e es)
  then obtain s1 where "daq_event e s = Some s1" "client_buffers s1"
    using daq_event_defined [of nCards bits e s] by auto
  then show ?case
    using Cons by auto
qed simp



end
