(* ===== verification/UDPFrameServer.thy ===== *)
theory UDPFrameServer
  imports DaqdClient
begin

text \<open>
  The frame server for the front end behind an Ethernet link (daqd/src/UDPFrameServer.cpp), the one the
  flight program starts: one datagram holds the answer to a command, or the words of any number of
  frames, which the worker puts into the queue in shared memory.

  A pass of the loop over the frames of a datagram is one step. The reader of the queue may have moved
  its pointer since the last pass; by how many slots is an argument, cut down to what the queue holds.
  The list of these arguments also bounds the number of passes that are looked at: when it is used up
  while the loop goes on, the result says so.
\<close>

section \<open>The worker\<close>

record udp_server = FrameServer +
  rxBuffer :: "u8 list"
  dataBuffer :: "u64 list"
  devNull :: RawDataFrame
  replyQueue :: "u8 list list"

definition rxBuffer_size :: nat where
  "rxBuffer_size = 65536"

definition reply_buffer_size :: nat where
  "reply_buffer_size = 2048"

definition reader_takes :: "nat \<Rightarrow> udp_server \<Rightarrow> udp_server" where
  "reader_takes k s = s\<lparr>dataFrameReadPointer := (dataFrameReadPointer s +
     min k (ring_count NFrames (dataFrameWritePointer s) (dataFrameReadPointer s))) mod (2 * NFrames)\<rparr>"

definition udp_slot :: "udp_server \<Rightarrow> nat option" where
  "udp_slot s = (if isFull (dataFrameWritePointer s) (dataFrameReadPointer s) then None
     else Some (dataFrameWritePointer s mod NFrames))"

definition udp_store :: "nat option \<Rightarrow> u64 list \<Rightarrow> udp_server \<Rightarrow> (RawDataFrame \<times> udp_server) checked" where
  "udp_store dst ws s = (case dst of
     None \<Rightarrow> map_option (\<lambda>frame. (frame, s\<lparr>devNull := frame\<rparr>)) (copy_to (devNull s) ws)
   | Some i \<Rightarrow> do {
       slot \<leftarrow> rd (shmPtr s) i;
       frame \<leftarrow> copy_to slot ws;
       Some (frame, s\<lparr>shmPtr := (shmPtr s)[i := frame]\<rparr>) })"

definition udp_publish :: "nat option \<Rightarrow> udp_server \<Rightarrow> udp_server" where
  "udp_publish dst s = (if dst = None then s
     else s\<lparr>dataFrameWritePointer := (dataFrameWritePointer s + 1) mod (2 * NFrames)\<rparr>)"

text \<open>A pass over the words from \<open>off\<close> on: where the next frame starts, or nothing after \<open>break\<close>.\<close>

definition udp_pass :: "nat \<Rightarrow> udp_server \<Rightarrow> (nat option \<times> udp_server) checked" where
  "udp_pass off s = do {
     p0 \<leftarrow> rd (dataBuffer s) off;
     let frameSize = unat (drop_bit 36 p0 AND 0x7FFF);
     let dst = udp_slot s;
     ws \<leftarrow> rd_range (dataBuffer s) off frameSize;
     (dataFrame, s) \<leftarrow> udp_store dst ws s;
     good \<leftarrow> parseDataFrame dataFrame;
     if \<not> good then Some (None, s)
     else do {
       frameID \<leftarrow> frame_getFrameID dataFrame;
       Some (Some (off + frameSize), if frameID < minimumFrameID s then s else udp_publish dst s) } }"

text \<open>The loop over the frames; the result says whether it has ended.\<close>

fun udp_frames :: "nat list \<Rightarrow> nat \<Rightarrow> nat \<Rightarrow> udp_server \<Rightarrow> (bool \<times> udp_server) checked" where
  "udp_frames [] off nWords s = Some (False, s)"
| "udp_frames (k # ks) off nWords s = do {
     (next_off, s) \<leftarrow> udp_pass off (reader_takes k s);
     (case next_off of
        None \<Rightarrow> Some (True, s)
      | Some off' \<Rightarrow> if off' < nWords then udp_frames ks off' nWords s else Some (True, s)) }"

text \<open>What the worker does with the result of \<open>recv\<close>, an error or the bytes of a datagram. The test
  \<open>errno = EAGAIN || \<dots>\<close> assigns and is always true.\<close>

definition udp_reply :: "nat \<Rightarrow> udp_server \<Rightarrow> udp_server checked" where
  "udp_reply r s = (if r = 0 \<or> reply_buffer_size < r - 1 then None
     else Some (s\<lparr>replyQueue := replyQueue s @ [take (r - 1) (drop 1 (rxBuffer s))]\<rparr>))"

definition udp_data :: "nat list \<Rightarrow> nat \<Rightarrow> udp_server \<Rightarrow> (bool \<times> udp_server) checked" where
  "udp_data ks r s = (if r = 0 then None
     else let nWords = (r - 1) div 8 in do {
       words \<leftarrow> copy_to (dataBuffer s) (pack_bytes (take (8 * nWords) (drop 1 (rxBuffer s))));
       udp_frames ks 0 nWords (s\<lparr>dataBuffer := words\<rparr>) })"

definition udp_receive :: "nat list \<Rightarrow> int + u8 list \<Rightarrow> udp_server \<Rightarrow> (bool \<times> udp_server) checked" where
  "udp_receive ks result s = (case result of
     Inl errno \<Rightarrow> Some (True, s)
   | Inr datagram \<Rightarrow>
       let bytes = take rxBuffer_size datagram;
           s = s\<lparr>rxBuffer := bytes @ drop (length bytes) (rxBuffer s)\<rparr>
       in do {
         b0 \<leftarrow> rd (rxBuffer s) 0;
         if b0 = 0x5A then map_option (Pair True) (udp_reply (length bytes) s)
         else if b0 = 0xA5 then
           (if acquisitionMode s \<noteq> 0 then udp_data ks (length bytes) s else Some (True, s))
         else Some (True, s) })"

fun udp_doWork :: "(nat list \<times> (int + u8 list)) list \<Rightarrow> udp_server \<Rightarrow> (bool \<times> udp_server) checked" where
  "udp_doWork [] s = Some (True, s)"
| "udp_doWork ((ks, result) # rest) s = do {
     (ended, s) \<leftarrow> udp_receive ks result s;
     if ended then udp_doWork rest s else Some (False, s) }"

section \<open>Commands to the front end\<close>

text \<open>During an acquisition a pass takes the answer at the front of the queue of the worker, otherwise it
  receives from the socket itself, into an array whose content is not defined before. With each pass
  goes whether the time is over.\<close>

datatype udp_poll = FromQueue "u8 list option" | FromSocket "int + u8 list"

definition poll_reply :: "udp_poll \<Rightarrow> u8 list option checked" where
  "poll_reply p = (case p of
     FromQueue reply \<Rightarrow> Some reply
   | FromSocket (Inl errno) \<Rightarrow> Some None
   | FromSocket (Inr datagram) \<Rightarrow> (case take 2048 datagram of
       [] \<Rightarrow> None
     | b0 # bytes \<Rightarrow> Some (if b0 = 0x5A then Some bytes else None)))"

datatype udp_call = Waiting "u8 list" | Returned int "u8 list"

fun udp_sendCommand_loop :: "u16 \<Rightarrow> (udp_poll \<times> bool) list \<Rightarrow> u8 list \<Rightarrow> udp_call checked" where
  "udp_sendCommand_loop sentSN [] buffer = Some (Waiting buffer)"
| "udp_sendCommand_loop sentSN ((p, expired) # passes) buffer = do {
     reply \<leftarrow> poll_reply p;
     (case reply of
        None \<Rightarrow> if expired then Some (Returned 0 buffer) else udp_sendCommand_loop sentSN passes buffer
      | Some (b0 # b1 # bs) \<Rightarrow>
          if sequence_number b0 b1 = sentSN
          then (if length (b0 # b1 # bs) \<le> length buffer
                then Some (Returned (int (length (b0 # b1 # bs))) ((b0 # b1 # bs) @ drop (length (b0 # b1 # bs)) buffer))
                else None)
          else udp_sendCommand_loop sentSN passes buffer
      | Some _ \<Rightarrow> udp_sendCommand_loop sentSN passes buffer) }"

text \<open>The bytes sent (nothing when the length is negative, which the kernel refuses) and the call.\<close>

definition udp_sendCommand :: "u8 list \<Rightarrow> int \<Rightarrow> (udp_poll \<times> bool) list \<Rightarrow> (u8 list option \<times> udp_call) checked" where
  "udp_sendCommand buffer commandLength passes = do {
     b0 \<leftarrow> rd buffer 0;
     b1 \<leftarrow> rd buffer 1;
     sent \<leftarrow> (if commandLength < 0 then Some None else map_option Some (rd_range buffer 0 (nat commandLength)));
     call \<leftarrow> udp_sendCommand_loop (sequence_number b0 b1) passes buffer;
     Some (sent, call) }"

text \<open>The moment until which a pass waits for the worker, ten milliseconds after now in seconds and nanoseconds,
  carried over at a tenth of a second.\<close>

definition reply_deadline :: "nat \<times> nat \<Rightarrow> nat \<times> nat" where
  "reply_deadline now = (fst now + (snd now + 10000000) div 100000000, (snd now + 10000000) mod 100000000)"

section \<open>Creation\<close>

text \<open>The three system calls at the start and the answers to the attempts to reach the front end, of which
  there are five; after the end of the list there are no more answers.
  The result: whether there is a server, whether the socket is open, and whether receiving on it has a
  time limit. The test after \<open>setsockopt\<close> looks at the socket instead of the status.\<close>

fun udp_attempts :: "nat \<Rightarrow> int list \<Rightarrow> nat" where
  "udp_attempts 0 statuses = 0"
| "udp_attempts (Suc attempts) [] = 0"
| "udp_attempts (Suc attempts) (status # statuses) =
     (if 0 \<le> status then Suc attempts else udp_attempts attempts statuses)"

definition udp_createFrameServer :: "bool \<Rightarrow> bool \<Rightarrow> bool \<Rightarrow> int list \<Rightarrow> bool \<times> bool \<times> bool" where
  "udp_createFrameServer socket_ok connect_ok setsockopt_ok statuses =
     (if \<not> socket_ok then (False, False, False)
      else if \<not> connect_ok then (False, False, False)
      else if udp_attempts 5 statuses \<le> 0 then (False, False, setsockopt_ok)
      else (True, True, setsockopt_ok))"

definition udp_getPortUp :: u64 where "udp_getPortUp = 1"
definition udp_getDAQTemp :: u64 where "udp_getDAQTemp = 0"
definition udp_getPortCounts :: "nat \<Rightarrow> nat \<Rightarrow> u64" where "udp_getPortCounts portID whichCount = 0"

section \<open>The queue of frames\<close>

definition udp_queue :: "udp_server \<Rightarrow> u64 list list" where
  "udp_queue s = map (\<lambda>i. frame_of (shmPtr s ! i))
     (ring_slots NFrames (dataFrameWritePointer s) (dataFrameReadPointer s))"

definition udp_wf :: "udp_server \<Rightarrow> bool" where
  "udp_wf s = (wf_shm (shmPtr s) \<and> ring_ok NFrames (dataFrameWritePointer s) (dataFrameReadPointer s) \<and>
     length (dataBuffer s) = MaxRawDataFrameSize \<and> length (devNull s) = MaxRawDataFrameSize \<and>
     length (rxBuffer s) = rxBuffer_size)"

definition udp_same :: "udp_server \<Rightarrow> udp_server \<Rightarrow> bool" where
  "udp_same s s' = (dataBuffer s' = dataBuffer s \<and> minimumFrameID s' = minimumFrameID s \<and>
     acquisitionMode s' = acquisitionMode s \<and> rxBuffer s' = rxBuffer s \<and> replyQueue s' = replyQueue s)"

lemma udp_same_trans: "udp_same s t \<Longrightarrow> udp_same t u \<Longrightarrow> udp_same s u"
  by (simp add: udp_same_def)

definition udp_frame :: "u64 list \<Rightarrow> bool" where
  "udp_frame f = (consistent_frame f \<and> parseDataFrame f = Some True)"

lemma length_udp_queue: "length (udp_queue s) = ring_count NFrames (dataFrameWritePointer s) (dataFrameReadPointer s)"
  by (simp add: udp_queue_def fq.length_slots)

lemma udp_room:
  "udp_wf s \<Longrightarrow> isFull (dataFrameWritePointer s) (dataFrameReadPointer s) \<longleftrightarrow> \<not> length (udp_queue s) < NFrames"
  using fq.not_full_room [of "dataFrameWritePointer s" "dataFrameReadPointer s"]
  by (auto simp: udp_wf_def isFull_def length_udp_queue)

lemma reader_takes_result:
  assumes "udp_wf s"
  shows "udp_wf (reader_takes k s)" "udp_queue (reader_takes k s) = drop k (udp_queue s)" "udp_same s (reader_takes k s)"
proof -
  let ?n = "ring_count NFrames (dataFrameWritePointer s) (dataFrameReadPointer s)"
  have ok: "ring_ok NFrames (dataFrameWritePointer s) (dataFrameReadPointer s)"
    using assms by (simp add: udp_wf_def)
  have le: "min k ?n \<le> ?n"
    by simp
  show "udp_wf (reader_takes k s)"
    using assms fq.ok_read [OF ok le] by (simp add: udp_wf_def reader_takes_def)
  have "drop (min k ?n) (ring_slots NFrames (dataFrameWritePointer s) (dataFrameReadPointer s)) =
      drop k (ring_slots NFrames (dataFrameWritePointer s) (dataFrameReadPointer s))"
    by (cases "k \<le> ?n") (simp_all add: min_def fq.length_slots)
  then show "udp_queue (reader_takes k s) = drop k (udp_queue s)"
    using fq.slots_read [OF ok le] by (simp add: udp_queue_def reader_takes_def drop_map)
qed (simp add: udp_same_def reader_takes_def)

lemma parse_stored: "2 \<le> length f \<Longrightarrow> parseDataFrame (f @ xs) = parseDataFrame f"
  by (auto dest!: two_words simp: parseDataFrame_def rd_def)

lemma frameID_stored: "2 \<le> length f \<Longrightarrow> frame_getFrameID (f @ xs) = Some (id_of_header (f ! 0))"
  by (auto dest!: two_words simp: frame_getFrameID_def rd_def)

text \<open>Storing a frame: into the free slot, or into the frame nobody reads.\<close>

lemma udp_store_result:
  assumes "udp_wf s" "length ws \<le> MaxRawDataFrameSize"
  shows "\<exists>rest s'. udp_store (udp_slot s) ws s = Some (ws @ rest, s') \<and> udp_wf s' \<and> udp_queue s' = udp_queue s \<and>
    udp_same s s' \<and> dataFrameWritePointer s' = dataFrameWritePointer s \<and> dataFrameReadPointer s' = dataFrameReadPointer s \<and>
    length (ws @ rest) = MaxRawDataFrameSize \<and> (udp_slot s \<noteq> None \<longrightarrow> shmPtr s' ! (dataFrameWritePointer s mod NFrames) = ws @ rest)"
proof (cases "isFull (dataFrameWritePointer s) (dataFrameReadPointer s)")
  case True
  let ?frame = "ws @ drop (length ws) (devNull s)"
  have "udp_store (udp_slot s) ws s = Some (?frame, s\<lparr>devNull := ?frame\<rparr>)"
    using assms True by (simp add: udp_store_def udp_slot_def copy_to_def udp_wf_def)
  moreover have "udp_wf (s\<lparr>devNull := ?frame\<rparr>)"
    using assms by (simp add: udp_wf_def)
  ultimately show ?thesis
    using True assms by (auto simp: udp_queue_def udp_same_def udp_slot_def udp_wf_def)
next
  case False
  let ?i = "dataFrameWritePointer s mod NFrames"
  let ?frame = "ws @ drop (length ws) (shmPtr s ! ?i)"
  let ?s = "s\<lparr>shmPtr := (shmPtr s)[?i := ?frame]\<rparr>"
  have shm: "wf_shm (shmPtr s)" "?i < NFrames" "?i < length (shmPtr s)"
    using assms(1) by (simp_all add: udp_wf_def wf_shm_def)
  have len: "length (shmPtr s ! ?i) = MaxRawDataFrameSize"
    using wf_shm_nth [OF shm(1,2)] .
  have store: "udp_store (udp_slot s) ws s = Some (?frame, ?s)"
    using assms(2) False shm(3) len by (simp add: udp_store_def udp_slot_def copy_to_def)
  have "length ?frame = MaxRawDataFrameSize"
    using assms(2) len by simp
  then have wf: "udp_wf ?s"
    using assms(1) wf_shm_update [OF shm(1)] by (simp add: udp_wf_def)
  have "?i \<notin> set (ring_slots NFrames (dataFrameWritePointer s) (dataFrameReadPointer s))"
    using assms(1) False udp_room [OF assms(1)] by (intro fq.free_slot) (simp_all add: udp_wf_def length_udp_queue)
  then have "udp_queue ?s = udp_queue s"
    by (auto simp: udp_queue_def intro!: arg_cong [of _ _ frame_of] nth_list_update_neq)
  then show ?thesis
    using store wf shm(3) \<open>length ?frame = MaxRawDataFrameSize\<close> by (intro exI [of _ "drop (length ws) (shmPtr s ! ?i)"] exI [of _ ?s]) (simp add: udp_same_def)
qed

lemma udp_publish_result:
  assumes "udp_wf s" "udp_slot s \<noteq> None"
  shows "udp_wf (udp_publish (udp_slot s) s)"
    "udp_queue (udp_publish (udp_slot s) s) = udp_queue s @ [frame_of (shmPtr s ! (dataFrameWritePointer s mod NFrames))]"
proof -
  have ok: "ring_ok NFrames (dataFrameWritePointer s) (dataFrameReadPointer s)"
    "ring_count NFrames (dataFrameWritePointer s) (dataFrameReadPointer s) < NFrames"
    using assms udp_room [OF assms(1)] by (simp_all add: udp_wf_def udp_slot_def length_udp_queue split: if_splits)
  show "udp_wf (udp_publish (udp_slot s) s)"
    using assms fq.ok_write [OF ok] by (simp add: udp_wf_def udp_publish_def)
  show "udp_queue (udp_publish (udp_slot s) s) = udp_queue s @ [frame_of (shmPtr s ! (dataFrameWritePointer s mod NFrames))]"
    using assms(2) fq.slots_write [OF ok] by (simp add: udp_queue_def udp_publish_def)
qed

definition udp_keeps :: "u64 \<Rightarrow> u64 list \<Rightarrow> u64 list list \<Rightarrow> bool" where
  "udp_keeps minimum f q = (length q < NFrames \<and> \<not> id_of_header (f ! 0) < minimum)"

lemma udp_pass_frame:
  assumes "udp_wf s" "udp_frame f" "dataBuffer s = pre @ f @ post"
  shows "\<exists>s'. udp_pass (length pre) s = Some (Some (length pre + length f), s') \<and> udp_wf s' \<and> udp_same s s' \<and>
    udp_queue s' = (if udp_keeps (minimumFrameID s) f (udp_queue s) then udp_queue s @ [f] else udp_queue s)"
proof -
  have f: "2 \<le> length f" "length f \<le> MaxRawDataFrameSize" "unat (size_of_header (f ! 0)) = length f"
    "parseDataFrame f = Some True"
    using assms(2) by (simp_all add: udp_frame_def consistent_frame_def)
  obtain a b r where "f = a # b # r"
    using f(1) two_words by blast
  then have f0: "rd (dataBuffer s) (length pre) = Some (f ! 0)"
    using assms(3) by (simp add: rd_def nth_append)
  have size: "unat (drop_bit 36 (f ! 0) AND 0x7FFF) = length f"
  proof -
    have "drop_bit 36 (f ! 0) AND 0x7FFF \<le> (0x7FFF :: u64)"
      by (rule word_and_le1)
    then have "unat (drop_bit 36 (f ! 0) AND 0x7FFF) < 2 ^ 32"
      by (simp add: word_le_nat_alt)
    then show ?thesis
      using f(3) by (simp add: size_of_header_def unsigned_ucast_eq take_bit_nat_eq_self)
  qed
  have range: "rd_range (dataBuffer s) (length pre) (length f) = Some f"
    using assms(3) by (simp add: rd_range_def)
  obtain rest t where t: "udp_store (udp_slot s) f s = Some (f @ rest, t)" "udp_wf t" "udp_queue t = udp_queue s"
    "udp_same s t" "dataFrameWritePointer t = dataFrameWritePointer s" "dataFrameReadPointer t = dataFrameReadPointer s"
    "udp_slot s \<noteq> None \<longrightarrow> shmPtr t ! (dataFrameWritePointer s mod NFrames) = f @ rest"
    using udp_store_result [OF assms(1) f(2)] by blast
  have slot: "udp_slot t = udp_slot s"
    using t(5,6) by (simp add: udp_slot_def)
  have "udp_pass (length pre) s = Some (Some (length pre + length f),
      if id_of_header (f ! 0) < minimumFrameID t then t else udp_publish (udp_slot t) t)"
    using f(1,4) f0 size range t(1) by (simp add: udp_pass_def Let_def parse_stored frameID_stored slot)
  moreover have "udp_wf (udp_publish (udp_slot t) t) \<and> udp_same s (udp_publish (udp_slot t) t) \<and>
      udp_queue (udp_publish (udp_slot t) t) = (if length (udp_queue s) < NFrames then udp_queue s @ [f] else udp_queue s)"
  proof (cases "udp_slot t = None")
    case True
    then have "\<not> length (udp_queue s) < NFrames"
      using udp_room [OF assms(1)] slot by (simp add: udp_slot_def split: if_splits)
    then show ?thesis
      using True t(2,3,4) by (simp add: udp_publish_def)
  next
    case False
    have "length (udp_queue s) < NFrames"
      using False udp_room [OF assms(1)] slot by (simp add: udp_slot_def split: if_splits)
    moreover have "frame_of (f @ rest) = f"
      using assms(2) by (intro frame_of_stored) (simp add: udp_frame_def)
    ultimately show ?thesis
      using False udp_publish_result [OF t(2) False] t(3,4,5,7) slot by (auto simp: udp_same_def udp_publish_def)
  qed
  ultimately show ?thesis
    using t(2,3,4) by (auto simp: udp_keeps_def udp_same_def)
qed

text \<open>The specification of a datagram: before each frame the reader takes some frames from the front, then
  the frame goes to the end, when there is room and its number is not below the minimum.\<close>

fun udp_deliver :: "u64 \<Rightarrow> nat list \<Rightarrow> u64 list list \<Rightarrow> u64 list list \<Rightarrow> u64 list list" where
  "udp_deliver minimum (k # ks) (f # fs) q =
     udp_deliver minimum ks fs (if udp_keeps minimum f (drop k q) then drop k q @ [f] else drop k q)"
| "udp_deliver minimum _ _ q = q"

lemma udp_frames_concat:
  assumes "udp_wf s" "\<forall>f \<in> set (f # fs). udp_frame f" "dataBuffer s = pre @ concat (f # fs) @ post"
    and "length ks = length (f # fs)"
  shows "\<exists>s'. udp_frames ks (length pre) (length pre + length (concat (f # fs))) s = Some (True, s') \<and>
    udp_wf s' \<and> udp_same s s' \<and> udp_queue s' = udp_deliver (minimumFrameID s) ks (f # fs) (udp_queue s)"
  using assms
proof (induction fs arbitrary: f pre ks s)
  case Nil
  then obtain k where ks: "ks = [k]"
    by (auto simp: length_Suc_conv)
  note r = reader_takes_result [OF Nil.prems(1), of k]
  have "dataBuffer (reader_takes k s) = pre @ f @ post"
    using Nil.prems(3) r(3) by (simp add: udp_same_def)
  from udp_pass_frame [OF r(1) _ this] Nil.prems(2) show ?case
    using ks r(2,3) by (auto simp: udp_same_def)
next
  case (Cons g gs)
  then obtain k ks' where ks: "ks = k # ks'" "length ks' = length (g # gs)"
    by (auto simp: length_Suc_conv)
  note r = reader_takes_result [OF Cons.prems(1), of k]
  have "dataBuffer (reader_takes k s) = pre @ f @ (concat (g # gs) @ post)"
    using Cons.prems(3) r(3) by (simp add: udp_same_def)
  from udp_pass_frame [OF r(1) _ this] Cons.prems(2) obtain t where
    t: "udp_pass (length pre) (reader_takes k s) = Some (Some (length (pre @ f)), t)" "udp_wf t" "udp_same s t"
      "udp_queue t = (if udp_keeps (minimumFrameID s) f (drop k (udp_queue s)) then drop k (udp_queue s) @ [f]
         else drop k (udp_queue s))"
    using r(2,3) by (auto simp: udp_same_def)
  have "2 \<le> length g"
    using Cons.prems(2) by (simp add: udp_frame_def consistent_frame_def)
  moreover have buf: "dataBuffer t = (pre @ f) @ concat (g # gs) @ post"
    using Cons.prems(3) t(3) by (simp add: udp_same_def)
  moreover have gs: "\<forall>h \<in> set (g # gs). udp_frame h"
    using Cons.prems(2) by simp
  ultimately show ?case
    using Cons.IH [OF t(2) gs buf ks(2)] t ks(1) by (auto simp: udp_same_def add.assoc)
qed

text \<open>What the queue holds after a datagram is what it held before and some of the frames, in their order,
  less what the reader took.\<close>

lemma udp_deliver_fifo:
  "\<exists>n kept. subseq kept (filter (\<lambda>f. \<not> id_of_header (f ! 0) < m) fs) \<and> n \<le> length (q @ kept) \<and>
    udp_deliver m ks fs q = drop n (q @ kept)"
proof (induction m ks fs q rule: udp_deliver.induct)
  case (1 m k ks f fs q)
  let ?q = "if udp_keeps m f (drop k q) then drop k q @ [f] else drop k q"
  obtain n kept where IH: "subseq kept (filter (\<lambda>f. \<not> id_of_header (f ! 0) < m) fs)" "n \<le> length (?q @ kept)"
    "udp_deliver m ks fs ?q = drop n (?q @ kept)"
    using 1 by blast
  show ?case
  proof (cases "udp_keeps m f (drop k q)")
    case True
    have "udp_deliver m (k # ks) (f # fs) q = drop n ((drop k q @ [f]) @ kept)"
      using IH(3) True by simp
    also have "\<dots> = drop (n + min k (length q)) (q @ f # kept)"
      by (cases "k \<le> length q") (simp_all add: min_def flip: drop_drop)
    finally have eq: "udp_deliver m (k # ks) (f # fs) q = drop (n + min k (length q)) (q @ f # kept)" .
    show ?thesis
    proof (intro exI conjI)
      show "udp_deliver m (k # ks) (f # fs) q = drop (n + min k (length q)) (q @ f # kept)"
        by (fact eq)
    qed (use IH True in \<open>auto simp: udp_keeps_def\<close>)
  next
    case False
    have "udp_deliver m (k # ks) (f # fs) q = drop n (drop k q @ kept)"
      using IH(3) False by simp
    also have "\<dots> = drop (n + min k (length q)) (q @ kept)"
      by (cases "k \<le> length q") (simp_all add: min_def flip: drop_drop)
    finally have eq: "udp_deliver m (k # ks) (f # fs) q = drop (n + min k (length q)) (q @ kept)" .
    show ?thesis
    proof (intro exI conjI)
      show "udp_deliver m (k # ks) (f # fs) q = drop (n + min k (length q)) (q @ kept)"
        by (fact eq)
    qed (use IH False in auto)
  qed
qed (auto intro: exI [of _ 0] exI [of _ "[]"])

section \<open>Datagrams\<close>

lemma pack_unpack_bits:
  "foldr (\<lambda>b w. push_bit 8 w OR ucast b) (map (\<lambda>i. ucast (drop_bit (8 * i) w) :: u8) [k..<k + n]) (0 :: u64) =
    take_bit (8 * n) (drop_bit (8 * k) w)"
proof (induction n arbitrary: k)
  case (Suc n)
  have "foldr (\<lambda>b w. push_bit 8 w OR ucast b) (map (\<lambda>i. ucast (drop_bit (8 * i) w) :: u8) [k..<k + Suc n]) 0 =
      push_bit 8 (take_bit (8 * n) (drop_bit (8 * Suc k) w)) OR ucast (ucast (drop_bit (8 * k) w) :: u8)"
    using Suc [of "Suc k"] by (simp add: upt_conv_Cons del: upt_Suc)
  also have "\<dots> = take_bit (8 * Suc n) (drop_bit (8 * k) w)"
    by (rule bit_word_eqI) (auto simp: bit_simps)
  finally show ?case .
qed simp

lemma pack_bytes_eight:
  assumes "length bs = 8"
  shows "pack_bytes (bs @ xs) = foldr (\<lambda>b w. push_bit 8 w OR ucast b) bs 0 # pack_bytes xs"
proof -
  have "bs @ xs \<noteq> []"
    using assms by auto
  then obtain y ys where "bs @ xs = y # ys"
    by (cases "bs @ xs") auto
  then have "pack_bytes (bs @ xs) = foldr (\<lambda>b w. push_bit 8 w OR ucast b) (take 8 (bs @ xs)) 0 # pack_bytes (drop 8 (bs @ xs))"
    by simp
  then show ?thesis
    using assms by simp
qed

lemma pack_unpack_word: "pack_bytes (unpack_word w @ xs) = w # pack_bytes xs"
  using pack_unpack_bits [of w 0 8] pack_bytes_eight [of "unpack_word w" xs]
  by (simp add: unpack_word_def take_bit_word_eq_self del: upt_rec_numeral)

lemma pack_unpack_words: "pack_bytes (unpack_words ws) = ws"
proof (induction ws)
  case (Cons w ws)
  then show ?case
    using pack_unpack_word [of w "unpack_words ws"] by (simp add: unpack_words_def)
qed (simp add: unpack_words_def)

definition data_datagram :: "u64 list list \<Rightarrow> u8 list" where
  "data_datagram fs = 0xA5 # unpack_words (concat fs)"

definition udp_data_ok :: "nat list \<Rightarrow> u64 list list \<Rightarrow> bool" where
  "udp_data_ok ks fs = (fs \<noteq> [] \<and> (\<forall>f \<in> set fs. udp_frame f) \<and> length (concat fs) \<le> 8191 \<and> length ks = length fs)"

lemma receive_buffer:
  assumes "udp_wf s" "length bytes \<le> rxBuffer_size"
  shows "udp_wf (s\<lparr>rxBuffer := bytes @ drop (length bytes) (rxBuffer s)\<rparr>)"
  using assms by (simp add: udp_wf_def)

lemma udp_receive_data:
  assumes "udp_wf s" "udp_data_ok ks fs" "acquisitionMode s \<noteq> 0"
  shows "\<exists>s'. udp_receive ks (Inr (data_datagram fs)) s = Some (True, s') \<and> udp_wf s' \<and>
    minimumFrameID s' = minimumFrameID s \<and> acquisitionMode s' = acquisitionMode s \<and> replyQueue s' = replyQueue s \<and>
    udp_queue s' = udp_deliver (minimumFrameID s) ks fs (udp_queue s) \<and>
    take (length (concat fs)) (dataBuffer s') = concat fs"
proof -
  let ?ws = "concat fs" and ?bytes = "data_datagram fs"
  have fs: "fs \<noteq> []" "\<forall>f \<in> set fs. udp_frame f" "length ?ws \<le> 8191" "length ks = length fs"
    using assms(2) by (simp_all add: udp_data_ok_def)
  have len: "length ?bytes = 8 * length ?ws + 1" "length ?bytes \<le> rxBuffer_size"
    using fs(3) by (simp_all add: data_datagram_def length_unpack rxBuffer_size_def)
  let ?s = "s\<lparr>rxBuffer := ?bytes @ drop (length ?bytes) (rxBuffer s)\<rparr>"
  let ?buf = "?ws @ drop (length ?ws) (dataBuffer s)"
  let ?t = "?s\<lparr>dataBuffer := ?buf\<rparr>"
  have wf: "udp_wf ?s"
    by (rule receive_buffer [OF assms(1) len(2)])
  have data: "pack_bytes (take (8 * length ?ws) (drop 1 (rxBuffer ?s))) = ?ws"
    by (simp add: data_datagram_def length_unpack pack_unpack_words)
  have "copy_to (dataBuffer ?s) ?ws = Some ?buf" and wft: "udp_wf ?t"
    using wf fs(3) by (simp_all add: copy_to_def udp_wf_def MaxRawDataFrameSize_def)
  then have receive: "udp_receive ks (Inr ?bytes) s = udp_frames ks 0 (length ?ws) ?t"
    using len data assms(3) by (simp add: udp_receive_def udp_data_def Let_def data_datagram_def rd_def)
  obtain f gs where "fs = f # gs"
    using fs(1) by (cases fs) auto
  then obtain s' where "udp_frames ks 0 (length ?ws) ?t = Some (True, s')" "udp_wf s'" "udp_same ?t s'"
    "udp_queue s' = udp_deliver (minimumFrameID ?t) ks fs (udp_queue ?t)"
    using udp_frames_concat [OF wft, of f gs "[]" "drop (length ?ws) (dataBuffer s)" ks] fs by auto
  then show ?thesis
    using receive by (auto simp: udp_same_def udp_queue_def)
qed

datatype udp_datagram = DFrames "nat list" "u64 list list" | DReply "u8 list" | DError int

fun arrives :: "udp_datagram \<Rightarrow> nat list \<times> (int + u8 list)" where
  "arrives (DFrames ks fs) = (ks, Inr (data_datagram fs))"
| "arrives (DReply bytes) = ([], Inr (0x5A # bytes))"
| "arrives (DError errno) = ([], Inl errno)"

fun datagram_ok :: "udp_datagram \<Rightarrow> bool" where
  "datagram_ok (DFrames ks fs) = udp_data_ok ks fs"
| "datagram_ok (DReply bytes) = (length bytes \<le> reply_buffer_size)"
| "datagram_ok (DError errno) = True"

fun deliver_datagram :: "u64 \<Rightarrow> udp_datagram \<Rightarrow> u64 list list \<Rightarrow> u64 list list" where
  "deliver_datagram m (DFrames ks fs) q = udp_deliver m ks fs q"
| "deliver_datagram m _ q = q"

fun reply_bytes :: "udp_datagram \<Rightarrow> u8 list list" where
  "reply_bytes (DReply bytes) = [bytes]"
| "reply_bytes _ = []"

lemma udp_receive_datagram:
  assumes "udp_wf s" "datagram_ok d" "acquisitionMode s \<noteq> 0"
  shows "\<exists>s'. udp_receive (fst (arrives d)) (snd (arrives d)) s = Some (True, s') \<and> udp_wf s' \<and>
    minimumFrameID s' = minimumFrameID s \<and> acquisitionMode s' = acquisitionMode s \<and>
    replyQueue s' = replyQueue s @ reply_bytes d \<and> udp_queue s' = deliver_datagram (minimumFrameID s) d (udp_queue s)"
proof (cases d)
  case (DFrames ks fs)
  then show ?thesis
    using udp_receive_data [OF assms(1) _ assms(3), of ks fs] assms(2) by auto
next
  case (DReply bytes)
  then have "length (0x5A # bytes) \<le> rxBuffer_size" "length bytes \<le> reply_buffer_size"
    using assms(2) by (simp_all add: reply_buffer_size_def rxBuffer_size_def)
  then show ?thesis
    using receive_buffer [OF assms(1), of "0x5A # bytes"] DReply
    by (simp add: udp_receive_def udp_reply_def udp_wf_def udp_queue_def rd_def)
next
  case (DError e)
  then show ?thesis
    using assms by (simp add: udp_receive_def)
qed

text \<open>C2: The worker separates answers from data. When datagrams of data, answers to commands and errors of the socket
  come in any order during an acquisition, the worker never leaves its buffers and ends its work on
  each; every answer goes to the queue of answers; and each frame of each datagram goes to the end
  of the queue of frames, in order, exactly when its number is not below the minimum and there is
  room after what the reader has taken until then. This is for datagrams as the hardware should send them (\<open>datagram_ok\<close>):
  one of data holds one or more consistent frames, of at most 8191 words in all, and an answer has at most
  2048 bytes. What the worker does with others is stated below: \<open>udp_pass_safe_iff\<close>, \<open>udp_zero_header_spins\<close>.\<close>

theorem udp_worker_separates:
  assumes "udp_wf s" "acquisitionMode s \<noteq> 0" "\<forall>d \<in> set ds. datagram_ok d"
  shows "\<exists>s'. udp_doWork (map arrives ds) s = Some (True, s') \<and> udp_wf s' \<and>
    replyQueue s' = replyQueue s @ concat (map reply_bytes ds) \<and>
    udp_queue s' = fold (deliver_datagram (minimumFrameID s)) ds (udp_queue s)"
  using assms
proof (induction ds arbitrary: s)
  case (Cons d ds)
  obtain t where t: "udp_receive (fst (arrives d)) (snd (arrives d)) s = Some (True, t)" "udp_wf t"
    "minimumFrameID t = minimumFrameID s" "acquisitionMode t = acquisitionMode s"
    "replyQueue t = replyQueue s @ reply_bytes d" "udp_queue t = deliver_datagram (minimumFrameID s) d (udp_queue s)"
    using udp_receive_datagram [OF Cons.prems(1), of d] Cons.prems(2,3) by auto
  moreover have "udp_doWork (map arrives (d # ds)) s = udp_doWork (map arrives ds) t"
    using t(1) by (cases "arrives d") simp
  ultimately show ?case
    using Cons.IH [OF t(2)] Cons.prems(2,3) by simp
qed simp

definition udp_start :: "int \<Rightarrow> udp_server" where
  "udp_start mode = \<lparr>shmPtr = blank_frames, dataFrameWritePointer = 0, dataFrameReadPointer = 0, acquisitionMode = mode,
     minimumFrameID = 0, idleTimeMode = 0, hasWorker = True, die = False, rxBuffer = replicate rxBuffer_size 0,
     dataBuffer = replicate MaxRawDataFrameSize 0, devNull = replicate MaxRawDataFrameSize 0, replyQueue = []\<rparr>"

lemma udp_start_wf: "udp_wf (udp_start mode)" "udp_queue (udp_start mode) = []"
  by (simp_all add: udp_wf_def udp_start_def blank_frames_wf fq.ok_start udp_queue_def)

lemma empty_udp_frame: "udp_frame empty_frame"
  using empty_frame_ok(1) by (simp add: udp_frame_def parseDataFrame_def empty_frame_def rd_def)

theorem udp_worker_separates_witness:
  "\<exists>s'. udp_doWork (map arrives [DReply [1, 2], DFrames [0] [empty_frame], DError 111]) (udp_start 1) = Some (True, s') \<and>
    replyQueue s' = [[1, 2]] \<and> udp_queue s' = [empty_frame]"
proof -
  have "\<forall>d \<in> set [DReply [1, 2], DFrames [0] [empty_frame], DError 111]. datagram_ok d"
    using empty_udp_frame by (simp add: udp_data_ok_def reply_buffer_size_def empty_frame_def)
  from udp_worker_separates [OF udp_start_wf(1) _ this, of 1] show ?thesis
    using udp_start_wf(2) [of 1] by (auto simp: udp_start_def udp_keeps_def)
qed

section \<open>Datagrams that are not well-formed\<close>

text \<open>C28: A pass leaves the buffers exactly when the size in the header of the frame reaches beyond the end of
  the data buffer; what was received does not matter, so the size is never compared with the datagram.\<close>

theorem udp_pass_safe_iff:
  assumes "udp_wf s" "off < MaxRawDataFrameSize"
  shows "udp_pass off s \<noteq> None \<longleftrightarrow> off + unat (drop_bit 36 (dataBuffer s ! off) AND 0x7FFF) \<le> MaxRawDataFrameSize"
proof -
  let ?n = "unat (drop_bit 36 (dataBuffer s ! off) AND 0x7FFF)"
  have buf: "length (dataBuffer s) = MaxRawDataFrameSize" "rd (dataBuffer s) off = Some (dataBuffer s ! off)"
    using assms by (simp_all add: udp_wf_def rd_def)
  show ?thesis
  proof (cases "off + ?n \<le> MaxRawDataFrameSize")
    case True
    let ?ws = "take ?n (drop off (dataBuffer s))"
    have "length ?ws \<le> MaxRawDataFrameSize"
      using buf by simp
    from udp_store_result [OF assms(1) this] obtain rest t where
      t: "udp_store (udp_slot s) ?ws s = Some (?ws @ rest, t)" "length (?ws @ rest) = MaxRawDataFrameSize"
      by blast
    then obtain a b r where "?ws @ rest = a # b # r"
      using two_words [of "?ws @ rest"] MaxRawDataFrameSize_ge by auto
    then show ?thesis
      using True buf t(1) by (simp add: udp_pass_def Let_def rd_range_def parseDataFrame_def frame_getFrameID_def)
  next
    case False
    then show ?thesis
      using buf by (simp add: udp_pass_def Let_def rd_range_def)
  qed
qed

theorem udp_pass_safe_iff_witness:
  "udp_pass 0 ((udp_start 1)\<lparr>dataBuffer := 0x2006000000000 # replicate 8195 0\<rparr>) = None"
proof -
  let ?s = "(udp_start 1)\<lparr>dataBuffer := 0x2006000000000 # replicate 8195 0\<rparr>"
  have "udp_wf ?s" "0 < MaxRawDataFrameSize"
    using udp_start_wf(1) [of 1] by (simp_all add: udp_wf_def MaxRawDataFrameSize_def)
  from udp_pass_safe_iff [OF this] show ?thesis
    by (simp add: MaxRawDataFrameSize_def del: not_None_eq)
qed

text \<open>A data datagram of fewer than nine bytes delivers a frame all the same: the first frame of the datagram
  before it, once more.\<close>

theorem udp_short_datagram_repeats:
  assumes "udp_wf s" "acquisitionMode s \<noteq> 0" "udp_data_ok ks fs" "\<not> id_of_header (hd fs ! 0) < minimumFrameID s"
    and "length junk < 8" "length (drop k (udp_deliver (minimumFrameID s) ks fs (udp_queue s))) < NFrames"
  shows "\<exists>s'. udp_doWork [(ks, Inr (data_datagram fs)), ([k], Inr (0xA5 # junk))] s = Some (True, s') \<and>
    udp_queue s' = drop k (udp_deliver (minimumFrameID s) ks fs (udp_queue s)) @ [hd fs]"
proof -
  obtain f gs where fs: "fs = f # gs"
    using assms(3) by (cases fs) (auto simp: udp_data_ok_def)
  obtain t where t: "udp_receive ks (Inr (data_datagram fs)) s = Some (True, t)" "udp_wf t"
    "minimumFrameID t = minimumFrameID s" "acquisitionMode t = acquisitionMode s"
    "udp_queue t = udp_deliver (minimumFrameID s) ks fs (udp_queue s)"
    "take (length (concat fs)) (dataBuffer t) = concat fs"
    using udp_receive_data [OF assms(1,3,2)] by blast
  let ?u = "t\<lparr>rxBuffer := (0xA5 # junk) @ drop (length (0xA5 # junk)) (rxBuffer t)\<rparr>"
  have "length (0xA5 # junk) \<le> rxBuffer_size"
    using assms(5) by (simp add: rxBuffer_size_def)
  then have wf: "udp_wf ?u" and take: "take rxBuffer_size (0xA5 # junk) = 0xA5 # junk"
    using receive_buffer [OF t(2), of "0xA5 # junk"] by simp_all
  have "udp_receive [k] (Inr (0xA5 # junk)) t = udp_frames [k] 0 0 ?u"
    using assms(2,5) t(4) take by (simp add: udp_receive_def udp_data_def Let_def rd_def copy_to_def)
  moreover have "dataBuffer t = concat fs @ drop (length (concat fs)) (dataBuffer t)"
    using append_take_drop_id [of "length (concat fs)" "dataBuffer t"] unfolding t(6) by (rule sym)
  then have "dataBuffer (reader_takes k ?u) = [] @ f @ (concat gs @ drop (length (concat fs)) (dataBuffer t))"
    unfolding fs by (simp add: reader_takes_def)
  then have "\<exists>s'. udp_pass 0 (reader_takes k ?u) = Some (Some (length f), s') \<and>
      udp_queue s' = (if udp_keeps (minimumFrameID s) f (drop k (udp_queue t)) then drop k (udp_queue t) @ [f] else drop k (udp_queue t))"
    using udp_pass_frame [OF reader_takes_result(1) [OF wf, of k], of f "[]"] assms(3) fs t(3) reader_takes_result(2,3) [OF wf, of k]
    by (auto simp: udp_data_ok_def udp_same_def udp_queue_def)
  ultimately show ?thesis
    using assms(4,6) t(1,5) fs by (auto simp: udp_keeps_def)
qed

theorem udp_short_datagram_repeats_witness:
  "\<exists>s'. udp_doWork [([0], Inr (data_datagram [empty_frame])), ([0], Inr [0xA5])] (udp_start 1) = Some (True, s') \<and>
    udp_queue s' = [empty_frame, empty_frame]"
proof -
  have "udp_data_ok [0] [empty_frame]"
    using empty_udp_frame by (simp add: udp_data_ok_def empty_frame_def)
  then show ?thesis
    using udp_short_datagram_repeats [OF udp_start_wf(1), of 1 "[0]" "[empty_frame]" "[]" 0] udp_start_wf(2) [of 1]
    by (simp add: udp_start_def udp_keeps_def empty_frame_def MaxRawDataFrameQueueSize_def)
qed

text \<open>Once the slots of the queue hold frames, a header that declares no words makes the worker pass on
  what the slot held before, and start over at the same place.\<close>

definition stale_slots :: "udp_server \<Rightarrow> bool" where
  "stale_slots s = (\<forall>slot \<in> set (shmPtr s). parseDataFrame slot = Some True \<and> \<not> id_of_header (slot ! 0) < minimumFrameID s)"

lemma zero_pass:
  assumes "udp_wf s" "stale_slots s" "drop_bit 36 (dataBuffer s ! 0) AND 0x7FFF = 0" "0 < k"
  defines "t \<equiv> (reader_takes k s)\<lparr>dataFrameWritePointer := (dataFrameWritePointer s + 1) mod (2 * NFrames)\<rparr>"
  shows "udp_pass 0 (reader_takes k s) = Some (Some 0, t)"
    "udp_wf t" "stale_slots t" "drop_bit 36 (dataBuffer t ! 0) AND 0x7FFF = 0"
proof -
  let ?r = "reader_takes k s" and ?i = "dataFrameWritePointer s mod NFrames"
  note r = reader_takes_result [OF assms(1), of k]
  have same: "shmPtr ?r = shmPtr s" "dataFrameWritePointer ?r = dataFrameWritePointer s" "dataBuffer ?r = dataBuffer s"
    "minimumFrameID ?r = minimumFrameID s"
    by (simp_all add: reader_takes_def)
  have "length (udp_queue s) \<le> NFrames"
    using assms(1) by (simp add: length_udp_queue udp_wf_def ring_ok_def)
  then have "length (udp_queue ?r) < NFrames"
    using assms(4) NFrames_pos unfolding r(2) length_drop by linarith
  then have slot: "udp_slot ?r = Some ?i"
    using udp_room [OF r(1)] same(2) by (simp add: udp_slot_def)
  have shm: "?i < length (shmPtr s)" "length (shmPtr s ! ?i) = MaxRawDataFrameSize"
    using assms(1) wf_shm_nth [of "shmPtr s" ?i] by (simp_all add: udp_wf_def wf_shm_def)
  then have stale: "parseDataFrame (shmPtr s ! ?i) = Some True" "\<not> id_of_header (shmPtr s ! ?i ! 0) < minimumFrameID s"
    using assms(2) by (simp_all add: stale_slots_def)
  have buf: "rd (dataBuffer s) 0 = Some (dataBuffer s ! 0)"
    using assms(1) by (simp add: udp_wf_def MaxRawDataFrameSize_def)
  have id: "frame_getFrameID (shmPtr s ! ?i) = Some (id_of_header (shmPtr s ! ?i ! 0))"
    using shm(2) by (simp add: frame_getFrameID_def MaxRawDataFrameSize_def)
  have store: "udp_store (Some ?i) [] ?r = Some (shmPtr s ! ?i, ?r)"
    using shm(1) same(1) by (simp add: udp_store_def copy_to_def)
  show "udp_pass 0 ?r = Some (Some 0, t)"
    using assms(3) buf same slot id stale store by (simp add: udp_pass_def Let_def rd_range_def udp_publish_def t_def)
  show "udp_wf t"
    using udp_publish_result(1) [OF r(1)] slot same(2) by (simp add: udp_publish_def t_def)
  show "stale_slots t" "drop_bit 36 (dataBuffer t ! 0) AND 0x7FFF = 0"
    using assms(2,3) same by (simp_all add: stale_slots_def t_def)
qed

lemma zero_header_frames:
  assumes "udp_wf s" "stale_slots s" "drop_bit 36 (dataBuffer s ! 0) AND 0x7FFF = 0" "0 \<notin> set ks" "0 < n"
  shows "\<exists>s'. udp_frames ks 0 n s = Some (False, s') \<and>
    dataFrameWritePointer s' = (dataFrameWritePointer s + length ks) mod (2 * NFrames)"
  using assms(1-4)
proof (induction ks arbitrary: s)
  case Nil
  then show ?case
    by (simp add: udp_wf_def ring_ok_def)
next
  case (Cons k ks)
  then have "0 < k"
    by simp
  note z = zero_pass [OF Cons.prems(1-3) this]
  obtain s' where "udp_frames ks 0 n ((reader_takes k s)\<lparr>dataFrameWritePointer := (dataFrameWritePointer s + 1) mod (2 * NFrames)\<rparr>) =
      Some (False, s')" "dataFrameWritePointer s' = ((dataFrameWritePointer s + 1) mod (2 * NFrames) + length ks) mod (2 * NFrames)"
    using Cons.IH [OF z(2,3,4)] Cons.prems(4) by auto
  then show ?case
    using z(1) assms(5) by (simp add: mod_simps)
qed

text \<open>C26: A header that declares no words never lets the worker go. Once every slot holds a frame, as after one
  round of the queue, a datagram of this one word makes the worker publish the old content of slot
  after slot, one in each pass, for as long as the reader reads; it does not test the flag that stops it
  meanwhile.\<close>

theorem udp_zero_header_spins:
  assumes "udp_wf s" "stale_slots s" "acquisitionMode s \<noteq> 0" "drop_bit 36 w AND 0x7FFF = 0" "0 \<notin> set ks"
  shows "\<exists>s'. udp_receive ks (Inr (data_datagram [[w]])) s = Some (False, s') \<and>
    dataFrameWritePointer s' = (dataFrameWritePointer s + length ks) mod (2 * NFrames)"
proof -
  let ?bytes = "data_datagram [[w]]"
  let ?s = "s\<lparr>rxBuffer := ?bytes @ drop (length ?bytes) (rxBuffer s)\<rparr>"
  let ?t = "?s\<lparr>dataBuffer := [w] @ drop 1 (dataBuffer s)\<rparr>"
  have len: "length ?bytes = 9" "length ?bytes \<le> rxBuffer_size"
    by (simp_all add: data_datagram_def length_unpack rxBuffer_size_def)
  have wf: "udp_wf ?s"
    by (rule receive_buffer [OF assms(1) len(2)])
  have data: "pack_bytes (take 8 (drop 1 (rxBuffer ?s))) = [w]"
    using pack_unpack_words [of "[w]"] length_unpack [of "[w]"] by (simp add: data_datagram_def)
  have "copy_to (dataBuffer ?s) [w] = Some ([w] @ drop 1 (dataBuffer s))" and wft: "udp_wf ?t"
    using wf by (simp_all add: copy_to_def udp_wf_def MaxRawDataFrameSize_def)
  then have "udp_receive ks (Inr ?bytes) s = udp_frames ks 0 1 ?t"
    using len data assms(3) by (simp add: udp_receive_def udp_data_def Let_def data_datagram_def rd_def)
  moreover have "stale_slots ?t" "drop_bit 36 (dataBuffer ?t ! 0) AND 0x7FFF = 0"
    using assms(2,4) by (simp_all add: stale_slots_def)
  ultimately show ?thesis
    using zero_header_frames [OF wft, of ks 1] assms(5) by auto
qed

theorem udp_zero_header_spins_witness:
  "\<exists>s'. udp_receive [1, 1, 1] (Inr (data_datagram [[0]]))
      ((udp_start 1)\<lparr>shmPtr := replicate NFrames (empty_frame @ replicate 8194 0)\<rparr>) = Some (False, s') \<and>
    dataFrameWritePointer s' = 3"
proof -
  let ?s = "(udp_start 1)\<lparr>shmPtr := replicate NFrames (empty_frame @ replicate 8194 0)\<rparr>"
  have "udp_wf ?s"
    using udp_start_wf(1) [of 1] by (simp add: udp_wf_def wf_shm_def empty_frame_def MaxRawDataFrameSize_def)
  moreover have "stale_slots ?s"
    by (auto simp: stale_slots_def udp_start_def empty_frame_def parseDataFrame_def rd_def)
  ultimately show ?thesis
    using udp_zero_header_spins [of ?s 0 "[1, 1, 1]"] by (simp add: udp_start_def MaxRawDataFrameQueueSize_def)
qed

section \<open>Answers to commands\<close>

text \<open>A pass that does not end the call: nothing came and the time is not over, or an answer to another
  command.\<close>

definition passed_over :: "u8 list \<Rightarrow> udp_poll \<times> bool \<Rightarrow> bool" where
  "passed_over sn x = (case poll_reply (fst x) of
     None \<Rightarrow> False
   | Some None \<Rightarrow> \<not> snd x
   | Some (Some reply) \<Rightarrow> \<not> (2 \<le> length reply \<and> take 2 reply = sn))"

lemma udp_pass_over:
  assumes "passed_over [b0, b1] x"
  shows "udp_sendCommand_loop (sequence_number b0 b1) (x # passes) buffer =
    udp_sendCommand_loop (sequence_number b0 b1) passes buffer"
proof -
  obtain p e where x: "x = (p, e)"
    by (cases x)
  obtain reply where reply: "poll_reply p = Some reply"
    using assms x by (auto simp: passed_over_def split: option.splits)
  show ?thesis
  proof (cases reply)
    case None
    then show ?thesis
      using assms x reply by (simp add: passed_over_def)
  next
    case (Some bytes)
    then show ?thesis
      using assms x reply sequence_number_eq_iff by (auto simp: passed_over_def split: list.splits)
  qed
qed

lemma udp_answer_returned:
  assumes "\<forall>x \<in> set before. passed_over [b0, b1] x" "poll_reply p = Some (Some reply)"
    and "2 \<le> length reply" "take 2 reply = [b0, b1]"
  shows "udp_sendCommand_loop (sequence_number b0 b1) (before @ (p, expired) # later) buffer =
    (if length reply \<le> length buffer then Some (Returned (int (length reply)) (reply @ drop (length reply) buffer)) else None)"
  using assms(1)
proof (induction before)
  case Nil
  obtain rest where "reply = b0 # b1 # rest"
    using assms(3,4) by (cases reply; cases "tl reply") auto
  then show ?case
    using assms(2) by simp
next
  case (Cons x before)
  then show ?case
    using udp_pass_over [of b0 b1 x] by simp
qed

lemma udp_call_ends:
  assumes "\<forall>x \<in> set before. passed_over [b0, b1] x" "poll_reply p = Some None"
  shows "udp_sendCommand_loop (sequence_number b0 b1) (before @ (p, True) # later) buffer = Some (Returned 0 buffer)"
  using assms(1)
proof (induction before)
  case (Cons x before)
  then show ?case
    using udp_pass_over [of b0 b1 x] by simp
qed (use assms(2) in simp)

text \<open>The answers to other commands do not count as silence: as long as only such answers arrive, the call
  goes on, however long ago its time was over.\<close>

theorem udp_foreign_answers_block:
  assumes "\<forall>x \<in> set passes. \<exists>reply. poll_reply (fst x) = Some (Some reply) \<and> take 2 reply \<noteq> [b0, b1]"
  shows "udp_sendCommand_loop (sequence_number b0 b1) passes buffer = Some (Waiting buffer)"
  using assms
proof (induction passes)
  case (Cons x passes)
  then have "passed_over [b0, b1] x"
    by (auto simp: passed_over_def)
  then show ?case
    using Cons udp_pass_over by simp
qed simp

theorem udp_foreign_answers_block_witness:
  "udp_sendCommand_loop (sequence_number 7 7) (replicate 1000 (FromQueue (Some [8, 7, 0]), True)) [7, 7] = Some (Waiting [7, 7])"
  by (rule udp_foreign_answers_block) (simp add: poll_reply_def)

definition nanoseconds :: "nat \<times> nat \<Rightarrow> nat" where
  "nanoseconds t = fst t * 1000000000 + snd t"

text \<open>So a pass waits 0.9 seconds longer for each tenth of the second that has passed.\<close>

lemma reply_wait:
  "nanoseconds (reply_deadline now) = nanoseconds now + 10000000 + 900000000 * ((snd now + 10000000) div 100000000)"
proof -
  have "(snd now + 10000000) mod 100000000 + 100000000 * ((snd now + 10000000) div 100000000) = snd now + 10000000"
    by simp
  then show ?thesis
    by (simp add: nanoseconds_def reply_deadline_def)
qed

text \<open>The front end of this frame server, as the daemon calls it; a call that has not returned has no
  result.\<close>

definition udp_front_end :: "(udp_poll \<times> bool) list \<Rightarrow> int \<Rightarrow> int \<Rightarrow> u8 list \<Rightarrow> int \<Rightarrow> int \<Rightarrow> (int \<times> u8 list) checked" where
  "udp_front_end passes portID slaveID buffer bufferSize commandLength =
     udp_sendCommand buffer commandLength passes \<bind> (\<lambda>(sent, call). case call of
       Waiting _ \<Rightarrow> None
     | Returned r buffer \<Rightarrow> Some (r, buffer))"

text \<open>C24: The daemon and the front end behind the Ethernet link. When the front end answers a command, after
  any number of passes without an answer to it, the client of the daemon gets exactly the bytes of
  the answer if they are at most 2046; a longer answer, and up to 2048 bytes are accepted, is copied
  beyond the end of the buffer, whose size the frame server is told but does not look at.\<close>

theorem udp_request_answered:
  assumes "frontEnd d = udp_front_end (before @ (p, expired) # later)"
    and "length stack = 2048" "4 + nat n \<le> length sb" "2 \<le> n" "n \<le> 2048"
    and "take 2 (drop 2 (take (nat n) (drop 4 sb) @ drop (nat n) stack)) = sn"
    and "\<forall>x \<in> set before. passed_over sn x"
    and "poll_reply p = Some (Some reply)" "2 \<le> length reply" "take 2 reply = sn"
  shows "doCommandToFrontEnd d stack sb n s =
    (if length reply \<le> 2046 then Some (0, [MLength (of_nat (length reply)), MReply reply], s) else None)"
proof -
  obtain b0 b1 rest where b: "take (nat n) (drop 4 sb) @ drop (nat n) stack = b0 # b1 # rest" "length rest = 2046"
    and eq: "doCommandToFrontEnd d stack sb n s = frontEnd d (sint b0) (sint b1) rest 2048 (n - 2) \<bind> (\<lambda>(r, reply).
      if r < 0 then None
      else rd_range reply 0 (nat r) \<bind> (\<lambda>answer. Some (0, [MLength (word_of_int r), MReply answer], s)))"
    by (rule front_end_handler [OF assms(2,3), where d = d and s = s]) (use assms(4,5) in auto)
  then obtain c0 c1 rest' where rest: "rest = c0 # c1 # rest'"
    by (cases rest; cases "tl rest") auto
  have sn: "sn = [c0, c1]"
    using assms(6) rest unfolding b(1) by simp
  note call = udp_answer_returned [OF assms(7) [unfolded sn] assms(8,9) assms(10) [unfolded sn], of expired later rest]
  have "rd rest 0 = Some c0" "rd rest 1 = Some c1"
    by (simp_all add: rest)
  moreover have "nat (n - 2) \<le> 2046"
    using assms(5) by linarith
  then have "rd_range rest 0 (nat (n - 2)) = Some (take (nat (n - 2)) rest)"
    using b(2) by (simp add: rd_range_def)
  ultimately have "frontEnd d (sint b0) (sint b1) rest 2048 (n - 2) = (if length reply \<le> 2046
      then Some (int (length reply), reply @ drop (length reply) rest) else None)"
    using assms(4) call b(2) by (simp add: assms(1) udp_front_end_def udp_sendCommand_def)
  then show ?thesis
    using eq by (simp add: rd_range_def)
qed

lemma replicate_pair: "replicate 2 x = [x, x]"
  by (simp add: numeral_2_eq_2)

theorem udp_request_answered_witness:
  "doCommandToFrontEnd (demo_interface\<lparr>frontEnd := udp_front_end
      [(FromSocket (Inl 11), False), (FromSocket (Inr [0x5A, 9, 9, 1]), False), (FromSocket (Inr [0x5A, 0, 0, 5]), False)]\<rparr>)
    (replicate 2048 0) (replicate 16384 0) 6 (FrameServer_init [] 0) =
    Some (0, [MLength 3, MReply [0, 0, 5]], FrameServer_init [] 0)"
proof -
  let ?before = "[(FromSocket (Inl 11), False), (FromSocket (Inr [0x5A, 9, 9, 1]), False)]"
  have "take 2 (drop 2 (take (nat 6) (drop 4 (replicate 16384 0)) @ drop (nat 6) (replicate 2048 0))) = [0 :: u8, 0]"
    using replicate_pair [of "0 :: u8"] by simp
  moreover have "\<forall>x \<in> set ?before. passed_over [0, 0] x"
    by (simp add: passed_over_def poll_reply_def)
  ultimately show ?thesis
    using udp_request_answered [of "demo_interface\<lparr>frontEnd := udp_front_end (?before @ [(FromSocket (Inr [0x5A, 0, 0, 5]), False)])\<rparr>"
        ?before "FromSocket (Inr [0x5A, 0, 0, 5])" False "[]" "replicate 2048 0" 6 "replicate 16384 0" "[0, 0]" "[0, 0, 5]"
        "FrameServer_init [] 0"]
    by (simp add: poll_reply_def)
qed

section \<open>Creation\<close>

lemma udp_attempts_pos: "0 < udp_attempts n statuses \<longleftrightarrow> (\<exists>x \<in> set (take n statuses). 0 \<le> x)"
  by (induction n statuses rule: udp_attempts.induct) auto

lemma udp_created_iff:
  "fst (udp_createFrameServer so c o1 statuses) \<longleftrightarrow> so \<and> c \<and> (\<exists>x \<in> set (take 5 statuses). 0 \<le> x)"
  using udp_attempts_pos [of 5 statuses] by (auto simp: udp_createFrameServer_def)

lemma udp_socket_closed: "fst (snd (udp_createFrameServer so c o1 statuses)) = fst (udp_createFrameServer so c o1 statuses)"
  by (simp add: udp_createFrameServer_def)

end
