(* ===== verification/CardBuffers.thy ===== *)
theory CardBuffers
  imports DAQFrameServer
begin

text \<open>
  The pair of buffers of an acquisition card (daqd/src/PFP\_KX7.cpp): a thread reads blocks of words
  from the driver into one buffer while \<open>getNextFrame\<close> takes frames out of the other. The two run
  interleaved; a step is what one of them does between two points where the other can intervene.

  An array keeps the words of earlier blocks behind the part that the last read has filled. A frame
  is returned as a pointer into the array: the words from there to the end of the array.
\<close>

section \<open>State\<close>

definition BUFFER_SIZE :: nat where
  "BUFFER_SIZE = 262144 div 8"

definition N_BUFFER :: nat where
  "N_BUFFER = 2"

record dma_buffer =
  words :: "u64 list"
  filled :: nat
  consumed :: nat

text \<open>Where the thread stands: at the head of its loop, reading into a buffer, about to publish it,
  or ended.\<close>

datatype thread_pc = TNone | TTop | TFill nat | TPublish nat | TExit

record card =
  bufferSet :: "dma_buffer list"
  bufferSetWrPtr :: nat
  bufferSetRdPtr :: nat
  currentBuffer :: "nat option"
  bufferSetThreadValid :: bool
  bufferSetThreadStop :: bool
  tpc :: thread_pc

section \<open>Operations\<close>

text \<open>The test of the frame at an offset: its size when the frame is accepted. The mask of the source
  field leaves no bit of the ten that the shift leaves.\<close>

definition frame_source :: "u64 \<Rightarrow> u64" where
  "frame_source w = drop_bit 54 w AND 0x400"

definition frame_type :: "u64 \<Rightarrow> u64" where
  "frame_type w = drop_bit 51 w AND 0x7"

definition check_frame :: "u64 \<Rightarrow> u64 \<Rightarrow> nat option" where
  "check_frame w0 w1 =
     (let frameSize = unat (drop_bit 36 w0 AND 0x7FFF); nEvents = unat (w1 AND 0xFFFF)
      in if frame_type w0 \<noteq> 1 \<or> frame_source w0 \<noteq> 0 then None
         else if MaxRawDataFrameSize < frameSize then None
         else if frameSize \<noteq> nEvents + 2 then None
         else Some frameSize)"

datatype outcome = Return "u64 list option" | Continue | Wait

text \<open>One iteration of the loop of \<open>getNextFrame\<close>, after the test that the thread exists. Waiting for the
  thread leaves the state as it is.\<close>

definition getNextFrame_scan :: "nat \<Rightarrow> card \<Rightarrow> (outcome \<times> card) checked" where
  "getNextFrame_scan i c = do {
     b \<leftarrow> rd (bufferSet c) i;
     if filled b \<le> consumed b then
       Some (if filled b = 0 then Return None else Continue,
             c\<lparr>currentBuffer := None, bufferSetRdPtr := (bufferSetRdPtr c + 1) mod (2 * N_BUFFER)\<rparr>)
     else do {
       w0 \<leftarrow> rd (words b) (consumed b);
       w1 \<leftarrow> rd (words b) (consumed b + 1);
       (case check_frame w0 w1 of
          None \<Rightarrow> Some (Continue, c\<lparr>bufferSet := (bufferSet c)[i := b\<lparr>consumed := filled b\<rparr>]\<rparr>)
        | Some frameSize \<Rightarrow>
            Some (Return (Some (drop (consumed b) (words b))),
                  c\<lparr>bufferSet := (bufferSet c)[i := b\<lparr>consumed := consumed b + frameSize\<rparr>]\<rparr>)) } }"

definition getNextFrame :: "card \<Rightarrow> (outcome \<times> card) checked" where
  "getNextFrame c =
     (if \<not> bufferSetThreadValid c then Some (Return None, c)
      else case currentBuffer c of
        None \<Rightarrow> (if bufferSetWrPtr c = bufferSetRdPtr c then Some (Wait, c)
                else Some (Continue, c\<lparr>currentBuffer := Some (bufferSetRdPtr c mod N_BUFFER)\<rparr>))
      | Some i \<Rightarrow> getNextFrame_scan i c)"

text \<open>The thread: the section that chooses a buffer, the read, and the section that publishes it.\<close>

definition buffers_full :: "nat \<Rightarrow> nat \<Rightarrow> bool" where
  "buffers_full wr r = (wr mod N_BUFFER = r mod N_BUFFER \<and> wr \<noteq> r)"

definition thread_choose :: "card \<Rightarrow> card" where
  "thread_choose c =
     (if bufferSetThreadStop c then c\<lparr>tpc := TExit\<rparr>
      else if buffers_full (bufferSetWrPtr c) (bufferSetRdPtr c) then c
      else c\<lparr>tpc := TFill (bufferSetWrPtr c mod N_BUFFER)\<rparr>)"

definition thread_fill :: "nat \<Rightarrow> u64 list \<Rightarrow> card \<Rightarrow> card checked" where
  "thread_fill i ws c = do {
     b \<leftarrow> rd (bufferSet c) i;
     arr \<leftarrow> copy_to (words b) ws;
     Some (c\<lparr>bufferSet := (bufferSet c)[i := \<lparr>words = arr, filled = length ws, consumed = 0\<rparr>],
            tpc := TPublish i\<rparr>) }"

definition thread_publish :: "card \<Rightarrow> card" where
  "thread_publish c = c\<lparr>bufferSetWrPtr := (bufferSetWrPtr c + 1) mod (2 * N_BUFFER), tpc := TTop\<rparr>"

text \<open>Starting and stopping the thread (\<open>setAcquistionOnOff\<close> after the register is written). The stop
  joins the thread, so it is a step only when the thread has ended; afterwards the driver is
  drained into the first buffer.\<close>

definition acquisition_on :: "card \<Rightarrow> card" where
  "acquisition_on c =
     (if bufferSetThreadValid c then c
      else c\<lparr>bufferSetWrPtr := 0, bufferSetRdPtr := 0, currentBuffer := None,
             bufferSet := map (\<lambda>b. b\<lparr>consumed := 0, filled := 0\<rparr>) (bufferSet c),
             bufferSetThreadStop := False, bufferSetThreadValid := True, tpc := TTop\<rparr>)"

definition acquisition_off_begin :: "card \<Rightarrow> card" where
  "acquisition_off_begin c = (if bufferSetThreadValid c then c\<lparr>bufferSetThreadStop := True\<rparr> else c)"

fun drain :: "u64 list list \<Rightarrow> u64 list \<Rightarrow> u64 list checked" where
  "drain [] arr = Some arr"
| "drain (ws # reads) arr =
     (if ws = [] then Some arr else do { arr' \<leftarrow> copy_to arr ws; drain reads arr' })"

definition acquisition_off_end :: "u64 list list \<Rightarrow> card \<Rightarrow> card option" where
  "acquisition_off_end reads c =
     (if \<not> bufferSetThreadValid c then Some c
      else if tpc c \<noteq> TExit then None
      else do {
        b \<leftarrow> rd (bufferSet c) 0;
        arr \<leftarrow> drain reads (words b);
        Some (c\<lparr>bufferSetThreadValid := False, tpc := TNone,
               bufferSet := (bufferSet c)[0 := b\<lparr>words := arr\<rparr>]\<rparr>) })"

section \<open>Steps\<close>

interpretation cb: ring_pointers N_BUFFER
  by unfold_locales (simp add: N_BUFFER_def)

datatype card_label = CThread | CBlock "u64 list" nat | CCall | CGot "u64 list option"

inductive card_step :: "card \<Rightarrow> card_label \<Rightarrow> card \<Rightarrow> bool" where
  cs_choose: "tpc c = TTop \<Longrightarrow> card_step c CThread (thread_choose c)"
| cs_fill: "tpc c = TFill i \<Longrightarrow> thread_fill i ws c = Some c'
    \<Longrightarrow> card_step c (CBlock (words (bufferSet c' ! i)) (length ws)) c'"
| cs_publish: "tpc c = TPublish i \<Longrightarrow> card_step c CThread (thread_publish c)"
| cs_call: "getNextFrame c = Some (Continue, c') \<Longrightarrow> card_step c CCall c'"
| cs_return: "getNextFrame c = Some (Return f, c') \<Longrightarrow> card_step c (CGot f) c'"

inductive card_run :: "card \<Rightarrow> card_label list \<Rightarrow> card \<Rightarrow> bool" where
  cr_nil: "card_run c [] c"
| cr_snoc: "card_run c tr c' \<Longrightarrow> card_step c' l c'' \<Longrightarrow> card_run c (tr @ [l]) c''"

text \<open>The frames of a block, as the tests of \<open>getNextFrame\<close> find them: up to the first one that fails.\<close>

lemma check_frame_size: "check_frame w0 w1 = Some m \<Longrightarrow> 2 \<le> m"
  by (auto simp: check_frame_def Let_def split: if_splits)

function scan :: "u64 list \<Rightarrow> nat \<Rightarrow> nat \<Rightarrow> u64 list list" where
  "scan arr n k =
     (if n \<le> k \<or> length arr \<le> k + 1 then []
      else case check_frame (arr ! k) (arr ! (k + 1)) of
        None \<Rightarrow> []
      | Some m \<Rightarrow> drop k arr # scan arr n (k + m))"
  by pat_completeness auto
termination
  by (relation "measure (\<lambda>(arr, n, k). n - k)") (auto dest: check_frame_size)

declare scan.simps [simp del]

definition scan_buffer :: "dma_buffer \<Rightarrow> u64 list list" where
  "scan_buffer b = scan (words b) (filled b) (consumed b)"

definition queued :: "card \<Rightarrow> dma_buffer list" where
  "queued c = map (\<lambda>i. bufferSet c ! i) (ring_slots N_BUFFER (bufferSetWrPtr c) (bufferSetRdPtr c))"

definition unpublished_block :: "card \<Rightarrow> dma_buffer list" where
  "unpublished_block c = (case tpc c of TPublish i \<Rightarrow> [bufferSet c ! i] | _ \<Rightarrow> [])"

definition undelivered :: "card \<Rightarrow> u64 list list" where
  "undelivered c = concat (map scan_buffer (queued c @ unpublished_block c))"

definition blocks_read :: "card_label list \<Rightarrow> (u64 list \<times> nat) list" where
  "blocks_read tr = concat (map (\<lambda>l. case l of CBlock arr n \<Rightarrow> [(arr, n)] | _ \<Rightarrow> []) tr)"

definition delivered :: "card_label list \<Rightarrow> u64 list list" where
  "delivered tr = concat (map (\<lambda>l. case l of CGot (Some f) \<Rightarrow> [f] | _ \<Rightarrow> []) tr)"

definition thread_slot :: "thread_pc \<Rightarrow> nat option" where
  "thread_slot p = (case p of TFill i \<Rightarrow> Some i | TPublish i \<Rightarrow> Some i | _ \<Rightarrow> None)"

abbreviation queued_count :: "card \<Rightarrow> nat" where
  "queued_count c \<equiv> ring_count N_BUFFER (bufferSetWrPtr c) (bufferSetRdPtr c)"

definition card_inv :: "card \<Rightarrow> bool" where
  "card_inv c =
     (length (bufferSet c) = N_BUFFER \<and> (\<forall>b \<in> set (bufferSet c). length (words b) = BUFFER_SIZE) \<and>
      ring_ok N_BUFFER (bufferSetWrPtr c) (bufferSetRdPtr c) \<and> bufferSetThreadValid c \<and>
      (\<forall>i. thread_slot (tpc c) = Some i \<longrightarrow>
         i = bufferSetWrPtr c mod N_BUFFER \<and> queued_count c < N_BUFFER) \<and>
      (\<forall>j. currentBuffer c = Some j \<longrightarrow>
         j = bufferSetRdPtr c mod N_BUFFER \<and> bufferSetWrPtr c \<noteq> bufferSetRdPtr c))"

lemma slot_lt: "p mod N_BUFFER < N_BUFFER"
  by (simp add: N_BUFFER_def)

lemma card_labels [simp]:
  "blocks_read [] = []" "delivered [] = []"
  "blocks_read (tr @ [CBlock arr n]) = blocks_read tr @ [(arr, n)]" "delivered (tr @ [CBlock arr n]) = delivered tr"
  "blocks_read (tr @ [CThread]) = blocks_read tr" "delivered (tr @ [CThread]) = delivered tr"
  "blocks_read (tr @ [CCall]) = blocks_read tr" "delivered (tr @ [CCall]) = delivered tr"
  "blocks_read (tr @ [CGot f]) = blocks_read tr" "delivered (tr @ [CGot (Some g)]) = delivered tr @ [g]"
  "delivered (tr @ [CGot None]) = delivered tr"
  by (simp_all add: blocks_read_def delivered_def)

text \<open>What each step does to the frames not yet delivered.\<close>

lemma choose_step:
  assumes "card_inv c" "tpc c = TTop"
  shows "card_inv (thread_choose c) \<and> undelivered (thread_choose c) = undelivered c"
proof -
  have "\<not> buffers_full (bufferSetWrPtr c) (bufferSetRdPtr c) \<Longrightarrow> queued_count c < N_BUFFER"
    using assms(1) cb.not_full_room [of "bufferSetWrPtr c" "bufferSetRdPtr c"]
    by (auto simp: card_inv_def buffers_full_def)
  then show ?thesis
    using assms
    by (auto simp: thread_choose_def card_inv_def thread_slot_def undelivered_def queued_def
      unpublished_block_def)
qed

lemma fill_step:
  assumes "card_inv c" "tpc c = TFill i" "thread_fill i ws c = Some c'"
  shows "card_inv c' \<and>
    undelivered c' = undelivered c @ scan (words (bufferSet c' ! i)) (length ws) 0"
proof -
  let ?slots = "ring_slots N_BUFFER (bufferSetWrPtr c) (bufferSetRdPtr c)"
  have i: "i = bufferSetWrPtr c mod N_BUFFER" "queued_count c < N_BUFFER" "i < N_BUFFER"
    using assms(1,2) slot_lt by (auto simp: card_inv_def thread_slot_def)
  have free: "i \<notin> set ?slots"
    using assms(1) i cb.free_slot by (simp add: card_inv_def)
  have len: "length (bufferSet c) = N_BUFFER" "length (words (bufferSet c ! i)) = BUFFER_SIZE"
    using assms(1) i by (auto simp: card_inv_def)
  obtain arr where arr: "copy_to (words (bufferSet c ! i)) ws = Some arr" "length arr = BUFFER_SIZE"
    and c': "c' = c\<lparr>bufferSet := (bufferSet c)[i := \<lparr>words = arr, filled = length ws, consumed = 0\<rparr>],
      tpc := TPublish i\<rparr>"
    using assms(3) i len
    by (auto simp: thread_fill_def copy_to_def bind_eq_Some_conv split: if_splits)
  have "card_inv c'"
    using assms(1,2) arr(2) set_update_subset_insert [of "bufferSet c" i]
    unfolding c' by (fastforce simp: card_inv_def thread_slot_def)
  moreover have "queued c' = queued c"
    unfolding queued_def c' using free by (auto intro!: nth_list_update_neq)
  moreover have "unpublished_block c' = [\<lparr>words = arr, filled = length ws, consumed = 0\<rparr>]"
    "unpublished_block c = []" "bufferSet c' ! i = \<lparr>words = arr, filled = length ws, consumed = 0\<rparr>"
    using assms(2) i len by (simp_all add: unpublished_block_def c')
  ultimately show ?thesis
    by (simp add: undelivered_def scan_buffer_def)
qed

lemma publish_step:
  assumes "card_inv c" "tpc c = TPublish i"
  shows "card_inv (thread_publish c) \<and> undelivered (thread_publish c) = undelivered c"
proof -
  have i: "i = bufferSetWrPtr c mod N_BUFFER" "queued_count c < N_BUFFER"
    and ok: "ring_ok N_BUFFER (bufferSetWrPtr c) (bufferSetRdPtr c)"
    using assms by (auto simp: card_inv_def thread_slot_def)
  have ne: "(bufferSetWrPtr c + 1) mod (2 * N_BUFFER) \<noteq> bufferSetRdPtr c"
    using cb.count_write [OF ok i(2)] cb.empty_iff [of "(bufferSetWrPtr c + 1) mod (2 * N_BUFFER)" "bufferSetRdPtr c"]
      ok cb.next_bound by (auto simp: ring_ok_def)
  have "card_inv (thread_publish c)"
    using assms cb.ok_write [OF ok i(2)] ne by (auto simp: card_inv_def thread_publish_def thread_slot_def)
  moreover have "queued (thread_publish c) = queued c @ [bufferSet c ! i]"
    using cb.slots_write [OF ok i(2)] i(1) by (simp add: queued_def thread_publish_def)
  moreover have "unpublished_block c = [bufferSet c ! i]" "unpublished_block (thread_publish c) = []"
    using assms(2) by (simp_all add: unpublished_block_def thread_publish_def)
  ultimately show ?thesis
    by (simp add: undelivered_def)
qed

text \<open>The buffer \<open>getNextFrame\<close> works on is the first of the queue, and no other one.\<close>

lemma current_head:
  assumes "card_inv c" "currentBuffer c = Some j"
  shows "ring_slots N_BUFFER (bufferSetWrPtr c) (bufferSetRdPtr c) =
      j # ring_slots N_BUFFER (bufferSetWrPtr c) ((bufferSetRdPtr c + 1) mod (2 * N_BUFFER))"
    "j \<notin> set (ring_slots N_BUFFER (bufferSetWrPtr c) ((bufferSetRdPtr c + 1) mod (2 * N_BUFFER)))"
    "thread_slot (tpc c) \<noteq> Some j" "j < length (bufferSet c)"
proof -
  have ok: "ring_ok N_BUFFER (bufferSetWrPtr c) (bufferSetRdPtr c)"
    and j: "j = bufferSetRdPtr c mod N_BUFFER" "bufferSetWrPtr c \<noteq> bufferSetRdPtr c"
    using assms by (auto simp: card_inv_def)
  show slots: "ring_slots N_BUFFER (bufferSetWrPtr c) (bufferSetRdPtr c) =
      j # ring_slots N_BUFFER (bufferSetWrPtr c) ((bufferSetRdPtr c + 1) mod (2 * N_BUFFER))"
    using cb.slots_read_one [OF ok j(2)] j(1) by simp
  show "j \<notin> set (ring_slots N_BUFFER (bufferSetWrPtr c) ((bufferSetRdPtr c + 1) mod (2 * N_BUFFER)))"
    using cb.slots_distinct [OF ok] slots by simp
  show "thread_slot (tpc c) \<noteq> Some j"
    using assms(1) cb.free_slot [OF ok] slots by (auto simp: card_inv_def)
  show "j < length (bufferSet c)"
    using assms(1) j(1) slot_lt by (simp add: card_inv_def)
qed

lemma exhausted_step:
  assumes "card_inv c" "currentBuffer c = Some j" "filled (bufferSet c ! j) \<le> consumed (bufferSet c ! j)"
  defines "c' \<equiv> c\<lparr>currentBuffer := None, bufferSetRdPtr := (bufferSetRdPtr c + 1) mod (2 * N_BUFFER)\<rparr>"
  shows "card_inv c' \<and> undelivered c' = undelivered c"
proof -
  note head = current_head [OF assms(1,2)]
  have ok: "ring_ok N_BUFFER (bufferSetWrPtr c) (bufferSetRdPtr c)"
    and ne: "bufferSetWrPtr c \<noteq> bufferSetRdPtr c"
    using assms by (auto simp: card_inv_def)
  have one: "1 \<le> queued_count c"
    using cb.empty_iff [of "bufferSetWrPtr c" "bufferSetRdPtr c"] ok ne by (auto simp: ring_ok_def)
  have "card_inv c'"
    using assms(1) cb.ok_read [OF ok one] cb.count_read [OF ok one]
    unfolding c'_def card_inv_def by auto
  moreover have "queued c = bufferSet c ! j # queued c'"
    using head(1) by (simp add: queued_def c'_def)
  moreover have "scan_buffer (bufferSet c ! j) = []"
    using assms(3) by (simp add: scan_buffer_def scan.simps)
  moreover have "unpublished_block c' = unpublished_block c"
    by (simp add: unpublished_block_def c'_def split: thread_pc.splits)
  ultimately show ?thesis
    by (simp add: undelivered_def)
qed

lemma update_current:
  assumes "card_inv c" "currentBuffer c = Some j" "words b = words (bufferSet c ! j)"
  defines "c' \<equiv> c\<lparr>bufferSet := (bufferSet c)[j := b]\<rparr>"
  shows "card_inv c'" "\<exists>rest. undelivered c = scan_buffer (bufferSet c ! j) @ rest \<and> undelivered c' = scan_buffer b @ rest"
proof -
  note head = current_head [OF assms(1,2)]
  have "length (words (bufferSet c ! j)) = BUFFER_SIZE"
    using assms(1) head(4) by (simp add: card_inv_def)
  then show "card_inv c'"
    using assms(1,3) set_update_subset_insert [of "bufferSet c" j b]
    unfolding c'_def by (fastforce simp: card_inv_def)
  let ?q = "map (\<lambda>i. bufferSet c ! i)
    (ring_slots N_BUFFER (bufferSetWrPtr c) ((bufferSetRdPtr c + 1) mod (2 * N_BUFFER)))"
  have q: "queued c = bufferSet c ! j # ?q" "queued c' = b # ?q"
    using head by (auto simp: queued_def c'_def intro!: nth_list_update_neq)
  have "unpublished_block c' = unpublished_block c"
    using head(3) by (auto simp: unpublished_block_def c'_def thread_slot_def split: thread_pc.splits)
  then show "\<exists>rest. undelivered c = scan_buffer (bufferSet c ! j) @ rest \<and> undelivered c' = scan_buffer b @ rest"
    using q by (intro exI [of _ "concat (map scan_buffer (?q @ unpublished_block c))"]) (simp add: undelivered_def)
qed

definition frame_result :: "outcome \<Rightarrow> u64 list list" where
  "frame_result r = (case r of Return (Some f) \<Rightarrow> [f] | _ \<Rightarrow> [])"

lemma scan_step:
  assumes "card_inv c" "currentBuffer c = Some j" "getNextFrame_scan j c = Some (r, c')"
  shows "card_inv c' \<and> undelivered c = frame_result r @ undelivered c'"
proof -
  let ?b = "bufferSet c ! j"
  have j: "rd (bufferSet c) j = Some ?b"
    using current_head(4) [OF assms(1,2)] by simp
  show ?thesis
  proof (cases "filled ?b \<le> consumed ?b")
    case True
    then show ?thesis
      using assms(3) j exhausted_step [OF assms(1,2) True]
      by (auto simp: getNextFrame_scan_def frame_result_def)
  next
    case False
    then have w: "consumed ?b + 1 < length (words ?b)"
      using assms(3) j by (auto simp: getNextFrame_scan_def bind_eq_Some_conv rd_Some_iff)
    show ?thesis
    proof (cases "check_frame (words ?b ! consumed ?b) (words ?b ! (consumed ?b + 1))")
      case None
      let ?d = "?b\<lparr>consumed := filled ?b\<rparr>"
      have "r = Continue" "c' = c\<lparr>bufferSet := (bufferSet c)[j := ?d]\<rparr>"
        using assms(3) j False w None by (auto simp: getNextFrame_scan_def)
      moreover have "scan_buffer ?b = []" "scan_buffer ?d = []"
        using None by (simp_all add: scan_buffer_def scan.simps)
      ultimately show ?thesis
        using update_current [OF assms(1,2), of ?d] by (auto simp: frame_result_def)
    next
      case (Some m)
      let ?d = "?b\<lparr>consumed := consumed ?b + m\<rparr>"
      have "r = Return (Some (drop (consumed ?b) (words ?b)))"
        "c' = c\<lparr>bufferSet := (bufferSet c)[j := ?d]\<rparr>"
        using assms(3) j False w Some by (auto simp: getNextFrame_scan_def)
      moreover have "scan_buffer ?b = drop (consumed ?b) (words ?b) # scan_buffer ?d"
        using False w Some by (simp add: scan_buffer_def scan.simps [of "words ?b" "filled ?b" "consumed ?b"])
      ultimately show ?thesis
        using update_current [OF assms(1,2), of ?d] by (auto simp: frame_result_def)
    qed
  qed
qed

lemma next_step:
  assumes "card_inv c" "getNextFrame c = Some (r, c')"
  shows "card_inv c' \<and> undelivered c = frame_result r @ undelivered c'"
proof (cases "currentBuffer c")
  case None
  then show ?thesis
    using assms slot_lt
    by (auto simp: getNextFrame_def card_inv_def frame_result_def undelivered_def queued_def
      unpublished_block_def split: if_splits thread_pc.splits)
next
  case (Some j)
  then have "getNextFrame_scan j c = Some (r, c')"
    using assms by (simp add: getNextFrame_def card_inv_def)
  then show ?thesis
    using scan_step [OF assms(1) Some] by blast
qed

text \<open>Along every run the frames returned, followed by those still in the buffers, are the frames of
  the blocks read so far.\<close>

definition scan_blocks :: "(u64 list \<times> nat) list \<Rightarrow> u64 list list" where
  "scan_blocks bs = concat (map (\<lambda>(arr, n). scan arr n 0) bs)"

lemma card_step_inv:
  assumes "card_step c l c'" "card_inv c" "delivered tr @ undelivered c = scan_blocks (blocks_read tr)"
  shows "card_inv c' \<and> delivered (tr @ [l]) @ undelivered c' = scan_blocks (blocks_read (tr @ [l]))"
  using assms
proof (induction rule: card_step.induct)
  case (cs_choose c)
  then show ?case
    using choose_step [of c] by simp
next
  case (cs_fill c i ws c')
  then show ?case
    using fill_step [of c i ws c'] by (auto simp: scan_blocks_def simp flip: append_assoc)
next
  case (cs_publish c i)
  then show ?case
    using publish_step [of c i] by simp
next
  case (cs_call c c')
  then show ?case
    using next_step [of c Continue c'] by (simp add: frame_result_def)
next
  case (cs_return c f c')
  then show ?case
    using next_step [of c "Return f" c'] by (cases f) (auto simp: frame_result_def)
qed

lemma card_run_inv:
  assumes "card_run c tr c'" "card_inv c" "undelivered c = []"
  shows "card_inv c' \<and> delivered tr @ undelivered c' = scan_blocks (blocks_read tr)"
  using assms
proof (induction rule: card_run.induct)
  case (cr_nil c)
  then show ?case
    by (simp add: scan_blocks_def)
next
  case (cr_snoc c tr c' l c'')
  then show ?case
    using card_step_inv [of c' l c'' tr] by blast
qed

text \<open>A card that has just been switched on, and blocks of whole frames.\<close>

definition card_off :: "card \<Rightarrow> bool" where
  "card_off c =
     (length (bufferSet c) = N_BUFFER \<and> (\<forall>b \<in> set (bufferSet c). length (words b) = BUFFER_SIZE) \<and>
      \<not> bufferSetThreadValid c)"

lemma acquisition_on_inv:
  assumes "card_off c"
  shows "card_inv (acquisition_on c)" "undelivered (acquisition_on c) = []"
  using assms
  by (auto simp: card_off_def acquisition_on_def card_inv_def thread_slot_def undelivered_def queued_def
    unpublished_block_def)

definition whole_frame :: "u64 list \<Rightarrow> bool" where
  "whole_frame f = (2 \<le> length f \<and> check_frame (f ! 0) (f ! 1) = Some (length f))"

lemma whole_frame_size: "whole_frame f \<Longrightarrow> unat (size_of_header (f ! 0)) = length f"
  by (auto simp: whole_frame_def check_frame_def Let_def size_of_header_nat split: if_splits)

lemma whole_frame_consistent: "whole_frame f \<Longrightarrow> consistent_frame f"
  using whole_frame_size [of f]
  by (auto simp: whole_frame_def consistent_frame_def check_frame_def Let_def split: if_splits)

lemma scan_whole_frames:
  assumes "\<forall>f \<in> set fs. whole_frame f"
  shows "map frame_of (scan (pre @ concat fs @ rest) (length pre + length (concat fs)) (length pre)) = fs"
  using assms
proof (induction fs arbitrary: pre)
  case Nil
  then show ?case
    by (simp add: scan.simps)
next
  case (Cons f fs)
  let ?arr = "pre @ concat (f # fs) @ rest"
  have f: "2 \<le> length f" "check_frame (f ! 0) (f ! 1) = Some (length f)"
    using Cons.prems by (simp_all add: whole_frame_def)
  have nth: "?arr ! length pre = f ! 0" "?arr ! (length pre + 1) = f ! 1"
    using two_words [OF f(1)] by (auto simp: nth_append)
  have "scan ?arr (length pre + length (concat (f # fs))) (length pre) =
      drop (length pre) ?arr # scan ?arr (length pre + length (concat (f # fs))) (length pre + length f)"
    using f two_words [OF f(1)] by (subst scan.simps) (auto simp: nth [simplified])
  moreover have "frame_of (drop (length pre) ?arr) = f"
    using frame_of_stored [of f "concat fs @ rest"] whole_frame_consistent [of f] Cons.prems by simp
  moreover have "map frame_of (scan ?arr (length pre + length (concat (f # fs))) (length pre + length f)) = fs"
    using Cons.IH [of "pre @ f"] Cons.prems by (simp add: add.assoc)
  ultimately show ?case
    by simp
qed

lemma scan_block:
  assumes "\<forall>f \<in> set fs. whole_frame f" "take n arr = concat fs" "n \<le> length arr"
  shows "map frame_of (scan arr n 0) = fs"
proof -
  have "arr = [] @ concat fs @ drop n arr" "n = length (concat fs)"
    using assms(2,3) append_take_drop_id [of n arr] by (simp, metis length_take min.absorb2)
  then show ?thesis
    using scan_whole_frames [OF assms(1), of "[]" "drop n arr"] by simp
qed

definition whole_block :: "u64 list \<times> nat \<Rightarrow> u64 list list \<Rightarrow> bool" where
  "whole_block b fs =
     (snd b \<le> length (fst b) \<and> take (snd b) (fst b) = concat fs \<and> (\<forall>f \<in> set fs. whole_frame f))"

lemma scan_whole_blocks:
  assumes "list_all2 whole_block bs fss"
  shows "map frame_of (scan_blocks bs) = concat fss"
  using assms
proof (induction rule: list_all2_induct)
  case (Cons b bs fs fss)
  then show ?case
    using scan_block [of fs "snd b" "fst b"]
    by (simp add: scan_blocks_def whole_block_def split_beta)
qed (simp add: scan_blocks_def)

text \<open>C12: After a card is switched on, and however its thread and the calls of \<open>getNextFrame\<close> interleave,
  the frames the calls return, followed by those still in the two buffers, are exactly
  the frames of the blocks the thread has read from the driver, each once and in their order,
  provided that every block consists of whole frames.\<close>

theorem card_delivers_frames:
  assumes "card_off c0" "card_run (acquisition_on c0) tr c" "list_all2 whole_block (blocks_read tr) fss"
  shows "map frame_of (delivered tr @ undelivered c) = concat fss"
proof -
  have "delivered tr @ undelivered c = scan_blocks (blocks_read tr)"
    using card_run_inv [OF assms(2) acquisition_on_inv [OF assms(1)]] by blast
  then show ?thesis
    using scan_whole_blocks [OF assms(3)] by simp
qed

text \<open>A frame that \<open>getNextFrame\<close> returns satisfies what \<open>doWork\<close> relies on when it lies inside the
  array.\<close>

lemma returned_frame_ok:
  assumes "card_inv c" "getNextFrame c = Some (Return (Some f), c')"
    "unat (size_of_header (f ! 0)) \<le> length f"
  shows "card_frame f"
proof -
  obtain j where j: "currentBuffer c = Some j" "getNextFrame_scan j c = Some (Return (Some f), c')"
    using assms(1,2) by (auto simp: getNextFrame_def card_inv_def split: if_splits option.splits)
  let ?b = "bufferSet c ! j"
  have w: "f = drop (consumed ?b) (words ?b)" "consumed ?b + 1 < length (words ?b)"
    and ck: "check_frame (words ?b ! consumed ?b) (words ?b ! (consumed ?b + 1)) \<noteq> None"
    using j(2) by (auto simp: getNextFrame_scan_def bind_eq_Some_conv rd_Some_iff split: if_splits option.splits)
  have "f ! 0 = words ?b ! consumed ?b" "f ! 1 = words ?b ! (consumed ?b + 1)" "2 \<le> length f"
    using w by simp_all
  then show ?thesis
    using ck assms(3)
    by (auto simp: card_frame_def check_frame_def Let_def size_of_header_nat split: if_splits)
qed

text \<open>The source field of the header is masked with a bit it cannot have: the test never fails.\<close>

lemma frame_source_zero: "frame_source w = 0"
proof -
  have "drop_bit 54 w = drop_bit 54 w AND mask 10"
    by (rule bit_word_eqI) (auto simp: bit_simps dest: bit_imp_le_length)
  then have "frame_source w = (drop_bit 54 w AND mask 10) AND 0x400"
    by (simp only: frame_source_def)
  also have "\<dots> = drop_bit 54 w AND (mask 10 AND 0x400)"
    by (rule and.assoc)
  also have "(mask 10 AND 0x400 :: u64) = 0"
    by (simp add: mask_eq_exp_minus_1)
  finally show ?thesis
    by simp
qed

section \<open>The property at a concrete input\<close>

definition demo_card :: card where
  "demo_card =
     \<lparr>bufferSet = replicate N_BUFFER \<lparr>words = replicate BUFFER_SIZE 0, filled = 0, consumed = 0\<rparr>,
      bufferSetWrPtr = 0, bufferSetRdPtr = 0, currentBuffer = None, bufferSetThreadValid = False,
      bufferSetThreadStop = False, tpc = TNone\<rparr>"

definition demo_whole :: "u64 list" where
  "demo_whole = [push_bit 51 1 OR push_bit 36 2, 0]"

lemma demo_whole_frame: "whole_frame demo_whole"
  by (simp add: whole_frame_def demo_whole_def check_frame_def frame_type_def frame_source_def
    MaxRawDataFrameSize_def)

lemma demo_run:
  "\<exists>arr tr c. card_run (acquisition_on demo_card) tr c \<and> blocks_read tr = [(arr, 2)] \<and> take 2 arr = demo_whole \<and>
    2 \<le> length arr \<and> length (delivered tr) = 1"
proof -
  let ?arr = "demo_whole @ replicate (BUFFER_SIZE - 2) 0"
  let ?c0 = "acquisition_on demo_card"
  let ?b = "\<lparr>words = ?arr, filled = 2, consumed = 0\<rparr>"
  let ?c1 = "?c0\<lparr>tpc := TFill 0\<rparr>"
  let ?c2 = "?c0\<lparr>bufferSet := (bufferSet ?c0)[0 := ?b], tpc := TPublish 0\<rparr>"
  let ?c3 = "?c2\<lparr>bufferSetWrPtr := 1, tpc := TTop\<rparr>"
  let ?c4 = "?c3\<lparr>currentBuffer := Some 0\<rparr>"
  let ?c5 = "?c4\<lparr>bufferSet := (bufferSet ?c4)[0 := ?b\<lparr>consumed := 2\<rparr>]\<rparr>"
  have size: "BUFFER_SIZE = 32768" "N_BUFFER = 2"
    by (simp_all add: BUFFER_SIZE_def N_BUFFER_def)
  have len: "length demo_whole = 2"
    by (simp add: demo_whole_def)
  have 1: "card_step ?c0 CThread ?c1"
    using cs_choose [of ?c0] by (simp add: acquisition_on_def demo_card_def thread_choose_def buffers_full_def)
  have "thread_fill 0 demo_whole ?c1 = Some ?c2"
    by (simp add: thread_fill_def copy_to_def acquisition_on_def demo_card_def size len)
  then have 2: "card_step ?c1 (CBlock ?arr 2) ?c2"
    using cs_fill [of ?c1 0 demo_whole ?c2] by (simp add: acquisition_on_def demo_card_def size len)
  have 3: "card_step ?c2 CThread ?c3"
    using cs_publish [of ?c2 0] by (simp add: thread_publish_def acquisition_on_def demo_card_def size)
  have 4: "card_step ?c3 CCall ?c4"
    by (rule cs_call) (simp add: getNextFrame_def acquisition_on_def demo_card_def)
  have "check_frame (demo_whole ! 0) (demo_whole ! 1) = Some 2"
    using demo_whole_frame len by (simp add: whole_frame_def)
  then have "getNextFrame ?c4 = Some (Return (Some ?arr), ?c5)"
    by (simp add: getNextFrame_def getNextFrame_scan_def acquisition_on_def demo_card_def size len nth_append rd_def
      numeral_2_eq_2)
  then have 5: "card_step ?c4 (CGot (Some ?arr)) ?c5"
    by (rule cs_return)
  have "card_run ?c0 [CThread, CBlock ?arr 2, CThread, CCall, CGot (Some ?arr)] ?c5"
    using cr_snoc [OF cr_snoc [OF cr_snoc [OF cr_snoc [OF cr_snoc [OF cr_nil 1] 2] 3] 4] 5] by simp
  moreover have "blocks_read [CThread, CBlock ?arr 2, CThread, CCall, CGot (Some ?arr)] = [(?arr, 2)]"
    "length (delivered [CThread, CBlock ?arr 2, CThread, CCall, CGot (Some ?arr)]) = 1"
    by (simp_all add: blocks_read_def delivered_def)
  moreover have "take 2 ?arr = demo_whole" "2 \<le> length ?arr"
    using len size by simp_all
  ultimately show ?thesis
    by blast
qed

theorem card_delivers_frames_witness:
  "\<exists>tr c. length (delivered tr) = 1 \<and> card_run (acquisition_on demo_card) tr c \<and>
    map frame_of (delivered tr @ undelivered c) = [demo_whole]"
proof -
  obtain arr tr c where run: "card_run (acquisition_on demo_card) tr c" "blocks_read tr = [(arr, 2)]"
    "take 2 arr = demo_whole" "2 \<le> length arr" "length (delivered tr) = 1"
    using demo_run by blast
  have "card_off demo_card"
    by (simp add: card_off_def demo_card_def)
  moreover have "list_all2 whole_block (blocks_read tr) [[demo_whole]]"
    using run demo_whole_frame by (simp add: whole_block_def)
  ultimately have "map frame_of (delivered tr @ undelivered c) = concat [[demo_whole]]"
    using run(1) by (intro card_delivers_frames)
  then show ?thesis
    using run by auto
qed

end
