(* ===== verification/Psdaq.thy ===== *)
theory Psdaq
  imports CardBuffers
begin

text \<open>
  The kernel driver of the acquisition card (kernel/psdaq.c): the circular buffer of partitions that
  the card fills by DMA and \<open>psdaq_file_read\<close> copies to the caller, the access to registers by
  \<open>ioctl\<close>, and the acquisition and release of resources when the device appears and disappears.

  The card is seen through what a read of its write pointer register returns and what the DMA
  buffer holds at that time; a card without further entries shows its last values.
\<close>

section \<open>State\<close>

definition NUM_PARTITION :: nat where
  "NUM_PARTITION = 32"

definition MAX_TLP_SIZE :: nat where
  "MAX_TLP_SIZE = 512"

definition BUF_SIZE :: nat where
  "BUF_SIZE = 4096 * 8 * NUM_PARTITION"

text \<open>The DMA buffer as 64-bit words, and the number of words of a partition.\<close>

definition PARTITION_WORDS :: nat where
  "PARTITION_WORDS = BUF_SIZE div NUM_PARTITION div 8"

record psdaq_dev =
  tlp_count :: nat
  tlp_size :: nat
  dma_buf :: "u64 list"
  dma_wr_pointer :: nat
  dma_rd_pointer :: nat
  bar0 :: "nat \<Rightarrow> u32"
  bar1 :: "u32 \<Rightarrow> u32"

type_synonym polls = "(nat \<times> u64 list) list"

section \<open>Operations\<close>

definition write_bar0 :: "nat \<Rightarrow> u32 \<Rightarrow> psdaq_dev \<Rightarrow> psdaq_dev" where
  "write_bar0 reg val dev = dev\<lparr>bar0 := (bar0 dev)(reg := val)\<rparr>"

definition psdaq_initcard :: "nat \<Rightarrow> u32 \<Rightarrow> psdaq_dev \<Rightarrow> psdaq_dev" where
  "psdaq_initcard mps dma_hwaddr dev =
     (let size = (if MAX_TLP_SIZE < mps then MAX_TLP_SIZE else mps); tlps = BUF_SIZE div size
      in fold (\<lambda>(reg, val). write_bar0 reg val)
           [(0, 1), (0, 0), (1, 0x00800080), (2, dma_hwaddr), (3, of_nat (size div 4)), (4, of_nat tlps), (5, 0),
            (25, 0x40000000 OR of_nat (tlps div NUM_PARTITION)), (26, of_nat (size div 4)), (27, dma_hwaddr),
            (28, of_nat NUM_PARTITION), (29, 0)]
           (dev\<lparr>tlp_size := size, tlp_count := tlps\<rparr>))"

definition start_dma :: "psdaq_dev \<Rightarrow> psdaq_dev" where
  "start_dma dev = write_bar0 25 (0xC0000000 OR of_nat (tlp_count dev div NUM_PARTITION)) dev"

definition stop_dma :: "psdaq_dev \<Rightarrow> psdaq_dev" where
  "stop_dma dev = write_bar0 25 (0x40000000 OR of_nat (tlp_count dev div NUM_PARTITION)) dev"

definition release_read :: "psdaq_dev \<Rightarrow> psdaq_dev" where
  "release_read dev = write_bar0 29 (of_nat (dma_rd_pointer dev)) dev"

text \<open>Waiting for data: at most nine reads of the write pointer.\<close>

definition poll :: "psdaq_dev \<Rightarrow> polls \<Rightarrow> psdaq_dev \<times> polls" where
  "poll dev ps = (case ps of
     [] \<Rightarrow> (dev, [])
   | (wr, buf) # ps \<Rightarrow> (dev\<lparr>dma_wr_pointer := wr, dma_buf := buf\<rparr>, ps))"

fun wait_data :: "nat \<Rightarrow> psdaq_dev \<Rightarrow> polls \<Rightarrow> bool \<times> psdaq_dev \<times> polls" where
  "wait_data tries dev ps =
     (if dma_wr_pointer dev \<noteq> dma_rd_pointer dev then (True, dev, ps)
      else case tries of
        0 \<Rightarrow> (False, dev, ps)
      | Suc tries \<Rightarrow> (let (dev, ps) = poll dev ps in wait_data tries dev ps))"

text \<open>
  The loop of \<open>psdaq_file_read\<close>. \<open>fault k\<close> says that the copy of the \<open>k\<close>-th frame to user memory fails. The
  result is the words copied to the caller's buffer, or the error. The fuel bounds the number of
  passes; \<^const>\<open>None\<close> also stands for a copy that reads behind the DMA buffer or that writes behind the
  \<open>bufsize\<close> bytes of the caller.
\<close>

datatype read_result = EFAULT | Copied "u64 list"

definition frame_words :: "psdaq_dev \<Rightarrow> u64 list checked" where
  "frame_words dev = (let offset = dma_rd_pointer dev mod NUM_PARTITION in do {
     header \<leftarrow> rd (dma_buf dev) (offset * PARTITION_WORDS);
     rd_range (dma_buf dev) (offset * PARTITION_WORDS) (unat (drop_bit 36 header AND 0x7FFF)) })"

fun read_loop :: "nat \<Rightarrow> nat \<Rightarrow> (nat \<Rightarrow> bool) \<Rightarrow> nat \<Rightarrow> psdaq_dev \<Rightarrow> polls \<Rightarrow> u64 list \<Rightarrow>
    (read_result \<times> psdaq_dev) checked" where
  "read_loop 0 bufsize fault k dev ps out = None"
| "read_loop (Suc fuel) bufsize fault k dev ps out =
     (let n = 8 * length out in
      if \<not> n < bufsize \<or> bufsize < n + BUF_SIZE div NUM_PARTITION then Some (Copied out, release_read dev)
      else case wait_data 9 dev ps of
        (False, dev, ps) \<Rightarrow> Some (Copied out, dev)
      | (True, dev, ps) \<Rightarrow> do {
          frame \<leftarrow> frame_words dev;
          if fault k then Some (EFAULT, release_read (stop_dma dev))
          else if bufsize < n + 8 * length frame then None
          else let dev = dev\<lparr>dma_rd_pointer := (dma_rd_pointer dev + 1) mod (2 * NUM_PARTITION)\<rparr> in
            if dma_wr_pointer dev = dma_rd_pointer dev then Some (Copied (out @ frame), release_read dev)
            else read_loop fuel bufsize fault (k + 1) dev ps (out @ frame) })"

definition psdaq_file_read :: "nat \<Rightarrow> nat \<Rightarrow> (nat \<Rightarrow> bool) \<Rightarrow> psdaq_dev \<Rightarrow> polls \<Rightarrow>
    (read_result \<times> psdaq_dev) checked" where
  "psdaq_file_read fuel bufsize fault dev ps = read_loop fuel bufsize fault 0 (start_dma dev) ps []"

definition psdaq_file_write :: "int" where
  "psdaq_file_write = - 22"

text \<open>Access to registers. The faults are those of copying the request from and to user memory. The
  version request copies back a structure whose offset field is never set: \<open>stack\<close> is what it holds.\<close>

datatype ioctl_request = READ_REGISTER | WRITE_REGISTER | READ_VERSION | OTHER_REQUEST

definition DRIVER_VERSION :: u32 where
  "DRIVER_VERSION = 400"

definition psdaq_ioctl :: "u32 \<Rightarrow> ioctl_request \<Rightarrow> bool \<Rightarrow> bool \<Rightarrow> u32 \<times> u32 \<Rightarrow> psdaq_dev \<Rightarrow>
    int \<times> (u32 \<times> u32) \<times> psdaq_dev" where
  "psdaq_ioctl stack request fault_in fault_out reg dev = (case request of
     READ_REGISTER \<Rightarrow>
       (if fault_in then (- 14, reg, dev)
        else if fault_out then (- 14, reg, dev)
        else (0, (fst reg, bar1 dev (fst reg)), dev))
   | WRITE_REGISTER \<Rightarrow>
       (if fault_in then (- 14, reg, dev)
        else (0, reg, dev\<lparr>bar1 := (bar1 dev)(fst reg := snd reg)\<rparr>))
   | READ_VERSION \<Rightarrow> (if fault_out then (- 14, reg, dev) else (0, (stack, DRIVER_VERSION), dev))
   | OTHER_REQUEST \<Rightarrow> (- 22, reg, dev))"

section \<open>A read returns whole frames in their order\<close>

interpretation pt: ring_pointers NUM_PARTITION
  by unfold_locales (simp add: NUM_PARTITION_def)

text \<open>The partitions the card has filled hold one frame each; a card never fills more partitions than
  there are.\<close>

definition partition_frame :: "psdaq_dev \<Rightarrow> nat \<Rightarrow> u64 list" where
  "partition_frame dev i = frame_of (drop (i * PARTITION_WORDS) (dma_buf dev))"

definition pending_frames :: "psdaq_dev \<Rightarrow> u64 list list" where
  "pending_frames dev = map (partition_frame dev)
     (ring_slots NUM_PARTITION (dma_wr_pointer dev) (dma_rd_pointer dev))"

definition dma_ok :: "psdaq_dev \<Rightarrow> bool" where
  "dma_ok dev =
     (length (dma_buf dev) = NUM_PARTITION * PARTITION_WORDS \<and>
      ring_ok NUM_PARTITION (dma_wr_pointer dev) (dma_rd_pointer dev) \<and>
      (\<forall>f \<in> set (pending_frames dev). f \<noteq> [] \<and> length f \<le> PARTITION_WORDS \<and>
         unat (size_of_header (f ! 0)) = length f))"

lemma partition_values: "PARTITION_WORDS = 4096" "NUM_PARTITION = 32" "BUF_SIZE div NUM_PARTITION = 32768"
  by (simp_all add: PARTITION_WORDS_def NUM_PARTITION_def BUF_SIZE_def)

lemma pending_head:
  assumes "dma_ok dev" "dma_wr_pointer dev \<noteq> dma_rd_pointer dev"
  shows "pending_frames dev = partition_frame dev (dma_rd_pointer dev mod NUM_PARTITION) #
    pending_frames (dev\<lparr>dma_rd_pointer := (dma_rd_pointer dev + 1) mod (2 * NUM_PARTITION)\<rparr>)"
proof -
  have "ring_ok NUM_PARTITION (dma_wr_pointer dev) (dma_rd_pointer dev)"
    using assms(1) by (simp add: dma_ok_def)
  from pt.slots_read_one [OF this assms(2)] show ?thesis
    unfolding pending_frames_def by (simp add: partition_frame_def)
qed

abbreviation next_read :: "psdaq_dev \<Rightarrow> psdaq_dev" where
  "next_read dev \<equiv> dev\<lparr>dma_rd_pointer := (dma_rd_pointer dev + 1) mod (2 * NUM_PARTITION)\<rparr>"

lemma next_read_ok:
  assumes "dma_ok dev" "dma_wr_pointer dev \<noteq> dma_rd_pointer dev"
  shows "dma_ok (next_read dev)"
proof -
  have ok: "ring_ok NUM_PARTITION (dma_wr_pointer dev) (dma_rd_pointer dev)"
    using assms(1) by (simp add: dma_ok_def)
  have one: "1 \<le> ring_count NUM_PARTITION (dma_wr_pointer dev) (dma_rd_pointer dev)"
    using pt.empty_iff [of "dma_wr_pointer dev" "dma_rd_pointer dev"] ok assms(2) by (auto simp: ring_ok_def)
  have "ring_ok NUM_PARTITION (dma_wr_pointer dev) ((dma_rd_pointer dev + 1) mod (2 * NUM_PARTITION))"
    using pt.ok_read [OF ok one] by simp
  moreover have "set (pending_frames (next_read dev)) \<subseteq> set (pending_frames dev)"
    using pending_head [OF assms] by (metis set_subset_Cons)
  ultimately show ?thesis
    using assms(1) unfolding dma_ok_def by auto
qed

lemma frame_words_pending:
  assumes "dma_ok dev" "dma_wr_pointer dev \<noteq> dma_rd_pointer dev"
  shows "frame_words dev = Some (partition_frame dev (dma_rd_pointer dev mod NUM_PARTITION))"
proof -
  let ?i = "dma_rd_pointer dev mod NUM_PARTITION"
  let ?o = "?i * PARTITION_WORDS"
  let ?f = "partition_frame dev ?i"
  have i: "?i < 32"
    by (simp add: NUM_PARTITION_def)
  have len: "length (dma_buf dev) = 32 * 4096"
    using assms(1) by (simp add: dma_ok_def partition_values)
  have inside: "?o + 4096 \<le> length (dma_buf dev)"
    using i len by (simp add: partition_values)
  have f: "?f \<noteq> []" "length ?f \<le> 4096" "unat (size_of_header (?f ! 0)) = length ?f"
    using assms(1) pending_head [OF assms] by (simp_all add: dma_ok_def partition_values)
  have head: "?f ! 0 = dma_buf dev ! ?o"
    using f(1) inside by (simp add: partition_frame_def frame_of_def)
  have "?f = take (length ?f) (drop ?o (dma_buf dev))"
    using f(3) unfolding head by (simp add: partition_frame_def frame_of_def inside [THEN le_trans [OF le_add1]])
  then have "rd_range (dma_buf dev) ?o (length ?f) = Some ?f"
    using f(2) inside by (simp add: rd_range_def)
  then show ?thesis
    using f(3) inside by (simp add: frame_words_def head rd_def flip: size_of_header_nat)
qed

text \<open>The copy stops when the queue is empty or when another partition might not fit.\<close>

definition stops_after :: "nat \<Rightarrow> nat \<Rightarrow> psdaq_dev \<Rightarrow> nat \<Rightarrow> bool" where
  "stops_after bufsize n dev m =
     (m \<le> length (pending_frames dev) \<and>
      (m = length (pending_frames dev) \<or>
       bufsize < n + 8 * length (concat (take m (pending_frames dev))) + 32768))"

lemma read_loop_result:
  assumes "dma_ok dev" "dma_wr_pointer dev \<noteq> dma_rd_pointer dev" "length (pending_frames dev) \<le> fuel"
    and "\<forall>k. \<not> fault k" "8 * length out \<le> bufsize"
  shows "\<exists>m dev'. read_loop fuel bufsize fault k dev ps out =
      Some (Copied (out @ concat (take m (pending_frames dev))), dev') \<and>
    stops_after bufsize (8 * length out) dev m \<and> (8 * length out + 32768 \<le> bufsize \<longrightarrow> 1 \<le> m) \<and>
    8 * length (out @ concat (take m (pending_frames dev))) \<le> bufsize \<and>
    pending_frames dev' = drop m (pending_frames dev) \<and> dma_ok dev' \<and>
    bar0 dev' 29 = of_nat (dma_rd_pointer dev')"
  using assms
proof (induction fuel arbitrary: dev k out)
  case 0
  then show ?case
    using pending_head [OF 0(1,2)] by simp
next
  case (Suc fuel)
  let ?f = "partition_frame dev (dma_rd_pointer dev mod NUM_PARTITION)"
  let ?dev = "next_read dev"
  have pend: "pending_frames dev = ?f # pending_frames ?dev"
    by (rule pending_head [OF Suc.prems(1,2)])
  have same: "pending_frames (release_read d) = pending_frames d" "dma_ok (release_read d) = dma_ok d"
    "bar0 (release_read d) 29 = of_nat (dma_rd_pointer (release_read d))" for d
    by (simp_all add: release_read_def write_bar0_def dma_ok_def pending_frames_def partition_frame_def
      cong: map_cong)
  show ?case
  proof (cases "8 * length out + 32768 \<le> bufsize")
    case False
    then have "read_loop (Suc fuel) bufsize fault k dev ps out = Some (Copied out, release_read dev)"
      by (simp add: Let_def BUF_SIZE_def NUM_PARTITION_def)
    then show ?thesis
      using False Suc.prems(1,5) same
      by (intro exI [of _ 0] exI [of _ "release_read dev"]) (simp add: stops_after_def)
  next
    case True
    have small: "length ?f \<le> 4096"
      using Suc.prems(1) pend by (simp add: dma_ok_def partition_values)
    then have fits: "\<not> bufsize < 8 * length out + 8 * length ?f"
      using True by simp
    have step: "read_loop (Suc fuel) bufsize fault k dev ps out =
        (if dma_wr_pointer dev = dma_rd_pointer ?dev then Some (Copied (out @ ?f), release_read ?dev)
         else read_loop fuel bufsize fault (k + 1) ?dev ps (out @ ?f))"
      using True Suc.prems(2,4) fits frame_words_pending [OF Suc.prems(1,2)]
      by (simp add: Let_def BUF_SIZE_def NUM_PARTITION_def)
    show ?thesis
    proof (cases "dma_wr_pointer dev = dma_rd_pointer ?dev")
      case empty: True
      then have "pending_frames ?dev = []"
        by (simp add: pending_frames_def)
      then show ?thesis
        using step empty pend fits True next_read_ok [OF Suc.prems(1,2)] same [of ?dev]
        by (intro exI [of _ 1] exI [of _ "release_read ?dev"]) (simp add: stops_after_def)
    next
      case False
      have "\<exists>m dev'. read_loop fuel bufsize fault (k + 1) ?dev ps (out @ ?f) =
          Some (Copied ((out @ ?f) @ concat (take m (pending_frames ?dev))), dev') \<and>
        stops_after bufsize (8 * length (out @ ?f)) ?dev m \<and>
        (8 * length (out @ ?f) + 32768 \<le> bufsize \<longrightarrow> 1 \<le> m) \<and>
        8 * length ((out @ ?f) @ concat (take m (pending_frames ?dev))) \<le> bufsize \<and>
        pending_frames dev' = drop m (pending_frames ?dev) \<and> dma_ok dev' \<and>
        bar0 dev' 29 = of_nat (dma_rd_pointer dev')"
        using Suc.prems(3,4) pend fits next_read_ok [OF Suc.prems(1,2)] False by (intro Suc.IH) auto
      then obtain m dev' where "read_loop fuel bufsize fault (k + 1) ?dev ps (out @ ?f) =
          Some (Copied ((out @ ?f) @ concat (take m (pending_frames ?dev))), dev')"
        "stops_after bufsize (8 * length (out @ ?f)) ?dev m"
        "8 * length ((out @ ?f) @ concat (take m (pending_frames ?dev))) \<le> bufsize"
        "pending_frames dev' = drop m (pending_frames ?dev)" "dma_ok dev'"
        "bar0 dev' 29 = of_nat (dma_rd_pointer dev')"
        by blast
      then show ?thesis
        using step False pend
        by (intro exI [of _ "Suc m"] exI [of _ dev']) (auto simp: stops_after_def)
    qed
  qed
qed

lemma wait_data_nonempty:
  "wait_data tries dev ps = (True, dev', ps') \<Longrightarrow> dma_wr_pointer dev' \<noteq> dma_rd_pointer dev'"
  by (induction tries arbitrary: dev ps) (auto split: if_splits prod.splits)

lemma read_loop_after_wait:
  assumes "wait_data 9 dev ps = (True, dev', ps')" "dma_wr_pointer dev' \<noteq> dma_rd_pointer dev'" "32768 \<le> bufsize"
  shows "read_loop (Suc fuel) bufsize fault k dev ps [] = read_loop (Suc fuel) bufsize fault k dev' ps' []"
proof -
  have again: "wait_data 9 dev' ps' = (True, dev', ps')"
    using assms(2) by simp
  have "\<not> (\<not> 8 * length ([] :: u64 list) < bufsize \<or>
      bufsize < 8 * length ([] :: u64 list) + BUF_SIZE div NUM_PARTITION)"
    using assms(3) by (simp add: BUF_SIZE_def NUM_PARTITION_def)
  then show ?thesis
    unfolding read_loop.simps Let_def assms(1) again by simp
qed

lemma pending_bound: "dma_ok dev \<Longrightarrow> length (pending_frames dev) \<le> NUM_PARTITION"
  by (simp add: pending_frames_def pt.length_slots dma_ok_def ring_ok_def)

text \<open>C13: A read of at least 32768 bytes from a card whose pending frames are well-formed and at most 4096 words long (\<open>dma_ok\<close>), when the card has
  data within the nine polls of the wait and copying to the caller does not fault. It returns at least
  one frame, only whole frames, in the order the card wrote them, and never more bytes than the
  caller's buffer holds. It stops when no frame is left, or as soon as less than a whole partition of 32768 bytes is free in the
  buffer, even if the next frame would still fit. The frames returned are no longer pending, the others are, and the card is told the new read
  pointer.\<close>

theorem psdaq_read_whole_frames:
  assumes "wait_data 9 (start_dma dev) ps = (True, dev1, ps1)" "dma_ok dev1" "\<forall>k. \<not> fault k"
    and "32768 \<le> bufsize" "NUM_PARTITION \<le> fuel"
  shows "\<exists>m dev2. psdaq_file_read fuel bufsize fault dev ps =
      Some (Copied (concat (take m (pending_frames dev1))), dev2) \<and>
    1 \<le> m \<and> stops_after bufsize 0 dev1 m \<and>
    8 * length (concat (take m (pending_frames dev1))) \<le> bufsize \<and>
    pending_frames dev2 = drop m (pending_frames dev1) \<and> dma_ok dev2 \<and>
    bar0 dev2 29 = of_nat (dma_rd_pointer dev2)"
proof -
  have ne: "dma_wr_pointer dev1 \<noteq> dma_rd_pointer dev1"
    by (rule wait_data_nonempty [OF assms(1)])
  obtain n where fuel: "fuel = Suc n"
    using assms(5) by (cases fuel) (auto simp: NUM_PARTITION_def)
  have "length (pending_frames dev1) \<le> fuel"
    using pending_bound [OF assms(2)] assms(5) by linarith
  from read_loop_result [OF assms(2) ne this assms(3), of "[]" bufsize 0 ps1]
  show ?thesis
    unfolding psdaq_file_read_def fuel read_loop_after_wait [OF assms(1) ne assms(4)]
    using assms(4) by (auto simp del: read_loop.simps wait_data.simps)
qed

text \<open>Such a block is what the thread of the card relies on when the card writes valid frames.\<close>

lemma read_block_whole:
  assumes "\<forall>f \<in> set (pending_frames dev). whole_frame f" "ws = concat (take m (pending_frames dev))"
  shows "whole_block (ws @ rest, length ws) (take m (pending_frames dev))"
  using assms by (auto simp: whole_block_def dest: in_set_takeD)

text \<open>A read with nothing to return.\<close>

lemma psdaq_read_timeout:
  assumes "wait_data 9 (start_dma dev) ps = (False, dev1, ps1)" "32768 \<le> bufsize" "0 < fuel"
  shows "psdaq_file_read fuel bufsize fault dev ps = Some (Copied [], dev1)"
proof -
  obtain n where fuel: "fuel = Suc n"
    using assms(3) by (cases fuel) auto
  have "\<not> (\<not> 8 * length ([] :: u64 list) < bufsize \<or>
      bufsize < 8 * length ([] :: u64 list) + BUF_SIZE div NUM_PARTITION)"
    using assms(2) by (simp add: BUF_SIZE_def NUM_PARTITION_def)
  then show ?thesis
    unfolding psdaq_file_read_def fuel read_loop.simps Let_def assms(1) by simp
qed

definition demo_dev :: psdaq_dev where
  "demo_dev = \<lparr>tlp_count = 2048, tlp_size = 512,
     dma_buf = demo_whole @ replicate (NUM_PARTITION * PARTITION_WORDS - 2) 0,
     dma_wr_pointer = 0, dma_rd_pointer = 0, bar0 = (\<lambda>_. 0), bar1 = (\<lambda>_. 0)\<rparr>"

lemma demo_dev_wait:
  "wait_data 9 (start_dma demo_dev) [(1, dma_buf demo_dev)] =
    (True, (start_dma demo_dev)\<lparr>dma_wr_pointer := 1\<rparr>, [])"
  by (simp add: start_dma_def write_bar0_def demo_dev_def poll_def)

lemma demo_dev_pending:
  "pending_frames ((start_dma demo_dev)\<lparr>dma_wr_pointer := 1\<rparr>) = [demo_whole]"
proof -
  have "frame_of (demo_whole @ xs) = demo_whole" for xs
    using frame_of_stored [OF whole_frame_consistent [OF demo_whole_frame]] .
  then show ?thesis
    by (simp add: pending_frames_def ring_slots_def ring_count_def NUM_PARTITION_def start_dma_def
      write_bar0_def demo_dev_def partition_frame_def)
qed

lemma demo_dev_ok: "dma_ok ((start_dma demo_dev)\<lparr>dma_wr_pointer := 1\<rparr>)"
  unfolding dma_ok_def demo_dev_pending
  using whole_frame_size [OF demo_whole_frame]
  by (simp add: start_dma_def write_bar0_def demo_dev_def ring_ok_def ring_count_def partition_values
    demo_whole_def)

theorem psdaq_read_whole_frames_witness:
  "\<exists>dev2. psdaq_file_read 32 262144 (\<lambda>_. False) demo_dev [(1, dma_buf demo_dev)] =
    Some (Copied demo_whole, dev2) \<and> pending_frames dev2 = []"
proof -
  obtain m dev2 where m: "psdaq_file_read 32 262144 (\<lambda>_. False) demo_dev [(1, dma_buf demo_dev)] =
      Some (Copied (concat (take m [demo_whole])), dev2)" "1 \<le> m" "pending_frames dev2 = drop m [demo_whole]"
    using psdaq_read_whole_frames [OF demo_dev_wait demo_dev_ok, of "\<lambda>_. False" 262144 32]
    unfolding demo_dev_pending by (auto simp: NUM_PARTITION_def)
  then show ?thesis
    by (cases m) auto
qed

section \<open>Resources of a device\<close>

text \<open>
  What \<open>psdaq_dev_probe\<close> holds, stage by stage, and the labels its failures jump to. Which stage
  fails is an argument (for a mapping: that \<open>IS_ERR\<close> holds of its result); \<open>len\<close> gives the lengths of
  the two address regions, which decide whether the cleanup unmaps them.
\<close>

datatype resource = Memory | PciDevice | Regions | Bar nat | DmaBuffer | ChrdevRegion | Cdev | DeviceNode

datatype probe_stage = Kmalloc | PciEnable | DmaMask | CoherentMask | RequestRegions | Ioremap nat | DmaAlloc
  | AllocChrdev | CdevAdd | DeviceCreate

definition failure_pci_enable :: "resource list \<Rightarrow> resource list" where
  "failure_pci_enable held = remove1 Memory held"

definition failure_pci_regions :: "resource list \<Rightarrow> resource list" where
  "failure_pci_regions held = failure_pci_enable (remove1 PciDevice held)"

definition failure_ioremap :: "resource list \<Rightarrow> resource list" where
  "failure_ioremap held = failure_pci_regions (remove1 Regions held)"

definition unmap_bars :: "(nat \<Rightarrow> nat) \<Rightarrow> resource list \<Rightarrow> resource list" where
  "unmap_bars len held = fold (\<lambda>i h. if len i \<noteq> 0 then remove1 (Bar i) h else h) [0, 1] held"

definition failure_dma_allocation :: "(nat \<Rightarrow> nat) \<Rightarrow> resource list \<Rightarrow> resource list" where
  "failure_dma_allocation len held = failure_ioremap (unmap_bars len held)"

definition failure_alloc_chrdev_region :: "(nat \<Rightarrow> nat) \<Rightarrow> resource list \<Rightarrow> resource list" where
  "failure_alloc_chrdev_region len held = failure_dma_allocation len (remove1 DmaBuffer held)"

definition failure_cdev_add :: "(nat \<Rightarrow> nat) \<Rightarrow> resource list \<Rightarrow> resource list" where
  "failure_cdev_add len held = failure_alloc_chrdev_region len (remove1 ChrdevRegion held)"

definition failure_device_create :: "(nat \<Rightarrow> nat) \<Rightarrow> resource list \<Rightarrow> resource list" where
  "failure_device_create len held = failure_cdev_add len (remove1 Cdev held)"

text \<open>The result: the device when it was claimed, what is held afterwards, and the number of the next
  device. \<open>mps\<close> is the packet size of the bus, \<open>hwaddr\<close> the address of the DMA buffer, \<open>dev\<close> the memory of
  the structure before it is filled.\<close>

definition psdaq_dev_probe :: "(nat \<Rightarrow> nat) \<Rightarrow> (probe_stage \<Rightarrow> bool) \<Rightarrow> nat \<Rightarrow> u32 \<Rightarrow> psdaq_dev \<Rightarrow> nat \<Rightarrow>
    psdaq_dev option \<times> resource list \<times> nat" where
  "psdaq_dev_probe len fails mps hwaddr dev device_counter =
     (let failed = (\<lambda>held. (None, held, device_counter)) in
      if fails Kmalloc then failed []
      else if fails PciEnable then failed (failure_pci_enable [Memory])
      else if fails DmaMask \<or> fails CoherentMask then failed (failure_pci_regions [PciDevice, Memory])
      else if fails RequestRegions then failed (failure_pci_regions [PciDevice, Memory])
      else if fails (Ioremap 0) then failed (failure_ioremap [Regions, PciDevice, Memory])
      else if fails (Ioremap 1) then failed (failure_ioremap [Bar 0, Regions, PciDevice, Memory])
      else let held = [Bar 1, Bar 0, Regions, PciDevice, Memory] in
        if fails DmaAlloc then failed (failure_dma_allocation len held)
        else let dev = psdaq_initcard mps hwaddr (dev\<lparr>dma_wr_pointer := 0, dma_rd_pointer := 0\<rparr>);
                 held = DmaBuffer # held in
          if fails AllocChrdev then failed (failure_alloc_chrdev_region len held)
          else if fails CdevAdd then failed (failure_cdev_add len (ChrdevRegion # held))
          else if fails DeviceCreate then failed (failure_device_create len (Cdev # ChrdevRegion # held))
          else (Some dev, DeviceNode # Cdev # ChrdevRegion # held, device_counter + 1))"

definition psdaq_dev_remove :: "(nat \<Rightarrow> nat) \<Rightarrow> psdaq_dev \<Rightarrow> resource list \<Rightarrow> psdaq_dev \<times> resource list" where
  "psdaq_dev_remove len dev held =
     (stop_dma dev,
      remove1 Memory (remove1 PciDevice (remove1 Regions (unmap_bars len
        (remove1 DmaBuffer (remove1 ChrdevRegion (remove1 Cdev (remove1 DeviceNode held))))))))"

lemmas cleanup_defs = failure_pci_enable_def failure_pci_regions_def failure_ioremap_def unmap_bars_def
  failure_dma_allocation_def failure_alloc_chrdev_region_def failure_cdev_add_def failure_device_create_def

lemma fold_write_bar0:
  "dma_rd_pointer (fold (\<lambda>(reg, val). write_bar0 reg val) ws dev) = dma_rd_pointer dev"
  "dma_wr_pointer (fold (\<lambda>(reg, val). write_bar0 reg val) ws dev) = dma_wr_pointer dev"
  by (induction ws arbitrary: dev) (auto simp: write_bar0_def)

lemma psdaq_initcard_pointers [simp]:
  "dma_rd_pointer (psdaq_initcard mps hwaddr dev) = dma_rd_pointer dev"
  "dma_wr_pointer (psdaq_initcard mps hwaddr dev) = dma_wr_pointer dev"
  unfolding psdaq_initcard_def Let_def fold_write_bar0 by simp_all

text \<open>C40: A probe that succeeds hands over a device with an empty ring of partitions, and its removal
  gives back everything. A probe that fails leaves the numbering of the devices alone and gives back
  everything it acquired, with one exception: when the second address region cannot be mapped, the
  first one stays mapped, because the jump goes past the loop that unmaps.\<close>

theorem probe_releases:
  assumes "len 0 \<noteq> 0" "len 1 \<noteq> 0"
  shows "(case psdaq_dev_probe len fails mps hwaddr dev n of
      (Some dev', held, n') \<Rightarrow> n' = n + 1 \<and> dma_wr_pointer dev' = dma_rd_pointer dev' \<and>
        snd (psdaq_dev_remove len dev' held) = []
    | (None, held, n') \<Rightarrow> n' = n \<and> (held = [] \<or>
        (held = [Bar 0] \<and> fails (Ioremap 1) \<and>
         \<not> (\<exists>st \<in> {Kmalloc, PciEnable, DmaMask, CoherentMask, RequestRegions, Ioremap 0}. fails st))))"
  using assms by (simp add: psdaq_dev_probe_def psdaq_dev_remove_def cleanup_defs Let_def)

theorem probe_releases_witness:
  "(case psdaq_dev_probe (\<lambda>_. 4096) (\<lambda>st. st = CdevAdd) 256 0x1000 demo_dev 0 of
      (Some dev', held, n') \<Rightarrow> n' = 0 + 1 \<and> dma_wr_pointer dev' = dma_rd_pointer dev' \<and>
        snd (psdaq_dev_remove (\<lambda>_. 4096) dev' held) = []
    | (None, held, n') \<Rightarrow> n' = 0 \<and> (held = [] \<or>
        (held = [Bar 0] \<and> Ioremap 1 = CdevAdd \<and>
         \<not> (\<exists>st \<in> {Kmalloc, PciEnable, DmaMask, CoherentMask, RequestRegions, Ioremap 0}. st = CdevAdd))))"
  by (rule probe_releases) simp_all

lemma probe_leaks_bar0:
  "psdaq_dev_probe len (\<lambda>st. st = Ioremap 1) mps hwaddr dev n = (None, [Bar 0], n)"
  by (simp add: psdaq_dev_probe_def cleanup_defs)

end
