(* ===== verification/CalibrationPool.thy ===== *)
theory CalibrationPool
  imports FrameQueue
begin

text \<open>
  The histogram of event words that the raw data writer keeps for calibration runs
  (rawdata/tools/write\_raw.cpp, \<open>CalibrationPool\<close>). One thread per processor goes through all frames of a
  batch and counts, in a map of its own, the event words whose channel hashes to it.

  The threads only read the shared memory and each changes only its own map, so the result of a
  batch does not depend on how they interleave: a batch maps every thread over its map. A
  \<open>std::map\<close> is the list of its entries in the order of the keys. The lemmas show that the maps
  together count every event word exactly once, whatever the number of processors is.
\<close>

section \<open>Model\<close>

type_synonym event_counts = "(u64 \<times> u32) list"

text \<open>\<open>map[word]++\<close>\<close>

fun bump_count :: "u64 \<Rightarrow> event_counts \<Rightarrow> event_counts" where
  "bump_count x [] = [(x, 1)]"
| "bump_count x ((y, k) # m) =
     (if x < y then (x, 1) # (y, k) # m
      else if x = y then (y, k + 1) # m
      else (y, k) # bump_count x m)"

definition event_hash :: "nat \<Rightarrow> u32 \<Rightarrow> nat" where
  "event_hash n_cpu g =
     (let channelID = g mod 64; asicID = drop_bit 6 g mod 64; slaveID = drop_bit 12 g mod 32; portID = drop_bit 17 g mod 32
      in unat (channelID XOR asicID XOR slaveID XOR portID) mod n_cpu)"

text \<open>The events of a frame, given the indices that are left.\<close>

fun count_events :: "SHM_RAW \<Rightarrow> nat \<Rightarrow> nat \<Rightarrow> nat \<Rightarrow> nat list \<Rightarrow> event_counts \<Rightarrow> event_counts checked" where
  "count_events m index n_cpu cpu [] cal = Some cal"
| "count_events m index n_cpu cpu (i # rest) cal = do {
     g \<leftarrow> shm_getChannelID m (int index) (int i);
     if event_hash n_cpu g \<noteq> cpu then count_events m index n_cpu cpu rest cal
     else do {
       event_word \<leftarrow> shm_getFrameWord m (int index) (int i + 2);
       count_events m index n_cpu cpu rest (bump_count event_word cal) } }"

text \<open>A thread. The pointers run below \<open>2 * NFrames\<close>, which bounds the loop.\<close>

fun thread_routine :: "nat \<Rightarrow> SHM_RAW \<Rightarrow> nat \<Rightarrow> nat \<Rightarrow> nat \<Rightarrow> nat \<Rightarrow> event_counts \<Rightarrow> event_counts checked" where
  "thread_routine 0 m n_cpu cpu index2 stop cal = (if index2 = stop then Some cal else None)"
| "thread_routine (Suc fuel) m n_cpu cpu index2 stop cal =
     (if index2 = stop then Some cal
      else let bs = shm_getSizeInFrames m; index = index2 mod bs in do {
        frameSize \<leftarrow> shm_getNEvents m (int index);
        cal' \<leftarrow> count_events m index n_cpu cpu [0..<nat frameSize] cal;
        thread_routine fuel m n_cpu cpu ((index2 + 1) mod (2 * bs)) stop cal' })"

definition processBatch :: "SHM_RAW \<Rightarrow> nat \<Rightarrow> nat \<Rightarrow> event_counts list \<Rightarrow> event_counts list checked" where
  "processBatch m start stop calEventSet =
     those (map (\<lambda>i. thread_routine (2 * NFrames) m (length calEventSet) i start stop (calEventSet ! i))
              [0..<length calEventSet])"

definition pool_clear :: "event_counts list \<Rightarrow> event_counts list" where
  "pool_clear calEventSet = map (\<lambda>_. []) calEventSet"

text \<open>The entries written to the file, and the cleared maps.\<close>

definition pool_writeOut :: "event_counts list \<Rightarrow> event_counts \<times> event_counts list" where
  "pool_writeOut calEventSet = (concat calEventSet, pool_clear calEventSet)"

section \<open>Counting\<close>

definition counts_words :: "event_counts \<Rightarrow> u64 list \<Rightarrow> bool" where
  "counts_words m xs = (sorted_wrt (<) (map fst m) \<and>
     (\<forall>x. map_of m x = (if x \<in> set xs then Some (of_nat (count_list xs x)) else None)))"

lemma fst_bump_count: "set (map fst (bump_count x m)) = insert x (set (map fst m))"
  by (induction x m rule: bump_count.induct) auto

lemma sorted_bump_count: "sorted_wrt (<) (map fst m) \<Longrightarrow> sorted_wrt (<) (map fst (bump_count x m))"
  by (induction x m rule: bump_count.induct) (auto simp: fst_bump_count [simplified] dest: order.strict_trans)

lemma map_of_bump_count:
  "sorted_wrt (<) (map fst m) \<Longrightarrow>
   map_of (bump_count x m) = (map_of m)(x \<mapsto> (case map_of m x of None \<Rightarrow> 1 | Some k \<Rightarrow> k + 1))"
proof (induction x m rule: bump_count.induct)
  case (2 x y k m)
  then have "x < y \<Longrightarrow> map_of m x = None"
    by (auto simp: map_of_eq_None_iff)
  then show ?case
    using 2 by (auto simp: fun_eq_iff)
qed simp

lemma counts_bump:
  assumes "counts_words m xs"
  shows "counts_words (bump_count x m) (xs @ [x])"
  using assms by (auto simp: counts_words_def sorted_bump_count map_of_bump_count)

lemma counts_fold: "counts_words m xs \<Longrightarrow> counts_words (fold bump_count ys m) (xs @ ys)"
proof (induction ys arbitrary: m xs)
  case (Cons y ys)
  then show ?case
    using Cons.IH [OF counts_bump [OF Cons.prems, of y]] by simp
qed simp

lemma counts_empty [simp]: "counts_words [] []"
  by (simp add: counts_words_def)

section \<open>What a thread counts\<close>

definition slot_events :: "RawDataFrame \<Rightarrow> u64 list" where
  "slot_events slot = take (nat (nevents_of_header (slot ! 1))) (drop 2 slot)"

definition slot_ok :: "RawDataFrame \<Rightarrow> bool" where
  "slot_ok slot = (2 \<le> length slot \<and> length slot \<le> MaxRawDataFrameSize \<and> nat (nevents_of_header (slot ! 1)) + 2 \<le> length slot \<and>
     unat (size_of_header (slot ! 0)) = nat (nevents_of_header (slot ! 1)) + 2)"

definition shm_ok :: "SHM_RAW \<Rightarrow> nat \<Rightarrow> nat \<Rightarrow> bool" where
  "shm_ok m w r = (length (shm m) = NFrames \<and> ring_ok NFrames w r \<and>
     (\<forall>i \<in> set (ring_slots NFrames w r). slot_ok (shm m ! i)))"

definition batch_events :: "SHM_RAW \<Rightarrow> nat \<Rightarrow> nat \<Rightarrow> u64 list" where
  "batch_events m w r = concat (map (\<lambda>i. slot_events (shm m ! i)) (ring_slots NFrames w r))"

lemma nevents_nonneg [simp]: "0 \<le> nevents_of_header h"
  by (simp add: nevents_of_header_def)

lemma length_slot_events: "slot_ok slot \<Longrightarrow> length (slot_events slot) = nat (nevents_of_header (slot ! 1))"
  by (auto simp: slot_events_def slot_ok_def)

lemma count_events_result:
  assumes "index < length (shm m)" "slot_ok (shm m ! index)" "\<forall>i \<in> set js. i < length (slot_events (shm m ! index))"
  shows "count_events m index n_cpu cpu js cal = Some (fold bump_count
    (filter (\<lambda>w. event_hash n_cpu (getChannelID w) = cpu) (map ((!) (slot_events (shm m ! index))) js)) cal)"
  using assms(3)
proof (induction js arbitrary: cal)
  case (Cons i js)
  let ?slot = "shm m ! index"
  have i: "i < nat (nevents_of_header (?slot ! 1))" "i + 2 < length ?slot"
    using Cons.prems assms(2) length_slot_events [OF assms(2)] by (auto simp: slot_ok_def)
  then have word: "slot_events ?slot ! i = ?slot ! (i + 2)"
    by (simp add: slot_events_def add.commute)
  have nat: "nat (int i + 2) = i + 2"
    by simp
  have "rdi (shm m) (int index) = Some ?slot" "rdi ?slot (int i + 2) = Some (?slot ! (i + 2))"
    using assms(1) i(2) by (simp_all add: rdi_def nat rd_def del: nat_add_distrib)
  then have "shm_getChannelID m (int index) (int i) = Some (getChannelID (slot_events ?slot ! i))"
    "shm_getFrameWord m (int index) (int i + 2) = Some (slot_events ?slot ! i)"
    by (simp_all add: shm_getChannelID_def shm_getFrameWord_def shm_getRawDataFrame_def frame_getChannelID_def word)
  then show ?case
    using Cons by simp
qed simp

lemma shm_ok_next:
  assumes "shm_ok m stop r" "r \<noteq> stop"
  shows "shm_ok m stop ((r + 1) mod (2 * NFrames))" "r mod NFrames < length (shm m)" "slot_ok (shm m ! (r mod NFrames))"
    "batch_events m stop r = slot_events (shm m ! (r mod NFrames)) @ batch_events m stop ((r + 1) mod (2 * NFrames))"
    "ring_count NFrames stop r = Suc (ring_count NFrames stop ((r + 1) mod (2 * NFrames)))"
proof -
  have ok: "ring_ok NFrames stop r"
    using assms(1) by (simp add: shm_ok_def)
  note slots = fq.slots_read_one [OF ok] assms(2)
  have ne: "0 < ring_count NFrames stop r"
    using ok assms(2) fq.empty_iff [of stop r] by (auto simp: ring_ok_def)
  then have "ring_ok NFrames stop ((r + 1) mod (2 * NFrames))"
    using fq.ok_read [OF ok, of 1] by simp
  then show "shm_ok m stop ((r + 1) mod (2 * NFrames))" "slot_ok (shm m ! (r mod NFrames))"
    using assms slots by (auto simp: shm_ok_def)
  show "r mod NFrames < length (shm m)"
    using assms(1) fq.slots by (simp add: shm_ok_def)
  show "batch_events m stop r = slot_events (shm m ! (r mod NFrames)) @ batch_events m stop ((r + 1) mod (2 * NFrames))"
    using slots by (simp add: batch_events_def)
  show "ring_count NFrames stop r = Suc (ring_count NFrames stop ((r + 1) mod (2 * NFrames)))"
    using fq.count_read [OF ok, of 1] ne by simp
qed

lemma thread_routine_result:
  assumes "shm_ok m stop r" "ring_count NFrames stop r \<le> fuel"
  shows "thread_routine fuel m n_cpu cpu r stop cal = Some (fold bump_count
    (filter (\<lambda>w. event_hash n_cpu (getChannelID w) = cpu) (batch_events m stop r)) cal)"
  using assms
proof (induction fuel arbitrary: r cal)
  case 0
  then have "r = stop"
    using fq.empty_iff [of stop r] by (auto simp: shm_ok_def ring_ok_def)
  then show ?case
    by (simp add: batch_events_def)
next
  case (Suc fuel)
  show ?case
  proof (cases "r = stop")
    case False
    note step = shm_ok_next [OF Suc.prems(1) False]
    let ?slot = "shm m ! (r mod NFrames)"
    have "shm_getNEvents m (int (r mod NFrames)) = Some (nevents_of_header (?slot ! 1))"
      using step(2,3) by (simp add: shm_getNEvents_def shm_getRawDataFrame_def rdi_def rd_def frame_getNEvents_def
          slot_ok_def)
    moreover have "count_events m (r mod NFrames) n_cpu cpu [0..<nat (nevents_of_header (?slot ! 1))] cal =
        Some (fold bump_count (filter (\<lambda>w. event_hash n_cpu (getChannelID w) = cpu) (slot_events ?slot)) cal)"
      using count_events_result [OF step(2,3), of "[0..<length (slot_events ?slot)]" n_cpu cpu cal]
      using map_nth [of "slot_events ?slot"] length_slot_events [OF step(3)] by simp
    ultimately show ?thesis
      using Suc.IH [OF step(1)] Suc.prems(2) step(4,5) False
      by (simp add: shm_getSizeInFrames_def Let_def del: thread_routine.simps(1))
  qed (simp add: batch_events_def)
qed

section \<open>A calibration step\<close>

text \<open>The pool after the events \<open>evs\<close>: every map counts those that hash to its thread.\<close>

definition pool_counts :: "event_counts list \<Rightarrow> u64 list \<Rightarrow> bool" where
  "pool_counts cals evs = (\<forall>i < length cals.
     counts_words (cals ! i) (filter (\<lambda>w. event_hash (length cals) (getChannelID w) = i) evs))"

lemma pool_counts_clear: "pool_counts (pool_clear cals) []"
  by (simp add: pool_counts_def pool_clear_def)

lemma processBatch_counts:
  assumes "shm_ok m stop start" "pool_counts cals evs"
  shows "\<exists>cals'. processBatch m start stop cals = Some cals' \<and> length cals' = length cals \<and>
    pool_counts cals' (evs @ batch_events m stop start)"
proof -
  have "ring_count NFrames stop start \<le> 2 * NFrames"
    using assms(1) by (simp add: shm_ok_def ring_ok_def)
  note routine = thread_routine_result [OF assms(1) this]
  let ?cals = "map (\<lambda>i. fold bump_count
    (filter (\<lambda>w. event_hash (length cals) (getChannelID w) = i) (batch_events m stop start)) (cals ! i)) [0..<length cals]"
  have "processBatch m start stop cals = Some ?cals"
    unfolding processBatch_def routine by (rule those_map_Some) simp
  moreover have "pool_counts ?cals (evs @ batch_events m stop start)"
    using assms(2) by (auto simp: pool_counts_def intro: counts_fold)
  ultimately show ?thesis
    by auto
qed

lemma map_of_concat_unique:
  assumes "i < length ms" "\<And>j. j < length ms \<Longrightarrow> j \<noteq> i \<Longrightarrow> map_of (ms ! j) x = None"
  shows "map_of (concat ms) x = map_of (ms ! i) x"
  using assms
proof (induction ms arbitrary: i)
  case (Cons m ms)
  show ?case
  proof (cases i)
    case 0
    have "\<forall>m' \<in> set ms. map_of m' x = None"
      using Cons.prems(2) 0 by (fastforce simp: in_set_conv_nth)
    then have "map_of (concat ms) x = None"
      by (auto simp: map_of_eq_None_iff)
    then show ?thesis
      using 0 by (simp add: map_add_def split: option.split)
  next
    case (Suc k)
    have tl: "map_of (ms ! j) x = None" if "j < length ms" "j \<noteq> k" for j
      using Cons.prems(2) [of "Suc j"] Suc that by simp
    have "map_of (concat ms) x = map_of (ms ! k) x"
      using Cons.prems(1) Suc tl by (intro Cons.IH) simp_all
    moreover have "map_of m x = None"
      using Cons.prems(2) [of 0] Suc by simp
    ultimately show ?thesis
      using Suc by (simp add: map_add_def split: option.split)
  qed
qed simp

lemma pool_counts_entry:
  assumes "pool_counts cals evs" "cals \<noteq> []"
  shows "map_of (concat cals) x = (if x \<in> set evs then Some (of_nat (count_list evs x)) else None)"
proof -
  let ?P = "\<lambda>i w. event_hash (length cals) (getChannelID w) = i"
  let ?i = "event_hash (length cals) (getChannelID x)"
  have i: "?i < length cals"
    using assms(2) by (simp add: event_hash_def Let_def)
  have entry: "map_of (cals ! j) x =
      (if x \<in> set (filter (?P j) evs) then Some (of_nat (count_list (filter (?P j) evs) x)) else None)"
    if "j < length cals" for j
    using assms(1) that unfolding pool_counts_def counts_words_def by blast
  have "count_list (filter (?P ?i) evs) x = count_list evs x"
    by (induction evs) auto
  moreover have "map_of (concat cals) x = map_of (cals ! ?i) x"
    using i entry by (intro map_of_concat_unique) auto
  ultimately show ?thesis
    using entry [OF i] by simp
qed

lemma distinct_concat_hash:
  assumes "\<And>i. i < length ms \<Longrightarrow> distinct (ms ! i)" "\<And>i x. i < length ms \<Longrightarrow> x \<in> set (ms ! i) \<Longrightarrow> h x = i + k"
  shows "distinct (concat ms)"
  using assms
proof (induction ms arbitrary: k)
  case (Cons m ms)
  have tl: "distinct (ms ! i)" "x \<in> set (ms ! i) \<Longrightarrow> h x = i + Suc k" if "i < length ms" for i x
    using Cons.prems(1) [of "Suc i"] Cons.prems(2) [of "Suc i" x] that by simp_all
  then have "distinct (concat ms)"
    by (rule Cons.IH)
  moreover have "distinct m" "\<forall>x \<in> set m. h x = k"
    using Cons.prems(1) [of 0] Cons.prems(2) [of 0] by auto
  moreover have "\<forall>x \<in> set (concat ms). k < h x"
    using tl(2) by (fastforce simp: in_set_conv_nth)
  then have "set m \<inter> set (concat ms) = {}"
    using \<open>\<forall>x \<in> set m. h x = k\<close> by fastforce
  ultimately show ?case
    by simp
qed simp

lemma pool_counts_distinct:
  assumes "pool_counts cals evs"
  shows "distinct (map fst (concat cals))"
  unfolding map_concat
proof (rule distinct_concat_hash [where k = 0])
  fix i assume i: "i < length (map (map fst) cals)"
  then have counts: "counts_words (cals ! i) (filter (\<lambda>w. event_hash (length cals) (getChannelID w) = i) evs)"
    using assms by (simp add: pool_counts_def)
  then show "distinct (map (map fst) cals ! i)"
    using i by (simp add: counts_words_def strict_sorted_iff)
  fix x assume "x \<in> set (map (map fst) cals ! i)"
  then have "map_of (cals ! i) x \<noteq> None"
    using i by (simp add: map_of_eq_None_iff)
  then show "event_hash (length cals) (getChannelID x) = i + 0"
    using counts by (auto simp: counts_words_def split: if_splits)
qed

lemma pool_writeOut_counts:
  assumes "pool_counts cals evs" "cals \<noteq> []"
  shows "distinct (map fst (fst (pool_writeOut cals)))"
    "map_of (fst (pool_writeOut cals)) x = (if x \<in> set evs then Some (of_nat (count_list evs x)) else None)"
    "pool_counts (snd (pool_writeOut cals)) []" "length (snd (pool_writeOut cals)) = length cals"
  using pool_counts_distinct [OF assms(1)] pool_counts_entry [OF assms] pool_counts_clear
  by (simp_all add: pool_writeOut_def pool_clear_def)

end
