(* ===== verification/WriteRaw.thy ===== *)
theory WriteRaw
  imports CalibrationPool RawReaderSpec
begin

text \<open>
  The program that writes raw data files (rawdata/tools/write\_raw.cpp). It is told by the acquisition
  program which slots of the queue in shared memory to write, block by block, and which block
  starts and which one ends a step; it writes the frames to the data file, but not every empty or
  lost one, and the range of each step to the index file, and it reports how many frames, lost
  frames and events the step has. In calibration mode it writes the histogram of the event words
  (theory \<open>CalibrationPool\<close>) instead of the frames.

  The data file is its header of 64 bytes followed by words of 8 bytes in normal mode or entries of
  16 bytes in calibration mode; a run has one mode. The temporary file lists the steps that are
  being written. Output that fails ends the program with a message and is not modelled. Frame
  numbers have 36 bits, so no counter overflows within the life of an acquisition, and counters are
  integers.

  The lemmas show for both modes what a step leaves in the files. The two modes share the shape
  of a step, which the locale \<open>writer_mode\<close> states once.
\<close>

section \<open>Model\<close>

definition file_header :: "u64 \<Rightarrow> bool \<Rightarrow> bool \<Rightarrow> u64 \<Rightarrow> int \<Rightarrow> u64 list" where
  "file_header systemFrequency isqdc mixed acquisitionStartTime trigger =
     [ucast (ucast systemFrequency :: u32) OR push_bit 32 (if isqdc then 1 else 0), acquisitionStartTime,
      (if trigger \<noteq> -1 then word_of_int (0x8000 + trigger) else 0), (if mixed then 1 else 0), 0, 0, 0, 0]"

datatype FrameType = FRAME_TYPE_UNKNOWN | FRAME_TYPE_SOME_DATA | FRAME_TYPE_ZERO_DATA
  | FRAME_TYPE_SOME_LOST | FRAME_TYPE_ALL_LOST

record BlockHeader =
  step1 :: u32
  step2 :: u32
  wrPointer :: u32
  rdPointer :: u32
  blockType :: int

type_synonym index_entry = "nat \<times> nat \<times> int \<times> int \<times> u32 \<times> u32"

datatype temp_entry = TempStart u32 u32 nat | TempEnd nat

record writer =
  stepEvents :: int
  stepMaxFrame :: int
  stepAllFrames :: int
  stepLostFramesN :: int
  stepLostFrames0 :: int
  minFrameID :: int
  maxFrameID :: int
  prevFrameID :: int
  stepFirstFrameID :: int
  stepStartOffset :: nat
  lastFrameType :: FrameType
  calEventSet :: "event_counts list"
  dataWords :: "u64 list"
  calFile :: event_counts
  indexFile :: "index_entry list"
  tempFile :: "temp_entry list"

definition writer_init :: "nat \<Rightarrow> writer" where
  "writer_init n_cpu = \<lparr>stepEvents = 0, stepMaxFrame = 0, stepAllFrames = 0, stepLostFramesN = 0, stepLostFrames0 = 0,
     minFrameID = 0x7FFFFFFFFFFFFFFF, maxFrameID = 0, prevFrameID = -1, stepFirstFrameID = -1,
     stepStartOffset = 64, lastFrameType = FRAME_TYPE_UNKNOWN, calEventSet = replicate n_cpu [],
     dataWords = [], calFile = [], indexFile = [], tempFile = []\<rparr>"

definition ftell :: "writer \<Rightarrow> nat" where
  "ftell w = 64 + 8 * length (dataWords w) + 16 * length (calFile w)"

text \<open>The first block of a step.\<close>

definition start_step :: "bool \<Rightarrow> BlockHeader \<Rightarrow> writer \<Rightarrow> writer" where
  "start_step std h w = w\<lparr>stepAllFrames := 0, stepEvents := 0, stepMaxFrame := 0, stepLostFramesN := 0,
     stepLostFrames0 := 0, prevFrameID := -1, stepFirstFrameID := -1, lastFrameType := FRAME_TYPE_UNKNOWN,
     calEventSet := (if std then calEventSet w else pool_clear (calEventSet w)),
     stepStartOffset := ftell w, tempFile := tempFile w @ [TempStart (step1 h) (step2 h) (ftell w)]\<rparr>"

text \<open>One frame: the account of skipped frame numbers, with a marker in the file for the first of them,
  the account of the frame, and the decision to write it.\<close>

definition lost_marker :: "int \<Rightarrow> u64 list" where
  "lost_marker fid = [push_bit 36 2 OR word_of_int fid, push_bit 16 1]"

definition account_gap :: "bool \<Rightarrow> int \<Rightarrow> writer \<Rightarrow> writer" where
  "account_gap std fid w0 =
     (let w = (if stepFirstFrameID w0 = -1 then w0\<lparr>stepFirstFrameID := fid\<rparr> else w0)
      in if fid \<le> prevFrameID w then w
         else if prevFrameID w \<ge> 0 \<and> fid \<noteq> prevFrameID w + 1 then
           (let skippedFrames = fid - prevFrameID w - 1
            in w\<lparr>stepAllFrames := stepAllFrames w + skippedFrames,
                 stepLostFrames0 := stepLostFrames0 w + skippedFrames,
                 dataWords := dataWords w @ (if std then lost_marker (prevFrameID w + 1) else []),
                 lastFrameType := FRAME_TYPE_ALL_LOST\<rparr>)
         else w)"

definition account_one :: "int \<Rightarrow> int \<Rightarrow> bool \<Rightarrow> writer \<Rightarrow> writer" where
  "account_one fid nEvents frameLost w =
     w\<lparr>prevFrameID := fid,
       minFrameID := (if minFrameID w < fid then minFrameID w else fid),
       maxFrameID := (if maxFrameID w > fid then maxFrameID w else fid),
       stepEvents := stepEvents w + nEvents,
       stepMaxFrame := (if stepMaxFrame w > nEvents then stepMaxFrame w else nEvents),
       stepLostFrames0 := stepLostFrames0 w + (if frameLost \<and> nEvents = 0 then 1 else 0),
       stepLostFramesN := stepLostFramesN w + (if frameLost \<and> nEvents \<noteq> 0 then 1 else 0),
       stepAllFrames := stepAllFrames w + 1\<rparr>"

definition frame_class :: "bool \<Rightarrow> int \<Rightarrow> FrameType" where
  "frame_class frameLost nEvents =
     (if frameLost then (if nEvents = 0 then FRAME_TYPE_ZERO_DATA else FRAME_TYPE_SOME_DATA)
      else (if nEvents = 0 then FRAME_TYPE_ALL_LOST else FRAME_TYPE_SOME_LOST))"

definition skip_frame :: "int \<Rightarrow> FrameType \<Rightarrow> writer \<Rightarrow> bool" where
  "skip_frame btype cls w =
     (btype = 1 \<and> lastFrameType w = cls \<and> (cls = FRAME_TYPE_ZERO_DATA \<or> cls = FRAME_TYPE_ALL_LOST))"

definition write_frame :: "bool \<Rightarrow> int \<Rightarrow> RawDataFrame \<Rightarrow> writer \<Rightarrow> writer checked" where
  "write_frame std btype slot w = do {
     fid \<leftarrow> frame_getFrameID slot;
     frameSize \<leftarrow> frame_getFrameSize slot;
     nEvents \<leftarrow> frame_getNEvents slot;
     frameLost \<leftarrow> frame_getFrameLost slot;
     let w = account_one (uint fid) nEvents frameLost (account_gap std (uint fid) w);
     let cls = frame_class frameLost nEvents;
     if skip_frame btype cls w then Some w
     else do {
       ws \<leftarrow> (if std then rd_range slot 0 (unat frameSize) else Some []);
       Some (w\<lparr>lastFrameType := cls, dataWords := dataWords w @ ws\<rparr>) } }"

text \<open>The frames from the read to the write pointer. The pointers are below \<open>2 * NFrames\<close>, which bounds
  the loop.\<close>

fun write_frames :: "nat \<Rightarrow> bool \<Rightarrow> int \<Rightarrow> SHM_RAW \<Rightarrow> nat \<Rightarrow> nat \<Rightarrow> writer \<Rightarrow> (nat \<times> writer) checked" where
  "write_frames 0 std btype m r wr w = (if r = wr then Some (r, w) else None)"
| "write_frames (Suc fuel) std btype m r wr w =
     (if r = wr then Some (r, w)
      else let bs = shm_getSizeInFrames m in do {
        slot \<leftarrow> shm_getRawDataFrame m (int (r mod bs));
        w' \<leftarrow> write_frame std btype slot w;
        write_frames fuel std btype m ((r + 1) mod (2 * bs)) wr w' })"

definition write_batch :: "bool \<Rightarrow> int \<Rightarrow> SHM_RAW \<Rightarrow> nat \<Rightarrow> nat \<Rightarrow> writer \<Rightarrow> (nat \<times> writer) checked" where
  "write_batch std btype m r wr w = do {
     cals \<leftarrow> (if std then Some (calEventSet w) else processBatch m r wr (calEventSet w));
     write_frames (2 * NFrames) std btype m r wr (w\<lparr>calEventSet := cals\<rparr>) }"

text \<open>The end of a step.\<close>

definition end_step :: "bool \<Rightarrow> BlockHeader \<Rightarrow> writer \<Rightarrow> writer" where
  "end_step std h w0 =
     (let (entries, cals) = (if std then ([], calEventSet w0) else pool_writeOut (calEventSet w0));
          w = w0\<lparr>calFile := calFile w0 @ entries, calEventSet := cals\<rparr>
      in w\<lparr>indexFile := indexFile w @
             [(stepStartOffset w, ftell w, stepFirstFrameID w, prevFrameID w, step1 h, step2 h)],
           tempFile := tempFile w @ [TempEnd (ftell w)]\<rparr>)"

text \<open>A block, with the new read pointer and the three numbers that are reported, and the loop of the
  program, which ends with an entry for the end of the data.\<close>

type_synonym block_report = "nat \<times> int \<times> int \<times> int"

definition write_block :: "bool \<Rightarrow> SHM_RAW \<times> BlockHeader \<Rightarrow> writer \<Rightarrow> (block_report \<times> writer) checked" where
  "write_block std b w0 =
     (let (m, h) = b;
          w = (if blockType h = 0 then start_step std h w0 else w0);
          bs = shm_getSizeInFrames m
      in do {
        (r, w) \<leftarrow> write_batch std (blockType h) m (unat (rdPointer h) mod (2 * bs)) (unat (wrPointer h) mod (2 * bs)) w;
        let w = (if blockType h = 2 then end_step std h w else w);
        Some ((r, stepAllFrames w, stepLostFrames0 w, stepEvents w), w) })"

fun write_blocks :: "bool \<Rightarrow> (SHM_RAW \<times> BlockHeader) list \<Rightarrow> writer \<Rightarrow> (block_report list \<times> writer) checked" where
  "write_blocks std [] w = Some ([], w)"
| "write_blocks std (b # bs) w = do {
     (report, w) \<leftarrow> write_block std b w;
     (reports, w) \<leftarrow> write_blocks std bs w;
     Some (report # reports, w) }"

definition write_raw :: "bool \<Rightarrow> nat \<Rightarrow> (SHM_RAW \<times> BlockHeader) list \<Rightarrow> (block_report list \<times> writer) checked" where
  "write_raw std n_cpu bs = do {
     (reports, w) \<leftarrow> write_blocks std bs (writer_init n_cpu);
     Some (reports, w\<lparr>tempFile := tempFile w @ [TempStart 0 0 (2 ^ 64 - 1), TempEnd (2 ^ 64 - 1)]\<rparr>) }"

section \<open>The shape of a step\<close>

definition slot_frame :: "RawDataFrame \<Rightarrow> raw_frame" where
  "slot_frame slot = (slot ! 0, slot ! 1, slot_events slot)"

abbreviation block_rd :: "SHM_RAW \<times> BlockHeader \<Rightarrow> nat" where
  "block_rd b \<equiv> unat (rdPointer (snd b)) mod (2 * NFrames)"

abbreviation block_wr :: "SHM_RAW \<times> BlockHeader \<Rightarrow> nat" where
  "block_wr b \<equiv> unat (wrPointer (snd b)) mod (2 * NFrames)"

definition batch_frames :: "SHM_RAW \<Rightarrow> nat \<Rightarrow> nat \<Rightarrow> raw_frame list" where
  "batch_frames m wr r = map (\<lambda>i. slot_frame (shm m ! i)) (ring_slots NFrames wr r)"

definition block_frames :: "SHM_RAW \<times> BlockHeader \<Rightarrow> raw_frame list" where
  "block_frames b = batch_frames (fst b) (block_wr b) (block_rd b)"

definition block_ok :: "SHM_RAW \<times> BlockHeader \<Rightarrow> bool" where
  "block_ok b = shm_ok (fst b) (block_wr b) (block_rd b)"

text \<open>The blocks of a step: the first, the ones between, the last.\<close>

definition step_blocks :: "(SHM_RAW \<times> BlockHeader) list \<Rightarrow> bool" where
  "step_blocks bs = (2 \<le> length bs \<and> blockType (snd (hd bs)) = 0 \<and> blockType (snd (last bs)) = 2 \<and>
     (\<forall>b \<in> set (butlast (tl bs)). blockType (snd b) = 1) \<and> (\<forall>b \<in> set bs. block_ok b))"

lemma batch_frames_next:
  assumes "shm_ok m stop r" "r \<noteq> stop"
  shows "batch_frames m stop r = slot_frame (shm m ! (r mod NFrames)) # batch_frames m stop ((r + 1) mod (2 * NFrames))"
  using fq.slots_read_one [of stop r] assms by (simp add: batch_frames_def shm_ok_def)

lemma write_frames_invariant:
  assumes "shm_ok m stop r" "ring_count NFrames stop r \<le> fuel" "I w fs"
    and frame: "\<And>slot w fs. slot_ok slot \<Longrightarrow> I w fs \<Longrightarrow>
      \<exists>w'. write_frame std btype slot w = Some w' \<and> I w' (fs @ [slot_frame slot])"
  shows "\<exists>w'. write_frames fuel std btype m r stop w = Some (stop, w') \<and> I w' (fs @ batch_frames m stop r)"
  using assms(1-3)
proof (induction fuel arbitrary: r w fs)
  case 0
  then have "r = stop"
    using fq.empty_iff [of stop r] by (auto simp: shm_ok_def ring_ok_def)
  then show ?case
    using 0 by (simp add: batch_frames_def)
next
  case (Suc fuel)
  show ?case
  proof (cases "r = stop")
    case False
    note step = shm_ok_next [OF Suc.prems(1) False]
    let ?slot = "shm m ! (r mod NFrames)"
    obtain w' where w': "write_frame std btype ?slot w = Some w'" "I w' (fs @ [slot_frame ?slot])"
      using frame [OF step(3) Suc.prems(3)] by blast
    have "shm_getRawDataFrame m (int (r mod NFrames)) = Some ?slot"
      using step(2) by (simp add: shm_getRawDataFrame_def rdi_def rd_def)
    then show ?thesis
      using Suc.IH [OF step(1) _ w'(2)] Suc.prems(2) step(5) w'(1) False batch_frames_next [OF Suc.prems(1) False]
      by (simp add: shm_getSizeInFrames_def Let_def)
  qed (use Suc.prems in \<open>simp add: batch_frames_def\<close>)
qed

text \<open>
  What a mode keeps of the state before a step, the state now and the frames so far: it holds
  after the start of a step, and a batch of frames is always processed to its end and keeps it.
\<close>

locale writer_mode =
  fixes std :: bool and I :: "writer \<Rightarrow> writer \<Rightarrow> raw_frame list \<Rightarrow> bool" and ok :: "writer \<Rightarrow> bool"
  assumes start: "ok w \<Longrightarrow> I w (start_step std h w) []"
    and batch: "I w0 w fs \<Longrightarrow> shm_ok m wr r \<Longrightarrow>
      \<exists>w'. write_batch std btype m r wr w = Some (wr, w') \<and> I w0 w' (fs @ batch_frames m wr r)"
begin

lemma block:
  assumes "I w0 (if blockType (snd b) = 0 then start_step std (snd b) w else w) fs" "block_ok b"
  obtains w1 where "I w0 w1 (fs @ block_frames b)"
    "write_block std b w = Some (let w2 = (if blockType (snd b) = 2 then end_step std (snd b) w1 else w1)
       in ((block_wr b, stepAllFrames w2, stepLostFrames0 w2, stepEvents w2), w2))"
  using batch [OF assms(1), of "fst b" "block_wr b" "block_rd b" "blockType (snd b)"] assms(2) that
  by (auto simp: write_block_def block_frames_def block_ok_def split_beta shm_getSizeInFrames_def Let_def)

lemma middle_blocks:
  assumes "I w0 w fs" "\<forall>b \<in> set bs. blockType (snd b) = 1 \<and> block_ok b"
  shows "\<exists>reports w1. write_blocks std bs w = Some (reports, w1) \<and> I w0 w1 (fs @ concat (map block_frames bs))"
  using assms
proof (induction bs arbitrary: w fs)
  case (Cons b bs)
  have "I w0 (if blockType (snd b) = 0 then start_step std (snd b) w else w) fs" "block_ok b"
    using Cons.prems by simp_all
  then obtain w1 report where "I w0 w1 (fs @ block_frames b)" "write_block std b w = Some (report, w1)"
    using Cons.prems(2) by (elim block) (auto simp: Let_def)
  then show ?case
    using Cons.IH [of w1 "fs @ block_frames b"] Cons.prems(2) by auto
qed simp

lemma write_blocks_append:
  "write_blocks std (as @ bs) w = write_blocks std as w \<bind> (\<lambda>(r1, w). write_blocks std bs w \<bind> (\<lambda>(r2, w). Some (r1 @ r2, w)))"
  by (induction as arbitrary: w) (auto simp: split_beta split: Option.bind_splits)

lemma step_written:
  assumes "ok w" "step_blocks bs"
  obtains reports w1 where "I w w1 (concat (map block_frames bs))"
    "write_blocks std bs w = Some (reports @
       [(block_wr (last bs), stepAllFrames w1, stepLostFrames0 w1, stepEvents w1)], end_step std (snd (last bs)) w1)"
proof -
  have "bs \<noteq> []" "tl bs \<noteq> []"
    using assms(2) by (cases bs; auto simp: step_blocks_def)+
  then obtain b ms l where bs: "bs = b # ms @ [l]"
    by (metis append_butlast_last_id list.collapse)
  have types: "blockType (snd b) = 0" "blockType (snd l) = 2" "\<forall>x \<in> set ms. blockType (snd x) = 1 \<and> block_ok x"
    "block_ok b" "block_ok l"
    using assms(2) by (simp_all add: step_blocks_def bs butlast_append)
  have "I w (if blockType (snd b) = 0 then start_step std (snd b) w else w) []"
    using start [OF assms(1)] types(1) by simp
  then obtain r1 w1 where w1: "I w w1 (block_frames b)" "write_block std b w = Some (r1, w1)"
    using types(1,4) by (elim block) (auto simp: Let_def)
  obtain r2 w2 where w2: "write_blocks std ms w1 = Some (r2, w2)" "I w w2 (block_frames b @ concat (map block_frames ms))"
    using middle_blocks [OF w1(1) types(3)] by blast
  then have "I w (if blockType (snd l) = 0 then start_step std (snd l) w2 else w2)
      (block_frames b @ concat (map block_frames ms))"
    using types(2) by simp
  then obtain w3 where "I w w3 (concat (map block_frames bs))"
    "write_block std l w2 = Some ((block_wr l, stepAllFrames (end_step std (snd l) w3), stepLostFrames0 (end_step std (snd l) w3),
       stepEvents (end_step std (snd l) w3)), end_step std (snd l) w3)"
    using types(2,5) bs by (elim block) (auto simp: Let_def)
  then show thesis
    using w1(2) w2(1) that [of w3 "r1 # r2"] bs
    by (simp add: write_blocks_append end_step_def Let_def split_beta)
qed

end

section \<open>Normal mode\<close>

fun raw_words :: "raw_frame \<Rightarrow> u64 list" where
  "raw_words (h0, h1, ws) = h0 # h1 # ws"

definition stores_events :: "u64 list \<Rightarrow> raw_frame list \<Rightarrow> bool" where
  "stores_events ws fs = (\<exists>out. ws = concat (map raw_words out) \<and> (\<forall>f \<in> set out. wf_raw_frame f) \<and>
     concat (map frame_events out) = concat (map frame_events fs))"

text \<open>The counts of a step whose frame numbers increase: all numbers from the first to the last
  frame are counted, and those without a frame or with an empty frame marked as lost are lost.\<close>

definition lost_empty :: "raw_frame \<Rightarrow> bool" where
  "lost_empty f = (lost_of_header (fst (snd f)) \<and> snd (snd f) = [])"

definition counted :: "writer \<Rightarrow> raw_frame list \<Rightarrow> bool" where
  "counted w fs =
     (if fs = [] then prevFrameID w = -1 \<and> stepFirstFrameID w = -1 \<and> stepAllFrames w = 0 \<and> stepLostFrames0 w = 0
      else stepFirstFrameID w = fid_of (hd fs) \<and> prevFrameID w = fid_of (last fs) \<and>
        stepAllFrames w = fid_of (last fs) - fid_of (hd fs) + 1 \<and>
        stepLostFrames0 w = stepAllFrames w - int (length fs) + int (length (filter lost_empty fs)))"

definition normal_inv :: "writer \<Rightarrow> writer \<Rightarrow> raw_frame list \<Rightarrow> bool" where
  "normal_inv w0 w fs =
     ((\<exists>ws. dataWords w = dataWords w0 @ ws \<and> stores_events ws fs) \<and>
      stepStartOffset w = ftell w0 \<and> calFile w = [] \<and> indexFile w = indexFile w0 \<and>
      stepEvents w = int (length (concat (map frame_events fs))) \<and>
      (sorted_wrt (<) (map fid_of fs) \<longrightarrow> counted w fs))"

lemma stores_nothing [simp]: "stores_events [] []"
  unfolding stores_events_def by (intro exI [of _ "[]"]) simp

lemma stores_append: "stores_events ws fs \<Longrightarrow> stores_events vs gs \<Longrightarrow> stores_events (ws @ vs) (fs @ gs)"
  unfolding stores_events_def by (metis Un_iff concat_append map_append set_append)

lemma stores_frame: "wf_raw_frame f \<Longrightarrow> stores_events (raw_words f) [f]"
  unfolding stores_events_def by (intro exI [of _ "[f]"]) simp

lemma stores_empty: "frame_events f = [] \<Longrightarrow> stores_events [] [f]"
  unfolding stores_events_def by (intro exI [of _ "[]"]) simp

lemma stores_marker: "stores_events (lost_marker k) []"
  unfolding stores_events_def
  by (intro exI [of _ "[(push_bit 36 2 OR word_of_int k, push_bit 16 1, [])]"])
    (simp add: lost_marker_def nevents_of_header_def MaxRawDataFrameSize_def)

lemma slot_raw_words:
  assumes "slot_ok slot"
  shows "take (unat (size_of_header (slot ! 0))) slot = raw_words (slot_frame slot)"
proof -
  obtain a b rest where slot: "slot = a # b # rest"
    using assms by (cases slot; cases "tl slot") (auto simp: slot_ok_def)
  then show ?thesis
    using assms by (simp add: slot_ok_def slot_frame_def slot_events_def)
qed

lemma slot_frame_wf: "slot_ok slot \<Longrightarrow> wf_raw_frame (slot_frame slot)"
  using length_slot_events [of slot] by (auto simp: slot_frame_def slot_ok_def)

text \<open>What writing a frame does, in terms of the frame.\<close>

definition add_frame :: "bool \<Rightarrow> int \<Rightarrow> raw_frame \<Rightarrow> writer \<Rightarrow> writer" where
  "add_frame std btype f w =
     (let n = int (length (snd (snd f))); lost = lost_of_header (fst (snd f));
          w1 = account_one (fid_of f) n lost (account_gap std (fid_of f) w); cls = frame_class lost n
      in if skip_frame btype cls w1 then w1
         else w1\<lparr>lastFrameType := cls, dataWords := dataWords w1 @ (if std then raw_words f else [])\<rparr>)"

lemma write_frame_add:
  assumes "slot_ok slot"
  shows "write_frame std btype slot w = Some (add_frame std btype (slot_frame slot) w)"
proof -
  have len: "unat (size_of_header (slot ! 0)) \<le> length slot" "2 \<le> length slot"
    "int (length (slot_events slot)) = nevents_of_header (slot ! 1)"
    using assms length_slot_events [OF assms] by (simp_all add: slot_ok_def)
  then have "rd slot 0 = Some (slot ! 0)" "rd slot 1 = Some (slot ! 1)"
    "rd_range slot 0 (unat (size_of_header (slot ! 0))) = Some (raw_words (slot_frame slot))"
    using slot_raw_words [OF assms] by (auto simp: rd_def rd_range_def)
  then show ?thesis
    using len(3) by (simp add: write_frame_def add_frame_def frame_getFrameID_def frame_getFrameSize_def
        frame_getNEvents_def frame_getFrameLost_def slot_frame_def fid_of_def Let_def)
qed

lemma skip_frame_empty: "skip_frame btype (frame_class lost n) w \<Longrightarrow> n = 0"
  by (auto simp: skip_frame_def frame_class_def split: if_splits)

lemma dataWords_account:
  "\<exists>ws. dataWords (account_one i n l (account_gap True fid w)) = dataWords w @ ws \<and> stores_events ws []"
  using stores_marker by (auto simp: account_one_def account_gap_def Let_def)

lemma add_frame_stores:
  assumes "wf_raw_frame f"
  shows "\<exists>ws. dataWords (add_frame True btype f w) = dataWords w @ ws \<and> stores_events ws [f]"
proof -
  let ?n = "int (length (snd (snd f)))" and ?l = "lost_of_header (fst (snd f))"
  let ?w = "account_one (fid_of f) ?n ?l (account_gap True (fid_of f) w)"
  obtain ws where ws: "dataWords ?w = dataWords w @ ws" "stores_events ws []"
    using dataWords_account by blast
  show ?thesis
  proof (cases "skip_frame btype (frame_class ?l ?n) ?w")
    case True
    then have "frame_events f = []"
      using skip_frame_empty [OF True] by (cases f) auto
    then have "stores_events ws [f]"
      using stores_append [OF ws(2) stores_empty] by simp
    then show ?thesis
      using True ws(1) by (simp add: add_frame_def Let_def)
  next
    case False
    have "stores_events (ws @ raw_words f) [f]"
      using stores_append [OF ws(2) stores_frame [OF assms]] by simp
    then show ?thesis
      using False ws(1) by (simp add: add_frame_def Let_def)
  qed
qed

lemma add_frame_keeps:
  "stepStartOffset (add_frame std btype f w) = stepStartOffset w" "calFile (add_frame std btype f w) = calFile w"
  "indexFile (add_frame std btype f w) = indexFile w" "calEventSet (add_frame std btype f w) = calEventSet w"
  "stepEvents (add_frame std btype f w) = stepEvents w + int (length (frame_events f))"
  by (cases f; simp add: add_frame_def account_one_def account_gap_def Let_def)+

lemma add_frame_numbers:
  "stepFirstFrameID (add_frame std btype f w) = (if stepFirstFrameID w = -1 then fid_of f else stepFirstFrameID w)"
  "prevFrameID (add_frame std btype f w) = fid_of f"
  "prevFrameID w = -1 \<Longrightarrow> stepAllFrames (add_frame std btype f w) = stepAllFrames w + 1"
  "prevFrameID w = -1 \<Longrightarrow> stepLostFrames0 (add_frame std btype f w) = stepLostFrames0 w + (if lost_empty f then 1 else 0)"
  "0 \<le> prevFrameID w \<Longrightarrow> prevFrameID w < fid_of f \<Longrightarrow>
     stepAllFrames (add_frame std btype f w) = stepAllFrames w + (fid_of f - prevFrameID w)"
  "0 \<le> prevFrameID w \<Longrightarrow> prevFrameID w < fid_of f \<Longrightarrow>
     stepLostFrames0 (add_frame std btype f w) =
       stepLostFrames0 w + (fid_of f - prevFrameID w - 1) + (if lost_empty f then 1 else 0)"
  by (simp_all add: add_frame_def account_one_def account_gap_def lost_empty_def Let_def)

lemma fid_of_nonneg [simp]: "0 \<le> fid_of f"
  by (simp add: fid_of_def)

lemma counted_add:
  assumes "counted w fs" "sorted_wrt (<) (map fid_of (fs @ [f]))"
  shows "counted (add_frame std btype f w) (fs @ [f])"
proof (cases "fs = []")
  case True
  then show ?thesis
    using assms(1) by (simp add: counted_def add_frame_numbers)
next
  case False
  have "fid_of (last fs) < fid_of f" "fid_of (hd fs) \<noteq> -1"
    using assms(2) False fid_of_nonneg [of "hd fs"] by (auto simp: sorted_wrt_append simp del: fid_of_nonneg)
  then show ?thesis
    using assms(1) False by (simp add: counted_def add_frame_numbers)
qed

lemma normal_add:
  assumes "normal_inv w0 w fs" "wf_raw_frame f"
  shows "normal_inv w0 (add_frame True btype f w) (fs @ [f])"
proof -
  obtain ws where "dataWords w = dataWords w0 @ ws" "stores_events ws fs"
    using assms(1) by (auto simp: normal_inv_def)
  moreover obtain vs where "dataWords (add_frame True btype f w) = dataWords w @ vs" "stores_events vs [f]"
    using add_frame_stores [OF assms(2)] by blast
  ultimately have "\<exists>ws. dataWords (add_frame True btype f w) = dataWords w0 @ ws \<and> stores_events ws (fs @ [f])"
    using stores_append by fastforce
  moreover have "sorted_wrt (<) (map fid_of (fs @ [f])) \<longrightarrow> counted (add_frame True btype f w) (fs @ [f])"
    using assms(1) counted_add by (auto simp: normal_inv_def sorted_wrt_append)
  ultimately show ?thesis
    using assms(1) by (simp add: normal_inv_def add_frame_keeps)
qed

interpretation normal: writer_mode True normal_inv "\<lambda>w. calFile w = []"
proof
  show "calFile w = [] \<Longrightarrow> normal_inv w (start_step True h w) []" for w h
    by (simp add: normal_inv_def start_step_def counted_def)
  fix w0 w fs m wr r btype
  assume inv: "normal_inv w0 w fs" and ok: "shm_ok m wr r"
  have "ring_count NFrames wr r \<le> 2 * NFrames"
    using ok by (simp add: shm_ok_def ring_ok_def)
  then show "\<exists>w'. write_batch True btype m r wr w = Some (wr, w') \<and> normal_inv w0 w' (fs @ batch_frames m wr r)"
    using write_frames_invariant [where I = "normal_inv w0", OF ok _ inv, of "2 * NFrames" True btype]
      write_frame_add normal_add slot_frame_wf by (simp add: write_batch_def)
qed

lemma frame_bytes_words: "frame_bytes f = concat (map bytes64 (raw_words f))"
  by (cases f) simp

lemma stores_bytes:
  assumes "stores_events ws fs"
  obtains out where "concat (map bytes64 ws) = concat (map frame_bytes out)" "\<forall>f \<in> set out. wf_raw_frame f"
    "concat (map frame_events out) = concat (map frame_events fs)"
proof -
  obtain out where "ws = concat (map raw_words out)" "\<forall>f \<in> set out. wf_raw_frame f"
    "concat (map frame_events out) = concat (map frame_events fs)"
    using assms by (auto simp: stores_events_def)
  moreover have "concat (map bytes64 (concat (map raw_words out))) = concat (map frame_bytes out)"
    by (induction out) (simp_all add: frame_bytes_words)
  ultimately show thesis
    using that by blast
qed

definition reads_step :: "writer \<Rightarrow> writer \<Rightarrow> RawReader \<Rightarrow> bool" where
  "reads_step w w' r = (stepBegin r = of_nat (ftell w) \<and> stepEnd r = of_nat (ftell w') \<and> all_data (answers r) \<and>
     (\<exists>more. pending (answers r) = drop (ftell w - 64) (concat (map bytes64 (dataWords w' @ more)))))"

lemma stored_step_read:
  assumes "dataWords w' = dataWords w @ ws" "stores_events ws fs" "calFile w = []" "calFile w' = []"
    and "ftell w' < 2 ^ 64 - 1" "reads_step w w' r"
  shows "\<exists>st. processStep r = Inr st \<and> concat (map block_events (queued st)) = concat (map frame_events fs)"
proof -
  obtain out where out: "concat (map bytes64 ws) = concat (map frame_bytes out)" "\<forall>f \<in> set out. wf_raw_frame f"
    "concat (map frame_events out) = concat (map frame_events fs)"
    using stores_bytes [OF assms(2)] by blast
  have len: "length (concat (map bytes64 vs)) = 8 * length vs" for vs
    using length_concat_chunks [of bytes64 8 vs] by simp
  obtain more where more: "pending (answers r) = drop (ftell w - 64) (concat (map bytes64 (dataWords w' @ more)))"
    using assms(6) by (auto simp: reads_step_def)
  have pos: "ftell w = 64 + length (concat (map bytes64 (dataWords w)))"
    "ftell w' = ftell w + length (concat (map frame_bytes out))"
    using assms(1,3,4) len [of ws] unfolding out(1) [symmetric] by (simp_all add: ftell_def len)
  then have le: "ftell w \<le> ftell w'"
    by simp
  have "pending (answers r) = concat (map frame_bytes out) @ concat (map bytes64 more)"
    unfolding more assms(1) by (simp add: out(1) pos(1))
  moreover have nat: "unat (stepBegin r) = ftell w" "unat (stepEnd r) = ftell w'"
    using le assms(5,6) unfolding reads_step_def by (simp_all add: unsigned_of_nat take_bit_nat_eq_self)
  moreover have "stepEnd r < ULLONG_MAX"
    using assms(5) nat(2) by (simp add: ULLONG_MAX_def word_less_nat_alt unsigned_minus_1_eq_mask mask_eq_exp_minus_1)
  moreover have "all_data (answers r)"
    using assms(6) by (simp add: reads_step_def)
  ultimately obtain st where "processStep r = Inr st"
    "concat (map block_events (queued st)) = concat (map frame_events out)"
    using processStep_result [of r out "concat (map bytes64 more)"] pos(2) out(2) by auto
  then show ?thesis
    using out(3) by auto
qed

lemma end_step_normal:
  "dataWords (end_step True h w) = dataWords w" "calFile (end_step True h w) = calFile w"
  "ftell (end_step True h w) = ftell w"
  "indexFile (end_step True h w) = indexFile w @ [(stepStartOffset w, ftell w, stepFirstFrameID w, prevFrameID w, step1 h, step2 h)]"
  by (simp_all add: end_step_def ftell_def)

text \<open>C8: What the writer writes, the reader reads. A step in normal mode, given as a first block, any
  number of blocks between and a last block, is written to its end; its entry in the index gives
  the range of bytes it has in the data file; and a reader of that range, whatever the sizes of the
  pieces in which it gets the bytes, delivers exactly the events of the frames of all blocks in
  their order, although the writer leaves out frames and adds markers for lost ones.\<close>

theorem written_step_read_back:
  assumes "step_blocks bs" "calFile w = []"
  shows "\<exists>reports w' n k. write_blocks True bs w = Some (reports, w') \<and>
    indexFile w' = indexFile w @ [(ftell w, ftell w', n, k, step1 (snd (last bs)), step2 (snd (last bs)))] \<and>
    (\<forall>r. ftell w' < 2 ^ 64 - 1 \<and> reads_step w w' r \<longrightarrow>
       (\<exists>st. processStep r = Inr st \<and>
          concat (map block_events (queued st)) = concat (map frame_events (concat (map block_frames bs)))))"
proof -
  obtain reports w1 where w1: "normal_inv w w1 (concat (map block_frames bs))"
    "write_blocks True bs w = Some (reports, end_step True (snd (last bs)) w1)"
    using normal.step_written [OF assms(2,1)] by metis
  let ?w = "end_step True (snd (last bs)) w1"
  obtain ws where "dataWords ?w = dataWords w @ ws" "stores_events ws (concat (map block_frames bs))" "calFile ?w = []"
    using w1(1) by (auto simp: normal_inv_def end_step_normal)
  note read = stored_step_read [OF this(1,2) assms(2) this(3)]
  have "indexFile ?w = indexFile w @ [(ftell w, ftell ?w, stepFirstFrameID w1, prevFrameID w1, step1 (snd (last bs)), step2 (snd (last bs)))]"
    using w1(1) by (simp add: normal_inv_def end_step_normal)
  then show ?thesis
    using w1(2) read by blast
qed

text \<open>The report at the end of a step whose frame numbers increase: all numbers from the first to the
  last frame are counted as frames, those for which there is no frame or an empty one marked as lost
  are counted as lost, and all events are counted; the index has the first and the last number.\<close>

theorem written_step_counts:
  assumes "step_blocks bs" "calFile w = []" "fs = concat (map block_frames bs)" "fs \<noteq> []" "sorted_wrt (<) (map fid_of fs)"
  shows "\<exists>reports w'. write_blocks True bs w = Some (reports, w') \<and>
    last reports = (block_wr (last bs), fid_of (last fs) - fid_of (hd fs) + 1,
      fid_of (last fs) - fid_of (hd fs) + 1 - int (length fs) + int (length (filter lost_empty fs)),
      int (length (concat (map frame_events fs)))) \<and>
    indexFile w' = indexFile w @
      [(ftell w, ftell w', fid_of (hd fs), fid_of (last fs), step1 (snd (last bs)), step2 (snd (last bs)))]"
proof -
  obtain reports w1 where w1: "normal_inv w w1 fs"
    "write_blocks True bs w = Some (reports @
       [(block_wr (last bs), stepAllFrames w1, stepLostFrames0 w1, stepEvents w1)], end_step True (snd (last bs)) w1)"
    using normal.step_written [OF assms(2,1)] assms(3) by metis
  then have "counted w1 fs"
    using assms(5) by (simp add: normal_inv_def)
  then show ?thesis
    using w1 assms(4) by (simp add: normal_inv_def counted_def end_step_normal)
qed

section \<open>Calibration mode\<close>

definition calibration_inv :: "writer \<Rightarrow> writer \<Rightarrow> raw_frame list \<Rightarrow> bool" where
  "calibration_inv w0 w fs =
     (calEventSet w \<noteq> [] \<and> pool_counts (calEventSet w) (concat (map (snd \<circ> snd) fs)) \<and>
      calFile w = calFile w0 \<and> dataWords w = dataWords w0)"

lemma add_frame_calibration: "dataWords (add_frame False btype f w) = dataWords w"
  by (simp add: add_frame_def account_one_def account_gap_def Let_def)

lemma batch_events_frames: "concat (map (snd \<circ> snd) (batch_frames m wr r)) = batch_events m wr r"
  by (simp add: batch_frames_def batch_events_def slot_frame_def comp_def)

interpretation calibration: writer_mode False calibration_inv "\<lambda>w. calEventSet w \<noteq> []"
proof
  show "calEventSet w \<noteq> [] \<Longrightarrow> calibration_inv w (start_step False h w) []" for w h
    using pool_counts_clear [of "calEventSet w"] by (simp add: calibration_inv_def start_step_def pool_clear_def)
  fix w0 w fs m wr r btype
  assume inv: "calibration_inv w0 w fs" and ok: "shm_ok m wr r"
  obtain cals where cals: "processBatch m r wr (calEventSet w) = Some cals" "length cals = length (calEventSet w)"
    "pool_counts cals (concat (map (snd \<circ> snd) (fs @ batch_frames m wr r)))"
    using processBatch_counts [OF ok, of "calEventSet w" "concat (map (snd \<circ> snd) fs)"] inv
    by (auto simp: calibration_inv_def batch_events_frames)
  let ?I = "\<lambda>w' _. calEventSet w' = cals \<and> calFile w' = calFile w0 \<and> dataWords w' = dataWords w0"
  have "ring_count NFrames wr r \<le> 2 * NFrames" "?I (w\<lparr>calEventSet := cals\<rparr>) []"
    using ok inv by (simp_all add: shm_ok_def ring_ok_def calibration_inv_def)
  then obtain w' where "write_frames (2 * NFrames) False btype m r wr (w\<lparr>calEventSet := cals\<rparr>) = Some (wr, w')" "?I w' []"
    using write_frames_invariant [OF ok, where I = ?I and fuel = "2 * NFrames" and w = "w\<lparr>calEventSet := cals\<rparr>" and std = False and btype = btype]
      write_frame_add by (auto simp: add_frame_keeps add_frame_calibration)
  then show "\<exists>w'. write_batch False btype m r wr w = Some (wr, w') \<and> calibration_inv w0 w' (fs @ batch_frames m wr r)"
    using cals inv by (auto simp: write_batch_def calibration_inv_def)
qed

text \<open>C21: A step in calibration mode adds to the data file one entry for every event word that occurs in
  the frames of the step, with the number of its occurrences (in 32 bits), and nothing else, for any
  number of threads that share the counting.\<close>

theorem calibration_step_histogram:
  assumes "step_blocks bs" "calEventSet w \<noteq> []" "evs = concat (map (snd \<circ> snd) (concat (map block_frames bs)))"
  shows "\<exists>reports w' entries. write_blocks False bs w = Some (reports, w') \<and>
    calFile w' = calFile w @ entries \<and> dataWords w' = dataWords w \<and> distinct (map fst entries) \<and>
    (\<forall>x. map_of entries x = (if x \<in> set evs then Some (of_nat (count_list evs x)) else None))"
proof -
  obtain reports w1 where w1: "calibration_inv w w1 (concat (map block_frames bs))"
    "write_blocks False bs w = Some (reports, end_step False (snd (last bs)) w1)"
    using calibration.step_written [OF assms(2,1)] by metis
  then have counts: "pool_counts (calEventSet w1) evs" "calEventSet w1 \<noteq> []"
    using assms(3) by (simp_all add: calibration_inv_def)
  have "calFile (end_step False (snd (last bs)) w1) = calFile w @ fst (pool_writeOut (calEventSet w1))"
    "dataWords (end_step False (snd (last bs)) w1) = dataWords w"
    using w1(1) by (simp_all add: calibration_inv_def end_step_def split_beta Let_def)
  then show ?thesis
    using w1(2) pool_writeOut_counts(1,2) [OF counts] by blast
qed

section \<open>An example step\<close>

definition demo_slot :: RawDataFrame where
  "demo_slot = [274877906949, 2, 7, 8]"

definition demo_shm :: SHM_RAW where
  "demo_shm = \<lparr>shm = replicate NFrames demo_slot, shmSize = 0\<rparr>"

definition demo_block :: "int \<Rightarrow> u32 \<Rightarrow> SHM_RAW \<times> BlockHeader" where
  "demo_block btype r = (demo_shm, \<lparr>step1 = 0, step2 = 0, wrPointer = 1, rdPointer = r, blockType = btype\<rparr>)"

definition demo_blocks :: "(SHM_RAW \<times> BlockHeader) list" where
  "demo_blocks = [demo_block 0 0, demo_block 2 1]"

lemma demo_ring: "ring_slots NFrames 1 0 = [0]" "ring_slots NFrames 1 1 = []" "ring_ok NFrames 1 0" "ring_ok NFrames 1 1"
  by (simp_all add: ring_slots_def ring_count_def ring_ok_def MaxRawDataFrameQueueSize_def)

lemma demo_slot_ok: "slot_ok demo_slot" "slot_frame demo_slot = (274877906949, 2, [7, 8])"
  by (simp_all add: slot_ok_def slot_frame_def slot_events_def demo_slot_def nevents_of_header_def size_of_header_def
      MaxRawDataFrameSize_def)

lemma demo_step: "step_blocks demo_blocks" "concat (map block_frames demo_blocks) = [(274877906949, 2, [7, 8])]"
  using demo_ring demo_slot_ok fq.slots
  by (simp_all add: step_blocks_def demo_blocks_def demo_block_def block_ok_def shm_ok_def block_frames_def
      batch_frames_def demo_shm_def MaxRawDataFrameQueueSize_def)

lemma demo_frames_written:
  "write_frames (Suc (Suc k)) std btype demo_shm 0 1 w = Some (1, add_frame std btype (slot_frame demo_slot) w)"
  using write_frame_add [OF demo_slot_ok(1)]
  by (simp add: shm_getSizeInFrames_def shm_getRawDataFrame_def rdi_def rd_def demo_shm_def MaxRawDataFrameQueueSize_def)

lemma demo_written:
  "\<exists>reports w'. write_blocks True demo_blocks (writer_init 1) = Some (reports, w') \<and>
     dataWords w' = [274877906949, 2, 7, 8] \<and> calFile w' = []"
proof -
  have size: "2 * NFrames = Suc (Suc 32766)"
    by (simp add: MaxRawDataFrameQueueSize_def)
  have first: "write_frames (2 * NFrames) True btype demo_shm 0 1 w = Some (1, add_frame True btype (slot_frame demo_slot) w)"
    for btype w
    unfolding size by (rule demo_frames_written)
  have none: "write_frames (2 * NFrames) True btype demo_shm 1 1 w = Some (1, w)" for btype w
    unfolding size write_frames.simps by simp
  have mods: "1 mod (2 * NFrames) = 1" "0 mod (2 * NFrames) = 0"
    by (simp_all add: MaxRawDataFrameQueueSize_def)
  have "write_batch True 0 demo_shm 0 1 w = Some (1, add_frame True 0 (slot_frame demo_slot) w)"
    "write_batch True 2 demo_shm 1 1 w = Some (1, w)" for w
    by (simp_all only: write_batch_def if_True bind.bind_lunit first none) simp_all
  then have "\<exists>reports. write_blocks True demo_blocks (writer_init 1) = Some (reports,
      end_step True (snd (demo_block 2 1)) (add_frame True 0 (slot_frame demo_slot)
        (start_step True (snd (demo_block 0 0)) (writer_init 1))))"
    using mods by (simp add: demo_blocks_def demo_block_def write_block_def Let_def shm_getSizeInFrames_def)
  then show ?thesis
    by (auto simp: end_step_normal add_frame_def account_one_def account_gap_def start_step_def writer_init_def
        skip_frame_def demo_slot_ok(2) Let_def)
qed

theorem written_step_read_back_witness:
  "\<exists>r st w'. reads_step (writer_init 1) w' r \<and> processStep r = Inr st \<and>
     concat (map block_events (queued st)) = [(5, 7), (5, 8)]"
proof -
  obtain reports w' where w': "write_blocks True demo_blocks (writer_init 1) = Some (reports, w')"
    "dataWords w' = [274877906949, 2, 7, 8]" "calFile w' = []"
    using demo_written by blast
  let ?r = "example_reader\<lparr>stepBegin := 64, stepEnd := of_nat (ftell w'),
    answers := [Some (concat (map bytes64 (dataWords w')))]\<rparr>"
  have "reads_step (writer_init 1) w' ?r" "ftell w' < 2 ^ 64 - 1"
    using w'(2,3) by (auto simp: reads_step_def ftell_def writer_init_def all_data_def bytes64_def intro: exI [of _ "[]"])
  moreover have "calFile (writer_init 1) = []"
    by (simp add: writer_init_def)
  ultimately show ?thesis
    using written_step_read_back [OF demo_step(1), of "writer_init 1"] w'(1) demo_step(2)
    by (auto simp: id_of_header_def)
qed

theorem written_step_counts_witness:
  "\<exists>reports w'. write_blocks True demo_blocks (writer_init 1) = Some (reports, w') \<and> last reports = (1, 1, 0, 2)"
  using written_step_counts [OF demo_step(1) _ demo_step(2) [symmetric], of "writer_init 1"]
  by (auto simp: writer_init_def demo_blocks_def demo_block_def MaxRawDataFrameQueueSize_def lost_empty_def)

theorem calibration_step_histogram_witness:
  "\<exists>reports w' entries. write_blocks False demo_blocks (writer_init 4) = Some (reports, w') \<and>
    calFile w' = entries \<and> distinct (map fst entries) \<and> map_of entries 7 = Some 1 \<and> map_of entries 9 = None"
proof -
  have "calEventSet (writer_init 4) \<noteq> []" "calFile (writer_init 4) = []"
    by (simp_all add: writer_init_def)
  then show ?thesis
    using calibration_step_histogram [OF demo_step(1) _ refl, of "writer_init 4"] demo_step(2) by auto
qed

section \<open>A frame that is left out\<close>

text \<open>
  The labels of the two kinds of empty frames are exchanged: an empty frame that is not lost gets the label
  for lost ones. After a gap the writer takes such a frame for a continuation of the gap and leaves
  it out in the blocks between the first and the last.
\<close>

lemma empty_frame_after_gap_dropped:
  assumes "0 \<le> prevFrameID w" "prevFrameID w + 1 < fid_of f" "\<not> lost_of_header (fst (snd f))" "snd (snd f) = []"
  shows "dataWords (add_frame True 1 f w) = dataWords w @ lost_marker (prevFrameID w + 1)"
  using assms by (auto simp: add_frame_def skip_frame_def frame_class_def account_one_def account_gap_def Let_def)

end
