(* ===== verification/Spec2Isabelle.thy ===== *)
theory Spec2Isabelle
  imports DAQController DispatchMacros ThreadPool HitGrouper RawToSingles RootConverter SocketServers UDPFrameServer
    Psdaq WriteRaw
begin

text \<open>
  A verification library for the TOF data acquisition of the GRAMS balloon payload: the flight program
  (FlightOps), its configuration (Common), and the parts of the PETsys readout it contains
  (FlightOps/external: daqd, kernel, rawdata, base, scripts\_c).

  \<^bold>\<open>The program.\<close> A hub on the payload sends commands over TCP. The command client of the flight
  program cuts the stream into packets, acknowledges them and queues them; a worker thread gives
  them to the dispatcher, which runs scripts, analyses, background processes and macros and reports
  over a second link, the event link. Data come from the front end, over Ethernet or over an
  acquisition card with its kernel driver, to a frame server, which puts frames of 64-bit words into
  a circular queue in shared memory. A writer copies the frames of the queue to raw data files, and
  later programs read these files, decode the words to hits, and pass blocks of hits through a
  pipeline of stages (calibration, sorting, grouping, coincidences) run by a pool of threads, to tables
  of events or of calibrated hits. Results return to the hub as histograms, graphs and log records.

  \<^bold>\<open>Conventions.\<close> Definitions have the names of the code. Machine integers are words of their width.
  Sizes and indices that cannot overflow are natural numbers. An access the code makes without a check is
  an operation of type \<open>'a checked\<close>, whose value \<^const>\<open>None\<close> means that the program leaves an object
  (undefined behaviour); exceptions and error returns are values of sum types. What comes from outside
  (system calls, scripts, the clock, ROOT, floating-point arithmetic, other threads) is an argument, in
  most cases a list of answers; so each theorem is about every behaviour of the outside. Where a
  loop may not end, the list of answers or of flag tests bounds the passes that are looked at, and the
  result says whether the loop has ended; theorems that claim an end prove it for every long enough
  list. Theorems named \<open>\<dots>_witness\<close> apply a property at a concrete input.

  \<^bold>\<open>Theories.\<close>

  \<^item> Shared: \<open>Prelude\<close> (types, checked access, lemmas on lists and words, named collections),
    \<open>RingPointer\<close> (a locale for circular buffers whose pointers run modulo twice the size; interpreted
    for the frame queue, the card buffers and the driver).

  \<^item> Links: \<open>CommandCodec\<close> (GRAMS\_TOF\_CommandCodec.cpp: packets, CRC, parse and serialize),
    \<open>CommandDefs\<close> (GRAMS\_TOF\_CommandDefs.h, codes of the hub and their bridge), \<open>PayloadCodec\<close> (a locale
    for payloads carried by packets), \<open>LogCodec\<close> and \<open>MonitorCodec\<close> (the payloads), \<open>RootConverter\<close>
    (GRAMS\_TOF\_RootConverter.cpp, histograms from a file to the other end of the link), \<open>FDManager\<close>
    (GRAMS\_TOF\_FDManager.cpp, GRAMS\_TOF\_Client.cpp: descriptors), \<open>HubLink\<close>
    (GRAMS\_TOF\_EventClient.cpp, GRAMS\_TOF\_CommandClient.cpp: connecting, losing and closing the two
    links, sending), \<open>CommandClient\<close> (receiving, queue, worker thread), \<open>SocketServers\<close>
    (GRAMS\_TOF\_CommandServer.cpp, GRAMS\_TOF\_EventServer.cpp, GRAMS\_TOF\_DAQManager.cpp; a locale for
    servers with a table of connections).

  \<^item> Control: \<open>Config\<close> and \<open>FileLinks\<close> (Common: GRAMS\_TOF\_Config.cpp), \<open>DispatchState\<close>, \<open>Dispatch\<close>,
    \<open>DispatchSpec\<close>, \<open>DispatchTheorems\<close>, \<open>DispatchControl\<close>, \<open>DispatchMacros\<close>
    (GRAMS\_TOF\_CommandDispatch.cpp: state, every handler, and what they guarantee; with the search for scripts of GRAMS\_TOF\_PythonIntegration.cpp), \<open>DAQController\<close>
    (GRAMS\_TOF\_DAQController.cpp: from the bytes of the hub to the dispatcher while the threads run, and the main loop with its reset of
    both links, which joins the worker thread).

  \<^item> Acquisition: \<open>FrameServer\<close>, \<open>FrameQueue\<close> (daqd: FrameServer.cpp, the queue in shared memory and its
    interleavings), \<open>DAQFrameServer\<close>, \<open>FrontEndCommand\<close> (DAQFrameServer.cpp: frames of one or two cards,
    commands), \<open>UDPFrameServer\<close> (UDPFrameServer.cpp: the same over Ethernet), \<open>DaqdClient\<close> (Client.cpp:
    requests), \<open>CardBuffers\<close> (PFP\_KX7.cpp: double buffering), \<open>Psdaq\<close> (kernel/psdaq.c).

  \<^item> Raw data: \<open>EventWord\<close> (words and frames), \<open>WriteRaw\<close> and \<open>CalibrationPool\<close> (write\_raw.cpp),
    \<open>RawReader\<close> and \<open>RawReaderSpec\<close> (RawReader.cpp: buffered reading, steps, blocks, decoding).

  \<^item> Events: \<open>EventBuffer\<close>, \<open>EventStage\<close> (a locale for the stages), \<open>ThreadPool\<close> (ThreadPool.cpp,
    OrderedEventHandler.h), \<open>SystemConfig\<close>, \<open>ProcessHit\<close>, \<open>Grouping\<close>, \<open>HitGrouper\<close> (the stages),
    \<open>RawToRaw\<close> and \<open>RawToSingles\<close> (the two conversion programs, which compose reader, stages and writer).

  \<^bold>\<open>What the lemmas show.\<close> For the links: parsing inverts serializing, accepts nothing else, and detects
  every changed byte; payloads arrive unchanged if a packet can hold them; in every interleaving
  of client thread and worker thread, however the network cuts the stream of the hub, each command is acknowledged once, executed
  once or waiting, urgent ones in front; sockets and event queues are neither leaked
  nor closed twice while a link runs alone, and how two links can harm each other; when a reset of both returns. For the dispatcher:
  an invariant of every interleaving of commands and threads (what a thread assumes of the others is what it guarantees itself), the states after start, stop and reset, and
  the course of macros. For the acquisition: the queues of driver, card and frame server are bounded
  first-in first-out queues in every interleaving and lose nothing they accept; which requests and
  datagrams the daemon handles within its buffers. For raw data: what is written is read back, step by
  step. For events: blocks are handled in order by the threads and the pool ends; sorting, grouping and
  coincidence search against their specifications; and the conversion programs write exactly the table
  of events of the file.

  Several theorems state where the code does not do what it means to: they carry the exact condition of
  the failure, such as a second close of a descriptor, a lost wake-up, a size that is never compared
  with a buffer.

  \<^bold>\<open>Bounds.\<close> Words have the widths of the code; the queue has \<open>16 * 1024\<close> slots of 8196 words, the
  socket and packet buffers their declared sizes. No bound is chosen by the model: lists of answers are
  of any length.

  \<^bold>\<open>Not modelled.\<close> The fits of the calibration programs (process\_threshold, tdc and qdc calibration: numerical
  work with ROOT); the access to the registers of the card (its behaviour is that of hardware); glue that
  only forwards calls (the rest of the Python integration, analyzer), the logger, the main programs and their command
  lines; the analysis and ground programs; scripts; vendored libraries (fmt, inih, quill, pybind11, CLI11).
  The order of sleeps in the main loop of the controller, allocation failures and the output of reports
  are left out of modelled parts. The events of the command and event servers are handled as a whole, so a heartbeat in the
  middle of one is not covered; the destructor of the thread pool repeats a loop over its queue that finds nothing more to do, and
  the model has it once.
\<close>

end
